(* ===== verification/Tpa_Prelude.thy ===== *)
theory Tpa_Prelude
  imports Main "HOL-Library.Word" "HOL-Library.Multiset"
begin

text \<open>
  Shared vocabulary of the development: the machine integer types of the C sources, the
  collections of simplification rules that the component theories extend, and the generic
  facts on words, masks and lists that more than one component uses.

  C's \<open>uint8_t\<close> to \<open>uint64_t\<close> are words of that width, so that every wrap-around of the
  sources is the wrap-around of \<open>+\<close>, \<open>-\<close> and \<open>*\<close> here. A C \<open>int\<close> that is computed from
  unsigned operands is \<open>sint\<close> of the word.
\<close>

unbundle bit_operations_syntax

type_synonym u8 = "8 word"
type_synonym u16 = "16 word"
type_synonym u32 = "32 word"
type_synonym u64 = "64 word"

named_theorems ring_simps \<open>index arithmetic of the power-of-two rings\<close>
named_theorems tpa_defs \<open>small accessor definitions unfolded by the component proofs\<close>

section \<open>Words\<close>

lemma unat_of_nat_small [ring_simps]:
  "n < 2 ^ LENGTH('w) \<Longrightarrow> unat (of_nat n :: 'w::len word) = n"
  by (simp add: unat_of_nat)

lemma word_eq_of_nat: "unat w = n \<Longrightarrow> w = of_nat n"
  by auto

lemma ucast_of_nat_small:
  "n < 2 ^ LENGTH('a::len) \<Longrightarrow> (ucast (of_nat n :: 'a word) :: 'b::len word) = of_nat n"
  by (simp add: unsigned_of_nat take_bit_nat_eq_self)

lemma unat_ucast_small:
  "unat (w :: 'a::len word) < 2 ^ LENGTH('b::len) \<Longrightarrow> unat (ucast w :: 'b word) = unat w"
  by (simp add: unsigned_ucast_eq take_bit_nat_eq_self)

lemma of_nat_less_word:
  "a < b \<Longrightarrow> b < 2 ^ LENGTH('w::len) \<Longrightarrow> (of_nat a :: 'w word) < of_nat b"
  by (simp add: word_less_nat_alt unat_of_nat_small)

lemma unat_and_mask [ring_simps]:
  "unat (x AND mask k :: 'w::len word) = unat x mod 2 ^ k"
proof -
  have "unat (x AND mask k) = unat (take_bit k x)" by (simp only: take_bit_eq_mask)
  also have "\<dots> = take_bit k (unat x)" by (rule unsigned_take_bit_eq)
  also have "\<dots> = unat x mod 2 ^ k" by (rule take_bit_eq_mod)
  finally show ?thesis .
qed

lemma unat_add_mod_pow2:
  fixes a b :: "'w::len word"
  assumes "k \<le> LENGTH('w)"
  shows "unat (a + b) mod 2 ^ k = (unat a + unat b) mod 2 ^ k"
proof -
  have "(2::nat) ^ k dvd 2 ^ LENGTH('w)" using assms by (rule le_imp_power_dvd)
  then show ?thesis by (simp add: unat_word_ariths mod_mod_cancel)
qed

lemma unat_of_nat_mod_pow2:
  assumes "k \<le> LENGTH('w)"
  shows "unat (of_nat n :: 'w::len word) mod 2 ^ k = n mod 2 ^ k"
proof -
  have "(2::nat) ^ k dvd 2 ^ LENGTH('w)" using assms by (rule le_imp_power_dvd)
  then show ?thesis by (simp add: unat_of_nat mod_mod_cancel)
qed

lemma unat_diff_le:
  fixes a b :: "'w::len word"
  shows "unat b \<le> unat a \<Longrightarrow> unat (a - b) = unat a - unat b"
  by (simp add: unat_sub word_le_nat_alt)

lemma unat_add_small:
  fixes a b :: "'w::len word"
  shows "unat a + unat b < 2 ^ LENGTH('w) \<Longrightarrow> unat (a + b) = unat a + unat b"
  by (simp add: unat_word_ariths)

lemma word_add_diff_of_nat:
  fixes w u :: "'w::len word"
  assumes "unat (w - u) + n < 2 ^ LENGTH('w)"
  shows "unat (w + of_nat n - u) = unat (w - u) + n"
proof -
  have n: "n < 2 ^ LENGTH('w)" using assms by simp
  have "w + of_nat n - u = (w - u) + of_nat n" by (simp add: algebra_simps)
  moreover have "unat ((w - u) + of_nat n) = unat (w - u) + unat (of_nat n :: 'w word)"
    using assms n by (intro unat_add_small) (simp add: unat_of_nat_small)
  ultimately show ?thesis using n by (simp only: unat_of_nat_small)
qed

lemma word_diff_add_of_nat:
  fixes w u :: "'w::len word"
  assumes "n \<le> unat (w - u)"
  shows "unat (w - (u + of_nat n)) = unat (w - u) - n"
proof -
  have "n < 2 ^ LENGTH('w)" using assms unsigned_less [of "w - u", where ?'a = nat] by (rule le_less_trans)
  then have n: "unat (of_nat n :: 'w word) = n" by (rule unat_of_nat_small)
  have "w - (u + of_nat n) = (w - u) - of_nat n" by (simp add: algebra_simps)
  moreover have "unat ((w - u) - of_nat n) = unat (w - u) - unat (of_nat n :: 'w word)"
    using assms n by (intro unat_diff_le) simp
  ultimately show ?thesis using n by (simp only:)
qed

lemma pow2_mask_word:
  assumes "k < LENGTH('w)"
  shows "(of_nat (2 ^ k) :: 'w::len word) - 1 = mask k"
  using assms by (simp add: mask_eq_exp_minus_1)

section \<open>Lists\<close>

lemma map_upt_add_offset:
  "map f [0..<a + b] = map f [0..<a] @ map (\<lambda>i. f (a + i)) [0..<b]"
proof -
  have "map f [a..<a + b] = map (\<lambda>i. f (a + i)) [0..<b]"
    by (rule nth_equalityI) auto
  moreover have "[0..<a + b] = [0..<a] @ [a..<a + b]" by (rule upt_add_eq_append) simp
  ultimately show ?thesis by simp
qed

lemma sum_list_map_le_mem:
  fixes f :: "'a \<Rightarrow> nat"
  shows "x \<in> set xs \<Longrightarrow> f x \<le> sum_list (map f xs)"
  by (induction xs) auto

lemma drop_update_at: "i < length xs \<Longrightarrow> drop i (xs[i := x]) = x # drop (Suc i) xs"
  using Cons_nth_drop_Suc [of i "xs[i := x]"] by simp

lemma take_min_length: "take (min (length xs) k) xs = take k xs"
  by (simp add: min_def)

lemma drop_min_length: "drop (min (length xs) k) xs = drop k xs"
  by (simp add: min_def)

lemma last_eq_butlast_append:
  "xs \<noteq> [] \<Longrightarrow> last xs = x \<Longrightarrow> xs = butlast xs @ [x]"
  using append_butlast_last_id [of xs] by simp

end
