(* ===== verification/Word_Ring.thy ===== *)
theory Word_Ring
  imports Tpa_Prelude
begin

text \<open>
  Power-of-two rings indexed by free-running machine words, the layout that
  \<open>include/tcp_queue.h\<close> (16-bit indices), \<open>include/flex_fifo.h\<close> and the device queues of
  \<open>include/dev.h\<close> (32-bit indices) share: a slot is \<open>index & mask\<close> with
  \<open>mask = size - 1\<close>, the indices are never reduced and wrap with their type. The theory gives
  the view of a ring as a list (\<open>ring_slice\<close>), and what a run of slot writes does to that view.
\<close>

section \<open>Slots and slices\<close>

definition slot :: "'w::len word \<Rightarrow> 'w word \<Rightarrow> nat" where
  "slot m i = unat (i AND m)"

text \<open>The array has \<open>2 ^ k\<close> cells, the size is representable in the index type.\<close>

definition ring_ok :: "'w::len word \<Rightarrow> 'a list \<Rightarrow> bool" where
  "ring_ok m buf \<longleftrightarrow>
     (\<exists>k<LENGTH('w). length buf = 2 ^ k \<and> m = of_nat (length buf) - 1)"

definition ring_slice :: "'w::len word \<Rightarrow> 'a list \<Rightarrow> 'w word \<Rightarrow> nat \<Rightarrow> 'a list" where
  "ring_slice m buf s n = map (\<lambda>i. buf ! slot m (s + of_nat i)) [0..<n]"

text \<open>The copy loop \<open>for (i = 0; i < n; i++) buf[(s + i) & mask] = xs[i]\<close>.\<close>

primrec ring_write :: "'w::len word \<Rightarrow> 'a list \<Rightarrow> 'w word \<Rightarrow> 'a list \<Rightarrow> 'a list" where
  "ring_write m buf s [] = buf"
| "ring_write m buf s (x # xs) = ring_write m (buf[slot m s := x]) (s + 1) xs"

lemma ring_okE:
  assumes "ring_ok (m :: 'w::len word) buf"
  obtains k where "k < LENGTH('w)" "length buf = 2 ^ k" "m = mask k"
proof -
  from assms obtain k where k: "k < LENGTH('w)" "length buf = 2 ^ k" "m = of_nat (length buf) - 1"
    unfolding ring_ok_def by blast
  then have "m = mask k" by (metis pow2_mask_word)
  with k that show thesis by blast
qed

lemma ring_ok_length_lt:
  "ring_ok (m :: 'w::len word) buf \<Longrightarrow> length buf < 2 ^ LENGTH('w)"
  by (auto elim!: ring_okE)

lemma slot_mod:
  assumes "ring_ok (m :: 'w::len word) buf"
  shows "slot m i = unat i mod length buf"
  using assms by (auto elim!: ring_okE simp: slot_def unat_and_mask)

lemma slot_less [simp]:
  assumes "ring_ok m buf"
  shows "slot m i < length buf"
proof -
  have "0 < length buf" using assms by (auto elim!: ring_okE)
  then show ?thesis using assms by (simp add: slot_mod)
qed

lemma slot_add:
  assumes "ring_ok (m :: 'w::len word) buf"
  shows "slot m (s + of_nat i) = (slot m s + i) mod length buf"
proof -
  obtain k where k: "k < LENGTH('w)" "length buf = 2 ^ k" using assms by (auto elim!: ring_okE)
  have "unat (s + of_nat i) mod 2 ^ k = (unat s + unat (of_nat i :: 'w word)) mod 2 ^ k"
    using k by (intro unat_add_mod_pow2) simp
  also have "\<dots> = (unat s mod 2 ^ k + unat (of_nat i :: 'w word) mod 2 ^ k) mod 2 ^ k"
    by (simp add: mod_simps)
  also have "unat (of_nat i :: 'w word) mod 2 ^ k = i mod 2 ^ k"
    using k by (intro unat_of_nat_mod_pow2) simp
  finally show ?thesis using k assms by (simp add: slot_mod mod_simps)
qed

lemma mod_window_inj:
  fixes n :: nat
  assumes "(c + a) mod n = (c + b) mod n" "a < n" "b < n"
  shows "a = b"
proof (cases a b rule: linorder_cases)
  case less
  then have "c + a \<le> c + b" by simp
  then obtain q where "c + b = c + a + n * q" using assms(1) mod_eq_nat1E by metis
  then show ?thesis using less assms(3) by (cases q) auto
next
  case greater
  then have "c + b \<le> c + a" by simp
  then obtain q where "c + a = c + b + n * q" using assms(1) mod_eq_nat1E by metis
  then show ?thesis using greater assms(2) by (cases q) auto
qed

lemma slot_inj:
  assumes "ring_ok m buf" "i < length buf" "j < length buf"
    and "slot m (s + of_nat i) = slot m (s + of_nat j)"
  shows "i = j"
proof -
  have "(slot m s + i) mod length buf = (slot m s + j) mod length buf"
    using assms(4) by (simp only: slot_add [OF assms(1)])
  then show ?thesis using assms(2,3) by (rule mod_window_inj)
qed

lemma length_ring_slice [simp]: "length (ring_slice m buf s n) = n"
  by (simp add: ring_slice_def)

lemma ring_slice_0 [simp]: "ring_slice m buf s 0 = []"
  by (simp add: ring_slice_def)

lemma ring_slice_nth [simp]:
  "i < n \<Longrightarrow> ring_slice m buf s n ! i = buf ! slot m (s + of_nat i)"
  by (simp add: ring_slice_def)

lemma ring_slice_add:
  "ring_slice m buf s (a + b) = ring_slice m buf s a @ ring_slice m buf (s + of_nat a) b"
  by (simp add: ring_slice_def map_upt_add_offset algebra_simps)

lemma ring_slice_Suc:
  "ring_slice m buf s (Suc n) = buf ! slot m s # ring_slice m buf (s + 1) n"
  using ring_slice_add [of m buf s 1 n] by (simp add: ring_slice_def)

lemma ring_slice_drop:
  "a \<le> n \<Longrightarrow> ring_slice m buf (s + of_nat a) (n - a) = drop a (ring_slice m buf s n)"
  using ring_slice_add [of m buf s a "n - a"] by simp

lemma ring_slice_take:
  "a \<le> n \<Longrightarrow> ring_slice m buf s a = take a (ring_slice m buf s n)"
  using ring_slice_add [of m buf s a "n - a"] by simp

section \<open>Writing a run of slots\<close>

lemma length_ring_write [simp]: "length (ring_write m buf s xs) = length buf"
  by (induction xs arbitrary: buf s) auto

lemma ring_ok_write [simp]: "ring_ok m (ring_write m buf s xs) = ring_ok m buf"
  by (simp add: ring_ok_def)

lemma ring_ok_update [simp]: "ring_ok m (buf[i := x]) = ring_ok m buf"
  by (simp add: ring_ok_def)

lemma ring_write_nth_other:
  "(\<And>i. i < length xs \<Longrightarrow> slot m (s + of_nat i) \<noteq> j) \<Longrightarrow> ring_write m buf s xs ! j = buf ! j"
proof (induction xs arbitrary: buf s)
  case Nil
  then show ?case by simp
next
  case (Cons x xs)
  have "slot m s \<noteq> j" using Cons.prems [of 0] by simp
  moreover have "slot m (s + 1 + of_nat i) \<noteq> j" if "i < length xs" for i
    using Cons.prems [of "Suc i"] that by (simp add: algebra_simps)
  ultimately show ?case using Cons.IH by simp
qed

lemma ring_write_nth:
  assumes "ring_ok m buf" "length xs \<le> length buf" "i < length xs"
  shows "ring_write m buf s xs ! slot m (s + of_nat i) = xs ! i"
  using assms
proof (induction xs arbitrary: buf s i)
  case Nil
  then show ?case by simp
next
  case (Cons x xs)
  show ?case
  proof (cases i)
    case 0
    have "slot m (s + 1 + of_nat j) \<noteq> slot m s" if "j < length xs" for j
    proof
      assume "slot m (s + 1 + of_nat j) = slot m s"
      then have "slot m (s + of_nat (Suc j)) = slot m (s + of_nat 0)" by (simp add: algebra_simps)
      moreover have "Suc j < length buf" "0 < length buf" using that Cons.prems(2) by auto
      ultimately have "Suc j = 0" using slot_inj [OF Cons.prems(1)] by blast
      then show False by simp
    qed
    then have "ring_write m (buf[slot m s := x]) (s + 1) xs ! slot m s = buf[slot m s := x] ! slot m s"
      by (rule ring_write_nth_other) simp
    then show ?thesis using 0 Cons.prems(1) by simp
  next
    case (Suc i')
    have "ring_write m (buf[slot m s := x]) (s + 1) xs ! slot m (s + 1 + of_nat i') = xs ! i'"
      using Cons.prems Suc by (intro Cons.IH) auto
    then show ?thesis using Suc by (simp add: algebra_simps)
  qed
qed

text \<open>A run of writes behind a slice that it does not overlap extends the slice by exactly the
  values written.\<close>

lemma ring_write_extends:
  assumes "ring_ok m buf" "n + length xs \<le> length buf"
  shows "ring_slice m (ring_write m buf (s + of_nat n) xs) s (n + length xs)
         = ring_slice m buf s n @ xs"
proof (rule nth_equalityI)
  fix i assume i: "i < length (ring_slice m (ring_write m buf (s + of_nat n) xs) s (n + length xs))"
  show "ring_slice m (ring_write m buf (s + of_nat n) xs) s (n + length xs) ! i
        = (ring_slice m buf s n @ xs) ! i"
  proof (cases "i < n")
    case True
    have "slot m (s + of_nat n + of_nat j) \<noteq> slot m (s + of_nat i)" if "j < length xs" for j
    proof
      assume "slot m (s + of_nat n + of_nat j) = slot m (s + of_nat i)"
      then have "slot m (s + of_nat (n + j)) = slot m (s + of_nat i)" by (simp add: algebra_simps)
      then show False using slot_inj [OF assms(1), of "n + j" i s] that assms(2) True by simp
    qed
    then have "ring_write m buf (s + of_nat n) xs ! slot m (s + of_nat i) = buf ! slot m (s + of_nat i)"
      by (rule ring_write_nth_other)
    then show ?thesis using True i by (simp add: nth_append)
  next
    case False
    then obtain j where j: "i = n + j" "j < length xs" using i by (auto simp: le_iff_add not_less)
    have "ring_write m buf (s + of_nat n) xs ! slot m (s + of_nat n + of_nat j) = xs ! j"
      using assms j by (intro ring_write_nth) auto
    then show ?thesis using j by (simp add: nth_append algebra_simps)
  qed
qed simp

lemma ring_push_extends:
  assumes "ring_ok m buf" "n < length buf"
  shows "ring_slice m (buf[slot m (s + of_nat n) := x]) s (Suc n) = ring_slice m buf s n @ [x]"
  using ring_write_extends [OF assms(1), of n "[x]" s] assms(2) by simp

end
