(* ===== verification/Tcp_Queue.thy ===== *)
theory Tcp_Queue
  imports Word_Ring
begin

text \<open>
  \<open>include/tcp_queue.h\<close>: the send queue \<open>struct tcp_txq\<close> (three free-running 16-bit indices
  \<open>una\<close>, \<open>nxt\<close>, \<open>write\<close>) and the receive queue \<open>struct tcp_rxq\<close> (\<open>unread\<close>, \<open>max\<close>). Each queue is
  shown to implement a list: \<open>txq_items\<close> splits into the descriptors in flight and those still
  to send, \<open>rxq_items\<close> is what the application has not read. The locale \<open>burst_queue\<close> is the
  contract that the receive path relies on; the receive queue is an interpretation of it.
  The debug assertions of the header are compiled out of a release build and change nothing;
  \<open>assert\<close> aborts, which the initialisers show as \<open>None\<close>.
\<close>

section \<open>The send queue\<close>

record 'a tcp_txq =
  txq_una :: u16
  txq_nxt :: u16
  txq_write :: u16
  txq_size :: u16
  txq_mask :: u16
  txq_descs :: "'a list"

definition tcp_txq_init :: "'a tcp_txq \<Rightarrow> u16 \<Rightarrow> 'a tcp_txq option" where
  "tcp_txq_init q sz =
     (if sz AND (sz - 1) = 0
      then Some (q\<lparr>txq_una := 0, txq_nxt := 0, txq_write := 0, txq_size := sz,
                   txq_mask := sz - 1\<rparr>)
      else None)"

definition tcp_txq_inflight_pkts :: "'a tcp_txq \<Rightarrow> u16" where
  "tcp_txq_inflight_pkts q = txq_nxt q - txq_una q"

definition tcp_txq_to_send_pkts :: "'a tcp_txq \<Rightarrow> u16" where
  "tcp_txq_to_send_pkts q = txq_write q - txq_nxt q"

text \<open>The sum of two \<open>uint16_t\<close> is a C \<open>int\<close>; it does not wrap.\<close>

definition tcp_txq_unfinished_pkts :: "'a tcp_txq \<Rightarrow> int" where
  "tcp_txq_unfinished_pkts q = uint (tcp_txq_inflight_pkts q) + uint (tcp_txq_to_send_pkts q)"

definition tcp_txq_free_count :: "'a tcp_txq \<Rightarrow> u16" where
  "tcp_txq_free_count q = of_int (uint (txq_size q) - tcp_txq_unfinished_pkts q)"

text \<open>The \<open>nr_desc\<close> descriptors are the list \<open>ds\<close>; the result is C's return code.\<close>

definition tcp_txq_enqueue_bulk :: "'a tcp_txq \<Rightarrow> 'a list \<Rightarrow> int \<times> 'a tcp_txq" where
  "tcp_txq_enqueue_bulk q ds =
     (let nr_desc = of_nat (length ds) in
      if txq_write q + nr_desc - txq_una q > txq_size q then (-1, q)
      else (0, q\<lparr>txq_descs := ring_write (txq_mask q) (txq_descs q) (txq_write q) ds,
                 txq_write := txq_write q + nr_desc\<rparr>))"

definition tcp_txq_peek_una_before_nxt :: "'a tcp_txq \<Rightarrow> u16 \<Rightarrow> 'a option" where
  "tcp_txq_peek_una_before_nxt q off =
     (if off \<ge> txq_nxt q - txq_una q then None
      else Some (txq_descs q ! slot (txq_mask q) (txq_una q + off)))"

definition tcp_txq_peek_for_write :: "'a tcp_txq \<Rightarrow> u16 \<Rightarrow> u16 \<Rightarrow> 'a option" where
  "tcp_txq_peek_for_write q base off =
     (if off \<ge> txq_write q - base then None
      else Some (txq_descs q ! slot (txq_mask q) (base + off)))"

definition tcp_txq_peek_una :: "'a tcp_txq \<Rightarrow> u16 \<Rightarrow> 'a option" where
  "tcp_txq_peek_una q off =
     (if off \<ge> txq_write q - txq_una q then None
      else Some (txq_descs q ! slot (txq_mask q) (txq_una q + off)))"

definition tcp_txq_peek_nxt :: "'a tcp_txq \<Rightarrow> u16 \<Rightarrow> 'a option" where
  "tcp_txq_peek_nxt q off =
     (if off \<ge> txq_write q - txq_nxt q then None
      else Some (txq_descs q ! slot (txq_mask q) (txq_nxt q + off)))"

definition tcp_txq_update_una :: "'a tcp_txq \<Rightarrow> u16 \<Rightarrow> 'a tcp_txq" where
  "tcp_txq_update_una q cnt = q\<lparr>txq_una := txq_una q + cnt\<rparr>"

definition tcp_txq_update_nxt :: "'a tcp_txq \<Rightarrow> u16 \<Rightarrow> 'a tcp_txq" where
  "tcp_txq_update_nxt q cnt = q\<lparr>txq_nxt := txq_nxt q + cnt\<rparr>"

subsection \<open>The list a send queue stands for\<close>

definition txq_used :: "'a tcp_txq \<Rightarrow> nat" where
  "txq_used q = unat (txq_write q - txq_una q)"

definition txq_inflight :: "'a tcp_txq \<Rightarrow> nat" where
  "txq_inflight q = unat (txq_nxt q - txq_una q)"

definition txq_items :: "'a tcp_txq \<Rightarrow> 'a list" where
  "txq_items q = ring_slice (txq_mask q) (txq_descs q) (txq_una q) (txq_used q)"

definition txq_wf :: "'a tcp_txq \<Rightarrow> bool" where
  "txq_wf q \<longleftrightarrow>
     ring_ok (txq_mask q) (txq_descs q) \<and> unat (txq_size q) = length (txq_descs q) \<and>
     txq_used q \<le> length (txq_descs q) \<and> txq_inflight q \<le> txq_used q"

lemma txq_wfD:
  assumes "txq_wf q"
  shows "ring_ok (txq_mask q) (txq_descs q)" "unat (txq_size q) = length (txq_descs q)"
    "txq_used q \<le> length (txq_descs q)" "txq_inflight q \<le> txq_used q"
    "length (txq_descs q) < 65536"
  using assms ring_ok_length_lt [of "txq_mask q" "txq_descs q"] by (auto simp: txq_wf_def)

lemma length_txq_items [simp]: "length (txq_items q) = txq_used q"
  by (simp add: txq_items_def)

lemma tcp_txq_init_wf:
  assumes "tcp_txq_init q sz = Some q'" "sz \<noteq> 0" "length (txq_descs q) = unat sz"
    and "unat sz = 2 ^ k"
  shows "txq_wf q' \<and> txq_items q' = []"
proof -
  have k: "k < 16"
  proof (rule ccontr)
    assume "\<not> k < 16"
    then have "(2::nat) ^ 16 \<le> 2 ^ k" by (intro power_increasing) auto
    then show False using assms(4) unsigned_less [of sz, where ?'a = nat] by simp
  qed
  have m: "sz - 1 = of_nat (length (txq_descs q)) - 1" using assms(3) by simp
  have "ring_ok (sz - 1) (txq_descs q)"
    unfolding ring_ok_def using k m assms(3,4) by (intro exI [of _ k]) simp
  then show ?thesis using assms(1,3)
    by (auto simp: tcp_txq_init_def txq_wf_def txq_used_def txq_inflight_def txq_items_def
        split: if_splits)
qed

lemma txq_split:
  assumes "txq_wf q"
  shows "txq_items q =
           ring_slice (txq_mask q) (txq_descs q) (txq_una q) (txq_inflight q) @
           ring_slice (txq_mask q) (txq_descs q) (txq_nxt q) (unat (tcp_txq_to_send_pkts q))"
proof -
  have n: "txq_una q + of_nat (txq_inflight q) = txq_nxt q" by (simp add: txq_inflight_def)
  have "unat (txq_write q - (txq_una q + of_nat (txq_inflight q))) = txq_used q - txq_inflight q"
    using txq_wfD(4) [OF assms] by (simp add: txq_used_def word_diff_add_of_nat)
  then have "txq_used q = txq_inflight q + unat (tcp_txq_to_send_pkts q)"
    using txq_wfD(4) [OF assms] by (simp add: n tcp_txq_to_send_pkts_def)
  then show ?thesis by (simp add: txq_items_def ring_slice_add n)
qed

lemma tcp_txq_unfinished_used:
  assumes "txq_wf q"
  shows "tcp_txq_unfinished_pkts q = int (txq_used q)"
proof -
  have "txq_used q = txq_inflight q + unat (tcp_txq_to_send_pkts q)"
    using arg_cong [OF txq_split [OF assms], of length] by simp
  then show ?thesis
    by (simp add: tcp_txq_unfinished_pkts_def tcp_txq_inflight_pkts_def txq_inflight_def)
qed

lemma tcp_txq_free_count_eq:
  assumes "txq_wf q"
  shows "unat (tcp_txq_free_count q) = length (txq_descs q) - txq_used q"
proof -
  have "uint (txq_size q) - tcp_txq_unfinished_pkts q = int (length (txq_descs q) - txq_used q)"
  proof -
    have "uint (txq_size q) = int (length (txq_descs q))"
      using txq_wfD(2) [OF assms] by (metis uint_nat)
    then show ?thesis using txq_wfD(3) [OF assms] by (simp add: tcp_txq_unfinished_used [OF assms])
  qed
  then have "tcp_txq_free_count q = of_nat (length (txq_descs q) - txq_used q)"
    by (simp add: tcp_txq_free_count_def)
  moreover have "length (txq_descs q) - txq_used q < 65536" using txq_wfD [OF assms] by simp
  ultimately show ?thesis by (simp add: unat_of_nat_small)
qed

subsection \<open>What the operations do to the list\<close>

lemma txq_enqueue_used:
  assumes "txq_used q + length ds < 65536"
  shows "unat (txq_write q + of_nat (length ds) - txq_una q) = txq_used q + length ds"
  using assms by (simp add: txq_used_def word_add_diff_of_nat)

lemma tcp_txq_enqueue_bulk_full:
  assumes "txq_wf q" "txq_used q + length ds < 65536" "length (txq_descs q) < txq_used q + length ds"
  shows "tcp_txq_enqueue_bulk q ds = (-1, q)"
proof -
  have "txq_size q < txq_write q + of_nat (length ds) - txq_una q"
    using assms txq_enqueue_used [OF assms(2)] txq_wfD(2) [OF assms(1)] by (simp add: word_less_nat_alt)
  then show ?thesis by (simp add: tcp_txq_enqueue_bulk_def Let_def)
qed

lemma tcp_txq_enqueue_bulk_fits:
  assumes "txq_wf q" "txq_used q + length ds \<le> length (txq_descs q)"
  shows "\<exists>q'. tcp_txq_enqueue_bulk q ds = (0, q') \<and> txq_wf q' \<and>
              txq_items q' = txq_items q @ ds \<and> txq_inflight q' = txq_inflight q"
proof -
  note wf = txq_wfD [OF assms(1)]
  let ?q' = "q\<lparr>txq_descs := ring_write (txq_mask q) (txq_descs q) (txq_write q) ds,
               txq_write := txq_write q + of_nat (length ds)\<rparr>"
  have u: "txq_used q + length ds < 65536" using assms wf by simp
  have w: "txq_una q + of_nat (txq_used q) = txq_write q" by (simp add: txq_used_def)
  have used': "txq_used ?q' = txq_used q + length ds"
    using txq_enqueue_used [OF u] by (simp add: txq_used_def)
  have "\<not> txq_size q < txq_write q + of_nat (length ds) - txq_una q"
    using assms(2) txq_enqueue_used [OF u] wf(2) by (simp add: word_less_nat_alt)
  then have "tcp_txq_enqueue_bulk q ds = (0, ?q')"
    by (simp add: tcp_txq_enqueue_bulk_def Let_def)
  moreover have "txq_wf ?q'" using wf assms(2) used' by (simp add: txq_wf_def txq_inflight_def)
  moreover have "txq_items ?q' = txq_items q @ ds"
    using ring_write_extends [OF wf(1) assms(2), of "txq_una q"] used' w by (simp add: txq_items_def)
  ultimately show ?thesis by (simp add: txq_inflight_def)
qed

lemma tcp_txq_peek_una_nth:
  assumes "txq_wf q"
  shows "tcp_txq_peek_una q off =
           (if unat off < txq_used q then Some (txq_items q ! unat off) else None)"
  by (simp add: tcp_txq_peek_una_def txq_used_def txq_items_def word_le_nat_alt not_le)

lemma tcp_txq_peek_for_write_nth:
  assumes "txq_wf q" "unat (base - txq_una q) \<le> txq_used q"
  shows "tcp_txq_peek_for_write q base off =
           (if unat (base - txq_una q) + unat off < txq_used q
            then Some (txq_items q ! (unat (base - txq_una q) + unat off)) else None)"
proof -
  let ?b = "unat (base - txq_una q)"
  have b: "txq_una q + of_nat ?b = base" by simp
  have "unat (txq_write q - base) = txq_used q - ?b"
    using word_diff_add_of_nat [of ?b "txq_write q" "txq_una q"] assms(2) b by (simp add: txq_used_def)
  then have "(txq_write q - base \<le> off) = (\<not> ?b + unat off < txq_used q)"
    using assms(2) by (auto simp: word_le_nat_alt)
  moreover have "base + off = txq_una q + of_nat (?b + unat off)" by simp
  ultimately show ?thesis
    by (simp add: tcp_txq_peek_for_write_def txq_items_def del: of_nat_add)
qed

lemma tcp_txq_update_una_drop:
  assumes "txq_wf q" "unat n \<le> txq_inflight q"
  shows "txq_wf (tcp_txq_update_una q n) \<and> txq_items (tcp_txq_update_una q n) = drop (unat n) (txq_items q)
         \<and> txq_inflight (tcp_txq_update_una q n) = txq_inflight q - unat n"
proof -
  note wf = txq_wfD [OF assms(1)]
  have "txq_used (tcp_txq_update_una q n) = txq_used q - unat n"
    using word_diff_add_of_nat [of "unat n" "txq_write q" "txq_una q"] wf(4) assms(2)
    by (simp add: txq_used_def tcp_txq_update_una_def)
  moreover have "txq_inflight (tcp_txq_update_una q n) = txq_inflight q - unat n"
    using word_diff_add_of_nat [of "unat n" "txq_nxt q" "txq_una q"] assms(2)
    by (simp add: txq_inflight_def tcp_txq_update_una_def)
  moreover have "ring_slice (txq_mask q) (txq_descs q) (txq_una q + n) (txq_used q - unat n)
                 = drop (unat n) (txq_items q)"
    using ring_slice_drop [of "unat n" "txq_used q" "txq_mask q" "txq_descs q" "txq_una q"] wf(4) assms(2)
    by (simp add: txq_items_def)
  ultimately show ?thesis using wf assms(2)
    by (auto simp: txq_wf_def txq_items_def) (auto simp: tcp_txq_update_una_def)
qed

lemma tcp_txq_update_nxt_inflight:
  assumes "txq_wf q" "unat n \<le> txq_used q - txq_inflight q"
  shows "txq_wf (tcp_txq_update_nxt q n) \<and> txq_items (tcp_txq_update_nxt q n) = txq_items q
         \<and> txq_inflight (tcp_txq_update_nxt q n) = txq_inflight q + unat n"
proof -
  note wf = txq_wfD [OF assms(1)]
  have "unat (txq_nxt q + of_nat (unat n) - txq_una q) = txq_inflight q + unat n"
    using wf assms(2) unfolding txq_inflight_def by (intro word_add_diff_of_nat) (simp add: txq_inflight_def)
  then have "txq_inflight (tcp_txq_update_nxt q n) = txq_inflight q + unat n"
    by (simp add: txq_inflight_def tcp_txq_update_nxt_def)
  moreover have "txq_used (tcp_txq_update_nxt q n) = txq_used q" "txq_mask (tcp_txq_update_nxt q n) = txq_mask q"
    "txq_descs (tcp_txq_update_nxt q n) = txq_descs q" "txq_una (tcp_txq_update_nxt q n) = txq_una q"
    "txq_size (tcp_txq_update_nxt q n) = txq_size q"
    by (simp_all add: txq_used_def tcp_txq_update_nxt_def)
  ultimately show ?thesis using wf assms(2) by (simp add: txq_wf_def txq_items_def)
qed

section \<open>The contract of a bounded burst queue\<close>

text \<open>
  A client that only enqueues and dequeues bursts (the receive path and the reader) sees a
  first-in first-out channel: \<open>queue_run\<close> executes any sequence of bursts and collects what was
  accepted and what was delivered.
\<close>

datatype 'a qop = Enq "'a list" | Deq nat

fun queue_run ::
  "('q \<Rightarrow> 'a list \<Rightarrow> nat \<times> 'q) \<Rightarrow> ('q \<Rightarrow> nat \<Rightarrow> 'a list \<times> 'q) \<Rightarrow> 'q \<Rightarrow> 'a qop list
     \<Rightarrow> 'a list \<times> 'a list \<times> 'q" where
  "queue_run enq deq q [] = ([], [], q)"
| "queue_run enq deq q (Enq xs # ops) =
     (let (n, q1) = enq q xs; (acc, out, q2) = queue_run enq deq q1 ops in (take n xs @ acc, out, q2))"
| "queue_run enq deq q (Deq k # ops) =
     (let (ys, q1) = deq q k; (acc, out, q2) = queue_run enq deq q1 ops in (acc, ys @ out, q2))"

fun burst_le :: "nat \<Rightarrow> 'a qop \<Rightarrow> bool" where
  "burst_le m (Enq xs) = (length xs \<le> m)"
| "burst_le m (Deq k) = (k \<le> m)"

locale burst_queue =
  fixes inv :: "'q \<Rightarrow> bool" and items :: "'q \<Rightarrow> 'a list" and cap :: "'q \<Rightarrow> nat" and maxb :: nat
    and enq :: "'q \<Rightarrow> 'a list \<Rightarrow> nat \<times> 'q" and deq :: "'q \<Rightarrow> nat \<Rightarrow> 'a list \<times> 'q"
  assumes bounded: "inv q \<Longrightarrow> length (items q) \<le> cap q"
    and enq_accepts: "inv q \<Longrightarrow> length xs \<le> maxb \<Longrightarrow>
          fst (enq q xs) = min (cap q - length (items q)) (length xs)"
    and enq_items: "inv q \<Longrightarrow> length xs \<le> maxb \<Longrightarrow>
          items (snd (enq q xs)) = items q @ take (fst (enq q xs)) xs"
    and enq_inv: "inv q \<Longrightarrow> length xs \<le> maxb \<Longrightarrow> inv (snd (enq q xs))"
    and deq_out: "inv q \<Longrightarrow> k \<le> maxb \<Longrightarrow> fst (deq q k) = take k (items q)"
    and deq_items: "inv q \<Longrightarrow> k \<le> maxb \<Longrightarrow> items (snd (deq q k)) = drop k (items q)"
    and deq_inv: "inv q \<Longrightarrow> k \<le> maxb \<Longrightarrow> inv (snd (deq q k))"
begin

lemma run_inv:
  "inv q \<Longrightarrow> list_all (burst_le maxb) ops \<Longrightarrow> inv (snd (snd (queue_run enq deq q ops)))"
proof (induction ops arbitrary: q)
  case (Cons a ops)
  then show ?case
    by (cases a) (auto simp: split_beta enq_inv deq_inv)
qed simp

lemma run_fifo:
  "inv q \<Longrightarrow> list_all (burst_le maxb) ops \<Longrightarrow> queue_run enq deq q ops = (acc, out, q') \<Longrightarrow>
   out @ items q' = items q @ acc"
proof (induction ops arbitrary: q acc out q')
  case (Cons a ops)
  show ?case
  proof (cases a)
    case (Enq xs)
    obtain acc1 out1 q1 where r: "queue_run enq deq (snd (enq q xs)) ops = (acc1, out1, q1)"
      by (metis prod_cases3)
    have "out1 @ items q1 = items (snd (enq q xs)) @ acc1"
      using Cons.prems(1,2) Enq r by (intro Cons.IH) (auto intro: enq_inv)
    then show ?thesis using Cons.prems Enq r by (auto simp: split_beta enq_items)
  next
    case (Deq k)
    obtain acc1 out1 q1 where r: "queue_run enq deq (snd (deq q k)) ops = (acc1, out1, q1)"
      by (metis prod_cases3)
    have "out1 @ items q1 = items (snd (deq q k)) @ acc1"
      using Cons.prems(1,2) Deq r by (intro Cons.IH) (auto intro: deq_inv)
    then have "take k (items q) @ out1 @ items q1 = items q @ acc1"
      using Cons.prems Deq by (simp add: deq_items flip: append_assoc)
    then show ?thesis using Cons.prems Deq r by (auto simp: split_beta deq_out)
  qed
qed auto

end

section \<open>The receive queue\<close>

record 'a tcp_rxq =
  rxq_unread :: u16
  rxq_max :: u16
  rxq_size :: u16
  rxq_mask :: u16
  rxq_objs :: "'a list"

definition tcp_rxq_init :: "'a tcp_rxq \<Rightarrow> u16 \<Rightarrow> 'a tcp_rxq option" where
  "tcp_rxq_init q sz =
     (if sz AND (sz - 1) = 0
      then Some (q\<lparr>rxq_unread := 0, rxq_max := 0, rxq_size := sz, rxq_mask := sz - 1\<rparr>)
      else None)"

definition tcp_rxq_readable_count :: "'a tcp_rxq \<Rightarrow> u16" where
  "tcp_rxq_readable_count q = rxq_max q - rxq_unread q"

definition tcp_rxq_free_count :: "'a tcp_rxq \<Rightarrow> u16" where
  "tcp_rxq_free_count q = rxq_size q - tcp_rxq_readable_count q"

text \<open>\<open>RTE_MIN(free, nr_obj)\<close> objects are copied, then \<open>max\<close> is advanced.\<close>

definition tcp_rxq_enqueue_burst :: "'a tcp_rxq \<Rightarrow> 'a list \<Rightarrow> u16 \<times> 'a tcp_rxq" where
  "tcp_rxq_enqueue_burst q xs =
     (let nr_obj = min (tcp_rxq_free_count q) (of_nat (length xs)) in
      (nr_obj, q\<lparr>rxq_objs := ring_write (rxq_mask q) (rxq_objs q) (rxq_max q) (take (unat nr_obj) xs),
                 rxq_max := rxq_max q + nr_obj\<rparr>))"

definition tcp_rxq_dequeue_burst :: "'a tcp_rxq \<Rightarrow> u16 \<Rightarrow> 'a list \<times> 'a tcp_rxq" where
  "tcp_rxq_dequeue_burst q nr =
     (let nr_obj = min (tcp_rxq_readable_count q) nr in
      (ring_slice (rxq_mask q) (rxq_objs q) (rxq_unread q) (unat nr_obj),
       q\<lparr>rxq_unread := rxq_unread q + nr_obj\<rparr>))"

definition tcp_rxq_peek_unread :: "'a tcp_rxq \<Rightarrow> u16 \<Rightarrow> 'a option" where
  "tcp_rxq_peek_unread q off =
     (if off \<ge> rxq_max q - rxq_unread q then None
      else Some (rxq_objs q ! slot (rxq_mask q) (rxq_unread q + off)))"

definition tcp_rxq_update_unread :: "'a tcp_rxq \<Rightarrow> u16 \<Rightarrow> 'a tcp_rxq" where
  "tcp_rxq_update_unread q cnt = q\<lparr>rxq_unread := rxq_unread q + cnt\<rparr>"

definition rxq_readable :: "'a tcp_rxq \<Rightarrow> nat" where
  "rxq_readable q = unat (rxq_max q - rxq_unread q)"

definition rxq_items :: "'a tcp_rxq \<Rightarrow> 'a list" where
  "rxq_items q = ring_slice (rxq_mask q) (rxq_objs q) (rxq_unread q) (rxq_readable q)"

definition rxq_wf :: "'a tcp_rxq \<Rightarrow> bool" where
  "rxq_wf q \<longleftrightarrow> ring_ok (rxq_mask q) (rxq_objs q) \<and> unat (rxq_size q) = length (rxq_objs q) \<and>
     rxq_readable q \<le> length (rxq_objs q)"

lemma rxq_wfD:
  assumes "rxq_wf q"
  shows "ring_ok (rxq_mask q) (rxq_objs q)" "unat (rxq_size q) = length (rxq_objs q)"
    "rxq_readable q \<le> length (rxq_objs q)" "length (rxq_objs q) < 65536"
  using assms ring_ok_length_lt [of "rxq_mask q" "rxq_objs q"] by (auto simp: rxq_wf_def)

lemma length_rxq_items [simp]: "length (rxq_items q) = rxq_readable q"
  by (simp add: rxq_items_def)

lemma tcp_rxq_free_count_eq:
  "rxq_wf q \<Longrightarrow> unat (tcp_rxq_free_count q) = length (rxq_objs q) - rxq_readable q"
  using rxq_wfD [of q]
  by (simp add: tcp_rxq_free_count_def tcp_rxq_readable_count_def rxq_readable_def unat_diff_le)

lemma unat_min: "unat (min a b) = min (unat a) (unat (b :: 'w::len word))"
  by (simp add: min_def word_le_nat_alt)

lemma rxq_extend:
  assumes "rxq_wf q" "rxq_readable q + length ys \<le> length (rxq_objs q)"
  defines "q' \<equiv> q\<lparr>rxq_objs := ring_write (rxq_mask q) (rxq_objs q) (rxq_max q) ys,
                   rxq_max := rxq_max q + of_nat (length ys)\<rparr>"
  shows "rxq_wf q' \<and> rxq_items q' = rxq_items q @ ys"
proof -
  note wf = rxq_wfD [OF assms(1)]
  have m: "rxq_unread q + of_nat (rxq_readable q) = rxq_max q" by (simp add: rxq_readable_def)
  have "unat (rxq_max q + of_nat (length ys) - rxq_unread q) = rxq_readable q + length ys"
    using assms(2) wf(4) unfolding rxq_readable_def by (intro word_add_diff_of_nat) simp
  then have r: "rxq_readable q' = rxq_readable q + length ys" by (simp add: q'_def rxq_readable_def)
  have "rxq_wf q'" using wf assms(2) r by (simp add: rxq_wf_def q'_def)
  moreover have "rxq_items q' = rxq_items q @ ys"
    using ring_write_extends [OF wf(1) assms(2), of "rxq_unread q"] r m
    by (simp add: rxq_items_def q'_def)
  ultimately show ?thesis by simp
qed

lemma tcp_rxq_enqueue_burst_nr:
  assumes "rxq_wf q" "length xs < 65536"
  shows "unat (fst (tcp_rxq_enqueue_burst q xs)) = min (length (rxq_objs q) - rxq_readable q) (length xs)"
  using assms by (simp add: tcp_rxq_enqueue_burst_def Let_def unat_min tcp_rxq_free_count_eq unat_of_nat_small)

lemma tcp_rxq_enqueue_burst_items:
  assumes "rxq_wf q" "length xs < 65536"
  shows "rxq_wf (snd (tcp_rxq_enqueue_burst q xs)) \<and>
         rxq_items (snd (tcp_rxq_enqueue_burst q xs))
           = rxq_items q @ take (unat (fst (tcp_rxq_enqueue_burst q xs))) xs"
proof -
  let ?n = "fst (tcp_rxq_enqueue_burst q xs)"
  have n: "unat ?n = min (length (rxq_objs q) - rxq_readable q) (length xs)"
    by (rule tcp_rxq_enqueue_burst_nr [OF assms])
  have "rxq_readable q + length (take (unat ?n) xs) \<le> length (rxq_objs q)"
    using n rxq_wfD(3) [OF assms(1)] by simp
  moreover have "length (take (unat ?n) xs) = unat ?n" using n by simp
  then have "of_nat (length (take (unat ?n) xs)) = ?n" by simp
  ultimately show ?thesis
    using rxq_extend [OF assms(1), of "take (unat ?n) xs"]
    by (simp add: tcp_rxq_enqueue_burst_def Let_def)
qed

lemma tcp_rxq_update_unread_drop:
  assumes "rxq_wf q" "unat n \<le> rxq_readable q"
  shows "rxq_wf (tcp_rxq_update_unread q n) \<and>
         rxq_items (tcp_rxq_update_unread q n) = drop (unat n) (rxq_items q)"
proof -
  note wf = rxq_wfD [OF assms(1)]
  have "rxq_readable (tcp_rxq_update_unread q n) = rxq_readable q - unat n"
    using word_diff_add_of_nat [of "unat n" "rxq_max q" "rxq_unread q"] assms(2)
    by (simp add: rxq_readable_def tcp_rxq_update_unread_def)
  moreover have "ring_slice (rxq_mask q) (rxq_objs q) (rxq_unread q + n) (rxq_readable q - unat n)
                 = drop (unat n) (rxq_items q)"
    using ring_slice_drop [of "unat n" "rxq_readable q" "rxq_mask q" "rxq_objs q" "rxq_unread q"] assms(2)
    by (simp add: rxq_items_def)
  ultimately show ?thesis using wf by (simp add: rxq_wf_def rxq_items_def) (simp add: tcp_rxq_update_unread_def)
qed

lemma tcp_rxq_dequeue_burst_eq:
  assumes "rxq_wf q"
  shows "fst (tcp_rxq_dequeue_burst q k) = take (unat k) (rxq_items q) \<and>
         rxq_wf (snd (tcp_rxq_dequeue_burst q k)) \<and>
         rxq_items (snd (tcp_rxq_dequeue_burst q k)) = drop (unat k) (rxq_items q)"
proof -
  let ?n = "min (tcp_rxq_readable_count q) k"
  have n: "unat ?n = min (rxq_readable q) (unat k)"
    by (simp add: unat_min tcp_rxq_readable_count_def rxq_readable_def)
  have "ring_slice (rxq_mask q) (rxq_objs q) (rxq_unread q) (unat ?n) = take (unat k) (rxq_items q)"
    using ring_slice_take [of "unat ?n" "rxq_readable q" "rxq_mask q" "rxq_objs q" "rxq_unread q"] n
      take_min_length [of "rxq_items q" "unat k"]
    by (simp add: rxq_items_def)
  moreover have "drop (unat ?n) (rxq_items q) = drop (unat k) (rxq_items q)"
    using drop_min_length [of "rxq_items q" "unat k"] n by simp
  ultimately show ?thesis
    using tcp_rxq_update_unread_drop [OF assms, of ?n] n
    by (simp add: tcp_rxq_dequeue_burst_def Let_def tcp_rxq_update_unread_def)
qed

lemma tcp_rxq_peek_unread_nth:
  "tcp_rxq_peek_unread q off =
     (if unat off < rxq_readable q then Some (rxq_items q ! unat off) else None)"
  by (simp add: tcp_rxq_peek_unread_def rxq_readable_def rxq_items_def word_le_nat_alt not_le)

interpretation rxqi: burst_queue rxq_wf rxq_items "\<lambda>q. length (rxq_objs q)" 65535
  "\<lambda>q xs. (unat (fst (tcp_rxq_enqueue_burst q xs)), snd (tcp_rxq_enqueue_burst q xs))"
  "\<lambda>q k. tcp_rxq_dequeue_burst q (of_nat k)"
  by unfold_locales
    (auto simp: rxq_wfD tcp_rxq_enqueue_burst_nr tcp_rxq_enqueue_burst_items
      tcp_rxq_dequeue_burst_eq unat_of_nat_small)

end
