(* ===== verification/Flex_Fifo.thy ===== *)
theory Flex_Fifo
  imports Word_Ring
begin

text \<open>
  \<open>include/flex_fifo.h\<close>: the hybrid queue that the workers use for output, delayed ACKs, events,
  accepted sockets and neighbour flushes. A bounded ring is the fast path and an unbounded
  TAILQ the slow path; the \<open>tqe_prev\<close> field of a node says where the node is. A node is named
  by a value of type \<open>'n\<close>; \<open>ff_prev\<close> is the \<open>tqe_prev\<close> field of every node, \<open>ff_list\<close> the
  nodes of the TAILQ in order. The theory shows that every operation implements a list of
  distinct nodes, and states that contract as the locale \<open>node_fifo\<close> for the components that
  use such queues.
\<close>

section \<open>Nodes\<close>

text \<open>
  \<open>tqe_prev\<close> is either an integer that \<open>NODE_SET_IDX\<close> stored or an address that the TAILQ macros
  stored. An address is larger than \<open>RING_MAX_SIZE + 1\<close> (the header's own assumption).
\<close>

datatype node_prev = PrevIdx u64 | PrevPtr

definition RING_MAX_SIZE :: nat where
  "RING_MAX_SIZE = 65536"

record 'n flex_fifo =
  ff_list_size :: u32
  ff_list :: "'n list"
  ff_ring_total :: u64
  ff_list_total :: u64
  ff_write :: u32
  ff_read :: u32
  ff_mask :: u32
  ff_size :: u32
  ff_ring :: "'n list"
  ff_prev :: "'n \<Rightarrow> node_prev"

definition NODE_SET_IDX :: "'n flex_fifo \<Rightarrow> 'n \<Rightarrow> u64 \<Rightarrow> 'n flex_fifo" where
  "NODE_SET_IDX ff n idx = ff\<lparr>ff_prev := (ff_prev ff)(n := PrevIdx idx)\<rparr>"

definition node_in_ring :: "'n flex_fifo \<Rightarrow> 'n \<Rightarrow> bool" where
  "node_in_ring ff n =
     (case ff_prev ff n of PrevIdx i \<Rightarrow> i > 0 \<and> i < of_nat (RING_MAX_SIZE + 1) | PrevPtr \<Rightarrow> False)"

definition node_in_list :: "'n flex_fifo \<Rightarrow> 'n \<Rightarrow> bool" where
  "node_in_list ff n =
     (case ff_prev ff n of PrevIdx i \<Rightarrow> i > of_nat (RING_MAX_SIZE + 1) | PrevPtr \<Rightarrow> True)"

definition node_in_fifo :: "'n flex_fifo \<Rightarrow> 'n \<Rightarrow> bool" where
  "node_in_fifo ff n = (case ff_prev ff n of PrevIdx i \<Rightarrow> i \<noteq> 0 | PrevPtr \<Rightarrow> True)"

section \<open>The ring\<close>

definition flex_fifo_ring_count :: "'n flex_fifo \<Rightarrow> u32" where
  "flex_fifo_ring_count ff = ff_write ff - ff_read ff"

definition flex_fifo_ring_free_size :: "'n flex_fifo \<Rightarrow> int" where
  "flex_fifo_ring_free_size ff = sint (ff_size ff - flex_fifo_ring_count ff)"

definition ff_do_ring_push :: "'n flex_fifo \<Rightarrow> 'n \<Rightarrow> 'n flex_fifo" where
  "ff_do_ring_push ff n =
     (let ff1 = ff\<lparr>ff_ring := (ff_ring ff)[slot (ff_mask ff) (ff_write ff) := n]\<rparr>;
          ff2 = NODE_SET_IDX ff1 n (of_nat (slot (ff_mask ff) (ff_write ff)) + 1)
      in ff2\<lparr>ff_write := ff_write ff2 + 1\<rparr>)"

definition ff_ring_push :: "'n flex_fifo \<Rightarrow> 'n \<Rightarrow> int \<times> 'n flex_fifo" where
  "ff_ring_push ff n =
     (if ff_list ff \<noteq> [] \<or> flex_fifo_ring_free_size ff = 0 then (-1, ff)
      else (let ff1 = ff_do_ring_push ff n in (0, ff1\<lparr>ff_ring_total := ff_ring_total ff1 + 1\<rparr>)))"

definition ff_ring_pop :: "'n flex_fifo \<Rightarrow> 'n option \<times> 'n flex_fifo" where
  "ff_ring_pop ff =
     (if ff_read ff = ff_write ff then (None, ff)
      else (let n = ff_ring ff ! slot (ff_mask ff) (ff_read ff)
            in (Some n, NODE_SET_IDX (ff\<lparr>ff_read := ff_read ff + 1\<rparr>) n 0)))"

definition ff_ring_peek :: "'n flex_fifo \<Rightarrow> 'n option" where
  "ff_ring_peek ff =
     (if ff_read ff = ff_write ff then None
      else Some (ff_ring ff ! slot (ff_mask ff) (ff_read ff)))"

text \<open>The loop of \<open>_ff_ring_remove\<close>; a pop inside the loop never finds the ring empty.\<close>

fun ff_ring_rotate :: "nat \<Rightarrow> 'n flex_fifo \<Rightarrow> 'n \<Rightarrow> 'n flex_fifo" where
  "ff_ring_rotate 0 ff n = ff"
| "ff_ring_rotate (Suc k) ff n =
     (case ff_ring_pop ff of
        (None, ff1) \<Rightarrow> ff_ring_rotate k ff1 n
      | (Some cur, ff1) \<Rightarrow>
          ff_ring_rotate k (if cur = n then ff1 else ff_do_ring_push ff1 cur) n)"

definition ff_ring_remove :: "'n flex_fifo \<Rightarrow> 'n \<Rightarrow> int \<times> 'n flex_fifo" where
  "ff_ring_remove ff n =
     (if \<not> node_in_ring ff n then (-1, ff)
      else (0, ff_ring_rotate (unat (flex_fifo_ring_count ff)) ff n))"

section \<open>The list\<close>

definition ff_list_push :: "'n flex_fifo \<Rightarrow> 'n \<Rightarrow> 'n flex_fifo" where
  "ff_list_push ff n =
     ff\<lparr>ff_list := ff_list ff @ [n], ff_prev := (ff_prev ff)(n := PrevPtr),
        ff_list_size := ff_list_size ff + 1, ff_list_total := ff_list_total ff + 1\<rparr>"

definition ff_do_list_remove :: "'n flex_fifo \<Rightarrow> 'n \<Rightarrow> 'n flex_fifo" where
  "ff_do_list_remove ff n =
     (let ff1 = NODE_SET_IDX (ff\<lparr>ff_list := remove1 n (ff_list ff)\<rparr>) n 0
      in ff1\<lparr>ff_list_size := ff_list_size ff1 - 1\<rparr>)"

definition ff_list_pop :: "'n flex_fifo \<Rightarrow> 'n option \<times> 'n flex_fifo" where
  "ff_list_pop ff =
     (case ff_list ff of [] \<Rightarrow> (None, ff) | n # _ \<Rightarrow> (Some n, ff_do_list_remove ff n))"

definition ff_list_peek :: "'n flex_fifo \<Rightarrow> 'n option" where
  "ff_list_peek ff = (case ff_list ff of [] \<Rightarrow> None | n # _ \<Rightarrow> Some n)"

definition ff_list_remove :: "'n flex_fifo \<Rightarrow> 'n \<Rightarrow> int \<times> 'n flex_fifo" where
  "ff_list_remove ff n =
     (if \<not> node_in_list ff n then (-1, ff) else (0, ff_do_list_remove ff n))"

definition flex_fifo_list_count :: "'n flex_fifo \<Rightarrow> u32" where
  "flex_fifo_list_count ff = ff_list_size ff"

section \<open>The generic operations\<close>

definition flex_fifo_push :: "'n flex_fifo \<Rightarrow> 'n \<Rightarrow> 'n flex_fifo" where
  "flex_fifo_push ff n =
     (let (ret, ff1) = ff_ring_push ff n in if ret = 0 then ff1 else ff_list_push ff1 n)"

definition flex_fifo_push_if_not_exist :: "'n flex_fifo \<Rightarrow> 'n \<Rightarrow> 'n flex_fifo" where
  "flex_fifo_push_if_not_exist ff n =
     (if node_in_fifo ff n then ff
      else (let (ret, ff1) = ff_ring_push ff n in if ret = 0 then ff1 else ff_list_push ff1 n))"

definition flex_fifo_pop :: "'n flex_fifo \<Rightarrow> 'n option \<times> 'n flex_fifo" where
  "flex_fifo_pop ff =
     (case ff_ring_pop ff of
        (Some n, ff1) \<Rightarrow> (Some n, ff1)
      | (None, ff1) \<Rightarrow> ff_list_pop ff1)"

definition flex_fifo_peek :: "'n flex_fifo \<Rightarrow> 'n option" where
  "flex_fifo_peek ff =
     (case ff_ring_peek ff of Some n \<Rightarrow> Some n | None \<Rightarrow> ff_list_peek ff)"

definition flex_fifo_remove :: "'n flex_fifo \<Rightarrow> 'n \<Rightarrow> int \<times> 'n flex_fifo" where
  "flex_fifo_remove ff n =
     (let (ret, ff1) = ff_ring_remove ff n in if ret = 0 then (0, ff1) else ff_list_remove ff1 n)"

definition flex_fifo_count :: "'n flex_fifo \<Rightarrow> u32" where
  "flex_fifo_count ff = flex_fifo_ring_count ff + flex_fifo_list_count ff"

text \<open>\<open>flex_fifo_create\<close>: \<open>None\<close> is the NULL return, \<open>ring\<close> the memory that \<open>rte_malloc\<close>
  gives (\<open>None\<close> when it fails), \<open>prev\<close> the \<open>tqe_prev\<close> fields of the nodes outside.\<close>

definition flex_fifo_create ::
  "'n list option \<Rightarrow> ('n \<Rightarrow> node_prev) \<Rightarrow> u32 \<Rightarrow> 'n flex_fifo option" where
  "flex_fifo_create mem prev sz =
     (if sz AND (sz - 1) \<noteq> 0 \<or> sz > of_nat RING_MAX_SIZE then None
      else (case mem of
              None \<Rightarrow> None
            | Some ring \<Rightarrow>
                Some \<lparr>ff_list_size = 0, ff_list = [], ff_ring_total = 0, ff_list_total = 0,
                      ff_write = 0, ff_read = 0, ff_mask = sz - 1, ff_size = sz,
                      ff_ring = ring, ff_prev = prev\<rparr>))"

section \<open>The list of nodes a queue stands for\<close>

definition ff_ring_items :: "'n flex_fifo \<Rightarrow> 'n list" where
  "ff_ring_items ff =
     ring_slice (ff_mask ff) (ff_ring ff) (ff_read ff) (unat (flex_fifo_ring_count ff))"

definition ff_items :: "'n flex_fifo \<Rightarrow> 'n list" where
  "ff_items ff = ff_ring_items ff @ ff_list ff"

definition ff_slot_of :: "'n flex_fifo \<Rightarrow> nat \<Rightarrow> nat" where
  "ff_slot_of ff i = slot (ff_mask ff) (ff_read ff + of_nat i)"

definition ff_wf :: "'n flex_fifo \<Rightarrow> bool" where
  "ff_wf ff \<longleftrightarrow>
     ring_ok (ff_mask ff) (ff_ring ff) \<and> unat (ff_size ff) = length (ff_ring ff) \<and>
     length (ff_ring ff) \<le> RING_MAX_SIZE \<and>
     unat (flex_fifo_ring_count ff) \<le> length (ff_ring ff) \<and>
     distinct (ff_items ff) \<and>
     (\<forall>i<length (ff_ring_items ff).
        ff_prev ff (ff_ring_items ff ! i) = PrevIdx (of_nat (ff_slot_of ff i) + 1)) \<and>
     (\<forall>n\<in>set (ff_list ff). ff_prev ff n = PrevPtr) \<and>
     (\<forall>n. n \<notin> set (ff_items ff) \<longrightarrow> ff_prev ff n = PrevIdx 0) \<and>
     ff_list_size ff = of_nat (length (ff_list ff))"

lemma ff_wfD:
  assumes "ff_wf ff"
  shows "ring_ok (ff_mask ff) (ff_ring ff)" "unat (ff_size ff) = length (ff_ring ff)"
    "length (ff_ring ff) \<le> RING_MAX_SIZE" "unat (flex_fifo_ring_count ff) \<le> length (ff_ring ff)"
    "distinct (ff_items ff)"
    "\<And>i. i < unat (flex_fifo_ring_count ff) \<Longrightarrow>
       ff_prev ff (ff_ring_items ff ! i) = PrevIdx (of_nat (ff_slot_of ff i) + 1)"
    "\<And>n. n \<in> set (ff_list ff) \<Longrightarrow> ff_prev ff n = PrevPtr"
    "\<And>n. n \<notin> set (ff_items ff) \<Longrightarrow> ff_prev ff n = PrevIdx 0"
    "ff_list_size ff = of_nat (length (ff_list ff))"
  using assms by (auto simp: ff_wf_def ff_ring_items_def)

lemma length_ff_ring_items [simp]: "length (ff_ring_items ff) = unat (flex_fifo_ring_count ff)"
  by (simp add: ff_ring_items_def)

lemma ff_slot_tag_bounds:
  assumes "ff_wf ff"
  shows "(of_nat (ff_slot_of ff i) + 1 :: u64) > 0"
    "(of_nat (ff_slot_of ff i) + 1 :: u64) < of_nat (RING_MAX_SIZE + 1)"
proof -
  have "ff_slot_of ff i < 65536"
    using slot_less [OF ff_wfD(1) [OF assms], of "ff_read ff + of_nat i"] ff_wfD(3) [OF assms]
    by (simp add: ff_slot_of_def RING_MAX_SIZE_def)
  then have lt: "0 < ff_slot_of ff i + 1" "ff_slot_of ff i + 1 < RING_MAX_SIZE + 1"
    "RING_MAX_SIZE + 1 < 2 ^ LENGTH(64)" "ff_slot_of ff i + 1 < 2 ^ LENGTH(64)"
    by (simp_all add: RING_MAX_SIZE_def)
  have eq: "(of_nat (ff_slot_of ff i) + 1 :: u64) = of_nat (ff_slot_of ff i + 1)" by simp
  show "(of_nat (ff_slot_of ff i) + 1 :: u64) > 0"
    unfolding eq using of_nat_less_word [OF lt(1,4)] by (simp only: semiring_1_class.of_nat_0)
  show "(of_nat (ff_slot_of ff i) + 1 :: u64) < of_nat (RING_MAX_SIZE + 1)"
    unfolding eq by (rule of_nat_less_word [OF lt(2,3)])
qed

text \<open>The tag of a node says where the node is.\<close>

lemma node_tags:
  assumes "ff_wf ff"
  shows "node_in_ring ff n \<longleftrightarrow> n \<in> set (ff_ring_items ff)"
    "node_in_list ff n \<longleftrightarrow> n \<in> set (ff_list ff)"
    "node_in_fifo ff n \<longleftrightarrow> n \<in> set (ff_items ff)"
proof -
  consider (ring) i where "i < unat (flex_fifo_ring_count ff)" "n = ff_ring_items ff ! i"
    | (list) "n \<in> set (ff_list ff)" | (out) "n \<notin> set (ff_items ff)"
    by (auto simp: ff_items_def in_set_conv_nth)
  then have "(node_in_ring ff n \<longleftrightarrow> n \<in> set (ff_ring_items ff)) \<and>
     (node_in_list ff n \<longleftrightarrow> n \<in> set (ff_list ff)) \<and> (node_in_fifo ff n \<longleftrightarrow> n \<in> set (ff_items ff))"
  proof cases
    case ring
    have "n \<in> set (ff_ring_items ff)" using ring by simp
    moreover have "n \<notin> set (ff_list ff)" using calculation ff_wfD(5) [OF assms] by (auto simp: ff_items_def)
    moreover have "ff_prev ff n = PrevIdx (of_nat (ff_slot_of ff i) + 1)"
      using ff_wfD(6) [OF assms ring(1)] ring(2) by (simp only:)
    moreover note ff_slot_tag_bounds [OF assms, of i]
    ultimately show ?thesis
      by (simp only: node_in_ring_def node_in_list_def node_in_fifo_def ff_items_def
          node_prev.case set_append Un_iff) (simp add: not_less_iff_gr_or_eq less_imp_neq [THEN not_sym])
  next
    case list
    then have "n \<notin> set (ff_ring_items ff)" using ff_wfD(5) [OF assms] by (auto simp: ff_items_def)
    with list ff_wfD(7) [OF assms list] show ?thesis
      by (simp add: node_in_ring_def node_in_list_def node_in_fifo_def ff_items_def)
  next
    case out
    with ff_wfD(8) [OF assms out] show ?thesis
      by (simp add: node_in_ring_def node_in_list_def node_in_fifo_def ff_items_def)
  qed
  then show "node_in_ring ff n \<longleftrightarrow> n \<in> set (ff_ring_items ff)"
    "node_in_list ff n \<longleftrightarrow> n \<in> set (ff_list ff)" "node_in_fifo ff n \<longleftrightarrow> n \<in> set (ff_items ff)"
    by auto
qed

section \<open>Each operation on the list of nodes\<close>

lemma ff_write_eq: "ff_write ff = ff_read ff + of_nat (unat (flex_fifo_ring_count ff))"
  by (simp add: flex_fifo_ring_count_def)

lemma ff_do_ring_push_items:
  assumes wf: "ff_wf ff" and room: "unat (flex_fifo_ring_count ff) < length (ff_ring ff)"
  shows "unat (flex_fifo_ring_count (ff_do_ring_push ff n)) = Suc (unat (flex_fifo_ring_count ff))"
    "ff_ring_items (ff_do_ring_push ff n) = ff_ring_items ff @ [n]"
proof -
  have lt: "unat (ff_write ff - ff_read ff) + 1 < 2 ^ LENGTH(32)"
    using room ring_ok_length_lt [OF ff_wfD(1) [OF wf]] by (simp add: flex_fifo_ring_count_def)
  show c: "unat (flex_fifo_ring_count (ff_do_ring_push ff n)) = Suc (unat (flex_fifo_ring_count ff))"
    using word_add_diff_of_nat [OF lt]
    by (simp add: flex_fifo_ring_count_def ff_do_ring_push_def NODE_SET_IDX_def Let_def)
  show "ff_ring_items (ff_do_ring_push ff n) = ff_ring_items ff @ [n]"
    using ring_push_extends [OF ff_wfD(1) [OF wf] room, of "ff_read ff" n]
    unfolding ff_ring_items_def c ff_write_eq [symmetric]
    by (simp add: ff_do_ring_push_def NODE_SET_IDX_def Let_def)
qed

lemma ff_do_ring_push_wf:
  assumes wf: "ff_wf ff" and room: "unat (flex_fifo_ring_count ff) < length (ff_ring ff)"
    and new: "n \<notin> set (ff_items ff)"
  shows "ff_wf (ff_do_ring_push ff n)"
proof -
  let ?f = "ff_do_ring_push ff n"
  note it = ff_do_ring_push_items [OF wf room, of n]
  have fl: "ff_mask ?f = ff_mask ff" "ff_size ?f = ff_size ff" "length (ff_ring ?f) = length (ff_ring ff)"
    "ff_read ?f = ff_read ff" "ff_list ?f = ff_list ff" "ff_list_size ?f = ff_list_size ff"
    "ring_ok (ff_mask ff) (ff_ring ?f) = ring_ok (ff_mask ff) (ff_ring ff)"
    "ff_prev ?f = (ff_prev ff)(n := PrevIdx (of_nat (slot (ff_mask ff) (ff_write ff)) + 1))"
    by (simp_all add: ff_do_ring_push_def NODE_SET_IDX_def Let_def)
  have items: "set (ff_items ?f) = insert n (set (ff_items ff))" "distinct (ff_items ?f)"
    using it(2) new ff_wfD(5) [OF wf] by (auto simp: ff_items_def fl)
  have tag: "ff_prev ?f (ff_ring_items ?f ! i) = PrevIdx (of_nat (ff_slot_of ?f i) + 1)"
    if i: "i < Suc (unat (flex_fifo_ring_count ff))" for i
  proof (cases "i = unat (flex_fifo_ring_count ff)")
    case True
    then show ?thesis by (simp add: it(2) nth_append fl ff_slot_of_def ff_write_eq)
  next
    case False
    then have j: "i < unat (flex_fifo_ring_count ff)" using i by simp
    then have "ff_ring_items ff ! i \<noteq> n" using new nth_mem [of i "ff_ring_items ff"] by (auto simp: ff_items_def)
    then show ?thesis
      using ff_wfD(6) [OF wf j] j by (simp add: it(2) nth_append fl ff_slot_of_def)
  qed
  have "\<forall>m\<in>set (ff_list ff). ff_prev ?f m = PrevPtr"
    using ff_wfD(7) [OF wf] new by (auto simp: fl ff_items_def)
  moreover have "\<forall>m. m \<notin> set (ff_items ?f) \<longrightarrow> ff_prev ?f m = PrevIdx 0"
    using ff_wfD(8) [OF wf] by (simp add: items(1) fl)
  ultimately show ?thesis
    unfolding ff_wf_def using ff_wfD(1-3,9) [OF wf] items(2) tag room
    by (simp add: fl(1-7) it(1))
qed

lemma ff_ring_pop_None: "ff_ring_pop ff = (None, ff) \<longleftrightarrow> ff_ring_items ff = []"
proof -
  have "ff_ring_items ff = [] \<longleftrightarrow> unat (flex_fifo_ring_count ff) = 0"
    by (metis length_0_conv length_ff_ring_items)
  also have "\<dots> \<longleftrightarrow> ff_read ff = ff_write ff"
    by (metis flex_fifo_ring_count_def right_minus_eq unat_eq_0)
  finally show ?thesis by (simp add: ff_ring_pop_def Let_def)
qed

lemma ff_ring_items_Cons:
  assumes "ff_ring_items ff = x # xs"
  shows "ff_read ff \<noteq> ff_write ff" "ff_ring ff ! slot (ff_mask ff) (ff_read ff) = x"
    "unat (flex_fifo_ring_count ff) = Suc (length xs)"
proof -
  show c: "unat (flex_fifo_ring_count ff) = Suc (length xs)"
    using arg_cong [OF assms, of length] by simp
  then show "ff_read ff \<noteq> ff_write ff" by (auto simp: flex_fifo_ring_count_def)
  show "ff_ring ff ! slot (ff_mask ff) (ff_read ff) = x"
    using assms c by (simp add: ff_ring_items_def ring_slice_Suc)
qed

lemma ff_ring_pop_Cons:
  assumes wf: "ff_wf ff" and it: "ff_ring_items ff = x # xs"
  obtains f where "ff_ring_pop ff = (Some x, f)" "ff_ring_items f = xs" "ff_list f = ff_list ff"
    "ff_ring_total f = ff_ring_total ff" "length (ff_ring f) = length (ff_ring ff)" "ff_wf f"
proof -
  define f where "f = NODE_SET_IDX (ff\<lparr>ff_read := ff_read ff + 1\<rparr>) x 0"
  note c = ff_ring_items_Cons [OF it]
  have pop: "ff_ring_pop ff = (Some x, f)" using c by (simp add: ff_ring_pop_def f_def Let_def)
  have fl: "ff_mask f = ff_mask ff" "ff_size f = ff_size ff" "ff_ring f = ff_ring ff"
    "ff_read f = ff_read ff + 1" "ff_list f = ff_list ff" "ff_list_size f = ff_list_size ff"
    "ff_prev f = (ff_prev ff)(x := PrevIdx 0)" "ff_ring_total f = ff_ring_total ff"
    by (simp_all add: f_def NODE_SET_IDX_def)
  have cnt: "unat (flex_fifo_ring_count f) = length xs"
    using word_diff_add_of_nat [of 1 "ff_write ff" "ff_read ff"] c(3)
    by (simp add: f_def NODE_SET_IDX_def flex_fifo_ring_count_def)
  have items: "ff_ring_items f = xs"
    using it c(3) by (simp add: ff_ring_items_def cnt fl ring_slice_Suc)
  have all: "ff_items ff = x # ff_items f" by (simp add: ff_items_def it items fl)
  have dist: "x \<notin> set (ff_items f)" "distinct (ff_items f)"
    using ff_wfD(5) [OF wf] all by simp_all
  have tag: "ff_prev f (xs ! i) = PrevIdx (of_nat (ff_slot_of f i) + 1)" if i: "i < length xs" for i
  proof -
    have "xs ! i \<in> set (ff_items f)" using i by (simp add: ff_items_def items)
    then have "xs ! i \<noteq> x" using dist by metis
    moreover have "ff_slot_of ff (Suc i) = ff_slot_of f i" by (simp add: ff_slot_of_def fl algebra_simps)
    ultimately show ?thesis using ff_wfD(6) [OF wf, of "Suc i"] i c(3) by (simp add: it fl)
  qed
  have "\<forall>m\<in>set (ff_list ff). ff_prev f m = PrevPtr"
    using ff_wfD(7) [OF wf] dist(1) by (auto simp: fl ff_items_def)
  moreover have "\<forall>m. m \<notin> set (ff_items f) \<longrightarrow> ff_prev f m = PrevIdx 0"
    using ff_wfD(8) [OF wf] by (simp add: all fl)
  ultimately have "ff_wf f"
    unfolding ff_wf_def using ff_wfD(1-4,9) [OF wf] dist(2) tag c(3)
    by (simp add: fl(1-6) cnt items)
  with pop items fl show thesis by (intro that) simp_all
qed

lemma ff_ring_full:
  assumes "ff_wf ff"
  shows "flex_fifo_ring_free_size ff = 0 \<longleftrightarrow> unat (flex_fifo_ring_count ff) = length (ff_ring ff)"
proof -
  have "flex_fifo_ring_free_size ff = 0 \<longleftrightarrow> ff_size ff = flex_fifo_ring_count ff"
    by (simp add: flex_fifo_ring_free_size_def signed_eq_0_iff)
  also have "\<dots> \<longleftrightarrow> unat (ff_size ff) = unat (flex_fifo_ring_count ff)" by (simp add: word_unat_eq_iff)
  finally show ?thesis using ff_wfD(2) [OF assms] by auto
qed

lemma ff_wf_total: "ff_wf (ff\<lparr>ff_ring_total := t\<rparr>) = ff_wf ff"
  "ff_items (ff\<lparr>ff_ring_total := t\<rparr>) = ff_items ff"
  by (simp_all add: ff_wf_def ff_items_def ff_ring_items_def ff_slot_of_def flex_fifo_ring_count_def)

lemma ff_list_push_wf:
  assumes wf: "ff_wf ff" and new: "n \<notin> set (ff_items ff)"
  shows "ff_wf (ff_list_push ff n)" "ff_items (ff_list_push ff n) = ff_items ff @ [n]"
proof -
  let ?f = "ff_list_push ff n"
  have r: "ff_ring_items ?f = ff_ring_items ff" "flex_fifo_ring_count ?f = flex_fifo_ring_count ff"
    by (simp_all add: ff_list_push_def ff_ring_items_def flex_fifo_ring_count_def)
  show it: "ff_items ?f = ff_items ff @ [n]" by (simp add: ff_items_def r) (simp add: ff_list_push_def)
  have other: "m \<noteq> n \<Longrightarrow> ff_prev ?f m = ff_prev ff m" for m by (simp add: ff_list_push_def)
  have ring: "ff_ring_items ff ! i \<noteq> n" if "i < unat (flex_fifo_ring_count ff)" for i
    using new nth_mem [of i "ff_ring_items ff"] that by (auto simp: ff_items_def)
  have tag: "\<forall>i<unat (flex_fifo_ring_count ff). ff_prev ?f (ff_ring_items ff ! i) = PrevIdx (of_nat (ff_slot_of ?f i) + 1)"
    using ff_wfD(6) [OF wf] ring other by (simp add: ff_slot_of_def) (simp add: ff_list_push_def)
  have "\<forall>m\<in>set (ff_list ?f). ff_prev ?f m = PrevPtr"
    using ff_wfD(7) [OF wf] by (simp add: ff_list_push_def)
  moreover have "\<forall>m. m \<notin> set (ff_items ?f) \<longrightarrow> ff_prev ?f m = PrevIdx 0"
    using ff_wfD(8) [OF wf] other by (simp add: it)
  moreover have "distinct (ff_items ?f)" using it new ff_wfD(5) [OF wf] by simp
  moreover have "ff_list_size ?f = of_nat (length (ff_list ?f))"
    using ff_wfD(9) [OF wf] by (simp add: ff_list_push_def)
  ultimately show "ff_wf ?f" unfolding ff_wf_def using tag ff_wfD(1-4) [OF wf]
    by (simp add: r) (simp add: ff_list_push_def)
qed

lemma flex_fifo_push_items:
  assumes wf: "ff_wf ff" and new: "n \<notin> set (ff_items ff)"
  shows "ff_wf (flex_fifo_push ff n)" "ff_items (flex_fifo_push ff n) = ff_items ff @ [n]"
proof -
  have "ff_wf (flex_fifo_push ff n) \<and> ff_items (flex_fifo_push ff n) = ff_items ff @ [n]"
  proof (cases "ff_list ff \<noteq> [] \<or> flex_fifo_ring_free_size ff = 0")
    case True
    then show ?thesis using ff_list_push_wf [OF assms] by (simp add: flex_fifo_push_def ff_ring_push_def)
  next
    case False
    then have room: "unat (flex_fifo_ring_count ff) < length (ff_ring ff)"
      using ff_ring_full [OF wf] ff_wfD(4) [OF wf] by simp
    have "ff_list (ff_do_ring_push ff n) = []"
      using False by (simp add: ff_do_ring_push_def NODE_SET_IDX_def Let_def)
    then show ?thesis
      using False ff_do_ring_push_wf [OF wf room new] ff_do_ring_push_items(2) [OF wf room, of n]
      by (simp add: flex_fifo_push_def ff_ring_push_def Let_def ff_wf_total) (simp add: ff_items_def)
  qed
  then show "ff_wf (flex_fifo_push ff n)" "ff_items (flex_fifo_push ff n) = ff_items ff @ [n]" by auto
qed

lemma flex_fifo_push_if_not_exist_eq:
  "ff_wf ff \<Longrightarrow> flex_fifo_push_if_not_exist ff n = (if n \<in> set (ff_items ff) then ff else flex_fifo_push ff n)"
  by (simp add: flex_fifo_push_if_not_exist_def flex_fifo_push_def node_tags(3))

lemma ff_do_list_remove_wf:
  assumes wf: "ff_wf ff" and mem: "n \<in> set (ff_list ff)"
  shows "ff_wf (ff_do_list_remove ff n)"
    "ff_items (ff_do_list_remove ff n) = ff_ring_items ff @ remove1 n (ff_list ff)"
proof -
  let ?f = "ff_do_list_remove ff n"
  have fl: "ff_mask ?f = ff_mask ff" "ff_size ?f = ff_size ff" "ff_ring ?f = ff_ring ff"
    "ff_read ?f = ff_read ff" "ff_list ?f = remove1 n (ff_list ff)"
    "ff_list_size ?f = ff_list_size ff - 1" "ff_prev ?f = (ff_prev ff)(n := PrevIdx 0)"
    by (simp_all add: ff_do_list_remove_def NODE_SET_IDX_def Let_def)
  have r: "ff_ring_items ?f = ff_ring_items ff" "flex_fifo_ring_count ?f = flex_fifo_ring_count ff"
    by (simp_all add: ff_do_list_remove_def NODE_SET_IDX_def Let_def ff_ring_items_def flex_fifo_ring_count_def)
  show it: "ff_items ?f = ff_ring_items ff @ remove1 n (ff_list ff)" by (simp add: ff_items_def r fl)
  have d: "distinct (ff_list ff)" "set (ff_ring_items ff) \<inter> set (ff_list ff) = {}" "distinct (ff_ring_items ff)"
    using ff_wfD(5) [OF wf] by (auto simp: ff_items_def)
  have set1: "set (remove1 n (ff_list ff)) = set (ff_list ff) - {n}" using d(1) by simp
  have ring: "ff_ring_items ff ! i \<noteq> n" if "i < unat (flex_fifo_ring_count ff)" for i
    using d(2) mem nth_mem [of i "ff_ring_items ff"] that by (metis disjoint_iff length_ff_ring_items)
  have tag: "\<forall>i<unat (flex_fifo_ring_count ff). ff_prev ?f (ff_ring_items ff ! i) = PrevIdx (of_nat (ff_slot_of ?f i) + 1)"
    using ff_wfD(6) [OF wf] ring by (simp add: ff_slot_of_def fl)
  have "\<forall>m\<in>set (ff_list ?f). ff_prev ?f m = PrevPtr"
    using ff_wfD(7) [OF wf] set1 by (simp add: fl)
  moreover have "\<forall>m. m \<notin> set (ff_items ?f) \<longrightarrow> ff_prev ?f m = PrevIdx 0"
    using ff_wfD(8) [OF wf] by (auto simp: r fl set1 ff_items_def)
  moreover have "distinct (ff_items ?f)" using d set1 by (auto simp: it)
  moreover have "ff_list_size ?f = of_nat (length (ff_list ?f))"
    using ff_wfD(9) [OF wf] mem by (cases "length (ff_list ff)") (auto simp: fl length_remove1)
  ultimately show "ff_wf ?f" unfolding ff_wf_def using tag ff_wfD(1-4) [OF wf]
    by (simp add: r fl(1-4))
qed

lemma flex_fifo_pop_items:
  assumes wf: "ff_wf ff"
  shows "ff_items ff = [] \<Longrightarrow> flex_fifo_pop ff = (None, ff)"
    and "ff_items ff = x # xs \<Longrightarrow> fst (flex_fifo_pop ff) = Some x \<and>
           ff_items (snd (flex_fifo_pop ff)) = xs \<and> ff_wf (snd (flex_fifo_pop ff))"
proof -
  show "ff_items ff = [] \<Longrightarrow> flex_fifo_pop ff = (None, ff)"
    by (simp add: flex_fifo_pop_def ff_ring_pop_None [THEN iffD2] ff_items_def ff_list_pop_def)
  assume it: "ff_items ff = x # xs"
  show "fst (flex_fifo_pop ff) = Some x \<and> ff_items (snd (flex_fifo_pop ff)) = xs \<and>
        ff_wf (snd (flex_fifo_pop ff))"
  proof (cases "ff_ring_items ff")
    case Nil
    then have l: "ff_list ff = x # xs" using it by (simp add: ff_items_def)
    then have "flex_fifo_pop ff = (Some x, ff_do_list_remove ff x)"
      using Nil by (simp add: flex_fifo_pop_def ff_ring_pop_None [THEN iffD2] ff_list_pop_def)
    then show ?thesis using ff_do_list_remove_wf [OF wf, of x] l Nil by simp
  next
    case (Cons y ys)
    obtain f where f: "ff_ring_pop ff = (Some y, f)" "ff_ring_items f = ys" "ff_list f = ff_list ff" "ff_wf f"
      using ff_ring_pop_Cons [OF wf Cons] by metis
    then show ?thesis using it Cons by (auto simp: flex_fifo_pop_def ff_items_def)
  qed
qed

lemma flex_fifo_peek_items:
  "ff_wf ff \<Longrightarrow> flex_fifo_peek ff = (case ff_items ff of [] \<Rightarrow> None | x # _ \<Rightarrow> Some x)"
proof (cases "ff_ring_items ff")
  case Nil
  then have "ff_read ff = ff_write ff"
    using ff_ring_pop_None [of ff] by (auto simp: ff_ring_pop_def Let_def split: if_splits)
  then show ?thesis by (simp add: flex_fifo_peek_def ff_ring_peek_def ff_list_peek_def ff_items_def Nil)
next
  case (Cons y ys)
  then show ?thesis
    using ff_ring_items_Cons [OF Cons] by (simp add: flex_fifo_peek_def ff_ring_peek_def ff_items_def)
qed

text \<open>Rotating the ring \<open>k\<close> times drops the node from the first \<open>k\<close> entries.\<close>

lemma ff_ring_rotate_items:
  assumes "ff_wf ff" "k \<le> length (ff_ring_items ff)"
  shows "ff_wf (ff_ring_rotate k ff n) \<and> ff_list (ff_ring_rotate k ff n) = ff_list ff \<and>
    ff_ring_items (ff_ring_rotate k ff n) =
      drop k (ff_ring_items ff) @ filter (\<lambda>x. x \<noteq> n) (take k (ff_ring_items ff))"
  using assms
proof (induction k arbitrary: ff)
  case 0
  then show ?case by simp
next
  case (Suc k)
  obtain x xs where it: "ff_ring_items ff = x # xs" using Suc.prems(2) by (cases "ff_ring_items ff") auto
  obtain f where f: "ff_ring_pop ff = (Some x, f)" "ff_ring_items f = xs" "ff_list f = ff_list ff"
    "length (ff_ring f) = length (ff_ring ff)" "ff_wf f"
    using ff_ring_pop_Cons [OF Suc.prems(1) it] by metis
  have k: "k \<le> length xs" using Suc.prems(2) it by simp
  show ?case
  proof (cases "x = n")
    case True
    then show ?thesis using Suc.IH [OF f(5)] k f by (simp add: it)
  next
    case False
    let ?g = "ff_do_ring_push f x"
    have "Suc (length xs) \<le> length (ff_ring ff)"
      using ff_wfD(4) [OF Suc.prems(1)] ff_ring_items_Cons(3) [OF it] by simp
    then have room: "unat (flex_fifo_ring_count f) < length (ff_ring f)"
      using f(2,4) length_ff_ring_items [of f] by simp
    have new: "x \<notin> set (ff_items f)" using ff_wfD(5) [OF Suc.prems(1)] by (auto simp: ff_items_def it f)
    note g = ff_do_ring_push_items(2) [OF f(5) room, of x] ff_do_ring_push_wf [OF f(5) room new]
    have "ff_list ?g = ff_list ff" by (simp add: ff_do_ring_push_def NODE_SET_IDX_def Let_def f)
    then show ?thesis using Suc.IH [OF g(2)] k f False by (simp add: it g(1))
  qed
qed

lemma flex_fifo_remove_items:
  assumes wf: "ff_wf ff"
  shows "fst (flex_fifo_remove ff n) = (if n \<in> set (ff_items ff) then 0 else -1)"
    and "ff_items (snd (flex_fifo_remove ff n)) = remove1 n (ff_items ff)"
    and "ff_wf (snd (flex_fifo_remove ff n))"
proof -
  have d: "distinct (ff_ring_items ff)" "set (ff_ring_items ff) \<inter> set (ff_list ff) = {}"
    using ff_wfD(5) [OF wf] by (auto simp: ff_items_def)
  consider (ring) "n \<in> set (ff_ring_items ff)" | (list) "n \<in> set (ff_list ff)" "n \<notin> set (ff_ring_items ff)"
    | (out) "n \<notin> set (ff_items ff)" by (auto simp: ff_items_def)
  then have "fst (flex_fifo_remove ff n) = (if n \<in> set (ff_items ff) then 0 else -1) \<and>
    ff_items (snd (flex_fifo_remove ff n)) = remove1 n (ff_items ff) \<and>
    ff_wf (snd (flex_fifo_remove ff n))"
  proof cases
    case ring
    then show ?thesis
      using ff_ring_rotate_items [OF wf, of "unat (flex_fifo_ring_count ff)" n] d(1)
      by (simp add: flex_fifo_remove_def ff_ring_remove_def node_tags [OF wf] Let_def ff_items_def
          remove1_append distinct_remove1_removeAll removeAll_filter_not_eq)
        (metis (mono_tags, lifting) filter_cong)
  next
    case list
    then show ?thesis using ff_do_list_remove_wf [OF wf, of n]
      by (simp add: flex_fifo_remove_def ff_ring_remove_def ff_list_remove_def node_tags [OF wf])
        (simp add: ff_items_def remove1_append)
  next
    case out
    then show ?thesis using wf
      by (simp add: flex_fifo_remove_def ff_ring_remove_def ff_list_remove_def node_tags [OF wf] remove1_idem)
        (simp add: ff_items_def)
  qed
  then show "fst (flex_fifo_remove ff n) = (if n \<in> set (ff_items ff) then 0 else -1)"
    "ff_items (snd (flex_fifo_remove ff n)) = remove1 n (ff_items ff)"
    "ff_wf (snd (flex_fifo_remove ff n))" by auto
qed

lemma flex_fifo_count_items:
  "ff_wf ff \<Longrightarrow> flex_fifo_count ff = of_nat (length (ff_items ff))"
  by (simp add: flex_fifo_count_def flex_fifo_list_count_def ff_wfD(9) ff_items_def)

lemma flex_fifo_create_wf:
  assumes "flex_fifo_create (Some ring) (\<lambda>_. PrevIdx 0) (of_nat (2 ^ k)) = Some ff"
    and "length ring = 2 ^ k" "k \<le> 16"
  shows "ff_wf ff" "ff_items ff = []"
proof -
  have le: "(2::nat) ^ k \<le> 65536" using power_increasing [of k 16 "2::nat"] assms(3) by simp
  have f: "ff = \<lparr>ff_list_size = 0, ff_list = [], ff_ring_total = 0, ff_list_total = 0,
      ff_write = 0, ff_read = 0, ff_mask = of_nat (2 ^ k) - 1, ff_size = of_nat (2 ^ k),
      ff_ring = ring, ff_prev = \<lambda>_. PrevIdx 0\<rparr>"
    using assms(1) by (simp only: flex_fifo_create_def option.case split: if_splits) auto
  then show it: "ff_items ff = []" by (simp add: ff_items_def ff_ring_items_def flex_fifo_ring_count_def)
  have "ring_ok (ff_mask ff) (ff_ring ff)"
    unfolding ring_ok_def f using assms(2,3) by (auto intro!: exI [of _ k])
  moreover have "unat (of_nat (2 ^ k) :: u32) = 2 ^ k" using le by (intro unat_of_nat_small) simp
  ultimately show "ff_wf ff" using it le assms(2)
    by (simp add: ff_wf_def f ff_ring_items_def flex_fifo_ring_count_def RING_MAX_SIZE_def)
qed

section \<open>The interface the users of a queue rely on\<close>

text \<open>
  A user pushes a node that may already be queued (\<open>flex_fifo_push_if_not_exist\<close>), pops the next
  node and removes a node from the middle. \<open>fifo_spec\<close> says what that does to a list.
\<close>

datatype 'n fifo_op = FPush 'n | FPop | FRemove 'n

fun fifo_spec :: "'n list \<Rightarrow> 'n fifo_op list \<Rightarrow> 'n option list \<times> 'n list" where
  "fifo_spec q [] = ([], q)"
| "fifo_spec q (FPush n # ops) = fifo_spec (if n \<in> set q then q else q @ [n]) ops"
| "fifo_spec q (FPop # ops) =
     (let (out, q1) = fifo_spec (tl q) ops in ((if q = [] then None else Some (hd q)) # out, q1))"
| "fifo_spec q (FRemove n # ops) = fifo_spec (remove1 n q) ops"

fun fifo_run ::
  "('q \<Rightarrow> 'n \<Rightarrow> 'q) \<Rightarrow> ('q \<Rightarrow> 'n option \<times> 'q) \<Rightarrow> ('q \<Rightarrow> 'n \<Rightarrow> int \<times> 'q) \<Rightarrow>
   'q \<Rightarrow> 'n fifo_op list \<Rightarrow> 'n option list \<times> 'q" where
  "fifo_run push pop rem q [] = ([], q)"
| "fifo_run push pop rem q (FPush n # ops) = fifo_run push pop rem (push q n) ops"
| "fifo_run push pop rem q (FPop # ops) =
     (let (x, q1) = pop q; (out, q2) = fifo_run push pop rem q1 ops in (x # out, q2))"
| "fifo_run push pop rem q (FRemove n # ops) = fifo_run push pop rem (snd (rem q n)) ops"

locale node_fifo =
  fixes inv :: "'q \<Rightarrow> bool"
    and items :: "'q \<Rightarrow> 'n list"
    and push :: "'q \<Rightarrow> 'n \<Rightarrow> 'q"
    and pop :: "'q \<Rightarrow> 'n option \<times> 'q"
    and rem :: "'q \<Rightarrow> 'n \<Rightarrow> int \<times> 'q"
  assumes items_distinct: "inv q \<Longrightarrow> distinct (items q)"
    and push_law: "inv q \<Longrightarrow> inv (push q n) \<and>
          items (push q n) = (if n \<in> set (items q) then items q else items q @ [n])"
    and pop_law: "inv q \<Longrightarrow> inv (snd (pop q)) \<and> items (snd (pop q)) = tl (items q) \<and>
          fst (pop q) = (if items q = [] then None else Some (hd (items q)))"
    and rem_law: "inv q \<Longrightarrow> inv (snd (rem q n)) \<and> items (snd (rem q n)) = remove1 n (items q)"
begin

lemma run_refines:
  "inv q \<Longrightarrow> inv (snd (fifo_run push pop rem q ops)) \<and>
     fifo_spec (items q) ops =
       (fst (fifo_run push pop rem q ops), items (snd (fifo_run push pop rem q ops)))"
proof (induction ops arbitrary: q)
  case Nil
  then show ?case by simp
next
  case (Cons op ops)
  then show ?case
  proof (cases op)
    case (FPush n)
    then show ?thesis using Cons.IH [of "push q n"] push_law [OF Cons.prems, of n] by simp
  next
    case FPop
    then show ?thesis using Cons.IH [of "snd (pop q)"] pop_law [OF Cons.prems]
      by (simp add: split_beta Let_def)
  next
    case (FRemove n)
    then show ?thesis using Cons.IH [of "snd (rem q n)"] rem_law [OF Cons.prems, of n] by simp
  qed
qed

lemma run_distinct: "inv q \<Longrightarrow> distinct (items (snd (fifo_run push pop rem q ops)))"
  using run_refines items_distinct by blast

end

interpretation ffi: node_fifo ff_wf ff_items flex_fifo_push_if_not_exist flex_fifo_pop flex_fifo_remove
proof
  fix q :: "'a flex_fifo" and n :: 'a
  assume wf: "ff_wf q"
  show "distinct (ff_items q)" by (rule ff_wfD(5) [OF wf])
  show "ff_wf (flex_fifo_push_if_not_exist q n) \<and> ff_items (flex_fifo_push_if_not_exist q n) =
      (if n \<in> set (ff_items q) then ff_items q else ff_items q @ [n])"
    using flex_fifo_push_items [OF wf] wf by (simp add: flex_fifo_push_if_not_exist_eq)
  show "ff_wf (snd (flex_fifo_pop q)) \<and> ff_items (snd (flex_fifo_pop q)) = tl (ff_items q) \<and>
      fst (flex_fifo_pop q) = (if ff_items q = [] then None else Some (hd (ff_items q)))"
    using flex_fifo_pop_items [OF wf] wf by (cases "ff_items q") auto
  show "ff_wf (snd (flex_fifo_remove q n)) \<and> ff_items (snd (flex_fifo_remove q n)) = remove1 n (ff_items q)"
    using flex_fifo_remove_items [OF wf] by blast
qed

text \<open>C19: a flex_fifo behaves as a list of distinct nodes: whatever sequence of
  push-if-not-exist, pop and remove is run on it, the popped nodes and the nodes left are those
  of the list specification, wherever the ring wraps and however nodes spill to the list.\<close>

theorem flex_fifo_refines_list:
  assumes "ff_wf ff"
  shows "fifo_spec (ff_items ff) ops =
      (fst (fifo_run flex_fifo_push_if_not_exist flex_fifo_pop flex_fifo_remove ff ops),
       ff_items (snd (fifo_run flex_fifo_push_if_not_exist flex_fifo_pop flex_fifo_remove ff ops)))"
  using ffi.run_refines [OF assms] by blast

definition ff_example :: "nat flex_fifo" where
  "ff_example = the (flex_fifo_create (Some [0, 0]) (\<lambda>_. PrevIdx 0) 2)"

lemma ff_example_wf: "ff_wf ff_example" "ff_items ff_example = []"
  using flex_fifo_create_wf [of "[0, 0 :: nat]" 1 ff_example]
  by (simp_all add: ff_example_def flex_fifo_create_def RING_MAX_SIZE_def)

lemma flex_fifo_refines_list_witness:
  "fst (fifo_run flex_fifo_push_if_not_exist flex_fifo_pop flex_fifo_remove ff_example
     [FPush 5, FPush 6, FPush 7, FPush 5, FRemove 6, FPop, FPop, FPop]) = [Some 5, Some 7, None]"
  using flex_fifo_refines_list [OF ff_example_wf(1), of
      "[FPush 5, FPush 6, FPush 7, FPush 5, FRemove 6, FPop, FPop, FPop]"]
  by (simp add: ff_example_wf(2))

end
