(* ===== verification/Tx_Desc.thy ===== *)
theory Tx_Desc
  imports Tpa_Prelude
begin

text \<open>
  \<open>include/tx_desc.h\<close>: the descriptors of data waiting to be acknowledged and the stack
  allocator that hands them out. A descriptor is named by its index in the array that
  \<open>tx_desc_pool_create\<close> allocates. The theory shows that the allocator is a stack and that no
  descriptor is handed out twice before it is returned.
\<close>

section \<open>Descriptors\<close>

definition TX_DESC_FLAG_MEM_FROM_MBUF :: u32 where "TX_DESC_FLAG_MEM_FROM_MBUF = 1"
definition TX_DESC_FLAG_MEASURE_LATENCY :: u32 where "TX_DESC_FLAG_MEASURE_LATENCY = 2"
definition TX_DESC_FLAG_RETRANS :: u32 where "TX_DESC_FLAG_RETRANS = 4"
definition TX_DESC_FLAG_SACKED :: u32 where "TX_DESC_FLAG_SACKED = 8"

lemmas tx_desc_flag_defs = TX_DESC_FLAG_MEM_FROM_MBUF_def TX_DESC_FLAG_MEASURE_LATENCY_def
  TX_DESC_FLAG_RETRANS_def TX_DESC_FLAG_SACKED_def

text \<open>Addresses are 64-bit numbers; \<open>desc_write_done\<close> names the completion callback, if any;
  \<open>desc_pkt\<close> is the packet that holds the data of a write that is not zero copy.\<close>

record tx_desc =
  desc_addr :: u64
  desc_phys_addr :: u64
  desc_len :: u32
  desc_flags :: u32
  desc_write_done :: "nat option"
  desc_base :: u64
  desc_param :: u64
  desc_seq :: u32
  desc_ts_us :: u64
  desc_tsc_start :: u64
  desc_tsc_submit :: u64
  desc_tsc_xmit :: u64
  desc_pkt :: "nat option"

section \<open>The pool\<close>

record tx_desc_pool =
  pool_nr_desc :: u32
  pool_off :: u32
  pool_descs :: "nat list"

definition tx_desc_alloc :: "tx_desc_pool \<Rightarrow> nat option \<times> tx_desc_pool" where
  "tx_desc_alloc p =
     (if pool_off p = 0 then (None, p)
      else (let off = pool_off p - 1 in (Some (pool_descs p ! unat off), p\<lparr>pool_off := off\<rparr>)))"

definition tx_desc_free :: "tx_desc_pool \<Rightarrow> nat \<Rightarrow> tx_desc_pool" where
  "tx_desc_free p d =
     p\<lparr>pool_descs := (pool_descs p)[unat (pool_off p) := d], pool_off := pool_off p + 1\<rparr>"

definition tx_desc_pool_free_count :: "tx_desc_pool \<Rightarrow> u32" where
  "tx_desc_pool_free_count p = pool_off p"

text \<open>\<open>mem\<close> is the pointer array that the first \<open>rte_malloc\<close> returns and \<open>ok\<close> says whether the
  second one, for the descriptors, succeeds.\<close>

definition tx_desc_pool_create :: "nat list option \<Rightarrow> bool \<Rightarrow> nat \<Rightarrow> tx_desc_pool option" where
  "tx_desc_pool_create mem ok nr_desc =
     (case mem of
        None \<Rightarrow> None
      | Some descs \<Rightarrow>
          if \<not> ok then None
          else Some (fold (\<lambda>i p. tx_desc_free p i) [0..<nr_desc]
                 \<lparr>pool_nr_desc = of_nat nr_desc, pool_off = 0, pool_descs = descs\<rparr>))"

section \<open>The pool as a stack\<close>

definition pool_free :: "tx_desc_pool \<Rightarrow> nat list" where
  "pool_free p = take (unat (pool_off p)) (pool_descs p)"

definition pool_wf :: "tx_desc_pool \<Rightarrow> bool" where
  "pool_wf p \<longleftrightarrow> length (pool_descs p) = unat (pool_nr_desc p) \<and>
     unat (pool_off p) \<le> length (pool_descs p)"

lemma pool_wf_off: "pool_wf p \<Longrightarrow> length (pool_free p) = unat (pool_off p)"
  by (simp add: pool_wf_def pool_free_def)

lemma tx_desc_alloc_empty: "pool_wf p \<Longrightarrow> tx_desc_alloc p = (None, p) \<longleftrightarrow> pool_free p = []"
  by (auto simp: tx_desc_alloc_def pool_free_def pool_wf_def Let_def unat_eq_0)

lemma tx_desc_alloc_pop:
  assumes wf: "pool_wf p" and ne: "pool_free p \<noteq> []"
  obtains p' where "tx_desc_alloc p = (Some (last (pool_free p)), p')" "pool_wf p'"
    "pool_free p' = butlast (pool_free p)" "pool_nr_desc p' = pool_nr_desc p"
proof -
  let ?o = "unat (pool_off p)" and ?p = "p\<lparr>pool_off := pool_off p - 1\<rparr>"
  have pos: "0 < ?o" using ne by (cases "?o") (auto simp: pool_free_def)
  then have u: "unat (pool_off p - 1) = ?o - 1" by (simp add: unat_diff_le)
  have le: "?o \<le> length (pool_descs p)" using wf by (simp add: pool_wf_def)
  have "pool_off p \<noteq> 0" using pos by auto
  moreover have "pool_descs p ! (?o - 1) = last (pool_free p)"
    using pos le ne by (simp add: last_conv_nth [OF ne] pool_wf_off [OF wf]) (simp add: pool_free_def)
  ultimately have "tx_desc_alloc p = (Some (last (pool_free p)), ?p)"
    by (simp add: tx_desc_alloc_def Let_def u)
  moreover have "pool_wf ?p" using wf le by (simp add: pool_wf_def u)
  moreover have "pool_free ?p = butlast (pool_free p)"
    using le by (simp add: pool_free_def u butlast_take)
  ultimately show thesis by (rule that) simp
qed

lemma tx_desc_free_push:
  assumes wf: "pool_wf p" and room: "length (pool_free p) < unat (pool_nr_desc p)"
  shows "pool_wf (tx_desc_free p d)" "pool_free (tx_desc_free p d) = pool_free p @ [d]"
    "pool_nr_desc (tx_desc_free p d) = pool_nr_desc p"
proof -
  have lt: "unat (pool_off p) < length (pool_descs p)"
    using wf room by (simp add: pool_wf_off) (simp add: pool_wf_def)
  have "unat (pool_off p) + 1 < 2 ^ LENGTH(32)"
    using lt wf unsigned_less [of "pool_nr_desc p", where ?'a = nat] by (simp add: pool_wf_def)
  then have u: "unat (pool_off p + 1) = unat (pool_off p) + 1"
    using unat_add_small [of "pool_off p" 1] by simp
  show "pool_wf (tx_desc_free p d)" using wf lt by (simp add: tx_desc_free_def pool_wf_def u)
  show "pool_free (tx_desc_free p d) = pool_free p @ [d]"
    using lt by (simp add: tx_desc_free_def pool_free_def u take_Suc_conv_app_nth)
  show "pool_nr_desc (tx_desc_free p d) = pool_nr_desc p" by (simp add: tx_desc_free_def)
qed

lemma tx_desc_pool_create_free:
  assumes "tx_desc_pool_create (Some mem) True n = Some p" "length mem = n" "n < 2 ^ 32"
  shows "pool_wf p" "pool_free p = [0..<n]" "unat (pool_nr_desc p) = n"
proof -
  let ?init = "\<lparr>pool_nr_desc = of_nat n, pool_off = 0, pool_descs = mem\<rparr>"
  have un: "unat (of_nat n :: u32) = n" using assms(3) by (intro unat_of_nat_small) simp
  have step: "k \<le> n \<Longrightarrow> pool_wf (fold (\<lambda>i p. tx_desc_free p i) [0..<k] ?init) \<and>
      pool_free (fold (\<lambda>i p. tx_desc_free p i) [0..<k] ?init) = [0..<k] \<and>
      unat (pool_nr_desc (fold (\<lambda>i p. tx_desc_free p i) [0..<k] ?init)) = n" for k
  proof (induction k)
    case 0
    show ?case using assms(2) un by (simp add: pool_wf_def pool_free_def)
  next
    case (Suc k)
    then show ?case using tx_desc_free_push [of "fold (\<lambda>i p. tx_desc_free p i) [0..<k] ?init" k] by simp
  qed
  have p: "p = fold (\<lambda>i p. tx_desc_free p i) [0..<n] ?init"
    using assms(1) by (simp add: tx_desc_pool_create_def)
  show "pool_wf p" "pool_free p = [0..<n]" "unat (pool_nr_desc p) = n"
    unfolding p using step [of n] by simp_all
qed

section \<open>Allocation histories\<close>

text \<open>A client allocates and returns descriptors it holds; \<open>held\<close> lists what it holds.\<close>

inductive pool_steps :: "tx_desc_pool \<Rightarrow> nat list \<Rightarrow> tx_desc_pool \<Rightarrow> nat list \<Rightarrow> bool" where
  pool_refl: "pool_steps p held p held"
| pool_alloc: "pool_steps p held q h \<Longrightarrow> tx_desc_alloc q = (Some d, q') \<Longrightarrow>
     pool_steps p held q' (d # h)"
| pool_release: "pool_steps p held q h \<Longrightarrow> d \<in> set h \<Longrightarrow>
     pool_steps p held (tx_desc_free q d) (remove1 d h)"

lemma pool_steps_conserve:
  assumes "pool_steps p held q h" "pool_wf p" "length (pool_free p @ held) \<le> unat (pool_nr_desc p)"
  shows "pool_wf q \<and> pool_nr_desc q = pool_nr_desc p \<and>
    mset (pool_free q @ h) = mset (pool_free p @ held)"
  using assms
proof (induction rule: pool_steps.induct)
  case (pool_refl p held)
  then show ?case by simp
next
  case (pool_alloc p held q h d q')
  then have IH: "pool_wf q" "pool_nr_desc q = pool_nr_desc p" "mset (pool_free q @ h) = mset (pool_free p @ held)"
    by simp_all
  have ne: "pool_free q \<noteq> []" using pool_alloc.hyps(2) tx_desc_alloc_empty [OF IH(1)] by auto
  obtain q1 where q1: "tx_desc_alloc q = (Some (last (pool_free q)), q1)" "pool_wf q1"
    "pool_free q1 = butlast (pool_free q)" "pool_nr_desc q1 = pool_nr_desc q"
    using tx_desc_alloc_pop [OF IH(1) ne] by metis
  have "mset (pool_free q) = add_mset (last (pool_free q)) (mset (butlast (pool_free q)))"
    using ne by (metis append_butlast_last_id add_mset_add_single mset.simps mset_append)
  then show ?case using q1 pool_alloc.hyps(2) IH by auto
next
  case (pool_release p held q h d)
  then have IH: "pool_wf q" "pool_nr_desc q = pool_nr_desc p" "mset (pool_free q @ h) = mset (pool_free p @ held)"
    by simp_all
  have "length (pool_free q @ h) = length (pool_free p @ held)" using IH(3) by (metis size_mset)
  then have "length (pool_free q) < unat (pool_nr_desc q)"
    using pool_release.prems(2) IH(2) length_pos_if_in_set [OF pool_release.hyps(2)]
    by (simp only: length_append)
  note f = tx_desc_free_push [OF IH(1) this, of d]
  have "mset h = add_mset d (mset (remove1 d h))" using pool_release.hyps(2) by simp
  then show ?case using f IH by simp
qed

text \<open>C22: starting from a pool that \<open>tx_desc_pool_create\<close> made, whatever a client
  allocates and returns, no descriptor is both free and held, none is held twice, and none is
  lost: the free and the held descriptors are together exactly the descriptors of the pool.\<close>

theorem tx_desc_pool_exclusive:
  assumes "tx_desc_pool_create (Some mem) True n = Some p" "length mem = n" "n < 2 ^ 32"
    and "pool_steps p [] q held"
  shows "distinct (pool_free q @ held) \<and> set (pool_free q @ held) = {0..<n}"
proof -
  note c = tx_desc_pool_create_free [OF assms(1-3)]
  have m: "mset (pool_free q @ held) = mset [0..<n]"
    using pool_steps_conserve [OF assms(4) c(1)] c by simp
  show ?thesis using mset_eq_setD [OF m] mset_eq_imp_distinct_iff [OF m] by simp
qed

lemma tx_desc_pool_exclusive_witness:
  "\<exists>p q. tx_desc_pool_create (Some [0, 0]) True 2 = Some p \<and> pool_steps p [] q [0, 1] \<and>
     distinct (pool_free q @ [0, 1]) \<and> set (pool_free q @ [0, 1 :: nat]) = {0..<2}"
proof -
  obtain p where p: "tx_desc_pool_create (Some [0, 0]) True 2 = Some p"
    by (simp add: tx_desc_pool_create_def)
  let ?q = "\<lparr>pool_nr_desc = 2, pool_off = 0, pool_descs = [0, 1 :: nat]\<rparr>"
  have pq: "p = \<lparr>pool_nr_desc = 2, pool_off = 2, pool_descs = [0, 1]\<rparr>"
    using p by (simp add: tx_desc_pool_create_def tx_desc_free_def upt_rec)
  have "pool_steps p [] \<lparr>pool_nr_desc = 2, pool_off = 1, pool_descs = [0, 1]\<rparr> [1]"
    by (rule pool_alloc [OF pool_refl]) (simp add: pq tx_desc_alloc_def Let_def)
  then have s: "pool_steps p [] ?q [0, 1]"
    by (rule pool_alloc) (simp add: tx_desc_alloc_def Let_def)
  show ?thesis using tx_desc_pool_exclusive [OF p _ _ s] p s by auto
qed

end
