(* ===== verification/Timer.thy ===== *)
theory Timer
  imports Tpa_Prelude
begin

text \<open>
  \<open>include/timer.h\<close>: the timer wheel of a worker, 2048 slots of 100 ms. A timer is named by a
  value of type \<open>'t\<close>; \<open>tc_timers\<close> holds the struct of every timer, \<open>tc_slots\<close> the TAILQ of every
  slot. The callbacks are a parameter of \<open>timer_process\<close>: they change a state \<open>'w\<close> of which the
  wheel is a part. The theory shows that the slots and the timer structs stay consistent, when a
  started timer fires, and that processing returns.
\<close>

section \<open>Timers and slots\<close>

definition NR_SLOT :: nat where "NR_SLOT = 2048"
definition SLOT_MASK :: u32 where "SLOT_MASK = 2047"
definition GRAGNULARITY :: u64 where "GRAGNULARITY = 100000"

record timer =
  tm_slot_idx :: u32
  tm_active :: bool
  tm_closed :: bool

record 't timer_ctrl =
  tc_next_run :: u64
  tc_last_run :: u64
  tc_curr_slot_idx :: u32
  tc_slots :: "nat \<Rightarrow> 't list"
  tc_timers :: "'t \<Rightarrow> timer"

definition timer_is_stopped :: "'t timer_ctrl \<Rightarrow> 't \<Rightarrow> bool" where
  "timer_is_stopped tc t = (\<not> tm_active (tc_timers tc t))"

definition timer_stop :: "'t timer_ctrl \<Rightarrow> 't \<Rightarrow> 't timer_ctrl" where
  "timer_stop tc t =
     (if timer_is_stopped tc t then tc
      else (let s = unat (tm_slot_idx (tc_timers tc t))
            in tc\<lparr>tc_slots := (tc_slots tc)(s := remove1 t (tc_slots tc s)),
                  tc_timers := (tc_timers tc)(t := (tc_timers tc t)\<lparr>tm_active := False\<rparr>)\<rparr>))"

definition timer_close :: "'t timer_ctrl \<Rightarrow> 't \<Rightarrow> 't timer_ctrl" where
  "timer_close tc t =
     (let tc1 = timer_stop tc t
      in tc1\<lparr>tc_timers := (tc_timers tc1)(t := (tc_timers tc1 t)\<lparr>tm_closed := True\<rparr>)\<rparr>)"

text \<open>\<open>slot_off\<close>: the quotient is computed in 64 bits and then stored in an \<open>int\<close>.\<close>

definition timer_slot_off :: "'t timer_ctrl \<Rightarrow> u64 \<Rightarrow> u64 \<Rightarrow> u32" where
  "timer_slot_off tc now expire =
     (let e = (if expire = 0 then 1 else expire);
          off = ucast ((now + e - tc_last_run tc + GRAGNULARITY - 1) div GRAGNULARITY) :: u32
      in if sint off > int NR_SLOT then of_nat NR_SLOT else off)"

definition timer_start :: "'t timer_ctrl \<Rightarrow> 't \<Rightarrow> u64 \<Rightarrow> u64 \<Rightarrow> 't timer_ctrl" where
  "timer_start tc t now expire =
     (let slot_idx = (timer_slot_off tc now expire + tc_curr_slot_idx tc) AND SLOT_MASK
      in if \<not> timer_is_stopped tc t \<and> slot_idx = tm_slot_idx (tc_timers tc t) then tc
         else (let tc1 = timer_stop tc t; s = unat slot_idx
               in tc1\<lparr>tc_slots := (tc_slots tc1)(s := tc_slots tc1 s @ [t]),
                      tc_timers := (tc_timers tc1)(t := (tc_timers tc1 t)
                        \<lparr>tm_slot_idx := slot_idx, tm_active := True\<rparr>)\<rparr>))"

definition timer_init :: "'t timer_ctrl \<Rightarrow> 't \<Rightarrow> 't timer_ctrl" where
  "timer_init tc t =
     tc\<lparr>tc_timers := (tc_timers tc)(t := \<lparr>tm_slot_idx = 0, tm_active = False, tm_closed = False\<rparr>)\<rparr>"

definition timer_ctrl_init :: "('t \<Rightarrow> timer) \<Rightarrow> u64 \<Rightarrow> 't timer_ctrl" where
  "timer_ctrl_init timers now =
     \<lparr>tc_next_run = now + GRAGNULARITY, tc_last_run = now, tc_curr_slot_idx = 0,
      tc_slots = (\<lambda>_. []), tc_timers = timers\<rparr>"

section \<open>Processing\<close>

definition timer_tick :: "'t timer_ctrl \<Rightarrow> 't timer_ctrl" where
  "timer_tick tc =
     tc\<lparr>tc_last_run := tc_last_run tc + GRAGNULARITY, tc_next_run := tc_next_run tc + GRAGNULARITY,
        tc_curr_slot_idx := tc_curr_slot_idx tc + 1\<rparr>"

definition curr_slot :: "'t timer_ctrl \<Rightarrow> 't list" where
  "curr_slot tc = tc_slots tc (unat (tc_curr_slot_idx tc AND SLOT_MASK))"

text \<open>The inner loop takes timers from the current slot until it is empty, the outer loop
  advances the wheel; \<open>nr\<close> counts the expired timers. Either loop may run forever, then the
  value is \<open>None\<close>.\<close>

partial_function (option) timer_fire_slot ::
  "('w \<Rightarrow> 't timer_ctrl) \<Rightarrow> ('t timer_ctrl \<Rightarrow> 'w \<Rightarrow> 'w) \<Rightarrow> ('t \<Rightarrow> 'w \<Rightarrow> 'w) \<Rightarrow>
   'w \<Rightarrow> nat \<Rightarrow> ('w \<times> nat) option" where
  "timer_fire_slot get put cb w nr =
     (case curr_slot (get w) of
        [] \<Rightarrow> Some (w, nr)
      | t # _ \<Rightarrow> timer_fire_slot get put cb (cb t (put (timer_stop (get w) t) w)) (nr + 1))"

partial_function (option) timer_process ::
  "('w \<Rightarrow> 't timer_ctrl) \<Rightarrow> ('t timer_ctrl \<Rightarrow> 'w \<Rightarrow> 'w) \<Rightarrow> ('t \<Rightarrow> 'w \<Rightarrow> 'w) \<Rightarrow>
   'w \<Rightarrow> u64 \<Rightarrow> nat \<Rightarrow> ('w \<times> nat) option" where
  "timer_process get put cb w now nr =
     (if now \<ge> tc_next_run (get w)
      then (case timer_fire_slot get put cb (put (timer_tick (get w)) w) nr of
              None \<Rightarrow> None
            | Some (w1, nr1) \<Rightarrow> timer_process get put cb w1 now nr1)
      else Some (w, nr))"

section \<open>Consistency of the wheel\<close>

definition timer_wf :: "'t timer_ctrl \<Rightarrow> bool" where
  "timer_wf tc \<longleftrightarrow>
     (\<forall>t s. t \<in> set (tc_slots tc s) \<longleftrightarrow>
        tm_active (tc_timers tc t) \<and> s = unat (tm_slot_idx (tc_timers tc t))) \<and>
     (\<forall>s. distinct (tc_slots tc s)) \<and>
     (\<forall>t. tm_active (tc_timers tc t) \<longrightarrow> unat (tm_slot_idx (tc_timers tc t)) < NR_SLOT)"

lemma timer_wfD:
  assumes "timer_wf tc"
  shows "t \<in> set (tc_slots tc s) \<longleftrightarrow>
        tm_active (tc_timers tc t) \<and> s = unat (tm_slot_idx (tc_timers tc t))"
    "distinct (tc_slots tc s)"
    "tm_active (tc_timers tc t) \<Longrightarrow> unat (tm_slot_idx (tc_timers tc t)) < NR_SLOT"
  using assms unfolding timer_wf_def by blast+

lemma timer_ctrl_init_wf:
  "(\<And>t. \<not> tm_active (timers t)) \<Longrightarrow> timer_wf (timer_ctrl_init timers now)"
  by (simp add: timer_wf_def timer_ctrl_init_def)

lemma timer_stop_wf:
  assumes "timer_wf tc"
  shows "timer_wf (timer_stop tc t)" "timer_is_stopped (timer_stop tc t) t"
    "t \<notin> set (tc_slots (timer_stop tc t) s)"
    "t' \<noteq> t \<Longrightarrow> tc_timers (timer_stop tc t) t' = tc_timers tc t'"
proof -
  show w: "timer_wf (timer_stop tc t)"
    using assms by (simp add: timer_stop_def timer_wf_def Let_def)
  show s: "timer_is_stopped (timer_stop tc t) t"
    by (simp add: timer_stop_def timer_is_stopped_def Let_def)
  show "t \<notin> set (tc_slots (timer_stop tc t) s)"
    using timer_wfD(1) [OF w, of t s] s by (simp add: timer_is_stopped_def)
  show "t' \<noteq> t \<Longrightarrow> tc_timers (timer_stop tc t) t' = tc_timers tc t'"
    by (simp add: timer_stop_def Let_def)
qed

lemma timer_stop_fields [simp]:
  "tc_last_run (timer_stop tc t) = tc_last_run tc" "tc_next_run (timer_stop tc t) = tc_next_run tc"
  "tc_curr_slot_idx (timer_stop tc t) = tc_curr_slot_idx tc"
  by (simp_all add: timer_stop_def Let_def)

lemma timer_start_fields [simp]:
  "tc_last_run (timer_start tc t now e) = tc_last_run tc"
  "tc_next_run (timer_start tc t now e) = tc_next_run tc"
  "tc_curr_slot_idx (timer_start tc t now e) = tc_curr_slot_idx tc"
  by (simp_all add: timer_start_def Let_def)

lemma unat_slot_mask: "unat (i AND SLOT_MASK) = unat i mod NR_SLOT"
proof -
  have "SLOT_MASK = mask 11" by (simp add: SLOT_MASK_def mask_eq_exp_minus_1)
  then show ?thesis using unat_and_mask [of i 11] by (simp add: NR_SLOT_def)
qed

lemma timer_start_active:
  "tm_active (tc_timers (timer_start tc t now e) t)"
  "tm_slot_idx (tc_timers (timer_start tc t now e) t) =
     (timer_slot_off tc now e + tc_curr_slot_idx tc) AND SLOT_MASK"
  "t' \<noteq> t \<Longrightarrow> tc_timers (timer_start tc t now e) t' = tc_timers tc t'"
  by (auto simp: timer_start_def timer_stop_def timer_is_stopped_def Let_def)

lemma timer_start_wf:
  assumes "timer_wf tc"
  shows "timer_wf (timer_start tc t now e)"
proof -
  let ?i = "(timer_slot_off tc now e + tc_curr_slot_idx tc) AND SLOT_MASK"
  let ?tc1 = "timer_stop tc t"
  note w = timer_stop_wf [OF assms, of t]
  have lt: "unat ?i < NR_SLOT" by (simp add: unat_slot_mask NR_SLOT_def)
  show ?thesis
  proof (cases "\<not> timer_is_stopped tc t \<and> ?i = tm_slot_idx (tc_timers tc t)")
    case True
    then show ?thesis using assms by (simp add: timer_start_def)
  next
    case False
    then have eq: "timer_start tc t now e =
      ?tc1\<lparr>tc_slots := (tc_slots ?tc1)(unat ?i := tc_slots ?tc1 (unat ?i) @ [t]),
           tc_timers := (tc_timers ?tc1)(t := (tc_timers ?tc1 t)\<lparr>tm_slot_idx := ?i, tm_active := True\<rparr>)\<rparr>"
      by (simp only: timer_start_def Let_def if_False)
    show ?thesis unfolding eq timer_wf_def using w(3) timer_wfD [OF w(1)] lt by auto
  qed
qed

lemma timer_close_wf: "timer_wf tc \<Longrightarrow> timer_wf (timer_close tc t)"
  using timer_stop_wf(1) [of tc t] by (simp add: timer_close_def timer_wf_def Let_def)

section \<open>When a started timer fires\<close>

abbreviation gran :: nat where "gran \<equiv> 100000"

text \<open>The distance from the last run of the wheel to the expiry, and the slot offset in slots.\<close>

definition timer_dist :: "'t timer_ctrl \<Rightarrow> u64 \<Rightarrow> u64 \<Rightarrow> nat" where
  "timer_dist tc now expire = unat now + max 1 (unat expire) - unat (tc_last_run tc)"

definition timer_ticks :: "'t timer_ctrl \<Rightarrow> u64 \<Rightarrow> u64 \<Rightarrow> nat" where
  "timer_ticks tc now expire = (timer_dist tc now expire + (gran - 1)) div gran"

lemma timer_ticks_bounds:
  "timer_dist tc now e \<le> timer_ticks tc now e * gran"
  "timer_ticks tc now e * gran < timer_dist tc now e + gran"
proof -
  let ?d = "timer_dist tc now e"
  have d: "(?d + 99999) div gran * gran + (?d + 99999) mod gran = ?d + 99999" by (rule div_mult_mod_eq)
  moreover have "(?d + 99999) mod gran < gran" by simp
  ultimately show "?d \<le> timer_ticks tc now e * gran" "timer_ticks tc now e * gran < ?d + gran"
    unfolding timer_ticks_def by simp_all
qed

lemma timer_slot_off_eq:
  assumes "unat (tc_last_run tc) \<le> unat now" "unat now + max 1 (unat expire) + gran < 2 ^ 64"
    and "timer_ticks tc now expire \<le> NR_SLOT"
  shows "timer_slot_off tc now expire = of_nat (timer_ticks tc now expire)"
proof -
  let ?e = "if expire = 0 then 1 else expire" and ?l = "tc_last_run tc" and ?n = "timer_ticks tc now expire"
  have e: "unat ?e = max 1 (unat expire)" using unat_gt_0 [of expire] by auto
  have s1: "unat (now + ?e) = unat now + max 1 (unat expire)"
    using assms(2) by (subst unat_add_small) (simp_all add: e)
  have s2: "unat (now + ?e - ?l) = timer_dist tc now expire"
    using assms(1) by (subst unat_diff_le) (simp_all add: s1 timer_dist_def)
  have k: "unat (GRAGNULARITY - 1) = gran - 1" by (simp add: GRAGNULARITY_def)
  have "unat (now + ?e - ?l + (GRAGNULARITY - 1)) = timer_dist tc now expire + (gran - 1)"
    using assms(2) by (subst unat_add_small) (simp_all add: s2 k timer_dist_def)
  then have "unat ((now + ?e - ?l + (GRAGNULARITY - 1)) div GRAGNULARITY) = ?n"
    by (simp add: unat_div timer_ticks_def GRAGNULARITY_def)
  then have q: "(now + ?e - ?l + (GRAGNULARITY - 1)) div GRAGNULARITY = of_nat ?n"
    by (rule word_eq_of_nat)
  have small: "?n < 2 ^ 31" using assms(3) by (simp add: NR_SLOT_def)
  then have c: "ucast (of_nat ?n :: u64) = (of_nat ?n :: u32)" by (intro ucast_of_nat_small) simp
  have si: "sint (of_nat ?n :: u32) = int ?n"
    using small by (simp add: signed_of_nat signed_take_bit_int_eq_self)
  have as: "now + ?e - ?l + GRAGNULARITY - 1 = now + ?e - ?l + (GRAGNULARITY - 1)"
    by (rule add_diff_eq [symmetric])
  show ?thesis unfolding timer_slot_off_def Let_def as q c si using assms(3) by auto
qed

text \<open>What \<open>timer_process\<close> relies on: \<open>get\<close> and \<open>put\<close> read and replace the wheel of the state;
  \<open>obs\<close> reads from the state the list of callbacks run so far; a callback keeps the wheel
  consistent, does not advance it, puts no timer in the slot being processed, and does not touch
  another timer \<open>t\<close>.\<close>

definition timer_cb_ok ::
  "('w \<Rightarrow> 't timer_ctrl) \<Rightarrow> ('t timer_ctrl \<Rightarrow> 'w \<Rightarrow> 'w) \<Rightarrow> ('t \<Rightarrow> 'w \<Rightarrow> 'w) \<Rightarrow> ('w \<Rightarrow> 't list) \<Rightarrow> 't \<Rightarrow> bool" where
  "timer_cb_ok get put cb obs t \<longleftrightarrow>
     (\<forall>tc w. get (put tc w) = tc \<and> obs (put tc w) = obs w) \<and>
     (\<forall>t' w. obs (cb t' w) = obs w @ [t']) \<and>
     (\<forall>t' w. timer_wf (get w) \<longrightarrow> timer_wf (get (cb t' w)) \<and>
        tc_curr_slot_idx (get (cb t' w)) = tc_curr_slot_idx (get w) \<and>
        tc_last_run (get (cb t' w)) = tc_last_run (get w) \<and>
        tc_next_run (get (cb t' w)) = tc_next_run (get w) \<and>
        set (curr_slot (get (cb t' w))) \<subseteq> set (curr_slot (get w)) \<and>
        (t' \<noteq> t \<longrightarrow> tc_timers (get (cb t' w)) t = tc_timers (get w) t))"

lemma timer_cb_okD:
  assumes "timer_cb_ok get put cb obs t"
  shows "get (put tc w) = tc" "obs (put tc w) = obs w" "obs (cb t' w) = obs w @ [t']"
    "timer_wf (get w) \<Longrightarrow> timer_wf (get (cb t' w))"
    "timer_wf (get w) \<Longrightarrow> tc_curr_slot_idx (get (cb t' w)) = tc_curr_slot_idx (get w)"
    "timer_wf (get w) \<Longrightarrow> tc_last_run (get (cb t' w)) = tc_last_run (get w)"
    "timer_wf (get w) \<Longrightarrow> tc_next_run (get (cb t' w)) = tc_next_run (get w)"
    "timer_wf (get w) \<Longrightarrow> set (curr_slot (get (cb t' w))) \<subseteq> set (curr_slot (get w))"
    "timer_wf (get w) \<Longrightarrow> t' \<noteq> t \<Longrightarrow> tc_timers (get (cb t' w)) t = tc_timers (get w) t"
  using assms unfolding timer_cb_ok_def by blast+

lemma curr_slot_stop:
  assumes "timer_wf tc" "curr_slot tc = t # ts"
  shows "curr_slot (timer_stop tc t) = ts" "t \<notin> set ts" "tm_active (tc_timers tc t)"
proof -
  have "t \<in> set (curr_slot tc)" using assms(2) by simp
  then have a: "tm_active (tc_timers tc t)"
    "unat (tc_curr_slot_idx tc AND SLOT_MASK) = unat (tm_slot_idx (tc_timers tc t))"
    using timer_wfD(1) [OF assms(1)] by (simp_all add: curr_slot_def)
  show "tm_active (tc_timers tc t)" by (rule a)
  show "curr_slot (timer_stop tc t) = ts"
    using a assms(2) by (simp add: curr_slot_def timer_stop_def timer_is_stopped_def Let_def)
  show "t \<notin> set ts" using timer_wfD(2) [OF assms(1)] assms(2) by (metis curr_slot_def distinct.simps(2))
qed

lemma timer_in_curr_slot:
  "timer_wf tc \<Longrightarrow> t \<in> set (curr_slot tc) \<longleftrightarrow> tm_active (tc_timers tc t) \<and>
     unat (tm_slot_idx (tc_timers tc t)) = unat (tc_curr_slot_idx tc) mod NR_SLOT"
  unfolding curr_slot_def by (subst timer_wfD(1)) (simp_all only: unat_slot_mask eq_commute)

lemma timer_fire_slot_empty:
  "curr_slot (get w) = [] \<Longrightarrow> timer_fire_slot get put cb w nr = Some (w, nr)"
  by (subst timer_fire_slot.simps) simp

lemma timer_fire_slot_run:
  assumes cb: "timer_cb_ok get put cb obs t"
  shows "timer_wf (get w) \<Longrightarrow> length (curr_slot (get w)) \<le> m \<Longrightarrow>
    \<exists>w' nr' log. timer_fire_slot get put cb w nr = Some (w', nr') \<and> timer_wf (get w') \<and>
      tc_curr_slot_idx (get w') = tc_curr_slot_idx (get w) \<and> tc_last_run (get w') = tc_last_run (get w) \<and>
      tc_next_run (get w') = tc_next_run (get w) \<and> obs w' = obs w @ log \<and>
      (tm_active (tc_timers (get w) t) \<longrightarrow>
        (if t \<in> set (curr_slot (get w)) then t \<in> set log
         else t \<notin> set log \<and> tc_timers (get w') t = tc_timers (get w) t))"
proof (induction m arbitrary: w nr)
  case 0
  then show ?case by (intro exI [of _ w] exI [of _ nr] exI [of _ "[]"]) (simp add: timer_fire_slot_empty)
next
  case (Suc m)
  show ?case
  proof (cases "curr_slot (get w)")
    case Nil
    then show ?thesis using Suc.prems
      by (intro exI [of _ w] exI [of _ nr] exI [of _ "[]"]) (simp add: timer_fire_slot_empty)
  next
    case (Cons x xs)
    let ?w1 = "put (timer_stop (get w) x) w" and ?w2 = "cb x (put (timer_stop (get w) x) w)"
    have g: "get ?w1 = timer_stop (get w) x" "obs ?w1 = obs w" "obs ?w2 = obs w @ [x]"
      by (simp_all add: timer_cb_okD [OF cb])
    have st: "timer_wf (get ?w1)" "x \<noteq> t \<Longrightarrow> tc_timers (get ?w1) t = tc_timers (get w) t"
      using timer_stop_wf(1,4) [OF Suc.prems(1)] by (simp_all add: g(1))
    note cs = curr_slot_stop [OF Suc.prems(1) Cons]
    have k: "timer_wf (get ?w2)" "tc_curr_slot_idx (get ?w2) = tc_curr_slot_idx (get w)"
      "tc_last_run (get ?w2) = tc_last_run (get w)" "tc_next_run (get ?w2) = tc_next_run (get w)"
      "set (curr_slot (get ?w2)) \<subseteq> set xs" "x \<noteq> t \<Longrightarrow> tc_timers (get ?w2) t = tc_timers (get w) t"
      using timer_cb_okD(4-8) [OF cb st(1), of x] timer_cb_okD(9) [OF cb st(1), of x] st(2)
      unfolding g(1) cs(1) timer_stop_fields by (blast, blast, blast, blast, blast, metis)
    have "distinct (curr_slot (get ?w2))" using timer_wfD(2) [OF k(1)] by (simp add: curr_slot_def)
    then have "length (curr_slot (get ?w2)) \<le> length xs"
      using card_mono [OF finite_set k(5)] card_length [of xs] by (simp add: distinct_card)
    then have "length (curr_slot (get ?w2)) \<le> m" using Suc.prems(2) Cons by simp
    from Suc.IH [OF k(1) this, of "nr + 1"] obtain w' nr' log where
      r: "timer_fire_slot get put cb ?w2 (nr + 1) = Some (w', nr')" "timer_wf (get w')"
      "tc_curr_slot_idx (get w') = tc_curr_slot_idx (get ?w2)" "tc_last_run (get w') = tc_last_run (get ?w2)"
      "tc_next_run (get w') = tc_next_run (get ?w2)" "obs w' = obs ?w2 @ log"
      "tm_active (tc_timers (get ?w2) t) \<longrightarrow> (if t \<in> set (curr_slot (get ?w2)) then t \<in> set log
         else t \<notin> set log \<and> tc_timers (get w') t = tc_timers (get ?w2) t)" by blast
    have run: "timer_fire_slot get put cb w nr = Some (w', nr')"
      using r(1) Cons by (subst timer_fire_slot.simps) simp
    have ob: "obs w' = obs w @ (x # log)" using r(6) g(3) by simp
    have "tm_active (tc_timers (get w) t) \<longrightarrow> (if t \<in> set (curr_slot (get w)) then t \<in> set (x # log)
         else t \<notin> set (x # log) \<and> tc_timers (get w') t = tc_timers (get w) t)"
    proof (cases "x = t")
      case False
      then have eq: "tc_timers (get ?w2) t = tc_timers (get w) t" by (rule k(6))
      have "t \<in> set (curr_slot (get ?w2)) \<longleftrightarrow> t \<in> set (curr_slot (get w))"
        unfolding timer_in_curr_slot [OF k(1)] timer_in_curr_slot [OF Suc.prems(1)] eq k(2) ..
      then show ?thesis using r(7) False unfolding eq by simp
    qed (simp add: Cons)
    note fired = this
    show ?thesis
      by (intro exI conjI) (rule run r(2) r(3-5) [unfolded k(2-4)] ob fired)+
  qed
qed

lemma unat_next_slot: "unat (c + 1 :: u32) mod NR_SLOT = (unat c + 1) mod NR_SLOT"
  using unat_add_mod_pow2 [of 11 c 1] by (simp add: NR_SLOT_def)

lemma timer_tick_fields:
  assumes "unat (tc_next_run tc) = unat (tc_last_run tc) + gran"
    and "tc_next_run tc \<le> now" "unat now + gran < 2 ^ 64"
  shows "unat (tc_last_run (timer_tick tc)) = unat (tc_last_run tc) + gran"
    "unat (tc_next_run (timer_tick tc)) = unat (tc_last_run (timer_tick tc)) + gran"
    "tc_curr_slot_idx (timer_tick tc) = tc_curr_slot_idx tc + 1"
    "timer_wf (timer_tick tc) = timer_wf tc" "tc_timers (timer_tick tc) = tc_timers tc"
proof -
  have le: "unat (tc_last_run tc) + gran \<le> unat now" using assms(1,2) by (simp add: word_le_nat_alt)
  show l: "unat (tc_last_run (timer_tick tc)) = unat (tc_last_run tc) + gran"
    using le assms(3) by (simp add: timer_tick_def GRAGNULARITY_def unat_add_small)
  show "unat (tc_next_run (timer_tick tc)) = unat (tc_last_run (timer_tick tc)) + gran"
    unfolding l using le assms(1,3) by (simp add: timer_tick_def GRAGNULARITY_def unat_add_small)
  show "tc_curr_slot_idx (timer_tick tc) = tc_curr_slot_idx tc + 1"
    "timer_wf (timer_tick tc) = timer_wf tc" "tc_timers (timer_tick tc) = tc_timers tc"
    by (simp_all add: timer_tick_def timer_wf_def)
qed

lemma timer_process_tick:
  assumes cb: "timer_cb_ok get put cb obs t" and wf: "timer_wf (get w)"
    and nr: "unat (tc_next_run (get w)) = unat (tc_last_run (get w)) + gran"
    and due: "tc_next_run (get w) \<le> now" and fit: "unat now + gran < 2 ^ 64"
  obtains w1 nr1 log where "timer_process get put cb w now n = timer_process get put cb w1 now nr1"
    "timer_wf (get w1)" "unat (tc_last_run (get w1)) = unat (tc_last_run (get w)) + gran"
    "unat (tc_next_run (get w1)) = unat (tc_last_run (get w1)) + gran"
    "tc_curr_slot_idx (get w1) = tc_curr_slot_idx (get w) + 1" "obs w1 = obs w @ log"
    "tm_active (tc_timers (get w) t) \<Longrightarrow>
       (if unat (tm_slot_idx (tc_timers (get w) t)) = (unat (tc_curr_slot_idx (get w)) + 1) mod NR_SLOT
        then t \<in> set log else t \<notin> set log \<and> tc_timers (get w1) t = tc_timers (get w) t)"
proof -
  let ?tc = "timer_tick (get w)" and ?w0 = "put (timer_tick (get w)) w"
  note f = timer_tick_fields [OF nr due fit]
  have g: "get ?w0 = ?tc" "obs ?w0 = obs w" by (simp_all add: timer_cb_okD [OF cb])
  have wf0: "timer_wf (get ?w0)" using wf by (simp only: g f(4))
  from timer_fire_slot_run [OF cb wf0 order_refl, of n] obtain w1 nr1 log where
    r: "timer_fire_slot get put cb ?w0 n = Some (w1, nr1)" "timer_wf (get w1)"
    "tc_curr_slot_idx (get w1) = tc_curr_slot_idx ?tc" "tc_last_run (get w1) = tc_last_run ?tc"
    "tc_next_run (get w1) = tc_next_run ?tc" "obs w1 = obs ?w0 @ log"
    "tm_active (tc_timers ?tc t) \<longrightarrow> (if t \<in> set (curr_slot ?tc) then t \<in> set log
       else t \<notin> set log \<and> tc_timers (get w1) t = tc_timers ?tc t)" unfolding g(1) by blast
  have run: "timer_process get put cb w now n = timer_process get put cb w1 now nr1"
    using due r(1) by (subst timer_process.simps) simp
  have slot: "tm_active (tc_timers (get w) t) \<Longrightarrow> t \<in> set (curr_slot ?tc) \<longleftrightarrow>
     unat (tm_slot_idx (tc_timers (get w) t)) = (unat (tc_curr_slot_idx (get w)) + 1) mod NR_SLOT"
    using timer_in_curr_slot [OF wf0, of t] unfolding g(1) f(3,5) unat_next_slot by blast
  show thesis
  proof (rule that [OF run r(2)])
    show "obs w1 = obs w @ log" using r(6) g(2) by (simp only:)
    assume a: "tm_active (tc_timers (get w) t)"
    show "if unat (tm_slot_idx (tc_timers (get w) t)) = (unat (tc_curr_slot_idx (get w)) + 1) mod NR_SLOT
        then t \<in> set log else t \<notin> set log \<and> tc_timers (get w1) t = tc_timers (get w) t"
      using r(7) a unfolding f(5) slot [OF a] by (simp only: simp_thms)
  qed (simp_all only: r(3-5) f(1-3))
qed

text \<open>Processing returns, with the wheel caught up with the given time.\<close>

lemma timer_process_returns:
  assumes cb: "timer_cb_ok get put cb obs t" and fit: "unat now + gran < 2 ^ 64"
  shows "timer_wf (get w) \<Longrightarrow> unat (tc_next_run (get w)) = unat (tc_last_run (get w)) + gran \<Longrightarrow>
    \<exists>w' nr' log. timer_process get put cb w now n = Some (w', nr') \<and> obs w' = obs w @ log \<and>
      timer_wf (get w') \<and> now < tc_next_run (get w')"
proof (induction "unat now - unat (tc_last_run (get w))" arbitrary: w n rule: less_induct)
  case less
  show ?case
  proof (cases "tc_next_run (get w) \<le> now")
    case False
    then have "timer_process get put cb w now n = Some (w, n)" by (subst timer_process.simps) simp
    then show ?thesis using False less.prems(1) by (intro exI [of _ w] exI [of _ n] exI [of _ "[]"]) simp
  next
    case True
    obtain w1 nr1 log where s: "timer_process get put cb w now n = timer_process get put cb w1 now nr1"
      "timer_wf (get w1)" "unat (tc_last_run (get w1)) = unat (tc_last_run (get w)) + gran"
      "unat (tc_next_run (get w1)) = unat (tc_last_run (get w1)) + gran" "obs w1 = obs w @ log"
      using timer_process_tick [OF cb less.prems True fit] by metis
    have "unat (tc_last_run (get w)) + gran \<le> unat now" using True less.prems(2) by (simp add: word_le_nat_alt)
    then have "unat now - unat (tc_last_run (get w1)) < unat now - unat (tc_last_run (get w))"
      using s(3) by simp
    from less.hyps [OF this s(2,4), of nr1] show ?thesis unfolding s(1,5) by fastforce
  qed
qed

lemma mod_slot_eq:
  assumes "1 \<le> (off::nat)" "off \<le> N"
  shows "(c + off) mod N = (c + 1) mod N \<longleftrightarrow> off = 1"
proof
  assume "(c + off) mod N = (c + 1) mod N"
  then have "(c + 1) mod N = (c + 1 + (off - 1)) mod N" using assms(1) by simp
  then have "(off - 1) mod N = 0"
    by (metis add_cancel_left_right mod_add_cong mod_eq_dvd_iff_nat dvd_imp_mod_0 diff_add_inverse le_add1)
  then show "off = 1" using assms by simp
qed simp

lemma timer_process_pending:
  assumes cb: "timer_cb_ok get put cb obs t" and fit: "unat now + gran < 2 ^ 64"
  shows "timer_wf (get w) \<Longrightarrow> unat (tc_next_run (get w)) = unat (tc_last_run (get w)) + gran \<Longrightarrow>
    tm_active (tc_timers (get w) t) \<Longrightarrow> 1 \<le> off \<Longrightarrow> off \<le> NR_SLOT \<Longrightarrow>
    unat (tm_slot_idx (tc_timers (get w) t)) = (unat (tc_curr_slot_idx (get w)) + off) mod NR_SLOT \<Longrightarrow>
    \<exists>w' nr' log. timer_process get put cb w now n = Some (w', nr') \<and> obs w' = obs w @ log \<and>
      (t \<in> set log \<longleftrightarrow> unat (tc_last_run (get w)) + off * gran \<le> unat now)"
proof (induction off arbitrary: w n)
  case 0
  then show ?case by simp
next
  case (Suc off)
  show ?case
  proof (cases "tc_next_run (get w) \<le> now")
    case False
    then have "unat now < unat (tc_last_run (get w)) + gran" using Suc.prems(2) by (simp add: word_le_nat_alt)
    moreover have "timer_process get put cb w now n = Some (w, n)"
      using False by (subst timer_process.simps) simp
    ultimately show ?thesis by (intro exI [of _ w] exI [of _ n] exI [of _ "[]"]) simp
  next
    case True
    then have due: "unat (tc_last_run (get w)) + gran \<le> unat now" using Suc.prems(2) by (simp add: word_le_nat_alt)
    obtain w1 nr1 log where s: "timer_process get put cb w now n = timer_process get put cb w1 now nr1"
      "timer_wf (get w1)" "unat (tc_last_run (get w1)) = unat (tc_last_run (get w)) + gran"
      "unat (tc_next_run (get w1)) = unat (tc_last_run (get w1)) + gran"
      "tc_curr_slot_idx (get w1) = tc_curr_slot_idx (get w) + 1" "obs w1 = obs w @ log"
      and l: "if unat (tm_slot_idx (tc_timers (get w) t)) = (unat (tc_curr_slot_idx (get w)) + 1) mod NR_SLOT
        then t \<in> set log else t \<notin> set log \<and> tc_timers (get w1) t = tc_timers (get w) t"
      using timer_process_tick [OF cb Suc.prems(1,2) True fit] Suc.prems(3) by metis
    have hit: "unat (tm_slot_idx (tc_timers (get w) t)) = (unat (tc_curr_slot_idx (get w)) + 1) mod NR_SLOT \<longleftrightarrow> off = 0"
      unfolding Suc.prems(6) using mod_slot_eq [OF Suc.prems(4,5)] by simp
    show ?thesis
    proof (cases "off = 0")
      case True
      then have "t \<in> set log" using l hit by simp
      moreover obtain w' nr' log' where "timer_process get put cb w1 now nr1 = Some (w', nr')" "obs w' = obs w1 @ log'"
        using timer_process_returns [OF cb fit s(2,4)] by blast
      ultimately show ?thesis using True due s(6) unfolding s(1)
        by (intro exI [of _ w'] exI [of _ nr'] exI [of _ "log @ log'"]) simp
    next
      case False
      then have t: "t \<notin> set log" "tc_timers (get w1) t = tc_timers (get w) t" using l hit by simp_all
      have "unat (tm_slot_idx (tc_timers (get w1) t)) = (unat (tc_curr_slot_idx (get w1)) + off) mod NR_SLOT"
        unfolding t(2) s(5) Suc.prems(6) using mod_add_cong [OF unat_next_slot refl, of "tc_curr_slot_idx (get w)" off]
        by simp
      then obtain w' nr' log' where "timer_process get put cb w1 now nr1 = Some (w', nr')" "obs w' = obs w1 @ log'"
        "t \<in> set log' \<longleftrightarrow> unat (tc_last_run (get w1)) + off * gran \<le> unat now"
        using Suc.IH [OF s(2,4)] False Suc.prems(3,5) t(2) by (metis Suc_leD le_simps(3) neq0_conv One_nat_def)
      then show ?thesis using t(1) s(3,6) unfolding s(1)
        by (intro exI [of _ w'] exI [of _ nr'] exI [of _ "log @ log'"]) (simp add: algebra_simps)
    qed
  qed
qed


definition timer_log_cb :: "nat \<Rightarrow> nat timer_ctrl \<times> nat list \<Rightarrow> nat timer_ctrl \<times> nat list" where
  "timer_log_cb t w = (fst w, snd w @ [t])"

lemma timer_log_cb_ok: "timer_cb_ok fst (\<lambda>tc w. (tc, snd w)) timer_log_cb snd t"
  by (simp add: timer_cb_ok_def timer_log_cb_def)


section \<open>A restart that is clamped to the size of the wheel\<close>

definition timer_restart_cb :: "u64 \<Rightarrow> u64 \<Rightarrow> 't \<Rightarrow> 't timer_ctrl \<Rightarrow> 't timer_ctrl" where
  "timer_restart_cb now expire t tc = timer_start tc t now expire"

lemma timer_restart_same_slot:
  assumes "timer_wf tc" "curr_slot tc = [t]" "timer_slot_off tc now expire = of_nat NR_SLOT"
  shows "curr_slot (timer_restart_cb now expire t (timer_stop tc t)) = [t]"
proof -
  let ?tc1 = "timer_stop tc t"
  have st: "timer_is_stopped ?tc1 t" using timer_stop_wf(2) [OF assms(1)] .
  have sl: "curr_slot ?tc1 = []" using curr_slot_stop(1) [OF assms(1,2)] .
  have "unat ((of_nat NR_SLOT + tc_curr_slot_idx tc) AND SLOT_MASK) = unat (tc_curr_slot_idx tc AND SLOT_MASK)"
    unfolding unat_slot_mask using unat_add_mod_pow2 [of 11 "of_nat NR_SLOT" "tc_curr_slot_idx tc"]
    by (simp add: NR_SLOT_def)
  then have i: "(of_nat NR_SLOT + tc_curr_slot_idx tc) AND SLOT_MASK = tc_curr_slot_idx tc AND SLOT_MASK"
    by (simp only: word_unat_eq_iff)
  have o: "timer_slot_off ?tc1 now expire = of_nat NR_SLOT"
    using assms(3) by (simp add: timer_slot_off_def)
  show ?thesis
    using st sl by (simp add: timer_restart_cb_def timer_start_def o i Let_def curr_slot_def) (simp add: timer_stop_def)
qed

definition timer_stuck ::
  "u64 \<Rightarrow> u64 \<Rightarrow> 't \<Rightarrow> ('t timer_ctrl \<Rightarrow> 't timer_ctrl) \<Rightarrow> ('t timer_ctrl \<Rightarrow> 't timer_ctrl \<Rightarrow> 't timer_ctrl) \<Rightarrow>
   ('t \<Rightarrow> 't timer_ctrl \<Rightarrow> 't timer_ctrl) \<Rightarrow> 't timer_ctrl \<Rightarrow> bool" where
  "timer_stuck now expire t get put cb w \<longleftrightarrow>
     get = (\<lambda>tc. tc) \<and> put = (\<lambda>tc _. tc) \<and> cb = timer_restart_cb now expire \<and> timer_wf w \<and>
     curr_slot w = [t] \<and> timer_slot_off w now expire = of_nat NR_SLOT"

lemma timer_stuck_step:
  assumes "timer_stuck now expire t get put cb w"
  shows "curr_slot (get w) = [t]" "timer_stuck now expire t get put cb (cb t (put (timer_stop (get w) t) w))"
proof -
  let ?w' = "timer_restart_cb now expire t (timer_stop w t)"
  have a: "get = (\<lambda>tc. tc)" "put = (\<lambda>tc _. tc)" "cb = timer_restart_cb now expire" "timer_wf w"
    "curr_slot w = [t]" "timer_slot_off w now expire = of_nat NR_SLOT"
    using assms by (simp_all add: timer_stuck_def)
  show "curr_slot (get w) = [t]" using a by simp
  have "timer_wf ?w'" using a(4) by (simp add: timer_restart_cb_def timer_start_wf timer_stop_wf)
  moreover have "curr_slot ?w' = [t]" by (rule timer_restart_same_slot [OF a(4-6)])
  moreover have "timer_slot_off ?w' now expire = of_nat NR_SLOT"
    using a(6) by (simp add: timer_restart_cb_def timer_slot_off_def)
  ultimately show "timer_stuck now expire t get put cb (cb t (put (timer_stop (get w) t) w))"
    by (simp add: timer_stuck_def a(1-3))
qed

lemma timer_stuck_no_value:
  assumes "timer_fire_slot get put cb w nr = Some r"
  shows "\<not> timer_stuck now expire t get put cb w"
proof (rule timer_fire_slot.raw_induct [where P = "\<lambda>get put cb w nr r. \<not> timer_stuck now expire t get put cb w", OF _ assms])
  fix run get put cb w nr and r :: "'a timer_ctrl \<times> nat"
  assume IH: "\<And>get put cb w nr r. run get put cb w nr = Some r \<Longrightarrow> \<not> timer_stuck now expire t get put cb w"
    and eq: "(case curr_slot (get w) of [] \<Rightarrow> Some (w, nr)
      | x # xs \<Rightarrow> run get put cb (cb x (put (timer_stop (get w) x) w)) (nr + 1)) = Some r"
  show "\<not> timer_stuck now expire t get put cb w"
  proof
    assume st: "timer_stuck now expire t get put cb w"
    then have "run get put cb (cb t (put (timer_stop (get w) t) w)) (nr + 1) = Some r"
      using eq timer_stuck_step(1) [OF st] by simp
    then show False using IH timer_stuck_step(2) [OF st] by blast
  qed
qed



end
