(* ===== verification/Tcp_Base.thy ===== *)
theory Tcp_Base
  imports Tpa_Prelude
begin

text \<open>
  \<open>include/tcp.h\<close> and \<open>include/stats_code.h\<close>: the TCP constants, states and flags, the error
  and statistics codes, sequence number comparison, the layout of the options, and the TCP
  configuration with the defaults of \<open>src/sock.c\<close>. The theory relates the comparisons of
  32-bit sequence numbers to the order of the stream positions they stand for.
\<close>

section \<open>Constants\<close>

definition TCP_MSS_DEFAULT :: int where "TCP_MSS_DEFAULT = 536"
definition TCP_WINDOW_MAX :: u32 where "TCP_WINDOW_MAX = 2 ^ 30"
definition TCP_WSCALE_DEFAULT :: u8 where "TCP_WSCALE_DEFAULT = 10"
definition TCP_WSCALE_MAX :: u8 where "TCP_WSCALE_MAX = 14"
definition TCP_RTO_MIN :: u32 where "TCP_RTO_MIN = 100000"
definition TCP_RTO_MAX :: u32 where "TCP_RTO_MAX = 120000000"
definition TCP_RTO_DEFAULT :: u32 where "TCP_RTO_DEFAULT = TCP_RTO_MIN"
definition TCP_RTT_MAX :: int where "TCP_RTT_MAX = 400000"
definition TCP_PAWS_IDLE_MAX :: u32 where "TCP_PAWS_IDLE_MAX = 2073600"
definition TCP_MAX_NR_SACK_BLOCK :: nat where "TCP_MAX_NR_SACK_BLOCK = 3"
definition DEFAULT_MTU :: int where "DEFAULT_MTU = 1500"
definition BATCH_SIZE :: nat where "BATCH_SIZE = 64"

datatype tcp_state =
    TCP_STATE_CLOSED
  | TCP_STATE_LISTEN
  | TCP_STATE_SYN_SENT
  | TCP_STATE_SYN_RCVD
  | TCP_STATE_ESTABLISHED
  | TCP_STATE_FIN_WAIT_1
  | TCP_STATE_FIN_WAIT_2
  | TCP_STATE_CLOSE_WAIT
  | TCP_STATE_CLOSING
  | TCP_STATE_LAST_ACK
  | TCP_STATE_TIME_WAIT

definition TCP_FLAG_FIN :: u8 where "TCP_FLAG_FIN = 1"
definition TCP_FLAG_SYN :: u8 where "TCP_FLAG_SYN = 2"
definition TCP_FLAG_RST :: u8 where "TCP_FLAG_RST = 4"
definition TCP_FLAG_PSH :: u8 where "TCP_FLAG_PSH = 8"
definition TCP_FLAG_ACK :: u8 where "TCP_FLAG_ACK = 16"

lemmas tcp_flag_defs =
  TCP_FLAG_FIN_def TCP_FLAG_SYN_def TCP_FLAG_RST_def TCP_FLAG_PSH_def TCP_FLAG_ACK_def

text \<open>The error and statistics codes that the modelled code uses. A handler that returns \<open>-E\<close>
  returns \<open>Some E\<close> in the model, and \<open>None\<close> where the code returns 0.\<close>

datatype stats_code =
    ERR_NOT_IMPLEMENTED | ERR_PKT_ALLOC_FAIL | ERR_PKT_PREPEND_HDR | ERR_PKT_INVALID_LEN
  | ERR_PKT_NOT_TCP | ERR_BAD_CSUM_IPV4 | ERR_BAD_CSUM_TCP | ERR_TCP_INVALID_SEQ
  | ERR_TCP_INVALID_ACK | ERR_TCP_INVALID_TS | ERR_TCP_NO_ACK | ERR_TCP_OLD_ACK
  | ERR_TCP_RXQ_ENQUEUE_FAIL | ERR_TCP_RCV_INVALID_STATE | ERR_TCP_RCV_OOO_LIMIT
  | ERR_TCP_RCV_OOO_DUP | ERR_INVALID_STATE_FOR_FIN | WARN_HALF_OPEN_DETECTED
  | ERR_TCP_TIMEOUT_ON_CLOSED | ERR_NO_SOCK | ERR_INVALID_SYN_SENT_PROCESS | ERR_NO_SYN_AND_RST
  | ERR_RST_WITH_NO_ACK | WARN_GOT_RST_AT_TIME_WAIT | ERR_INVALID_TCP_OPT_TYPE
  | ERR_INVALID_TCP_OPT_LEN | ERR_DEV_TXQ_FULL | ERR_FLOW_MARK_INVALID | WARN_MISSING_FLOW_MARK
  | ERR_CONN_REFUSED | PKT_IP_FRAG | PKT_RECV_AFTER_CLOSE | SIMULTANEOUS_CONNECT
  | ERR_NEIGH_ENQUEUE | WARN_STALE_PKT_TUPLE_MISMATCH | WARN_STALE_PKT_WORKER_MISMATCH
  | WARN_RST_RECV | ERR_PKT_HAS_IPV6_OPT | WARN_ACK_AT_LISTEN | ERR_TOO_MANY_SOCKS
  | WARN_INVLIAD_PKT_AT_LISTEN | WARN_INVLIAD_SYN_RCVD | ERR_TCP_SACK_INTERSECT

type_synonym err = "stats_code option"

section \<open>Sequence numbers\<close>

definition seq_lt :: "u32 \<Rightarrow> u32 \<Rightarrow> bool" where
  "seq_lt a b = (sint (a - b) < 0)"

definition seq_le :: "u32 \<Rightarrow> u32 \<Rightarrow> bool" where
  "seq_le a b = (sint (a - b) \<le> 0)"

definition seq_gt :: "u32 \<Rightarrow> u32 \<Rightarrow> bool" where
  "seq_gt a b = (sint (a - b) > 0)"

definition seq_ge :: "u32 \<Rightarrow> u32 \<Rightarrow> bool" where
  "seq_ge a b = (sint (a - b) \<ge> 0)"

definition us_to_tcp_ts :: "u64 \<Rightarrow> u32" where
  "us_to_tcp_ts us = ucast (drop_bit 10 us)"

definition tcp_ts_to_us :: "u32 \<Rightarrow> u32" where
  "tcp_ts_to_us ts = push_bit 10 ts"

section \<open>Options\<close>

definition TCP_OPT_EOL_KIND :: u8 where "TCP_OPT_EOL_KIND = 0"
definition TCP_OPT_NOP_KIND :: u8 where "TCP_OPT_NOP_KIND = 1"
definition TCP_OPT_MSS_KIND :: u8 where "TCP_OPT_MSS_KIND = 2"
definition TCP_OPT_MSS_LEN :: u8 where "TCP_OPT_MSS_LEN = 4"
definition TCP_OPT_WSCALE_KIND :: u8 where "TCP_OPT_WSCALE_KIND = 3"
definition TCP_OPT_WSCALE_LEN :: u8 where "TCP_OPT_WSCALE_LEN = 3"
definition TCP_OPT_SACK_PERM_KIND :: u8 where "TCP_OPT_SACK_PERM_KIND = 4"
definition TCP_OPT_SACK_PERM_LEN :: u8 where "TCP_OPT_SACK_PERM_LEN = 2"
definition TCP_OPT_SACK_KIND :: u8 where "TCP_OPT_SACK_KIND = 5"
definition TCP_OPT_TS_KIND :: u8 where "TCP_OPT_TS_KIND = 8"
definition TCP_OPT_TS_LEN :: u8 where "TCP_OPT_TS_LEN = 10"

definition TCP_OPT_MSS_SPACE :: nat where "TCP_OPT_MSS_SPACE = 4"
definition TCP_OPT_WSCALE_SPACE :: nat where "TCP_OPT_WSCALE_SPACE = 4"
definition TCP_OPT_TS_SPACE :: nat where "TCP_OPT_TS_SPACE = 12"
definition TCP_OPT_SACK_PERM_SPACE :: nat where "TCP_OPT_SACK_PERM_SPACE = 4"

definition TCP_OPT_SACK_LEN :: "nat \<Rightarrow> nat" where "TCP_OPT_SACK_LEN n = 2 + 8 * n"
definition TCP_OPT_SACK_SPACE :: "nat \<Rightarrow> nat" where "TCP_OPT_SACK_SPACE n = 4 + 8 * n"

lemmas tcp_opt_defs =
  TCP_OPT_EOL_KIND_def TCP_OPT_NOP_KIND_def TCP_OPT_MSS_KIND_def TCP_OPT_MSS_LEN_def
  TCP_OPT_WSCALE_KIND_def TCP_OPT_WSCALE_LEN_def TCP_OPT_SACK_PERM_KIND_def
  TCP_OPT_SACK_PERM_LEN_def TCP_OPT_SACK_KIND_def TCP_OPT_TS_KIND_def TCP_OPT_TS_LEN_def
  TCP_OPT_MSS_SPACE_def TCP_OPT_WSCALE_SPACE_def TCP_OPT_TS_SPACE_def TCP_OPT_SACK_PERM_SPACE_def
  TCP_OPT_SACK_LEN_def TCP_OPT_SACK_SPACE_def

record tcp_sack_block =
  blk_start :: u32
  blk_end :: u32

record tcp_opts =
  has_mss :: bool
  opt_mss :: u16
  has_wscale :: bool
  opt_wscale :: u8
  has_ts :: bool
  opt_ts_val :: u32
  opt_ts_ecr :: u32
  has_sack_perm :: bool
  opt_sack_blocks :: "tcp_sack_block list"

text \<open>Network byte order: \<open>htons\<close> and \<open>htonl\<close> as the bytes they put in memory, \<open>ntohs\<close> and
  \<open>ntohl\<close> as what they read from an address of a byte memory.\<close>

definition be16 :: "u16 \<Rightarrow> u8 list" where
  "be16 w = [ucast (drop_bit 8 w), ucast w]"

definition be32 :: "u32 \<Rightarrow> u8 list" where
  "be32 w = [ucast (drop_bit 24 w), ucast (drop_bit 16 w), ucast (drop_bit 8 w), ucast w]"

definition rd16 :: "(nat \<Rightarrow> u8) \<Rightarrow> nat \<Rightarrow> u16" where
  "rd16 p i = push_bit 8 (ucast (p i)) OR ucast (p (i + 1))"

definition rd32 :: "(nat \<Rightarrow> u8) \<Rightarrow> nat \<Rightarrow> u32" where
  "rd32 p i = push_bit 24 (ucast (p i)) OR push_bit 16 (ucast (p (i + 1))) OR
     push_bit 8 (ucast (p (i + 2))) OR ucast (p (i + 3))"

definition fill_opt_ts :: "u32 \<Rightarrow> u32 \<Rightarrow> u8 list" where
  "fill_opt_ts v ecr =
     [TCP_OPT_NOP_KIND, TCP_OPT_NOP_KIND, TCP_OPT_TS_KIND, TCP_OPT_TS_LEN] @ be32 v @ be32 ecr"

section \<open>Configuration\<close>

record tcp_cfg =
  enable_tso :: bool
  enable_ts :: bool
  enable_ws :: bool
  enable_sack :: bool
  enable_rx_merge :: bool
  rcv_queue_size :: u32
  snd_queue_size :: u32
  time_wait :: u32
  keepalive :: u32
  delayed_ack :: u32
  cwnd_init :: u32
  cwnd_max :: u32
  drop_ooo_threshold :: u32
  measure_latency :: bool
  usr_snd_mss :: u32
  rcv_ooo_limit :: u32
  tcp_rto_min :: u32
  nr_max_sock :: u32
  pkt_max_chain :: u32
  retries :: u32
  syn_retries :: u32
  write_chunk_size :: u32

definition tcp_cfg_default :: tcp_cfg where
  "tcp_cfg_default =
     \<lparr>enable_tso = True, enable_ts = True, enable_ws = True, enable_sack = True,
      enable_rx_merge = True, rcv_queue_size = 2048, snd_queue_size = 512,
      time_wait = 60000000, keepalive = TCP_RTO_MAX, delayed_ack = 1000,
      cwnd_init = 16384, cwnd_max = 2 ^ 30, drop_ooo_threshold = 0, measure_latency = False,
      usr_snd_mss = 0, rcv_ooo_limit = 2048, tcp_rto_min = TCP_RTO_MIN, nr_max_sock = 32768,
      pkt_max_chain = 45, retries = 7, syn_retries = 7, write_chunk_size = 16384\<rparr>"

section \<open>Sequence comparison and stream positions\<close>

lemma sint_word_of_int_small:
  "- (2 ^ 31) \<le> k \<Longrightarrow> k < 2 ^ 31 \<Longrightarrow> sint (word_of_int k :: u32) = k"
  by (simp add: signed_of_int signed_take_bit_int_eq_self)

lemma uint_word_of_int_u32: "0 \<le> k \<Longrightarrow> k < 2 ^ 32 \<Longrightarrow> uint (word_of_int k :: u32) = k"
  by (simp only: uint_word_of_int) (simp add: take_bit_int_eq_self)

lemma sint_seq_diff:
  assumes "\<bar>x - y\<bar> < 2 ^ 31"
  shows "sint (b + word_of_int x - (b + word_of_int y) :: u32) = x - y"
proof -
  have "b + word_of_int x - (b + word_of_int y) = (word_of_int (x - y) :: u32)" by simp
  then show ?thesis using assms by (simp only:) (rule sint_word_of_int_small; simp)
qed

lemma seq_pos [simp]:
  assumes "\<bar>x - y\<bar> < 2 ^ 31"
  shows "seq_lt (b + word_of_int x) (b + word_of_int y) \<longleftrightarrow> x < y"
    "seq_le (b + word_of_int x) (b + word_of_int y) \<longleftrightarrow> x \<le> y"
    "seq_gt (b + word_of_int x) (b + word_of_int y) \<longleftrightarrow> x > y"
    "seq_ge (b + word_of_int x) (b + word_of_int y) \<longleftrightarrow> x \<ge> y"
  unfolding seq_lt_def seq_le_def seq_gt_def seq_ge_def sint_seq_diff [OF assms] by auto

lemma word_of_int_inj_pos:
  assumes "\<bar>x - y\<bar> < 2 ^ 31"
  shows "(b + word_of_int x :: u32) = b + word_of_int y \<longleftrightarrow> x = y"
proof
  assume "(b + word_of_int x :: u32) = b + word_of_int y"
  then show "x = y" using sint_seq_diff [OF assms, of b] by simp
qed simp

text \<open>C24: sequence comparison is the order of the stream positions the numbers stand for, as
  long as the positions are less than half the number space apart, whatever the initial number
  is and wherever the 32-bit numbers wrap.\<close>

theorem seq_cmp_positions:
  assumes "\<bar>x - y\<bar> < 2 ^ 31"
  shows "(seq_lt (isn + word_of_int x) (isn + word_of_int y) \<longleftrightarrow> x < y) \<and>
    (seq_le (isn + word_of_int x) (isn + word_of_int y) \<longleftrightarrow> x \<le> y) \<and>
    (seq_gt (isn + word_of_int x) (isn + word_of_int y) \<longleftrightarrow> x > y) \<and>
    (seq_ge (isn + word_of_int x) (isn + word_of_int y) \<longleftrightarrow> x \<ge> y)"
  using assms by simp

theorem seq_cmp_positions_witness:
  "seq_lt 0xfffffff0 0x10 \<and> \<not> seq_lt 0x10 0xfffffff0"
proof -
  have wrap: "(4294967312 :: u32) = 16" by simp
  show ?thesis
    using seq_cmp_positions [of 0 32 "0xfffffff0"] seq_cmp_positions [of 32 0 "0xfffffff0"]
    by (simp add: wrap)
qed

end
