(* ===== verification/Packet.thy ===== *)
theory Packet
  imports Tcp_Base
begin

text \<open>
  \<open>include/packet.h\<close>: received packets, the chain of buffers of a packet, cutting payload from
  either end of a chain, chaining, and the parsing of the headers. A buffer of the chain is a
  \<open>seg\<close> with its bytes as a function from offsets; \<open>pkt_segs\<close> is the chain, \<open>pkt_to_read\<close> the
  position of the \<open>to_read\<close> pointer in it (the length of the chain stands for NULL). \<open>pkt_id\<close>
  is the identity of the packet, its address in the code. Ports are numbers in host order. The theory
  shows what cutting does to the payload, and when the parsed lengths are right.
\<close>

section \<open>Packets\<close>

definition PKT_FLAG_RETRANSMIT :: u16 where "PKT_FLAG_RETRANSMIT = 1"
definition PKT_FLAG_HAS_TS_OPT :: u16 where "PKT_FLAG_HAS_TS_OPT = 2"
definition PKT_FLAG_MEASURE_READ_LATENCY :: u16 where "PKT_FLAG_MEASURE_READ_LATENCY = 4"
definition PKT_FLAG_IS_IPV6 :: u16 where "PKT_FLAG_IS_IPV6 = 8"

record seg =
  seg_buf :: "nat \<Rightarrow> u8"
  seg_l5_off :: u16
  seg_l5_len :: u16

text \<open>The fields of \<open>rte_mbuf\<close> that the code reads: the packet type and the checksum results of
  the NIC as booleans, the flow mark, the data offset and the packet length.\<close>

record mbuf =
  mb_l3_ipv4 :: bool
  mb_l3_ipv6 :: bool
  mb_l4_tcp :: bool
  mb_ip_cksum_good :: bool
  mb_l4_cksum_good :: bool
  mb_fdir_id :: bool
  mb_fdir_hi :: u32
  mb_data_off :: u16
  mb_pkt_len :: u32
  mb_nb_segs :: u16

record packet =
  pkt_id :: nat
  pkt_mbuf :: mbuf
  pkt_src_port :: u16
  pkt_dst_port :: u16
  pkt_flags :: u16
  pkt_wid :: u8
  pkt_l2_off :: u8
  pkt_l3_off :: u8
  pkt_l4_off :: u8
  pkt_hdr_len :: u8
  pkt_nr_read_seg :: u8
  pkt_seq :: u32
  pkt_ack :: u32
  pkt_ts_val :: u32
  pkt_ts_ecr :: u32
  pkt_wnd :: u16
  pkt_len :: u16
  pkt_opt_len :: u8
  pkt_tcp_flags :: u8
  pkt_port_id :: u16
  pkt_segs :: "seg list"
  pkt_to_read :: nat

definition has_tcp_flag :: "u8 \<Rightarrow> packet \<Rightarrow> bool" where
  "has_tcp_flag f p \<longleftrightarrow> pkt_tcp_flags p AND f \<noteq> 0"

definition has_flag_syn :: "packet \<Rightarrow> bool" where "has_flag_syn = has_tcp_flag TCP_FLAG_SYN"
definition has_flag_rst :: "packet \<Rightarrow> bool" where "has_flag_rst = has_tcp_flag TCP_FLAG_RST"
definition has_flag_ack :: "packet \<Rightarrow> bool" where "has_flag_ack = has_tcp_flag TCP_FLAG_ACK"
definition has_flag_fin :: "packet \<Rightarrow> bool" where "has_flag_fin = has_tcp_flag TCP_FLAG_FIN"

definition packet_data :: "packet \<Rightarrow> nat \<Rightarrow> u8" where
  "packet_data p = (case pkt_segs p of [] \<Rightarrow> (\<lambda>_. 0) | s # _ \<Rightarrow> seg_buf s)"

definition packet_ip_hdr :: "packet \<Rightarrow> nat \<Rightarrow> u8" where
  "packet_ip_hdr p i = packet_data p (unat (pkt_l3_off p) + i)"

definition packet_tcp_hdr :: "packet \<Rightarrow> nat \<Rightarrow> u8" where
  "packet_tcp_hdr p i = packet_data p (unat (pkt_l4_off p) + i)"

definition packet_init :: "packet \<Rightarrow> packet" where
  "packet_init p = p\<lparr>pkt_flags := 0, pkt_hdr_len := 0, pkt_tcp_flags := 0, pkt_len := 0\<rparr>"

section \<open>Cutting\<close>

text \<open>The loop \<open>while (pkt && size >= pkt->l5_len)\<close> that both cuts share: the number of buffers
  passed and the size left.\<close>

fun cut_skip :: "seg list \<Rightarrow> int \<Rightarrow> nat \<times> int" where
  "cut_skip [] sz = (0, sz)"
| "cut_skip (s # ss) sz =
     (if sz \<ge> uint (seg_l5_len s)
      then (let (k, r) = cut_skip ss (sz - uint (seg_l5_len s)) in (Suc k, r))
      else (0, sz))"

definition tcp_packet_cut_head :: "packet \<Rightarrow> int \<Rightarrow> packet" where
  "tcp_packet_cut_head head sz =
     (let (k, r) = cut_skip (drop (pkt_to_read head) (pkt_segs head)) sz;
          i = pkt_to_read head + k; s = pkt_segs head ! i
      in head\<lparr>pkt_seq := pkt_seq head + word_of_int sz,
              pkt_nr_read_seg := pkt_nr_read_seg head - of_nat k,
              pkt_segs := (if r \<noteq> 0
                then (pkt_segs head)[i := s\<lparr>seg_l5_len := seg_l5_len s - word_of_int r,
                                            seg_l5_off := seg_l5_off s + word_of_int r\<rparr>]
                else pkt_segs head),
              pkt_to_read := i\<rparr>)"

definition tcp_packet_cut_tail :: "packet \<Rightarrow> int \<Rightarrow> packet" where
  "tcp_packet_cut_tail head sz =
     (let (k, r) = cut_skip (drop (pkt_to_read head) (pkt_segs head)) (uint (pkt_len head) - sz);
          i = pkt_to_read head + k; s = pkt_segs head ! i
      in head\<lparr>pkt_segs := (if r \<noteq> 0
                then (pkt_segs head)[i := s\<lparr>seg_l5_len := word_of_int r\<rparr>]
                else pkt_segs head),
              pkt_nr_read_seg := of_nat (if r \<noteq> 0 then Suc k else k)\<rparr>)"

datatype cut_dir = CUT_HEAD | CUT_TAIL

text \<open>\<open>size\<close> is a \<open>uint32_t\<close> that the callees take as an \<open>int\<close>. The verification of unit tests
  (\<open>PKT_FLAG_VERIFY_CUT\<close>) is left out.\<close>

definition tcp_packet_cut :: "packet \<Rightarrow> u32 \<Rightarrow> cut_dir \<Rightarrow> packet" where
  "tcp_packet_cut p sz dir =
     (let p1 = (case dir of CUT_HEAD \<Rightarrow> tcp_packet_cut_head p (sint sz)
                          | CUT_TAIL \<Rightarrow> tcp_packet_cut_tail p (sint sz))
      in p1\<lparr>pkt_len := pkt_len p1 - ucast sz\<rparr>)"

definition packet_chain :: "packet \<Rightarrow> packet \<Rightarrow> packet" where
  "packet_chain head p =
     head\<lparr>pkt_mbuf := (pkt_mbuf head)\<lparr>mb_nb_segs := mb_nb_segs (pkt_mbuf head) + 1,
            mb_pkt_len := mb_pkt_len (pkt_mbuf head) + mb_pkt_len (pkt_mbuf p)\<rparr>,
          pkt_segs := pkt_segs head @ pkt_segs p,
          pkt_len := pkt_len head + seg_l5_len (hd (pkt_segs p)),
          pkt_nr_read_seg := pkt_nr_read_seg head + 1\<rparr>"

section \<open>Parsing the headers\<close>

definition ETH_HDR_LEN :: u8 where "ETH_HDR_LEN = 14"
definition IP4_HDR_SIZE :: nat where "IP4_HDR_SIZE = 20"
definition IP6_HDR_SIZE :: nat where "IP6_HDR_SIZE = 40"
definition TCP_HDR_SIZE :: nat where "TCP_HDR_SIZE = 20"
definition IPPROTO_TCP :: u8 where "IPPROTO_TCP = 6"

definition ip_is_frag :: "u16 \<Rightarrow> bool" where
  "ip_is_frag frag_off \<longleftrightarrow> frag_off AND 0x3fff \<noteq> 0"

definition IP4_HDR_LEN :: "u8 \<Rightarrow> u32" where
  "IP4_HDR_LEN version_ihl = push_bit 2 (ucast (version_ihl AND 0xf))"

text \<open>The part after the network header is known: \<open>ip_payload_len\<close> bytes of IP payload.\<close>

definition parse_tcp_hdr :: "packet \<Rightarrow> u32 \<Rightarrow> err \<times> packet" where
  "parse_tcp_hdr p ip_payload_len =
     (let th = packet_tcp_hdr p;
          tcp_hdr_len = push_bit 2 (drop_bit 4 (ucast (th 12))) :: u16;
          l5_off = ucast (pkt_l4_off p) + tcp_hdr_len;
          p1 = p\<lparr>pkt_hdr_len := ucast (l5_off - ucast (pkt_l2_off p)),
                 pkt_segs := (pkt_segs p)[0 := (pkt_segs p ! 0)\<lparr>seg_l5_off := l5_off\<rparr>]\<rparr>
      in if mb_pkt_len (pkt_mbuf p) < ucast (pkt_hdr_len p1) then (Some ERR_PKT_INVALID_LEN, p1)
         else (let len = ucast (ip_payload_len - ucast tcp_hdr_len) :: u16
               in (None, p1\<lparr>pkt_src_port := rd16 th 0, pkt_dst_port := rd16 th 2,
                    pkt_seq := rd32 th 4, pkt_ack := rd32 th 8, pkt_wnd := rd16 th 14,
                    pkt_tcp_flags := th 13, pkt_len := len,
                    pkt_opt_len := ucast (tcp_hdr_len - of_nat TCP_HDR_SIZE),
                    pkt_segs := (pkt_segs p1)[0 := (pkt_segs p1 ! 0)\<lparr>seg_l5_len := len\<rparr>],
                    pkt_nr_read_seg := 1\<rparr>)))"

text \<open>\<open>verify_csum\<close> runs DPDK's checksum functions over the packet and is a parameter; it is
  called only when the NIC did not vouch for the checksums.\<close>

definition parse_tcp_packet :: "(packet \<Rightarrow> err) \<Rightarrow> packet \<Rightarrow> err \<times> packet" where
  "parse_tcp_packet verify_csum p =
     (let m = pkt_mbuf p;
          l2 = ucast (mb_data_off m);
          p1 = p\<lparr>pkt_l2_off := l2, pkt_l3_off := l2 + ETH_HDR_LEN\<rparr>;
          ip = packet_ip_hdr p1
      in if mb_l3_ipv4 m \<and> mb_l4_tcp m then
           if ip_is_frag (rd16 ip 6) then (Some PKT_IP_FRAG, p1)
           else (let ihl = IP4_HDR_LEN (ip 0);
                     p2 = p1\<lparr>pkt_l4_off := pkt_l3_off p1 + ucast ihl\<rparr>
                 in case (if mb_ip_cksum_good m \<and> mb_l4_cksum_good m then None else verify_csum p2) of
                      Some e \<Rightarrow> (Some e, p2)
                    | None \<Rightarrow> parse_tcp_hdr p2 (ucast (rd16 ip 2) - ihl))
         else if mb_l3_ipv6 m \<and> mb_l4_tcp m then
           if ip 6 \<noteq> IPPROTO_TCP then (Some ERR_PKT_HAS_IPV6_OPT, p1)
           else (let p2 = p1\<lparr>pkt_l4_off := pkt_l3_off p1 + of_nat IP6_HDR_SIZE,
                             pkt_flags := pkt_flags p1 OR PKT_FLAG_IS_IPV6\<rparr>
                 in case (if mb_l4_cksum_good m then None else verify_csum p2) of
                      Some e \<Rightarrow> (Some e, p2)
                    | None \<Rightarrow> parse_tcp_hdr p2 (ucast (rd16 ip 4)))
         else (Some ERR_PKT_NOT_TCP, p1))"

section \<open>Payload\<close>

definition seg_bytes :: "seg \<Rightarrow> u8 list" where
  "seg_bytes s = map (seg_buf s) [unat (seg_l5_off s)..<unat (seg_l5_off s) + unat (seg_l5_len s)]"

definition rd_segs :: "packet \<Rightarrow> seg list" where
  "rd_segs p = drop (pkt_to_read p) (pkt_segs p)"

definition payload :: "packet \<Rightarrow> u8 list" where
  "payload p = concat (map seg_bytes (take (unat (pkt_nr_read_seg p)) (rd_segs p)))"

definition segs_len :: "seg list \<Rightarrow> nat" where
  "segs_len ss = sum_list (map (\<lambda>s. unat (seg_l5_len s)) ss)"

definition seg_ok :: "seg \<Rightarrow> bool" where
  "seg_ok s \<longleftrightarrow> 0 < unat (seg_l5_len s) \<and> unat (seg_l5_off s) + unat (seg_l5_len s) < 2 ^ 16"

text \<open>The first \<open>nr_read_seg\<close> buffers from \<open>to_read\<close> on hold exactly the payload.\<close>

definition pkt_wf :: "packet \<Rightarrow> bool" where
  "pkt_wf p \<longleftrightarrow> unat (pkt_nr_read_seg p) \<le> length (rd_segs p) \<and> unat (pkt_nr_read_seg p) < 128 \<and>
     segs_len (take (unat (pkt_nr_read_seg p)) (rd_segs p)) = unat (pkt_len p) \<and>
     (\<forall>s\<in>set (rd_segs p). seg_ok s)"

lemma length_seg_bytes [simp]: "length (seg_bytes s) = unat (seg_l5_len s)"
  by (simp add: seg_bytes_def)

lemma length_concat_seg_bytes [simp]: "length (concat (map seg_bytes ss)) = segs_len ss"
  by (induction ss) (simp_all add: segs_len_def)

lemma length_payload: "pkt_wf p \<Longrightarrow> length (payload p) = unat (pkt_len p)"
  by (simp add: payload_def pkt_wf_def)

lemma segs_len_Cons [simp]: "segs_len (s # ss) = unat (seg_l5_len s) + segs_len ss"
  and segs_len_Nil [simp]: "segs_len [] = 0"
  and segs_len_append [simp]: "segs_len (xs @ ys) = segs_len xs + segs_len ys"
  by (simp_all add: segs_len_def)

section \<open>What cutting does\<close>

lemma sint_small_word: "unat (w :: 'w::len word) < 2 ^ (LENGTH('w) - 1) \<Longrightarrow> sint w = int (unat w)"
proof -
  assume "unat w < 2 ^ (LENGTH('w) - 1)"
  then have "uint w < 2 ^ (LENGTH('w) - 1)" by (metis of_nat_less_iff of_nat_numeral of_nat_power uint_nat)
  moreover have "- (2 ^ (LENGTH('w) - 1)) \<le> uint w"
    by (rule order_trans [of _ 0]) simp_all
  ultimately have "signed_take_bit (LENGTH('w) - 1) (uint w) = uint w"
    by (intro signed_take_bit_int_eq_self)
  then show ?thesis by (simp add: sint_uint)
qed

lemma cut_skip_spec:
  "n \<le> segs_len ss \<Longrightarrow> \<exists>k r. cut_skip ss (int n) = (k, int r) \<and> k \<le> length ss \<and>
     segs_len (take k ss) + r = n \<and> (if k < length ss then r < unat (seg_l5_len (ss ! k)) else r = 0)"
proof (induction ss arbitrary: n)
  case Nil
  then show ?case by simp
next
  case (Cons s ss)
  show ?case
  proof (cases "int n \<ge> uint (seg_l5_len s)")
    case True
    then have le: "unat (seg_l5_len s) \<le> n" by (metis nat_int nat_mono unat_eq_nat_uint)
    have d: "int n - uint (seg_l5_len s) = int (n - unat (seg_l5_len s))"
      using le by (simp add: of_nat_diff)
    have "n - unat (seg_l5_len s) \<le> segs_len ss" using Cons.prems by simp
    from Cons.IH [OF this] obtain k r where
      kr: "cut_skip ss (int (n - unat (seg_l5_len s))) = (k, int r)" "k \<le> length ss"
      "segs_len (take k ss) + r = n - unat (seg_l5_len s)"
      "if k < length ss then r < unat (seg_l5_len (ss ! k)) else r = 0" by blast
    have "cut_skip (s # ss) (int n) = (Suc k, int r)" using True kr(1) by (simp add: d)
    then show ?thesis using kr le by (intro exI [of _ "Suc k"] exI [of _ r]) (auto split: if_splits)
  next
    case False
    then have "n < unat (seg_l5_len s)"
      by (metis int_nat_eq nat_int not_le of_nat_le_iff uint_nat)
    then show ?thesis using False by (intro exI [of _ 0] exI [of _ n]) simp
  qed
qed

lemma segs_len_take_mono: "i \<le> j \<Longrightarrow> segs_len (take i ss) \<le> segs_len (take j ss)"
  by (metis append_take_drop_id le_add1 min.absorb1 segs_len_append take_take)

lemma segs_len_take_less:
  assumes "i < j" "j \<le> length ss" "\<forall>s\<in>set ss. seg_ok s"
  shows "segs_len (take i ss) < segs_len (take j ss)"
proof -
  have "segs_len (take i ss) < segs_len (take (Suc i) ss)"
    using assms by (simp add: take_Suc_conv_app_nth seg_ok_def)
  also have "\<dots> \<le> segs_len (take j ss)" using assms(1) by (intro segs_len_take_mono) simp
  finally show ?thesis .
qed

text \<open>Where the loop stops when \<open>n\<close> bytes of the first \<open>nr\<close> buffers are passed.\<close>

lemma cut_skip_within:
  assumes ok: "\<forall>s\<in>set ss. seg_ok s" and nr: "nr \<le> length ss" and n: "n \<le> segs_len (take nr ss)"
  obtains k r where "cut_skip ss (int n) = (k, int r)" "k \<le> nr" "segs_len (take k ss) + r = n"
    "r \<noteq> 0 \<Longrightarrow> k < nr \<and> r < unat (seg_l5_len (ss ! k))"
proof -
  have "n \<le> segs_len ss" using n segs_len_take_mono [OF nr, of ss] by simp
  then obtain k r where kr: "cut_skip ss (int n) = (k, int r)" "k \<le> length ss" "segs_len (take k ss) + r = n"
    "if k < length ss then r < unat (seg_l5_len (ss ! k)) else r = 0" using cut_skip_spec by blast
  have "k \<le> nr" using segs_len_take_less [of nr k ss] kr(2,3) n ok by (cases "k \<le> nr") auto
  moreover have "r \<noteq> 0 \<Longrightarrow> k \<noteq> nr" using kr(3) n by auto
  ultimately show thesis using kr nr by (intro that [of k r]) (auto split: if_splits)
qed

lemma seg_cut_front:
  assumes "seg_ok s" "r < unat (seg_l5_len s)"
  defines "s' \<equiv> s\<lparr>seg_l5_len := seg_l5_len s - of_nat r, seg_l5_off := seg_l5_off s + of_nat r\<rparr>"
  shows "seg_bytes s' = drop r (seg_bytes s)" "seg_ok s'" "unat (seg_l5_len s') = unat (seg_l5_len s) - r"
proof -
  have r: "unat (of_nat r :: u16) = r"
    using assms(2) unsigned_less [of "seg_l5_len s", where ?'a = nat] by (intro unat_of_nat_small) simp
  have l: "unat (seg_l5_len s - of_nat r) = unat (seg_l5_len s) - r"
    using assms(2) r by (subst unat_diff_le) simp_all
  have o: "unat (seg_l5_off s + of_nat r) = unat (seg_l5_off s) + r"
    using assms(1,2) r by (subst unat_add_small) (simp_all add: seg_ok_def)
  show "unat (seg_l5_len s') = unat (seg_l5_len s) - r" by (simp add: s'_def l)
  show "seg_ok s'" using assms(1,2) by (simp add: s'_def seg_ok_def l o)
  show "seg_bytes s' = drop r (seg_bytes s)"
    using assms(2) by (simp add: s'_def seg_bytes_def l o drop_map)
qed

lemma seg_cut_back:
  assumes "seg_ok s" "r < unat (seg_l5_len s)" "r \<noteq> 0"
  defines "s' \<equiv> s\<lparr>seg_l5_len := of_nat r\<rparr>"
  shows "seg_bytes s' = take r (seg_bytes s)" "seg_ok s'" "unat (seg_l5_len s') = r"
proof -
  have r: "unat (of_nat r :: u16) = r"
    using assms(2) unsigned_less [of "seg_l5_len s", where ?'a = nat] by (intro unat_of_nat_small) simp
  show "unat (seg_l5_len s') = r" by (simp add: s'_def r)
  show "seg_ok s'" using assms(1-3) by (simp add: s'_def seg_ok_def r)
  show "seg_bytes s' = take r (seg_bytes s)"
    using assms(2) by (simp add: s'_def seg_bytes_def r take_map min_def)
qed

lemma unat_of_nat_u8: "k < 128 \<Longrightarrow> unat (of_nat k :: u8) = k"
  by (rule unat_of_nat_small) simp

lemma nr_read_seg_diff:
  "k \<le> unat (n :: u8) \<Longrightarrow> unat (n - of_nat k) = unat n - k"
  using unsigned_less [of n, where ?'a = nat] unat_of_nat_small [of k, where ?'w = 8]
  by (subst unat_diff_le) simp_all

lemma tcp_packet_cut_head_payload:
  assumes wf: "pkt_wf p" and n: "n \<le> unat (pkt_len p)"
  defines "q \<equiv> tcp_packet_cut_head p (int n)"
  shows "payload q = drop n (payload p)"
    "unat (pkt_nr_read_seg q) \<le> length (rd_segs q)" "unat (pkt_nr_read_seg q) < 128"
    "segs_len (take (unat (pkt_nr_read_seg q)) (rd_segs q)) = unat (pkt_len p) - n"
    "\<forall>s\<in>set (rd_segs q). seg_ok s"
proof -
  let ?nr = "unat (pkt_nr_read_seg p)" and ?rd = "rd_segs p" and ?t = "pkt_to_read p"
  have w: "?nr \<le> length ?rd" "?nr < 128" "segs_len (take ?nr ?rd) = unat (pkt_len p)" "\<forall>s\<in>set ?rd. seg_ok s"
    using wf by (simp_all add: pkt_wf_def)
  obtain k r where kr: "cut_skip ?rd (int n) = (k, int r)" "k \<le> ?nr" "segs_len (take k ?rd) + r = n"
    "r \<noteq> 0 \<Longrightarrow> k < ?nr \<and> r < unat (seg_l5_len (?rd ! k))"
    using cut_skip_within [OF w(4) w(1), of n] n w(3) by auto
  let ?s = "?rd ! k"
  let ?s' = "?s\<lparr>seg_l5_len := seg_l5_len ?s - of_nat r, seg_l5_off := seg_l5_off ?s + of_nat r\<rparr>"
  have nth: "r \<noteq> 0 \<Longrightarrow> pkt_segs p ! (?t + k) = ?s"
    using kr(4) w(1) unfolding rd_segs_def by (subst nth_drop) auto
  have q: "pkt_segs q = (if r = 0 then pkt_segs p else (pkt_segs p)[?t + k := ?s'])"
    "pkt_to_read q = ?t + k" "pkt_nr_read_seg q = pkt_nr_read_seg p - of_nat k"
    using nth by (simp_all add: q_def tcp_packet_cut_head_def rd_segs_def [symmetric] kr(1) Let_def)
  have rd: "rd_segs q = (if r = 0 then drop k ?rd else ?s' # drop (Suc k) ?rd)"
  proof (cases "r = 0")
    case True
    then show ?thesis by (simp add: rd_segs_def q add.commute)
  next
    case False
    then have "?t + k < length (pkt_segs p)" using kr(4) w(1) unfolding rd_segs_def by auto
    then have "rd_segs q = ?s' # drop (Suc (?t + k)) (pkt_segs p)"
      using False unfolding rd_segs_def [of q] q by (simp add: drop_update_at)
    then show ?thesis using False by (simp add: rd_segs_def add.commute)
  qed
  have nr: "unat (pkt_nr_read_seg q) = ?nr - k" using kr(2) by (simp add: q nr_read_seg_diff)
  show "unat (pkt_nr_read_seg q) < 128" using nr w(2) by simp
  have split: "take ?nr ?rd = take k ?rd @ take (?nr - k) (drop k ?rd)"
    using kr(2) by (metis append_take_drop_id le_add_diff_inverse take_add)
  show "unat (pkt_nr_read_seg q) \<le> length (rd_segs q)" using rd nr w(1) kr(2,4) by auto
  show "\<forall>s\<in>set (rd_segs q). seg_ok s"
    using rd w(4) seg_cut_front(2) [of ?s r] kr(4) w(1) by (auto dest: in_set_dropD)
  have cons: "r \<noteq> 0 \<Longrightarrow> take (?nr - k) (drop k ?rd) = ?s # take (?nr - k - 1) (drop (Suc k) ?rd)"
    using kr(4) w(1) by (simp add: take_Cons' Cons_nth_drop_Suc [symmetric])
  have cons': "r \<noteq> 0 \<Longrightarrow> take (?nr - k) (rd_segs q) = ?s' # take (?nr - k - 1) (drop (Suc k) ?rd)"
    using kr(4) rd by (simp add: take_Cons')
  have s': "r \<noteq> 0 \<Longrightarrow> seg_bytes ?s' = drop r (seg_bytes ?s) \<and> unat (seg_l5_len ?s') = unat (seg_l5_len ?s) - r"
    using seg_cut_front(1,3) [of ?s r] w(1,4) kr(4) by simp
  show "payload q = drop n (payload p)"
    unfolding payload_def nr split kr(3) [symmetric] using cons cons' s' kr(4) rd
    by (cases "r = 0") (simp_all add: drop_append)
  show "segs_len (take (unat (pkt_nr_read_seg q)) (rd_segs q)) = unat (pkt_len p) - n"
    unfolding nr w(3) [symmetric] split using cons cons' s' kr(3,4) rd
    by (cases "r = 0") auto
qed

lemma tcp_packet_cut_tail_payload:
  assumes wf: "pkt_wf p" and n: "n \<le> unat (pkt_len p)"
  defines "q \<equiv> tcp_packet_cut_tail p (int n)"
  shows "payload q = take (unat (pkt_len p) - n) (payload p)"
    "unat (pkt_nr_read_seg q) \<le> length (rd_segs q)" "unat (pkt_nr_read_seg q) < 128"
    "segs_len (take (unat (pkt_nr_read_seg q)) (rd_segs q)) = unat (pkt_len p) - n"
    "\<forall>s\<in>set (rd_segs q). seg_ok s"
proof -
  let ?nr = "unat (pkt_nr_read_seg p)" and ?rd = "rd_segs p" and ?t = "pkt_to_read p"
    and ?m = "unat (pkt_len p) - n"
  have w: "?nr \<le> length ?rd" "?nr < 128" "segs_len (take ?nr ?rd) = unat (pkt_len p)" "\<forall>s\<in>set ?rd. seg_ok s"
    using wf by (simp_all add: pkt_wf_def)
  obtain k r where kr: "cut_skip ?rd (int ?m) = (k, int r)" "k \<le> ?nr" "segs_len (take k ?rd) + r = ?m"
    "r \<noteq> 0 \<Longrightarrow> k < ?nr \<and> r < unat (seg_l5_len (?rd ! k))"
    using cut_skip_within [OF w(4) w(1), of ?m] w(3) by auto
  let ?s = "?rd ! k" and ?k' = "if r = 0 then k else Suc k"
  let ?s' = "?s\<lparr>seg_l5_len := of_nat r\<rparr>"
  have nth: "r \<noteq> 0 \<Longrightarrow> pkt_segs p ! (?t + k) = ?s"
    using kr(4) w(1) unfolding rd_segs_def by (subst nth_drop) auto
  have sz: "uint (pkt_len p) - int n = int ?m" using n by (simp add: of_nat_diff)
  have q: "pkt_segs q = (if r = 0 then pkt_segs p else (pkt_segs p)[?t + k := ?s'])"
    "pkt_to_read q = ?t" "pkt_nr_read_seg q = of_nat ?k'"
    using nth by (simp_all add: q_def tcp_packet_cut_tail_def sz rd_segs_def [symmetric] kr(1) Let_def)
  have k': "?k' \<le> ?nr" using kr(2,4) by auto
  then have nr: "unat (pkt_nr_read_seg q) = ?k'"
    unfolding q using w(2) by (intro unat_of_nat_u8) simp
  show "unat (pkt_nr_read_seg q) < 128" using nr w(2) k' by simp
  have rd: "rd_segs q = (if r = 0 then ?rd else ?rd[k := ?s'])"
    by (simp add: rd_segs_def q drop_update_swap)
  show "unat (pkt_nr_read_seg q) \<le> length (rd_segs q)" using rd nr w(1) k' by (simp split: if_splits)
  have s': "r \<noteq> 0 \<Longrightarrow> seg_bytes ?s' = take r (seg_bytes ?s) \<and> unat (seg_l5_len ?s') = r \<and> seg_ok ?s'"
    using seg_cut_back [of ?s r] w(1,4) kr(4) by simp
  show "\<forall>s\<in>set (rd_segs q). seg_ok s"
    using rd w(4) s' by (auto dest!: set_update_subset_insert [THEN subsetD])
  have tk: "take ?k' (rd_segs q) = take k ?rd @ (if r = 0 then [] else [?s'])"
    using rd kr(4) w(1) by (cases "r = 0") (auto simp: take_Suc_conv_app_nth)
  have split: "take ?nr ?rd = take k ?rd @ take (?nr - k) (drop k ?rd)"
    using kr(2) by (metis append_take_drop_id le_add_diff_inverse take_add)
  have cons: "r \<noteq> 0 \<Longrightarrow> take (?nr - k) (drop k ?rd) = ?s # take (?nr - k - 1) (drop (Suc k) ?rd)"
    using kr(4) w(1) by (simp add: take_Cons' Cons_nth_drop_Suc [symmetric])
  show "payload q = take ?m (payload p)"
    unfolding payload_def nr tk split kr(3) [symmetric] using cons s' kr(4)
    by (cases "r = 0") simp_all
  show "segs_len (take (unat (pkt_nr_read_seg q)) (rd_segs q)) = ?m"
    unfolding nr tk kr(3) [symmetric] using s' by simp
qed

lemma tcp_packet_cut_spec:
  assumes wf: "pkt_wf p" and n: "unat n \<le> unat (pkt_len p)"
  shows "payload (tcp_packet_cut p n CUT_HEAD) = drop (unat n) (payload p)"
    "pkt_seq (tcp_packet_cut p n CUT_HEAD) = pkt_seq p + n" "pkt_wf (tcp_packet_cut p n CUT_HEAD)"
    "payload (tcp_packet_cut p n CUT_TAIL) = take (unat (pkt_len p) - unat n) (payload p)"
    "pkt_seq (tcp_packet_cut p n CUT_TAIL) = pkt_seq p" "pkt_wf (tcp_packet_cut p n CUT_TAIL)"
    "unat (pkt_len (tcp_packet_cut p n d)) = unat (pkt_len p) - unat n"
proof -
  have n16: "unat n < 2 ^ 16" using n unsigned_less [of "pkt_len p", where ?'a = nat] by simp
  then have si: "sint n = int (unat n)" by (intro sint_small_word) simp
  have uc: "unat (ucast n :: u16) = unat n"
    using n16 by (intro unat_ucast_small) simp
  have len: "unat (pkt_len p - ucast n) = unat (pkt_len p) - unat n"
    using n uc by (subst unat_diff_le) simp_all
  have f: "pkt_len (tcp_packet_cut_head p i) = pkt_len p" "pkt_len (tcp_packet_cut_tail p i) = pkt_len p"
    "pkt_seq (tcp_packet_cut_tail p i) = pkt_seq p"
    "pkt_seq (tcp_packet_cut_head p i) = pkt_seq p + word_of_int i" for i
    by (simp_all add: tcp_packet_cut_head_def tcp_packet_cut_tail_def Let_def split_beta)
  have pl: "payload (q\<lparr>pkt_len := l\<rparr>) = payload q" "rd_segs (q\<lparr>pkt_len := l\<rparr>) = rd_segs q" for q l
    by (simp_all add: payload_def rd_segs_def)
  note h = tcp_packet_cut_head_payload [OF wf n] and t = tcp_packet_cut_tail_payload [OF wf n]
  show "payload (tcp_packet_cut p n CUT_HEAD) = drop (unat n) (payload p)"
    "payload (tcp_packet_cut p n CUT_TAIL) = take (unat (pkt_len p) - unat n) (payload p)"
    using h(1) t(1) by (simp_all add: tcp_packet_cut_def si pl Let_def)
  show "pkt_seq (tcp_packet_cut p n CUT_HEAD) = pkt_seq p + n" "pkt_seq (tcp_packet_cut p n CUT_TAIL) = pkt_seq p"
    by (simp_all add: tcp_packet_cut_def f Let_def)
  show "unat (pkt_len (tcp_packet_cut p n d)) = unat (pkt_len p) - unat n"
    by (cases d) (simp_all add: tcp_packet_cut_def f len Let_def)
  show "pkt_wf (tcp_packet_cut p n CUT_HEAD)" "pkt_wf (tcp_packet_cut p n CUT_TAIL)"
    using h(2-5) t(2-5) by (simp_all add: pkt_wf_def tcp_packet_cut_def si pl f len Let_def)
qed

text \<open>C11: cutting \<open>n\<close> bytes (no more than the packet has) from the head of a packet chain
  drops exactly the first \<open>n\<close> payload bytes and moves the sequence number by \<open>n\<close>; cutting from
  the tail drops exactly the last \<open>n\<close> bytes and keeps the sequence number. The chain stays
  well-formed, across any number of buffers.\<close>

theorem tcp_packet_cut_payload:
  assumes "pkt_wf p" "unat n \<le> unat (pkt_len p)"
  shows "payload (tcp_packet_cut p n CUT_HEAD) = drop (unat n) (payload p) \<and>
    pkt_seq (tcp_packet_cut p n CUT_HEAD) = pkt_seq p + n \<and> pkt_wf (tcp_packet_cut p n CUT_HEAD) \<and>
    payload (tcp_packet_cut p n CUT_TAIL) = take (unat (pkt_len p) - unat n) (payload p) \<and>
    pkt_seq (tcp_packet_cut p n CUT_TAIL) = pkt_seq p \<and> pkt_wf (tcp_packet_cut p n CUT_TAIL)"
  using tcp_packet_cut_spec [OF assms] by blast

definition pkt_example :: packet where
  "pkt_example =
     \<lparr>pkt_id = 1, pkt_mbuf = \<lparr>mb_l3_ipv4 = True, mb_l3_ipv6 = False, mb_l4_tcp = True, mb_ip_cksum_good = True,
        mb_l4_cksum_good = True, mb_fdir_id = False, mb_fdir_hi = 0, mb_data_off = 128, mb_pkt_len = 60,
        mb_nb_segs = 2\<rparr>,
      pkt_src_port = 80, pkt_dst_port = 1024, pkt_flags = 0, pkt_wid = 0, pkt_l2_off = 128, pkt_l3_off = 142,
      pkt_l4_off = 162, pkt_hdr_len = 54, pkt_nr_read_seg = 2, pkt_seq = 100, pkt_ack = 7, pkt_ts_val = 0,
      pkt_ts_ecr = 0, pkt_wnd = 512, pkt_len = 5, pkt_opt_len = 0, pkt_tcp_flags = 16, pkt_port_id = 0,
      pkt_segs = [\<lparr>seg_buf = (\<lambda>i. of_nat i), seg_l5_off = 10, seg_l5_len = 3\<rparr>,
                  \<lparr>seg_buf = (\<lambda>i. of_nat i), seg_l5_off = 20, seg_l5_len = 2\<rparr>],
      pkt_to_read = 0\<rparr>"

lemma pkt_example_wf: "pkt_wf pkt_example" "payload pkt_example = [10, 11, 12, 20, 21]"
  by (simp_all add: pkt_wf_def pkt_example_def rd_segs_def segs_len_def seg_ok_def payload_def seg_bytes_def
      upt_rec)

lemma tcp_packet_cut_payload_witness:
  "payload (tcp_packet_cut pkt_example 4 CUT_HEAD) = [21] \<and>
   payload (tcp_packet_cut pkt_example 1 CUT_TAIL) = [10, 11, 12, 20]"
  using tcp_packet_cut_payload [OF pkt_example_wf(1), of 4] tcp_packet_cut_payload [OF pkt_example_wf(1), of 1]
  by (simp add: pkt_example_wf(2)) (simp add: pkt_example_def)

section \<open>Chaining\<close>

lemma packet_chain_payload:
  assumes h: "pkt_wf h" "pkt_to_read h = 0" "unat (pkt_nr_read_seg h) = length (pkt_segs h)"
    and p: "pkt_segs p = [s]" "pkt_to_read p = 0" "pkt_nr_read_seg p = 1" "pkt_wf p"
    and fit: "unat (pkt_len h) + unat (pkt_len p) < 2 ^ 16" "length (pkt_segs h) < 127"
  shows "payload (packet_chain h p) = payload h @ payload p" "pkt_wf (packet_chain h p)"
    "unat (pkt_len (packet_chain h p)) = unat (pkt_len h) + unat (pkt_len p)"
    "unat (pkt_nr_read_seg (packet_chain h p)) = length (pkt_segs (packet_chain h p))"
proof -
  have sl: "unat (seg_l5_len s) = unat (pkt_len p)" "seg_ok s"
    using p by (simp_all add: pkt_wf_def rd_segs_def segs_len_def)
  have nr: "unat (pkt_nr_read_seg h + 1) = Suc (length (pkt_segs h))"
    using h(3) fit(2) by (subst unat_add_small) simp_all
  have len: "unat (pkt_len h + seg_l5_len s) = unat (pkt_len h) + unat (pkt_len p)"
    using fit(1) sl(1) by (subst unat_add_small) simp_all
  have segs: "segs_len (pkt_segs h) = unat (pkt_len h)" "\<forall>s\<in>set (pkt_segs h). seg_ok s"
    using h by (simp_all add: pkt_wf_def rd_segs_def)
  show "payload (packet_chain h p) = payload h @ payload p"
    using h(2,3) p(1-3) nr by (simp add: payload_def rd_segs_def packet_chain_def)
  show "pkt_wf (packet_chain h p)"
    using h(2) p(1) nr len sl segs fit(2) by (simp add: pkt_wf_def rd_segs_def packet_chain_def)
  show "unat (pkt_len (packet_chain h p)) = unat (pkt_len h) + unat (pkt_len p)"
    using p(1) len by (simp add: packet_chain_def)
  show "unat (pkt_nr_read_seg (packet_chain h p)) = length (pkt_segs (packet_chain h p))"
    using p(1) nr by (simp add: packet_chain_def)
qed

section \<open>What parsing gives\<close>

lemma unat_IP4_HDR_LEN: "unat (IP4_HDR_LEN v) = 4 * (unat v mod 16)"
proof -
  have m: "(0xf :: u8) = mask 4" by (simp add: mask_eq_exp_minus_1)
  have a: "unat (v AND 0xf) = unat v mod 16" unfolding m by (subst unat_and_mask) simp
  then have "unat (ucast (v AND 0xf) :: u32) = unat v mod 16" by (subst unat_ucast_small) simp_all
  moreover have "unat v mod 16 < 16" by simp
  ultimately show ?thesis by (simp add: IP4_HDR_LEN_def push_bit_eq_mult unat_word_ariths)
qed

lemma unat_tcp_hdr_len: "unat (push_bit 2 (drop_bit 4 (ucast (x :: u8))) :: u16) = 4 * (unat x div 16)"
proof -
  have "unat (ucast x :: u16) = unat x"
    using unsigned_less [of x, where ?'a = nat] by (intro unat_ucast_small) simp
  then have d: "unat (drop_bit 4 (ucast x) :: u16) = unat x div 16"
    by (simp add: drop_bit_eq_div unat_div)
  have "unat x div 16 < 16" using unsigned_less [of x, where ?'a = nat] by simp
  then show ?thesis unfolding push_bit_eq_mult using d by (simp add: unat_word_ariths)
qed

text \<open>An IPv4 TCP packet in one buffer whose lengths agree with each other and with what was
  received: \<open>d\<close> is the data offset, the IP header has \<open>4 * ihl\<close> bytes, the TCP header \<open>4 * doff\<close>,
  and \<open>tot\<close> is the total length field.\<close>

definition ip4_tcp_pkt :: "packet \<Rightarrow> nat \<Rightarrow> nat \<Rightarrow> nat \<Rightarrow> nat \<Rightarrow> bool" where
  "ip4_tcp_pkt p d ihl doff tot \<longleftrightarrow>
     length (pkt_segs p) = 1 \<and> unat (mb_data_off (pkt_mbuf p)) = d \<and> d \<le> 128 \<and>
     mb_l3_ipv4 (pkt_mbuf p) \<and> mb_l4_tcp (pkt_mbuf p) \<and>
     unat (packet_data p (d + 14)) mod 16 = ihl \<and>
     \<not> ip_is_frag (rd16 (\<lambda>i. packet_data p (d + 14 + i)) 6) \<and>
     unat (rd16 (\<lambda>i. packet_data p (d + 14 + i)) 2) = tot \<and>
     unat (packet_data p (d + 14 + 4 * ihl + 12)) div 16 = doff \<and>
     4 * ihl + 4 * doff \<le> tot \<and> 14 + tot \<le> unat (mb_pkt_len (pkt_mbuf p)) \<and> d + 14 + tot < 2 ^ 16"

lemma parse_tcp_hdr_fields:
  assumes ok: "pkt_segs p = [s]" "unat (pkt_l2_off p) = d" "unat (pkt_l4_off p) = l4" "d \<le> l4" "l4 \<le> d + 74"
    and doff: "unat (seg_buf s (l4 + 12)) div 16 = doff"
    and len: "unat iplen = n" "4 * doff \<le> n" "l4 - d + n \<le> unat (mb_pkt_len (pkt_mbuf p))" "l4 + n < 2 ^ 16"
  obtains q where "parse_tcp_hdr p iplen = (None, q)" "unat (pkt_len q) = n - 4 * doff"
    "pkt_segs q = [s\<lparr>seg_l5_off := of_nat (l4 + 4 * doff), seg_l5_len := pkt_len q\<rparr>]"
    "pkt_nr_read_seg q = 1" "pkt_to_read q = pkt_to_read p" "pkt_seq q = rd32 (\<lambda>i. seg_buf s (l4 + i)) 4"
    "pkt_ack q = rd32 (\<lambda>i. seg_buf s (l4 + i)) 8" "pkt_tcp_flags q = seg_buf s (l4 + 13)"
    "pkt_wnd q = rd16 (\<lambda>i. seg_buf s (l4 + i)) 14" "pkt_src_port q = rd16 (\<lambda>i. seg_buf s (l4 + i)) 0"
    "pkt_dst_port q = rd16 (\<lambda>i. seg_buf s (l4 + i)) 2"
proof -
  let ?hl = "push_bit 2 (drop_bit 4 (ucast (packet_tcp_hdr p 12))) :: u16"
  let ?off = "ucast (pkt_l4_off p) + ?hl" and ?len = "ucast (iplen - ucast ?hl) :: u16"
  have th: "packet_tcp_hdr p = (\<lambda>i. seg_buf s (l4 + i))"
    by (rule ext) (simp add: packet_tcp_hdr_def packet_data_def ok)
  have d16: "doff < 16" using doff unsigned_less [of "seg_buf s (l4 + 12)", where ?'a = nat] by auto
  have hl: "unat ?hl = 4 * doff" unfolding unat_tcp_hdr_len by (simp add: th doff)
  have l4b: "l4 < 256" using ok(3) unsigned_less [of "pkt_l4_off p", where ?'a = nat] by simp
  have c4: "unat (ucast (pkt_l4_off p) :: u16) = l4" using l4b ok(3) by (subst unat_ucast_small) simp_all
  have c2: "unat (ucast (pkt_l2_off p) :: u16) = d" using l4b ok(2,4) by (subst unat_ucast_small) simp_all
  have off: "unat ?off = l4 + 4 * doff" using l4b d16 hl c4 by (subst unat_add_small) simp_all
  then have offw: "?off = of_nat (l4 + 4 * doff)" by (rule word_eq_of_nat)
  have h: "unat (?off - ucast (pkt_l2_off p)) = l4 + 4 * doff - d"
    using ok(4) by (subst unat_diff_le) (simp_all only: off c2)
  have hd: "unat (ucast (?off - ucast (pkt_l2_off p)) :: u8) = l4 + 4 * doff - d"
    using ok(5) d16 by (subst unat_ucast_small) (simp_all only: h, simp)
  have "unat (ucast (ucast (?off - ucast (pkt_l2_off p)) :: u8) :: u32) = l4 + 4 * doff - d"
    using ok(5) d16 by (subst unat_ucast_small) (simp_all only: hd, simp)
  then have fits: "\<not> mb_pkt_len (pkt_mbuf p) < ucast (ucast (?off - ucast (pkt_l2_off p)) :: u8)"
    using len(2,3) ok(4) by (simp add: word_less_nat_alt)
  have "unat (ucast ?hl :: u32) = 4 * doff" using d16 by (subst unat_ucast_small) (simp_all only: hl, simp)
  then have "unat (iplen - ucast ?hl) = n - 4 * doff"
    using len(1,2) by (subst unat_diff_le) simp_all
  then have len': "unat ?len = n - 4 * doff" using len(4) by (subst unat_ucast_small) simp_all
  let ?q = "snd (parse_tcp_hdr p iplen)"
  show thesis
  proof (rule that [of ?q])
    show "parse_tcp_hdr p iplen = (None, ?q)" using fits by (simp add: parse_tcp_hdr_def Let_def)
    have l: "pkt_len ?q = ?len" using fits by (simp add: parse_tcp_hdr_def Let_def)
    show "unat (pkt_len ?q) = n - 4 * doff" unfolding l by (rule len')
    show "pkt_segs ?q = [s\<lparr>seg_l5_off := of_nat (l4 + 4 * doff), seg_l5_len := pkt_len ?q\<rparr>]"
      unfolding l using fits by (simp add: parse_tcp_hdr_def Let_def ok(1)) (simp add: offw [simplified])
  qed (use fits in \<open>simp_all add: parse_tcp_hdr_def Let_def th\<close>)
qed

text \<open>C23: an IPv4 TCP packet whose header lengths, total length and received length agree is
  accepted, and the parsed sequence number, acknowledgement, flags, window, ports and payload are
  those of the bytes at their protocol offsets; verification of the checksum is skipped only if
  the NIC reported both checksums good.\<close>

theorem parse_tcp_packet_ip4:
  assumes "ip4_tcp_pkt p d ihl doff tot" "pkt_to_read p = 0"
    and "(mb_ip_cksum_good (pkt_mbuf p) \<and> mb_l4_cksum_good (pkt_mbuf p)) \<or> (\<forall>q. verify_csum q = None)"
  defines "th \<equiv> (\<lambda>i. packet_data p (d + 14 + 4 * ihl + i))"
  shows "\<exists>q. parse_tcp_packet verify_csum p = (None, q) \<and> pkt_seq q = rd32 th 4 \<and> pkt_ack q = rd32 th 8 \<and>
    pkt_tcp_flags q = th 13 \<and> pkt_wnd q = rd16 th 14 \<and> pkt_src_port q = rd16 th 0 \<and> pkt_dst_port q = rd16 th 2 \<and>
    unat (pkt_len q) = tot - 4 * ihl - 4 * doff \<and>
    payload q = map (packet_data p) [d + 14 + 4 * ihl + 4 * doff..<d + 14 + tot]"
proof -
  have c: "length (pkt_segs p) = 1" "unat (mb_data_off (pkt_mbuf p)) = d" "d \<le> 128"
     "mb_l3_ipv4 (pkt_mbuf p)" "mb_l4_tcp (pkt_mbuf p)" "unat (packet_data p (d + 14)) mod 16 = ihl"
     "\<not> ip_is_frag (rd16 (\<lambda>i. packet_data p (d + 14 + i)) 6)"
     "unat (rd16 (\<lambda>i. packet_data p (d + 14 + i)) 2) = tot"
     "unat (packet_data p (d + 14 + 4 * ihl + 12)) div 16 = doff"
     "4 * ihl + 4 * doff \<le> tot" "14 + tot \<le> unat (mb_pkt_len (pkt_mbuf p))" "d + 14 + tot < 2 ^ 16"
    using assms(1) by (simp_all add: ip4_tcp_pkt_def)
  obtain s where s: "pkt_segs p = [s]" using c(1) by (auto simp: length_Suc_conv)
  let ?l2 = "ucast (mb_data_off (pkt_mbuf p)) :: u8"
  let ?p1 = "p\<lparr>pkt_l2_off := ?l2, pkt_l3_off := ?l2 + ETH_HDR_LEN\<rparr>"
  let ?ihl = "IP4_HDR_LEN (packet_ip_hdr ?p1 0)"
  let ?p2 = "?p1\<lparr>pkt_l4_off := pkt_l3_off ?p1 + ucast ?ihl\<rparr>"
  have l2: "unat ?l2 = d" using c(2,3) by (subst unat_ucast_small) simp_all
  have l3: "unat (?l2 + ETH_HDR_LEN) = d + 14"
    using l2 c(3) by (subst unat_add_small) (simp_all add: ETH_HDR_LEN_def)
  have ip: "packet_ip_hdr ?p1 = (\<lambda>i. packet_data p (d + 14 + i))"
    by (rule ext) (simp add: packet_ip_hdr_def packet_data_def l3)
  have ih: "unat ?ihl = 4 * ihl" unfolding ip unat_IP4_HDR_LEN using c(6) by simp
  have ihb: "ihl < 16" using c(6) by (metis mod_less_divisor zero_less_numeral)
  have "unat (ucast ?ihl :: u8) = 4 * ihl" using ihb by (subst unat_ucast_small) (simp_all only: ih, simp)
  then have l4: "unat (pkt_l4_off ?p2) = d + 14 + 4 * ihl"
    using l3 ihb c(3) by (simp add: unat_add_small)
  have "unat (ucast (rd16 (packet_ip_hdr ?p1) 2) :: u32) = tot"
    using c(8,12) by (subst unat_ucast_small) (simp_all add: ip)
  then have n: "unat (ucast (rd16 (packet_ip_hdr ?p1) 2) - ?ihl) = tot - 4 * ihl"
    using c(10) ih by (subst unat_diff_le) simp_all
  obtain q where q: "parse_tcp_hdr ?p2 (ucast (rd16 (packet_ip_hdr ?p1) 2) - ?ihl) = (None, q)"
    "unat (pkt_len q) = tot - 4 * ihl - 4 * doff"
    "pkt_segs q = [s\<lparr>seg_l5_off := of_nat (d + 14 + 4 * ihl + 4 * doff), seg_l5_len := pkt_len q\<rparr>]"
    "pkt_nr_read_seg q = 1" "pkt_to_read q = pkt_to_read ?p2"
    "pkt_seq q = rd32 (\<lambda>i. seg_buf s (d + 14 + 4 * ihl + i)) 4"
    "pkt_ack q = rd32 (\<lambda>i. seg_buf s (d + 14 + 4 * ihl + i)) 8" "pkt_tcp_flags q = seg_buf s (d + 14 + 4 * ihl + 13)"
    "pkt_wnd q = rd16 (\<lambda>i. seg_buf s (d + 14 + 4 * ihl + i)) 14"
    "pkt_src_port q = rd16 (\<lambda>i. seg_buf s (d + 14 + 4 * ihl + i)) 0"
    "pkt_dst_port q = rd16 (\<lambda>i. seg_buf s (d + 14 + 4 * ihl + i)) 2"
  proof (rule parse_tcp_hdr_fields [of ?p2 s d "d + 14 + 4 * ihl" doff _ "tot - 4 * ihl"])
    show "unat (seg_buf s (d + 14 + 4 * ihl + 12)) div 16 = doff" using c(9) s by (simp add: packet_data_def)
  qed (use s l2 l4 n c(10-12) ihb in simp_all)
  have run: "parse_tcp_packet verify_csum p = (None, q)"
    using assms(3) c(4,5,7) q(1) by (auto simp: parse_tcp_packet_def Let_def ip)
  have pd: "packet_data p = seg_buf s" by (simp add: packet_data_def s)
  have o: "unat (of_nat (d + 14 + 4 * ihl + 4 * doff) :: u16) = d + 14 + 4 * ihl + 4 * doff"
    using c(10,12) by (intro unat_of_nat_small) simp
  have "payload q = map (packet_data p) [d + 14 + 4 * ihl + 4 * doff..<d + 14 + tot]"
    using q(2-5) assms(2) c(10)
    by (simp add: payload_def rd_segs_def seg_bytes_def pd del: of_nat_add) (simp only: o, simp add: add.assoc)
  then show ?thesis using run q(2,6-11) by (intro exI [of _ q]) (simp add: th_def pd)
qed

definition pkt_raw :: "nat \<Rightarrow> nat \<Rightarrow> nat \<Rightarrow> u32 \<Rightarrow> packet" where
  "pkt_raw ihl doff tot rcvd = pkt_example
     \<lparr>pkt_mbuf := (pkt_mbuf pkt_example)\<lparr>mb_data_off := 0, mb_pkt_len := rcvd\<rparr>,
      pkt_segs := [\<lparr>seg_buf = (\<lambda>i. if i = 14 then of_nat (64 + ihl) else if i = 16 then of_nat (tot div 256)
          else if i = 17 then of_nat tot else if i = 46 then of_nat (16 * doff) else 0),
        seg_l5_off = 0, seg_l5_len = 0\<rparr>], pkt_to_read := 0\<rparr>"

lemma parse_tcp_packet_ip4_witness:
  "\<exists>q. parse_tcp_packet (\<lambda>_. Some ERR_BAD_CSUM_TCP) (pkt_raw 5 5 44 58) = (None, q) \<and> unat (pkt_len q) = 4 \<and>
     payload q = [0, 0, 0, 0]"
proof -
  have "ip4_tcp_pkt (pkt_raw 5 5 44 58) 0 5 5 44"
    by (simp add: ip4_tcp_pkt_def pkt_raw_def pkt_example_def packet_data_def ip_is_frag_def rd16_def)
  moreover have "pkt_to_read (pkt_raw 5 5 44 58) = 0"
    "mb_ip_cksum_good (pkt_mbuf (pkt_raw 5 5 44 58))" "mb_l4_cksum_good (pkt_mbuf (pkt_raw 5 5 44 58))"
    by (simp_all add: pkt_raw_def pkt_example_def)
  ultimately show ?thesis
    using parse_tcp_packet_ip4 [of "pkt_raw 5 5 44 58" 0 5 5 44 "\<lambda>_. Some ERR_BAD_CSUM_TCP"]
    by (auto simp: pkt_raw_def packet_data_def upt_rec)
qed


end
