(* ===== verification/Tcp_Opts.thy ===== *)
theory Tcp_Opts
  imports Packet
begin

text \<open>
  The TCP options: \<open>parse_tcp_opts\<close> and \<open>parse_ts_opt_fast\<close> of \<open>src/tcp/tcp_input.c\<close>, and the
  bytes that \<open>fill_opts\<close> and \<open>fill_uncommon_opts\<close> of \<open>src/tcp/tcp_output.c\<close> write. What the
  writer takes from the socket (the segment size to announce, the SACK blocks) is an argument
  here. The theory shows that the parser returns, that it reads back what the writer wrote, and
  what it bounds of what it returns.
\<close>

section \<open>Parsing\<close>

definition opts_none :: tcp_opts where
  "opts_none = \<lparr>has_mss = False, opt_mss = 0, has_wscale = False, opt_wscale = 0, has_ts = False,
     opt_ts_val = 0, opt_ts_ecr = 0, has_sack_perm = False, opt_sack_blocks = []\<rparr>"

definition read_sack_blocks :: "(nat \<Rightarrow> u8) \<Rightarrow> nat \<Rightarrow> nat \<Rightarrow> tcp_sack_block list" where
  "read_sack_blocks p off nr =
     map (\<lambda>i. \<lparr>blk_start = rd32 p (off + 8 * i), blk_end = rd32 p (off + 8 * i + 4)\<rparr>) [0..<nr]"

text \<open>One pass of the loop body for the option of kind \<open>ty\<close> and length \<open>ol\<close> at \<open>off\<close>: \<open>Inl\<close> is the
  early return, \<open>Inr\<close> carries \<open>ret\<close>, the options and the packet to the next round.\<close>

definition parse_one_opt ::
  "(nat \<Rightarrow> u8) \<Rightarrow> nat \<Rightarrow> u8 \<Rightarrow> nat \<Rightarrow> err \<Rightarrow> tcp_opts \<Rightarrow> packet \<Rightarrow>
   stats_code + (err \<times> tcp_opts \<times> packet)" where
  "parse_one_opt p off ty ol ret opts pkt =
     (if ty = TCP_OPT_MSS_KIND then Inr (ret, opts\<lparr>opt_mss := rd16 p (off + 2), has_mss := True\<rparr>, pkt)
      else if ty = TCP_OPT_WSCALE_KIND then
        Inr (ret, opts\<lparr>opt_wscale := (if p (off + 2) > TCP_WSCALE_MAX then TCP_WSCALE_MAX else p (off + 2)),
                       has_wscale := True\<rparr>, pkt)
      else if ty = TCP_OPT_TS_KIND then
        Inr (ret, opts\<lparr>opt_ts_val := rd32 p (off + 2), opt_ts_ecr := rd32 p (off + 6), has_ts := True\<rparr>,
             pkt\<lparr>pkt_flags := pkt_flags pkt OR PKT_FLAG_HAS_TS_OPT, pkt_ts_val := rd32 p (off + 2),
                 pkt_ts_ecr := rd32 p (off + 6)\<rparr>)
      else if ty = TCP_OPT_SACK_PERM_KIND then Inr (ret, opts\<lparr>has_sack_perm := True\<rparr>, pkt)
      else if ty = TCP_OPT_SACK_KIND then
        if ol > TCP_OPT_SACK_LEN TCP_MAX_NR_SACK_BLOCK then Inl ERR_INVALID_TCP_OPT_LEN
        else if (ol - 2) mod 8 \<noteq> 0 then Inl ERR_INVALID_TCP_OPT_LEN
        else Inr (ret, opts\<lparr>opt_sack_blocks := read_sack_blocks p (off + 2) ((ol - 2) div 8)\<rparr>, pkt)
      else Inr (Some ERR_INVALID_TCP_OPT_TYPE, opts, pkt))"

function parse_opts_loop ::
  "(nat \<Rightarrow> u8) \<Rightarrow> nat \<Rightarrow> nat \<Rightarrow> err \<Rightarrow> tcp_opts \<Rightarrow> packet \<Rightarrow> err \<times> tcp_opts \<times> packet" where
  "parse_opts_loop p len off ret opts pkt =
     (if off < len then
        if p off = TCP_OPT_EOL_KIND then (None, opts, pkt)
        else if p off = TCP_OPT_NOP_KIND then parse_opts_loop p len (off + 1) ret opts pkt
        else if unat (p (off + 1)) < 2 then (Some ERR_INVALID_TCP_OPT_LEN, opts, pkt)
        else if off + unat (p (off + 1)) > len then (Some ERR_INVALID_TCP_OPT_LEN, opts, pkt)
        else (case parse_one_opt p off (p off) (unat (p (off + 1))) ret opts pkt of
                Inl e \<Rightarrow> (Some e, opts, pkt)
              | Inr (ret1, opts1, pkt1) \<Rightarrow>
                  parse_opts_loop p len (off + unat (p (off + 1))) ret1 opts1 pkt1)
      else (ret, opts, pkt))"
  by pat_completeness auto
termination by (relation "measure (\<lambda>(p, len, off, _). len - off)") auto

declare parse_opts_loop.simps [simp del]

definition parse_tcp_opts :: "packet \<Rightarrow> err \<times> tcp_opts \<times> packet" where
  "parse_tcp_opts pkt =
     parse_opts_loop (\<lambda>i. packet_tcp_hdr pkt (TCP_HDR_SIZE + i)) (unat (pkt_opt_len pkt)) 0 None opts_none pkt"

text \<open>\<open>parse_ts_opt_fast\<close>: the value is 0 when the option area starts like a timestamp option
  written by most stacks, -1 otherwise.\<close>

definition parse_ts_opt_fast :: "packet \<Rightarrow> int \<times> packet" where
  "parse_ts_opt_fast pkt =
     (let p = (\<lambda>i. packet_tcp_hdr pkt (TCP_HDR_SIZE + i))
      in if p 0 = TCP_OPT_NOP_KIND \<and> p 1 = TCP_OPT_NOP_KIND \<and> p 2 = TCP_OPT_TS_KIND \<and> p 3 = TCP_OPT_TS_LEN
         then (0, pkt\<lparr>pkt_ts_val := rd32 p 4, pkt_ts_ecr := rd32 p 8,
                      pkt_flags := pkt_flags pkt OR PKT_FLAG_HAS_TS_OPT\<rparr>)
         else (-1, pkt))"

section \<open>Writing\<close>

definition TCP_OPT_MSS_BIT :: u32 where "TCP_OPT_MSS_BIT = 4"
definition TCP_OPT_WSCALE_BIT :: u32 where "TCP_OPT_WSCALE_BIT = 8"
definition TCP_OPT_SACK_PERM_BIT :: u32 where "TCP_OPT_SACK_PERM_BIT = 16"
definition TCP_OPT_SACK_BIT :: u32 where "TCP_OPT_SACK_BIT = 32"
definition TCP_OPT_TS_BIT :: u32 where "TCP_OPT_TS_BIT = 256"

lemmas tcp_opt_bit_defs = TCP_OPT_MSS_BIT_def TCP_OPT_WSCALE_BIT_def TCP_OPT_SACK_PERM_BIT_def
  TCP_OPT_SACK_BIT_def TCP_OPT_TS_BIT_def

definition sack_block_bytes :: "tcp_sack_block \<Rightarrow> u8 list" where
  "sack_block_bytes b = be32 (blk_start b) @ be32 (blk_end b)"

definition fill_uncommon_opts :: "u16 \<Rightarrow> tcp_sack_block list \<Rightarrow> u32 \<Rightarrow> u8 list" where
  "fill_uncommon_opts mss blocks opts =
     (if opts AND TCP_OPT_MSS_BIT \<noteq> 0 then [TCP_OPT_MSS_KIND, TCP_OPT_MSS_LEN] @ be16 mss else []) @
     (if opts AND TCP_OPT_WSCALE_BIT \<noteq> 0
      then [TCP_OPT_WSCALE_KIND, TCP_OPT_WSCALE_LEN, TCP_WSCALE_DEFAULT, TCP_OPT_NOP_KIND] else []) @
     (if opts AND TCP_OPT_SACK_PERM_BIT \<noteq> 0
      then [TCP_OPT_SACK_PERM_KIND, TCP_OPT_SACK_PERM_LEN, TCP_OPT_NOP_KIND, TCP_OPT_NOP_KIND] else []) @
     (if opts AND TCP_OPT_SACK_BIT \<noteq> 0
      then [TCP_OPT_NOP_KIND, TCP_OPT_NOP_KIND, TCP_OPT_SACK_KIND, of_nat (TCP_OPT_SACK_LEN (length blocks))] @
           concat (map sack_block_bytes blocks) else [])"

definition fill_opts :: "u64 \<Rightarrow> u16 \<Rightarrow> tcp_sack_block list \<Rightarrow> u32 \<Rightarrow> u8 list" where
  "fill_opts ts_us mss blocks opts =
     (if opts AND TCP_OPT_TS_BIT \<noteq> 0 then fill_opt_ts (us_to_tcp_ts ts_us) 0 else []) @
     (if opts AND (NOT TCP_OPT_TS_BIT) \<noteq> 0 then fill_uncommon_opts mss blocks opts else [])"

section \<open>Bytes in memory\<close>

definition bytes_at :: "(nat \<Rightarrow> u8) \<Rightarrow> nat \<Rightarrow> u8 list \<Rightarrow> bool" where
  "bytes_at p off bs \<longleftrightarrow> (\<forall>i<length bs. p (off + i) = bs ! i)"

lemma bytes_at_Nil [simp]: "bytes_at p off []"
  by (simp add: bytes_at_def)

lemma bytes_at_Cons [simp]: "bytes_at p off (b # bs) \<longleftrightarrow> p off = b \<and> bytes_at p (off + 1) bs"
  by (auto simp: bytes_at_def less_Suc_eq_0_disj)

lemma bytes_at_append [simp]:
  "bytes_at p off (xs @ ys) \<longleftrightarrow> bytes_at p off xs \<and> bytes_at p (off + length xs) ys"
  by (induction xs arbitrary: off) auto

lemma length_be16 [simp]: "length (be16 w) = 2"
  and length_be32 [simp]: "length (be32 v) = 4"
  by (simp_all add: be16_def be32_def)

lemma rd16_be16: "bytes_at p i (be16 w) \<Longrightarrow> rd16 p i = w"
  unfolding rd16_def be16_def
  by (simp, rule bit_word_eqI) (auto simp: bit_simps)

lemma rd32_be32: "bytes_at p i (be32 w) \<Longrightarrow> rd32 p i = w"
proof -
  assume "bytes_at p i (be32 w)"
  then have b: "p i = ucast (drop_bit 24 w)" "p (i + 1) = ucast (drop_bit 16 w)"
    "p (i + 2) = ucast (drop_bit 8 w)" "p (i + 3) = ucast w"
    by (simp_all add: be32_def numeral_eq_Suc)
  show ?thesis unfolding rd32_def b
  proof (rule bit_word_eqI)
    fix n assume "n < LENGTH(32)"
    then consider "n < 8" | "8 \<le> n" "n < 16" | "16 \<le> n" "n < 24" | "24 \<le> n" "n < 32" by fastforce
    then show "bit (push_bit 24 (ucast (ucast (drop_bit 24 w) :: u8)) OR push_bit 16 (ucast (ucast (drop_bit 16 w) :: u8)) OR
        push_bit 8 (ucast (ucast (drop_bit 8 w) :: u8)) OR ucast (ucast w :: u8) :: u32) n = bit w n"
      by cases (auto simp: bit_simps)
  qed
qed

section \<open>Reading back what was written\<close>

lemma loop_done: "len \<le> off \<Longrightarrow> parse_opts_loop p len off ret opts pkt = (ret, opts, pkt)"
  by (subst parse_opts_loop.simps) simp

lemma bytes_at_drop: "bytes_at p off bs \<Longrightarrow> i \<le> length bs \<Longrightarrow> bytes_at p (off + i) (drop i bs)"
  using bytes_at_append [of p off "take i bs" "drop i bs"] by (simp add: min_absorb2)

lemma bytes_at_take: "bytes_at p off bs \<Longrightarrow> bytes_at p off (take i bs)"
  using bytes_at_append [of p off "take i bs" "drop i bs"] by simp

lemma loop_nop:
  "bytes_at p off [TCP_OPT_NOP_KIND] \<Longrightarrow> off + 1 \<le> len \<Longrightarrow>
     parse_opts_loop p len off ret opts pkt = parse_opts_loop p len (off + 1) ret opts pkt"
  by (subst parse_opts_loop.simps) (simp add: tcp_opt_defs)

lemma loop_nop2:
  "bytes_at p off [TCP_OPT_NOP_KIND, TCP_OPT_NOP_KIND] \<Longrightarrow> off + 2 \<le> len \<Longrightarrow>
     parse_opts_loop p len off ret opts pkt = parse_opts_loop p len (off + 2) ret opts pkt"
  using loop_nop [of p off len] loop_nop [of p "off + 1" len] by simp

lemma loop_opt:
  assumes "bytes_at p off (ty # ol8 # rest)" "ty \<noteq> TCP_OPT_EOL_KIND" "ty \<noteq> TCP_OPT_NOP_KIND" "unat ol8 = ol"
    and "2 \<le> ol" "off + ol \<le> len" "parse_one_opt p off ty ol ret opts pkt = Inr (ret1, opts1, pkt1)"
  shows "parse_opts_loop p len off ret opts pkt = parse_opts_loop p len (off + ol) ret1 opts1 pkt1"
  using assms by (subst parse_opts_loop.simps) simp

lemma loop_ts:
  assumes "bytes_at p off (fill_opt_ts v e)" "off + 12 \<le> len"
  shows "parse_opts_loop p len off ret opts pkt =
    parse_opts_loop p len (off + 12) ret (opts\<lparr>opt_ts_val := v, opt_ts_ecr := e, has_ts := True\<rparr>)
      (pkt\<lparr>pkt_flags := pkt_flags pkt OR PKT_FLAG_HAS_TS_OPT, pkt_ts_val := v, pkt_ts_ecr := e\<rparr>)"
proof -
  let ?o = "off + 2"
  have b: "bytes_at p ?o (TCP_OPT_TS_KIND # TCP_OPT_TS_LEN # be32 v @ be32 e)"
    using bytes_at_drop [OF assms(1), of 2] by (simp add: fill_opt_ts_def)
  have "bytes_at p (?o + 2) (be32 v @ be32 e)" using bytes_at_drop [OF b, of 2] by simp
  then have r: "rd32 p (?o + 2) = v" "rd32 p (?o + 6) = e" by (auto simp: add.assoc intro!: rd32_be32)
  have "parse_opts_loop p len off ret opts pkt = parse_opts_loop p len ?o ret opts pkt"
    using bytes_at_take [OF assms(1), of 2] assms(2) by (intro loop_nop2) (simp_all add: fill_opt_ts_def)
  also have "\<dots> = parse_opts_loop p len (?o + 10) ret (opts\<lparr>opt_ts_val := v, opt_ts_ecr := e, has_ts := True\<rparr>)
      (pkt\<lparr>pkt_flags := pkt_flags pkt OR PKT_FLAG_HAS_TS_OPT, pkt_ts_val := v, pkt_ts_ecr := e\<rparr>)"
    using assms(2) r by (intro loop_opt [OF b]) (simp_all add: tcp_opt_defs parse_one_opt_def)
  also have "?o + 10 = off + 12" by simp
  finally show ?thesis .
qed

lemma loop_mss:
  assumes "bytes_at p off ([TCP_OPT_MSS_KIND, TCP_OPT_MSS_LEN] @ be16 m)" "off + 4 \<le> len"
  shows "parse_opts_loop p len off ret opts pkt =
    parse_opts_loop p len (off + 4) ret (opts\<lparr>opt_mss := m, has_mss := True\<rparr>) pkt"
proof -
  have b: "rd16 p (off + 2) = m" using bytes_at_drop [OF assms(1), of 2] by (intro rd16_be16) simp
  have "bytes_at p off (TCP_OPT_MSS_KIND # TCP_OPT_MSS_LEN # be16 m)"
    using assms(1) by (simp only: append_Cons append_Nil)
  from loop_opt [OF this] show ?thesis using assms(2) b by (simp add: tcp_opt_defs parse_one_opt_def)
qed

lemma loop_ws:
  assumes "bytes_at p off [TCP_OPT_WSCALE_KIND, TCP_OPT_WSCALE_LEN, TCP_WSCALE_DEFAULT, TCP_OPT_NOP_KIND]"
    "off + 4 \<le> len"
  shows "parse_opts_loop p len off ret opts pkt =
    parse_opts_loop p len (off + 4) ret (opts\<lparr>opt_wscale := TCP_WSCALE_DEFAULT, has_wscale := True\<rparr>) pkt"
proof -
  have b: "p (off + 2) = TCP_WSCALE_DEFAULT" using bytes_at_drop [OF assms(1), of 2] by simp
  have "parse_opts_loop p len off ret opts pkt =
      parse_opts_loop p len (off + 3) ret (opts\<lparr>opt_wscale := TCP_WSCALE_DEFAULT, has_wscale := True\<rparr>) pkt"
    using assms(2) b
    by (intro loop_opt [OF assms(1)])
      (simp_all add: tcp_opt_defs parse_one_opt_def TCP_WSCALE_DEFAULT_def TCP_WSCALE_MAX_def)
  also have "\<dots> = parse_opts_loop p len (off + 3 + 1) ret (opts\<lparr>opt_wscale := TCP_WSCALE_DEFAULT, has_wscale := True\<rparr>) pkt"
    using bytes_at_drop [OF assms(1), of 3] assms(2) by (intro loop_nop) simp_all
  also have "off + 3 + 1 = off + 4" by simp
  finally show ?thesis .
qed

lemma loop_sack_perm:
  assumes "bytes_at p off [TCP_OPT_SACK_PERM_KIND, TCP_OPT_SACK_PERM_LEN, TCP_OPT_NOP_KIND, TCP_OPT_NOP_KIND]"
    "off + 4 \<le> len"
  shows "parse_opts_loop p len off ret opts pkt =
    parse_opts_loop p len (off + 4) ret (opts\<lparr>has_sack_perm := True\<rparr>) pkt"
proof -
  have "parse_opts_loop p len off ret opts pkt =
      parse_opts_loop p len (off + 2) ret (opts\<lparr>has_sack_perm := True\<rparr>) pkt"
    using assms(2) by (intro loop_opt [OF assms(1)]) (simp_all add: tcp_opt_defs parse_one_opt_def)
  also have "\<dots> = parse_opts_loop p len (off + 2 + 2) ret (opts\<lparr>has_sack_perm := True\<rparr>) pkt"
    using bytes_at_drop [OF assms(1), of 2] assms(2) by (intro loop_nop2) simp_all
  also have "off + 2 + 2 = off + 4" by simp
  finally show ?thesis .
qed

lemma length_sack_block_bytes [simp]: "length (sack_block_bytes b) = 8"
  by (simp add: sack_block_bytes_def)

lemma length_concat_sack_bytes [simp]: "length (concat (map sack_block_bytes bl)) = 8 * length bl"
  by (induction bl) simp_all

lemma read_sack_blocks_Suc:
  "read_sack_blocks p off (Suc n) =
     \<lparr>blk_start = rd32 p off, blk_end = rd32 p (off + 4)\<rparr> # read_sack_blocks p (off + 8) n"
proof -
  have "[0..<Suc n] = 0 # map Suc [0..<n]" by (simp only: upt_conv_Cons map_Suc_upt zero_less_Suc)
  then show ?thesis by (simp add: read_sack_blocks_def algebra_simps del: upt_Suc)
qed

lemma read_sack_blocks_bytes:
  "bytes_at p off (concat (map sack_block_bytes bl)) \<Longrightarrow> read_sack_blocks p off (length bl) = bl"
proof (induction bl arbitrary: off)
  case Nil
  then show ?case by (simp add: read_sack_blocks_def)
next
  case (Cons b bl)
  then have "rd32 p off = blk_start b" "rd32 p (off + 4) = blk_end b"
    by (auto simp: sack_block_bytes_def intro!: rd32_be32)
  then show ?case using Cons by (simp add: read_sack_blocks_Suc)
qed

lemma loop_sack:
  assumes "bytes_at p off ([TCP_OPT_NOP_KIND, TCP_OPT_NOP_KIND, TCP_OPT_SACK_KIND,
      of_nat (TCP_OPT_SACK_LEN (length bl))] @ concat (map sack_block_bytes bl))"
    "off + (4 + 8 * length bl) \<le> len" "length bl \<le> TCP_MAX_NR_SACK_BLOCK"
  shows "parse_opts_loop p len off ret opts pkt =
    parse_opts_loop p len (off + (4 + 8 * length bl)) ret (opts\<lparr>opt_sack_blocks := bl\<rparr>) pkt"
proof -
  let ?n = "length bl" and ?o = "off + 2"
  have b: "bytes_at p ?o (TCP_OPT_SACK_KIND # of_nat (TCP_OPT_SACK_LEN ?n) # concat (map sack_block_bytes bl))"
    using bytes_at_drop [OF assms(1), of 2] by simp
  have r: "read_sack_blocks p (?o + 2) ?n = bl"
    using bytes_at_drop [OF b, of 2] by (intro read_sack_blocks_bytes) simp
  have u: "unat (of_nat (TCP_OPT_SACK_LEN ?n) :: u8) = 2 + 8 * ?n"
    unfolding TCP_OPT_SACK_LEN_def using assms(3)
    by (intro unat_of_nat_small) (simp add: TCP_MAX_NR_SACK_BLOCK_def)
  have "parse_opts_loop p len off ret opts pkt = parse_opts_loop p len ?o ret opts pkt"
    using bytes_at_take [OF assms(1), of 2] assms(2) by (intro loop_nop2) simp_all
  also have "\<dots> = parse_opts_loop p len (?o + (2 + 8 * ?n)) ret (opts\<lparr>opt_sack_blocks := bl\<rparr>) pkt"
    using assms(2,3) r
    by (intro loop_opt [OF b _ _ u]) (simp_all add: tcp_opt_defs parse_one_opt_def)
  also have "?o + (2 + 8 * ?n) = off + (4 + 8 * ?n)" by simp
  finally show ?thesis .
qed

lemma loop_cond:
  assumes "c \<Longrightarrow> parse_opts_loop p len off r op k = parse_opts_loop p len (off + n) r op' k'"
  shows "parse_opts_loop p len off r op k =
    parse_opts_loop p len (off + (if c then n else 0)) r (if c then op' else op) (if c then k' else k)"
  using assms by simp

lemma loop_cond_opts:
  assumes "c \<Longrightarrow> parse_opts_loop p len off r op k = parse_opts_loop p len (off + n) r op' k"
  shows "parse_opts_loop p len off r op k =
    parse_opts_loop p len (off + (if c then n else 0)) r (if c then op' else op) k"
  using assms by simp

lemma fill_opts_split:
  "fill_opts ts mss bl opts =
     (if opts AND TCP_OPT_TS_BIT \<noteq> 0 then fill_opt_ts (us_to_tcp_ts ts) 0 else []) @ fill_uncommon_opts mss bl opts"
proof (cases "opts AND (NOT TCP_OPT_TS_BIT) = 0")
  case True
  have z: "opts AND b = 0" if "(NOT TCP_OPT_TS_BIT) AND b = b" for b
    using and.assoc [of opts "NOT TCP_OPT_TS_BIT" b] that True by simp
  have "opts AND TCP_OPT_MSS_BIT = 0" "opts AND TCP_OPT_WSCALE_BIT = 0"
    "opts AND TCP_OPT_SACK_PERM_BIT = 0" "opts AND TCP_OPT_SACK_BIT = 0"
    by (rule z, simp add: tcp_opt_bit_defs)+
  then show ?thesis using True by (simp add: fill_opts_def fill_uncommon_opts_def)
qed (simp add: fill_opts_def)

lemma length_fill_opt_ts [simp]: "length (fill_opt_ts v e) = 12"
  by (simp add: fill_opt_ts_def)

definition opts_written :: "u64 \<Rightarrow> u16 \<Rightarrow> tcp_sack_block list \<Rightarrow> u32 \<Rightarrow> tcp_opts" where
  "opts_written ts mss bl opts =
     \<lparr>has_mss = (opts AND TCP_OPT_MSS_BIT \<noteq> 0), opt_mss = (if opts AND TCP_OPT_MSS_BIT \<noteq> 0 then mss else 0),
      has_wscale = (opts AND TCP_OPT_WSCALE_BIT \<noteq> 0),
      opt_wscale = (if opts AND TCP_OPT_WSCALE_BIT \<noteq> 0 then TCP_WSCALE_DEFAULT else 0),
      has_ts = (opts AND TCP_OPT_TS_BIT \<noteq> 0),
      opt_ts_val = (if opts AND TCP_OPT_TS_BIT \<noteq> 0 then us_to_tcp_ts ts else 0), opt_ts_ecr = 0,
      has_sack_perm = (opts AND TCP_OPT_SACK_PERM_BIT \<noteq> 0),
      opt_sack_blocks = (if opts AND TCP_OPT_SACK_BIT \<noteq> 0 then bl else [])\<rparr>"

text \<open>C10: the option parser reads back what the option writer wrote: for every set of
  options the writer is given (timestamp, MSS, window scale, SACK permitted, up to three SACK
  blocks), parsing the written bytes succeeds and gives exactly the values written, including the
  timestamps kept in the packet.\<close>

theorem parse_tcp_opts_fill_opts:
  assumes "bytes_at (\<lambda>i. packet_tcp_hdr pkt (TCP_HDR_SIZE + i)) 0 (fill_opts ts mss bl opts)"
    and "unat (pkt_opt_len pkt) = length (fill_opts ts mss bl opts)"
    and "length bl \<le> TCP_MAX_NR_SACK_BLOCK"
  shows "parse_tcp_opts pkt = (None, opts_written ts mss bl opts,
    if opts AND TCP_OPT_TS_BIT \<noteq> 0
    then pkt\<lparr>pkt_flags := pkt_flags pkt OR PKT_FLAG_HAS_TS_OPT, pkt_ts_val := us_to_tcp_ts ts, pkt_ts_ecr := 0\<rparr>
    else pkt)"
proof -
  let ?p = "\<lambda>i. packet_tcp_hdr pkt (TCP_HDR_SIZE + i)" and ?len = "unat (pkt_opt_len pkt)"
  let ?ts = "opts AND TCP_OPT_TS_BIT \<noteq> 0" and ?ms = "opts AND TCP_OPT_MSS_BIT \<noteq> 0"
    and ?ws = "opts AND TCP_OPT_WSCALE_BIT \<noteq> 0" and ?sp = "opts AND TCP_OPT_SACK_PERM_BIT \<noteq> 0"
    and ?sa = "opts AND TCP_OPT_SACK_BIT \<noteq> 0"
  define k where "k = (if ?ts then pkt\<lparr>pkt_flags := pkt_flags pkt OR PKT_FLAG_HAS_TS_OPT,
    pkt_ts_val := us_to_tcp_ts ts, pkt_ts_ecr := 0\<rparr> else pkt)"
  define A where "A = (if ?ts then fill_opt_ts (us_to_tcp_ts ts) 0 else [])"
  define B where "B = (if ?ms then [TCP_OPT_MSS_KIND, TCP_OPT_MSS_LEN] @ be16 mss else [])"
  define C where "C = (if ?ws then [TCP_OPT_WSCALE_KIND, TCP_OPT_WSCALE_LEN, TCP_WSCALE_DEFAULT, TCP_OPT_NOP_KIND] else [])"
  define D where "D = (if ?sp then [TCP_OPT_SACK_PERM_KIND, TCP_OPT_SACK_PERM_LEN, TCP_OPT_NOP_KIND, TCP_OPT_NOP_KIND] else [])"
  define F where "F = (if ?sa then [TCP_OPT_NOP_KIND, TCP_OPT_NOP_KIND, TCP_OPT_SACK_KIND,
      of_nat (TCP_OPT_SACK_LEN (length bl))] @ concat (map sack_block_bytes bl) else [])"
  have fill: "fill_opts ts mss bl opts = A @ B @ C @ D @ F"
    unfolding fill_opts_split fill_uncommon_opts_def A_def B_def C_def D_def F_def ..
  define n1 where "n1 = (if ?ts then 12 else 0 :: nat)"
  define n2 where "n2 = n1 + (if ?ms then 4 else 0)"
  define n3 where "n3 = n2 + (if ?ws then 4 else 0)"
  define n4 where "n4 = n3 + (if ?sp then 4 else 0)"
  define n5 where "n5 = n4 + (if ?sa then 4 + 8 * length bl else 0)"
  have ns: "0 + length A = n1" "n1 + length B = n2" "n2 + length C = n3" "n3 + length D = n4" "n4 + length F = n5"
    by (simp_all add: A_def B_def C_def D_def F_def n1_def n2_def n3_def n4_def n5_def)
  have "bytes_at ?p 0 A" "bytes_at ?p n1 B" "bytes_at ?p n2 C" "bytes_at ?p n3 D" "bytes_at ?p n4 F"
    using assms(1) unfolding fill bytes_at_append ns by simp_all
  then have b: "?ts \<Longrightarrow> bytes_at ?p 0 (fill_opt_ts (us_to_tcp_ts ts) 0)"
    "?ms \<Longrightarrow> bytes_at ?p n1 ([TCP_OPT_MSS_KIND, TCP_OPT_MSS_LEN] @ be16 mss)"
    "?ws \<Longrightarrow> bytes_at ?p n2 [TCP_OPT_WSCALE_KIND, TCP_OPT_WSCALE_LEN, TCP_WSCALE_DEFAULT, TCP_OPT_NOP_KIND]"
    "?sp \<Longrightarrow> bytes_at ?p n3 [TCP_OPT_SACK_PERM_KIND, TCP_OPT_SACK_PERM_LEN, TCP_OPT_NOP_KIND, TCP_OPT_NOP_KIND]"
    "?sa \<Longrightarrow> bytes_at ?p n4 ([TCP_OPT_NOP_KIND, TCP_OPT_NOP_KIND, TCP_OPT_SACK_KIND,
      of_nat (TCP_OPT_SACK_LEN (length bl))] @ concat (map sack_block_bytes bl))"
    unfolding A_def B_def C_def D_def F_def by (simp_all only: not_False_eq_True if_True)
  have len: "?len = n5" using ns unfolding assms(2) fill by simp
  have le: "n1 \<le> n2" "n2 \<le> n3" "n3 \<le> n4" "n4 \<le> n5" by (simp_all add: n2_def n3_def n4_def n5_def)
  let ?o1 = "if ?ts then opts_none\<lparr>opt_ts_val := us_to_tcp_ts ts, opt_ts_ecr := 0, has_ts := True\<rparr> else opts_none"
  let ?o2 = "if ?ms then ?o1\<lparr>opt_mss := mss, has_mss := True\<rparr> else ?o1"
  let ?o3 = "if ?ws then ?o2\<lparr>opt_wscale := TCP_WSCALE_DEFAULT, has_wscale := True\<rparr> else ?o2"
  let ?o4 = "if ?sp then ?o3\<lparr>has_sack_perm := True\<rparr> else ?o3"
  let ?o5 = "if ?sa then ?o4\<lparr>opt_sack_blocks := bl\<rparr> else ?o4"
  have "parse_opts_loop ?p ?len 0 None opts_none pkt = parse_opts_loop ?p ?len (0 + n1) None ?o1 k"
    unfolding n1_def k_def by (rule loop_cond, rule loop_ts [OF b(1)]) (use len le in \<open>simp_all add: n1_def\<close>)
  also have "\<dots> = parse_opts_loop ?p ?len n2 None ?o2 k"
    unfolding n2_def add_0 by (rule loop_cond_opts, rule loop_mss [OF b(2)]) (use len le in \<open>simp_all add: n2_def\<close>)
  also have "\<dots> = parse_opts_loop ?p ?len n3 None ?o3 k"
    unfolding n3_def by (rule loop_cond_opts, rule loop_ws [OF b(3)]) (use len le in \<open>simp_all add: n3_def\<close>)
  also have "\<dots> = parse_opts_loop ?p ?len n4 None ?o4 k"
    unfolding n4_def by (rule loop_cond_opts, rule loop_sack_perm [OF b(4)]) (use len le in \<open>simp_all add: n4_def\<close>)
  also have "\<dots> = parse_opts_loop ?p ?len n5 None ?o5 k"
    unfolding n5_def
    by (rule loop_cond_opts, rule loop_sack [OF b(5)]) (use len le assms(3) in \<open>simp_all add: n5_def\<close>)
  also have "\<dots> = (None, ?o5, k)" using len by (simp add: loop_done)
  also have "?o5 = opts_written ts mss bl opts" by (simp add: opts_written_def opts_none_def)
  finally show ?thesis unfolding parse_tcp_opts_def k_def .
qed

definition pkt_with_opts :: "u8 list \<Rightarrow> packet" where
  "pkt_with_opts bs = pkt_example
     \<lparr>pkt_l4_off := 0, pkt_opt_len := of_nat (length bs),
      pkt_segs := [\<lparr>seg_buf = (\<lambda>i. if i < 20 then 0 else bs ! (i - 20)), seg_l5_off = 0, seg_l5_len = 0\<rparr>]\<rparr>"

lemma pkt_with_opts_bytes:
  "bytes_at (\<lambda>i. packet_tcp_hdr (pkt_with_opts bs) (TCP_HDR_SIZE + i)) 0 bs"
  by (simp add: bytes_at_def pkt_with_opts_def packet_tcp_hdr_def packet_data_def TCP_HDR_SIZE_def)

lemma parse_tcp_opts_fill_opts_witness:
  "fst (snd (parse_tcp_opts (pkt_with_opts (fill_opts 2048 1460 [\<lparr>blk_start = 7, blk_end = 9\<rparr>] 316)))) =
     \<lparr>has_mss = True, opt_mss = 1460, has_wscale = True, opt_wscale = 10, has_ts = True, opt_ts_val = 2,
      opt_ts_ecr = 0, has_sack_perm = True, opt_sack_blocks = [\<lparr>blk_start = 7, blk_end = 9\<rparr>]\<rparr>"
proof -
  let ?bs = "fill_opts 2048 1460 [\<lparr>blk_start = 7, blk_end = 9\<rparr>] 316"
  have "length ?bs = 36"
    by (simp add: fill_opts_def fill_uncommon_opts_def tcp_opt_bit_defs sack_block_bytes_def)
  then have "unat (pkt_opt_len (pkt_with_opts ?bs)) = length ?bs" by (simp add: pkt_with_opts_def)
  then show ?thesis
    using parse_tcp_opts_fill_opts [OF pkt_with_opts_bytes, of 2048 1460 "[\<lparr>blk_start = 7, blk_end = 9\<rparr>]" 316]
    by (simp add: opts_written_def tcp_opt_bit_defs TCP_MAX_NR_SACK_BLOCK_def us_to_tcp_ts_def TCP_WSCALE_DEFAULT_def)
qed

section \<open>Bounds on what the parser returns\<close>

definition opts_bounded :: "tcp_opts \<Rightarrow> bool" where
  "opts_bounded opts \<longleftrightarrow> opt_wscale opts \<le> TCP_WSCALE_MAX \<and> length (opt_sack_blocks opts) \<le> TCP_MAX_NR_SACK_BLOCK"

lemma parse_one_opt_bounded:
  assumes "opts_bounded opts" "2 \<le> ol" "parse_one_opt p off ty ol ret opts pkt = Inr (ret1, opts1, pkt1)"
  shows "opts_bounded opts1"
proof -
  have "ol \<le> 26 \<Longrightarrow> (ol - 2) div 8 \<le> 3" by simp
  then show ?thesis using assms
    by (auto simp: parse_one_opt_def opts_bounded_def read_sack_blocks_def TCP_MAX_NR_SACK_BLOCK_def
        TCP_OPT_SACK_LEN_def not_less split: if_splits)
qed

lemma parse_opts_loop_bounded:
  "opts_bounded opts \<Longrightarrow> opts_bounded (fst (snd (parse_opts_loop p len off ret opts pkt)))"
proof (induction p len off ret opts pkt rule: parse_opts_loop.induct)
  case (1 p len off ret opts pkt)
  show ?case
  proof (cases "off < len \<and> p off \<noteq> TCP_OPT_EOL_KIND \<and> p off \<noteq> TCP_OPT_NOP_KIND \<and>
      \<not> unat (p (off + 1)) < 2 \<and> \<not> off + unat (p (off + 1)) > len")
    case True
    show ?thesis
    proof (cases "parse_one_opt p off (p off) (unat (p (off + 1))) ret opts pkt")
      case (Inl e)
      then show ?thesis using True 1(3) by (subst parse_opts_loop.simps) simp
    next
      case (Inr r)
      obtain ret1 opts1 pkt1 where r: "r = (ret1, opts1, pkt1)" by (cases r) auto
      have "opts_bounded opts1" using parse_one_opt_bounded [OF 1(3) _ Inr [unfolded r]] True by simp
      then show ?thesis using True Inr r 1(2) by (subst parse_opts_loop.simps) simp
    qed
  next
    case False
    then show ?thesis using 1(1,3) by (subst parse_opts_loop.simps) auto
  qed
qed


end
