(* ===== verification/Sack.thy ===== *)
theory Sack
  imports Tcp_Base
begin

text \<open>
  The SACK blocks a receiver reports, \<open>sack_merge\<close>, \<open>sack_try_merge_blocks\<close>, \<open>sack_update\<close> and
  \<open>sack_regulate\<close> of \<open>src/tcp/tcp_input.c\<close>. The blocks in use (the first \<open>nr_sack_block\<close>
  entries of the array) are a list. The theory shows that the blocks stay separated and few, that
  the newest segment is in the first block, and that nothing is reported that was not received.
\<close>

section \<open>The operations\<close>

text \<open>\<open>None\<close> is the return value 0, where the block is left alone.\<close>

definition sack_merge :: "tcp_sack_block \<Rightarrow> u32 \<Rightarrow> u32 \<Rightarrow> tcp_sack_block option" where
  "sack_merge blk s e =
     (if seq_lt e (blk_start blk) \<or> seq_gt s (blk_end blk) then None
      else (let blk1 = (if seq_lt s (blk_start blk) then blk\<lparr>blk_start := s\<rparr> else blk)
            in Some (if seq_gt e (blk_end blk1) then blk1\<lparr>blk_end := e\<rparr> else blk1)))"

fun sack_merge_rest :: "tcp_sack_block \<Rightarrow> tcp_sack_block list \<Rightarrow> tcp_sack_block \<times> tcp_sack_block list" where
  "sack_merge_rest blk [] = (blk, [])"
| "sack_merge_rest blk (b # bs) =
     (case sack_merge blk (blk_start b) (blk_end b) of
        Some blk1 \<Rightarrow> sack_merge_rest blk1 bs
      | None \<Rightarrow> (let (blk1, keep) = sack_merge_rest blk bs in (blk1, b # keep)))"

definition sack_try_merge_blocks :: "tcp_sack_block list \<Rightarrow> tcp_sack_block list" where
  "sack_try_merge_blocks blocks =
     (case blocks of [] \<Rightarrow> [] | b # bs \<Rightarrow> (let (b1, keep) = sack_merge_rest b bs in b1 # keep))"

fun sack_find_merge :: "tcp_sack_block list \<Rightarrow> u32 \<Rightarrow> u32 \<Rightarrow> (nat \<times> tcp_sack_block) option" where
  "sack_find_merge [] s e = None"
| "sack_find_merge (b # bs) s e =
     (case sack_merge b s e of
        Some b1 \<Rightarrow> Some (0, b1)
      | None \<Rightarrow> map_option (\<lambda>(i, b1). (Suc i, b1)) (sack_find_merge bs s e))"

definition sack_update :: "bool \<Rightarrow> tcp_sack_block list \<Rightarrow> u32 \<Rightarrow> u32 \<Rightarrow> tcp_sack_block list" where
  "sack_update sack_ok blocks start len =
     (if \<not> sack_ok then blocks
      else (case sack_find_merge blocks start (start + len) of
              Some (i, b) \<Rightarrow> sack_try_merge_blocks ((blocks[i := blocks ! 0])[0 := b])
            | None \<Rightarrow> \<lparr>blk_start = start, blk_end = start + len\<rparr> #
                        take (min (length blocks) (TCP_MAX_NR_SACK_BLOCK - 1)) blocks))"

definition sack_regulate :: "u32 \<Rightarrow> tcp_sack_block list \<Rightarrow> tcp_sack_block list" where
  "sack_regulate rcv_nxt blocks = filter (\<lambda>b. seq_gt (blk_start b) rcv_nxt) blocks"

section \<open>Blocks as ranges of stream positions\<close>

type_synonym range = "int \<times> int"

definition blk_of :: "u32 \<Rightarrow> range \<Rightarrow> tcp_sack_block" where
  "blk_of base r = \<lparr>blk_start = base + word_of_int (fst r), blk_end = base + word_of_int (snd r)\<rparr>"

definition in_win :: "int \<Rightarrow> range \<Rightarrow> bool" where
  "in_win W r \<longleftrightarrow> 0 \<le> fst r \<and> fst r < snd r \<and> snd r \<le> W"

definition apart :: "range \<Rightarrow> range \<Rightarrow> bool" where
  "apart r q \<longleftrightarrow> snd r < fst q \<or> snd q < fst r"

definition hull :: "range \<Rightarrow> range \<Rightarrow> range" where
  "hull r q = (min (fst r) (fst q), max (snd r) (snd q))"

definition covered :: "range list \<Rightarrow> int set" where
  "covered rs = (\<Union>r\<in>set rs. {fst r..<snd r})"

definition sack_wf :: "u32 \<Rightarrow> int \<Rightarrow> range list \<Rightarrow> tcp_sack_block list \<Rightarrow> bool" where
  "sack_wf base W rs blocks \<longleftrightarrow> blocks = map (blk_of base) rs \<and> (\<forall>r\<in>set rs. in_win W r) \<and>
     sorted_wrt apart rs \<and> length rs \<le> TCP_MAX_NR_SACK_BLOCK"

lemma apart_sym: "apart r q \<longleftrightarrow> apart q r"
  by (auto simp: apart_def)

lemma sack_merge_pos:
  assumes "in_win W r" "in_win W q" "W < 2 ^ 31"
  shows "sack_merge (blk_of base r) (base + word_of_int (fst q)) (base + word_of_int (snd q)) =
    (if apart r q then None else Some (blk_of base (hull r q)))"
proof -
  have d: "\<bar>x - y\<bar> < 2 ^ 31" if "x \<in> {fst r, snd r, fst q, snd q}" "y \<in> {fst r, snd r, fst q, snd q}" for x y
    using that assms by (auto simp: in_win_def)
  show ?thesis
    using seq_pos(1,3) [OF d] by (simp add: sack_merge_def blk_of_def Let_def apart_def hull_def min_def max_def)
qed

lemma in_win_hull: "in_win W r \<Longrightarrow> in_win W q \<Longrightarrow> in_win W (hull r q)"
  by (auto simp: in_win_def hull_def)

lemma apart_hull:
  "apart r k \<Longrightarrow> apart q k \<Longrightarrow> \<not> apart r q \<Longrightarrow> in_win W k \<Longrightarrow> apart (hull r q) k"
  by (auto simp: apart_def hull_def in_win_def)

lemma cover_hull:
  "\<not> apart r q \<Longrightarrow> in_win W r \<Longrightarrow> in_win W q \<Longrightarrow> {fst (hull r q)..<snd (hull r q)} = {fst r..<snd r} \<union> {fst q..<snd q}"
  by (auto simp: apart_def hull_def in_win_def)

lemma covered_simps [simp]:
  "covered [] = {}" "covered (r # rs) = {fst r..<snd r} \<union> covered rs"
  "covered (rs @ qs) = covered rs \<union> covered qs"
  by (auto simp: covered_def)

definition merged_into :: "int \<Rightarrow> range \<Rightarrow> range list \<Rightarrow> range \<Rightarrow> range list \<Rightarrow> bool" where
  "merged_into W r rs r' qs \<longleftrightarrow> in_win W r' \<and> set qs \<subseteq> set rs \<and> length qs \<le> length rs \<and>
     sorted_wrt apart (r' # qs) \<and> covered (r' # qs) = covered (r # rs) \<and> fst r' \<le> fst r \<and> snd r \<le> snd r' \<and>
     (\<forall>k. in_win W k \<and> apart r k \<and> (\<forall>q\<in>set rs. apart q k) \<longrightarrow> apart r' k)"

lemma sack_merge_rest_pos:
  assumes "in_win W r" "\<forall>q\<in>set rs. in_win W q" "sorted_wrt apart rs" "W < 2 ^ 31"
  shows "\<exists>r' qs. sack_merge_rest (blk_of base r) (map (blk_of base) rs) = (blk_of base r', map (blk_of base) qs) \<and>
    merged_into W r rs r' qs"
  using assms
proof (induction rs arbitrary: r)
  case Nil
  then show ?case by (intro exI [of _ r] exI [of _ "[]"]) (auto simp: merged_into_def)
next
  case (Cons q rs)
  have m: "sack_merge (blk_of base r) (blk_start (blk_of base q)) (blk_end (blk_of base q)) =
      (if apart r q then None else Some (blk_of base (hull r q)))"
    using sack_merge_pos [of W r q base] Cons.prems by (simp add: blk_of_def)
  have rs: "\<forall>q\<in>set rs. in_win W q" "sorted_wrt apart rs" "in_win W q" "\<forall>x\<in>set rs. apart q x"
    using Cons.prems by simp_all
  show ?case
  proof (cases "apart r q")
    case True
    obtain r' qs where IH: "sack_merge_rest (blk_of base r) (map (blk_of base) rs) = (blk_of base r', map (blk_of base) qs)"
      "merged_into W r rs r' qs" using Cons.IH [OF Cons.prems(1) rs(1,2) Cons.prems(4)] by blast
    have "apart r' q" using IH(2) True rs apart_sym unfolding merged_into_def by blast
    then have "merged_into W r (q # rs) r' (q # qs)" using IH(2) rs(4) by (auto simp: merged_into_def)
    then show ?thesis using IH(1) True m by (intro exI [of _ r'] exI [of _ "q # qs"]) simp
  next
    case False
    have w: "in_win W (hull r q)" using Cons.prems by (intro in_win_hull) auto
    obtain r' qs where IH: "sack_merge_rest (blk_of base (hull r q)) (map (blk_of base) rs) = (blk_of base r', map (blk_of base) qs)"
      "merged_into W (hull r q) rs r' qs" using Cons.IH [OF w rs(1,2) Cons.prems(4)] by blast
    have c: "covered (r' # qs) = covered (r # q # rs)"
      using IH(2) cover_hull [OF False Cons.prems(1) rs(3)] by (simp add: merged_into_def Un_assoc)
    have b: "fst (hull r q) \<le> fst r" "snd r \<le> snd (hull r q)" by (simp_all add: hull_def)
    have "\<forall>k. in_win W k \<and> apart r k \<and> (\<forall>x\<in>set (q # rs). apart x k) \<longrightarrow> apart r' k"
      using IH(2) apart_hull [OF _ _ False, of _ W] unfolding merged_into_def list.set by blast
    then have "merged_into W r (q # rs) r' qs"
      using IH(2) c b unfolding merged_into_def by fastforce
    then show ?thesis using IH(1) False m by (intro exI [of _ r'] exI [of _ qs]) simp
  qed
qed

lemma sack_find_merge_pos:
  assumes "in_win W q" "\<forall>r\<in>set rs. in_win W r" "W < 2 ^ 31"
  shows "(sack_find_merge (map (blk_of base) rs) (base + word_of_int (fst q)) (base + word_of_int (snd q)) = None \<and>
      (\<forall>r\<in>set rs. apart r q)) \<or>
    (\<exists>i<length rs. sack_find_merge (map (blk_of base) rs) (base + word_of_int (fst q)) (base + word_of_int (snd q)) =
      Some (i, blk_of base (hull (rs ! i) q)) \<and> \<not> apart (rs ! i) q)"
  using assms(2)
proof (induction rs)
  case Nil
  then show ?case by simp
next
  case (Cons r rs)
  then show ?case using sack_merge_pos [of W r q base] assms(1,3) by (cases "apart r q") auto
qed

lemma sack_regulate_pos:
  assumes "sack_wf base W rs blocks" "0 \<le> n" "n \<le> W" "W < 2 ^ 31"
  shows "sack_wf base W (filter (\<lambda>r. fst r > n) rs) (sack_regulate (base + word_of_int n) blocks)"
proof -
  have "seq_gt (blk_start (blk_of base r)) (base + word_of_int n) \<longleftrightarrow> fst r > n" if "in_win W r" for r
    unfolding blk_of_def tcp_sack_block.simps using that assms(2-4)
    by (intro seq_pos(3)) (auto simp: in_win_def)
  then have "filter (\<lambda>b. seq_gt (blk_start b) (base + word_of_int n)) (map (blk_of base) rs) =
      map (blk_of base) (filter (\<lambda>r. fst r > n) rs)"
    using assms(1) unfolding filter_map sack_wf_def by (intro arg_cong [of _ _ "map (blk_of base)"] filter_cong) auto
  then show ?thesis using assms(1)
    by (auto simp: sack_wf_def sack_regulate_def sorted_wrt_filter intro: order_trans [OF length_filter_le])
qed

lemma apart_others:
  assumes "sorted_wrt apart rs" "i < length rs" "\<forall>r\<in>set rs. in_win W r"
  obtains os where "tl (rs[i := rs ! 0]) = os" "sorted_wrt apart os" "\<forall>r\<in>set os. apart (rs ! i) r \<and> in_win W r"
    "set rs = insert (rs ! i) (set os)" "length os = length rs - 1"
proof (cases i)
  case 0
  then obtain r rs' where "rs = r # rs'" using assms(2) by (cases rs) auto
  then show thesis using assms 0 by (intro that [of rs']) auto
next
  case (Suc j)
  then obtain h rs' where rs: "rs = h # rs'" "j < length rs'" using assms(2) by (cases rs) auto
  define pre post where "pre = take j rs'" and "post = drop (Suc j) rs'"
  have rs': "rs' = pre @ rs' ! j # post" using rs(2) by (simp add: pre_def post_def id_take_nth_drop)
  have os: "tl (rs[i := rs ! 0]) = pre @ h # post"
    using rs Suc by (simp add: pre_def post_def upd_conv_take_nth_drop)
  have i: "rs ! i = rs' ! j" using rs Suc by simp
  have srt: "sorted_wrt apart (h # pre @ rs ! i # post)" using assms(1) rs(1) rs' i by simp
  have "sorted_wrt apart (pre @ h # post)" "\<forall>r\<in>set (pre @ h # post). apart (rs ! i) r"
    using srt apart_sym by (auto simp: sorted_wrt_append)
  moreover have "set rs = insert (rs ! i) (set (pre @ h # post))" using rs(1) rs' i by (metis Un_insert_right insert_commute list.set(2) set_append)
  moreover have "length (pre @ h # post) = length rs - 1" using rs(1) rs' by (metis diff_Suc_1 length_Cons length_append add_Suc_right)
  ultimately show thesis using os assms(3) by (intro that [of "pre @ h # post"]) auto
qed

lemma sack_update_pos:
  assumes wf: "sack_wf base W rs blocks" and q: "in_win W q" and W: "W < 2 ^ 31"
    and len: "base + word_of_int (fst q) + len = base + word_of_int (snd q)"
  obtains r' qs where "sack_wf base W (r' # qs) (sack_update True blocks (base + word_of_int (fst q)) len)"
    "fst r' \<le> fst q" "snd q \<le> snd r'" "covered (r' # qs) \<subseteq> covered (q # rs)"
    "length rs < TCP_MAX_NR_SACK_BLOCK \<or> (\<exists>r\<in>set rs. \<not> apart r q) \<Longrightarrow> covered (r' # qs) = covered (q # rs)"
proof -
  have w: "blocks = map (blk_of base) rs" "\<forall>r\<in>set rs. in_win W r" "sorted_wrt apart rs" "length rs \<le> TCP_MAX_NR_SACK_BLOCK"
    using wf by (simp_all add: sack_wf_def)
  let ?s = "base + word_of_int (fst q)"
  have new: "\<lparr>blk_start = ?s, blk_end = ?s + len\<rparr> = blk_of base q" by (simp add: blk_of_def len)
  consider (none) "sack_find_merge blocks ?s (?s + len) = None" "\<forall>r\<in>set rs. apart r q"
    | (some) i where "i < length rs" "sack_find_merge blocks ?s (?s + len) = Some (i, blk_of base (hull (rs ! i) q))"
        "\<not> apart (rs ! i) q"
    using sack_find_merge_pos [OF q w(2) W, of base] unfolding w(1) len by metis
  then show thesis
  proof cases
    case none
    let ?n = "min (length blocks) (TCP_MAX_NR_SACK_BLOCK - 1)"
    have "sack_update True blocks ?s len = map (blk_of base) (q # take ?n rs)"
      using none(1) new by (simp add: sack_update_def w(1) take_map)
    moreover have "sorted_wrt apart (q # take ?n rs)"
      using none(2) w(3) apart_sym by (auto dest: in_set_takeD intro: sorted_wrt_take)
    ultimately have "sack_wf base W (q # take ?n rs) (sack_update True blocks ?s len)"
      using q w(2) by (auto simp: sack_wf_def TCP_MAX_NR_SACK_BLOCK_def dest: in_set_takeD)
    moreover have "covered (q # take ?n rs) \<subseteq> covered (q # rs)" by (auto simp: covered_def dest: in_set_takeD)
    ultimately show thesis
      using none(2) w(1) by (intro that [of q "take ?n rs"]) (auto simp: TCP_MAX_NR_SACK_BLOCK_def min_def)
  next
    case some
    let ?h = "hull (rs ! i) q"
    obtain os where os: "tl (rs[i := rs ! 0]) = os" "sorted_wrt apart os" "\<forall>r\<in>set os. apart (rs ! i) r \<and> in_win W r"
      "set rs = insert (rs ! i) (set os)" "length os = length rs - 1"
      using apart_others [OF w(3) some(1) w(2)] by metis
    have ri: "in_win W (rs ! i)" using w(2) some(1) by simp
    have hw: "in_win W ?h" by (rule in_win_hull [OF ri q])
    have up: "(rs[i := rs ! 0])[0 := ?h] = ?h # os" using some(1) os(1) by (cases "rs[i := rs ! 0]") auto
    have "blocks ! 0 = blk_of base (rs ! 0)" using some(1) w(1) by (cases rs) auto
    then have "(blocks[i := blocks ! 0])[0 := blk_of base ?h] = map (blk_of base) ((rs[i := rs ! 0])[0 := ?h])"
      by (simp only: w(1) map_update)
    then have sw: "(blocks[i := blocks ! 0])[0 := blk_of base ?h] = blk_of base ?h # map (blk_of base) os"
      by (simp only: up list.map)
    obtain r' qs where m: "sack_merge_rest (blk_of base ?h) (map (blk_of base) os) = (blk_of base r', map (blk_of base) qs)"
      "merged_into W ?h os r' qs" using sack_merge_rest_pos [OF hw _ os(2) W] os(3) by blast
    have upd: "sack_update True blocks ?s len = map (blk_of base) (r' # qs)"
      using some(2) m(1) by (simp add: sack_update_def sw sack_try_merge_blocks_def)
    have k: "in_win W r'" "set qs \<subseteq> set os" "length qs \<le> length os" "sorted_wrt apart (r' # qs)"
      "covered (r' # qs) = covered (?h # os)" "fst r' \<le> fst ?h" "snd ?h \<le> snd r'"
      using m(2) by (simp_all add: merged_into_def)
    have "covered (?h # os) = covered (q # rs)"
      using cover_hull [OF some(3) ri q] os(4) by (auto simp: covered_def)
    moreover have "sack_wf base W (r' # qs) (sack_update True blocks ?s len)"
      using upd k w(4) os(3,5) some(1) by (auto simp: sack_wf_def)
    moreover have "fst ?h \<le> fst q" "snd q \<le> snd ?h" by (simp_all add: hull_def)
    ultimately show thesis using k by (intro that [of r' qs]) auto
  qed
qed

text \<open>C9: recording a received segment \<open>[s, e)\<close> keeps the SACK blocks well formed: at
  most three, non-empty, in the window and pairwise neither overlapping nor touching. The first
  block contains the new segment, no block reports a position that was not reported before or in
  the segment, and nothing reported before is lost unless three blocks were in use and the
  segment touched none of them.\<close>

theorem sack_update_correct:
  assumes "sack_wf base W rs blocks" "0 \<le> s" "s < e" "e \<le> W" "W < 2 ^ 31"
  shows "\<exists>r' qs. sack_wf base W (r' # qs) (sack_update True blocks (base + word_of_int s) (word_of_int (e - s))) \<and>
    fst r' \<le> s \<and> e \<le> snd r' \<and> covered (r' # qs) \<subseteq> {s..<e} \<union> covered rs \<and>
    (length rs < TCP_MAX_NR_SACK_BLOCK \<or> (\<exists>r\<in>set rs. \<not> apart r (s, e)) \<longrightarrow>
      covered (r' # qs) = {s..<e} \<union> covered rs)"
proof -
  have q: "in_win W (s, e)" using assms by (simp add: in_win_def)
  have len: "base + word_of_int (fst (s, e)) + word_of_int (e - s) = base + word_of_int (snd (s, e))" by simp
  show ?thesis
  proof (rule sack_update_pos [OF assms(1) q assms(5) len])
    fix r' qs
    assume "sack_wf base W (r' # qs) (sack_update True blocks (base + word_of_int (fst (s, e))) (word_of_int (e - s)))"
      "fst r' \<le> fst (s, e)" "snd (s, e) \<le> snd r'" "covered (r' # qs) \<subseteq> covered ((s, e) # rs)"
      "length rs < TCP_MAX_NR_SACK_BLOCK \<or> (\<exists>r\<in>set rs. \<not> apart r (s, e)) \<Longrightarrow> covered (r' # qs) = covered ((s, e) # rs)"
    then show ?thesis by (intro exI [of _ r'] exI [of _ qs] conjI impI) simp_all
  qed
qed

lemma sack_update_correct_witness:
  "\<exists>r' qs. sack_wf 0xfffffff0 100 (r' # qs) (sack_update True
      (map (blk_of 0xfffffff0) [(10, 20), (40, 50)]) (0xfffffff0 + word_of_int 20) (word_of_int (40 - 20))) \<and>
    fst r' \<le> 20 \<and> 40 \<le> snd r' \<and> covered (r' # qs) \<subseteq> {20..<40} \<union> covered [(10, 20), (40, 50)]"
proof -
  have "sack_wf 0xfffffff0 100 [(10, 20), (40, 50)] (map (blk_of 0xfffffff0) [(10, 20), (40, 50)])"
    by (simp add: sack_wf_def in_win_def apart_def TCP_MAX_NR_SACK_BLOCK_def)
  from sack_update_correct [OF this, of 20 40] show ?thesis by auto
qed

end
