(* ===== verification/Sock_Table.thy ===== *)
theory Sock_Table
  imports Tcp_Base
begin

text \<open>
  \<open>include/sock_table.h\<close> and the address helpers of \<open>include/ip.h\<close>: the hash table from
  connection keys to sockets, used per worker for connections and globally for listening sockets.
  \<open>crc32\<close> stands for DPDK's \<open>rte_crc32_u64\<close> and is a parameter. A socket is a value of type
  \<open>'s\<close>. The theory shows that the table is a finite map, whatever the hash function is.
\<close>

section \<open>Keys\<close>

record tpa_ip =
  ip_hi :: u64
  ip_lo :: u64

definition tpa_ip_equal :: "tpa_ip \<Rightarrow> tpa_ip \<Rightarrow> bool" where
  "tpa_ip_equal a b \<longleftrightarrow> ip_hi a = ip_hi b \<and> ip_lo a = ip_lo b"

definition is_ip6_any :: "tpa_ip \<Rightarrow> bool" where
  "is_ip6_any ip \<longleftrightarrow> ip_hi ip = 0 \<and> ip_lo ip = 0"

record sock_key =
  key_local_ip :: tpa_ip
  key_remote_ip :: tpa_ip
  key_local_port :: u16
  key_remote_port :: u16

definition sock_key_init :: "tpa_ip \<Rightarrow> u16 \<Rightarrow> tpa_ip \<Rightarrow> u16 \<Rightarrow> sock_key" where
  "sock_key_init remote_ip remote_port local_ip local_port =
     \<lparr>key_local_ip = local_ip, key_remote_ip = remote_ip, key_local_port = local_port,
      key_remote_port = remote_port\<rparr>"

definition sock_key_equal :: "sock_key \<Rightarrow> sock_key \<Rightarrow> bool" where
  "sock_key_equal a b \<longleftrightarrow> tpa_ip_equal (key_local_ip a) (key_local_ip b) \<and>
     tpa_ip_equal (key_remote_ip a) (key_remote_ip b) \<and>
     key_local_port a = key_local_port b \<and> key_remote_port a = key_remote_port b"

section \<open>The table\<close>

definition SOCK_TABLE_SIZE :: nat where "SOCK_TABLE_SIZE = 4096"

type_synonym 's sock_table = "nat \<Rightarrow> (sock_key \<times> 's) list"

definition sock_hash_idx :: "(u64 \<Rightarrow> u64 \<Rightarrow> u32) \<Rightarrow> sock_key \<Rightarrow> nat" where
  "sock_hash_idx crc32 key =
     unat (crc32 (ip_hi (key_remote_ip key) OR ucast (key_local_port key))
                 (ip_lo (key_remote_ip key) OR ucast (key_remote_port key)) AND of_nat (SOCK_TABLE_SIZE - 1))"

fun entry_lookup :: "(sock_key \<times> 's) list \<Rightarrow> sock_key \<Rightarrow> 's option" where
  "entry_lookup [] key = None"
| "entry_lookup ((k, s) # es) key = (if sock_key_equal k key then Some s else entry_lookup es key)"

fun entry_del :: "(sock_key \<times> 's) list \<Rightarrow> sock_key \<Rightarrow> (sock_key \<times> 's) list" where
  "entry_del [] key = []"
| "entry_del ((k, s) # es) key = (if sock_key_equal k key then es else (k, s) # entry_del es key)"

definition sock_table_lookup :: "(u64 \<Rightarrow> u64 \<Rightarrow> u32) \<Rightarrow> 's sock_table \<Rightarrow> sock_key \<Rightarrow> 's option" where
  "sock_table_lookup crc32 table key = entry_lookup (table (sock_hash_idx crc32 key)) key"

text \<open>\<open>mem_ok\<close>: the \<open>malloc\<close> of the entry succeeds.\<close>

definition sock_table_add ::
  "(u64 \<Rightarrow> u64 \<Rightarrow> u32) \<Rightarrow> bool \<Rightarrow> 's sock_table \<Rightarrow> sock_key \<Rightarrow> 's \<Rightarrow> int \<times> 's sock_table" where
  "sock_table_add crc32 mem_ok table key s =
     (let i = sock_hash_idx crc32 key
      in if sock_table_lookup crc32 table key \<noteq> None then (-1, table)
         else if \<not> mem_ok then (-1, table)
         else (0, table(i := table i @ [(key, s)])))"

definition sock_table_del :: "(u64 \<Rightarrow> u64 \<Rightarrow> u32) \<Rightarrow> 's sock_table \<Rightarrow> sock_key \<Rightarrow> int \<times> 's sock_table" where
  "sock_table_del crc32 table key =
     (let i = sock_hash_idx crc32 key
      in if entry_lookup (table i) key = None then (-1, table)
         else (0, table(i := entry_del (table i) key)))"

definition sock_table_init :: "'s sock_table" where
  "sock_table_init = (\<lambda>_. [])"

section \<open>The table as a map\<close>

lemma sock_key_equal_eq [simp]: "sock_key_equal a b \<longleftrightarrow> a = b"
  by (auto simp: sock_key_equal_def tpa_ip_equal_def)

definition table_wf :: "(u64 \<Rightarrow> u64 \<Rightarrow> u32) \<Rightarrow> 's sock_table \<Rightarrow> bool" where
  "table_wf crc32 table \<longleftrightarrow> (\<forall>i. distinct (map fst (table i)))"

lemma entry_lookup_append [simp]:
  "entry_lookup (es @ [(k, s)]) key =
     (case entry_lookup es key of Some x \<Rightarrow> Some x | None \<Rightarrow> if k = key then Some s else None)"
  by (induction es key rule: entry_lookup.induct) simp_all

lemma entry_lookup_None: "entry_lookup es key = None \<longleftrightarrow> key \<notin> fst ` set es"
  by (induction es key rule: entry_lookup.induct) auto

lemma entry_del_keys: "set (map fst (entry_del es key)) \<subseteq> set (map fst es)"
  by (induction es key rule: entry_del.induct) auto

lemma entry_del_distinct: "distinct (map fst es) \<Longrightarrow> distinct (map fst (entry_del es key))"
  using entry_del_keys by (induction es key rule: entry_del.induct) fastforce+

lemma entry_lookup_del:
  "distinct (map fst es) \<Longrightarrow> entry_lookup (entry_del es key) k = (if k = key then None else entry_lookup es k)"
proof (induction es key rule: entry_del.induct)
  case (2 k' s es key)
  have "key \<notin> fst ` set es \<Longrightarrow> entry_lookup es key = None" by (simp add: entry_lookup_None)
  with 2 show ?case by auto
qed simp

text \<open>The contract of a map from keys, which the socket code relies on: what a lookup returns
  after each operation.\<close>

locale key_map =
  fixes inv :: "'t \<Rightarrow> bool"
    and lookup :: "'t \<Rightarrow> 'k \<Rightarrow> 's option"
    and add :: "'t \<Rightarrow> 'k \<Rightarrow> 's \<Rightarrow> int \<times> 't"
    and del :: "'t \<Rightarrow> 'k \<Rightarrow> int \<times> 't"
  assumes add_law: "inv t \<Longrightarrow> inv (snd (add t k s)) \<and>
      lookup (snd (add t k s)) k' = (if k' = k \<and> fst (add t k s) = 0 then Some s else lookup t k') \<and>
      (lookup t k \<noteq> None \<longrightarrow> fst (add t k s) \<noteq> 0)"
    and del_law: "inv t \<Longrightarrow> inv (snd (del t k)) \<and>
      lookup (snd (del t k)) k' = (if k' = k then None else lookup t k') \<and>
      (fst (del t k) = 0 \<longleftrightarrow> lookup t k \<noteq> None)"
begin

lemma add_fresh: "inv t \<Longrightarrow> fst (add t k s) = 0 \<Longrightarrow> lookup t k = None \<and> lookup (snd (add t k s)) k = Some s"
  using add_law [of t k s k] by auto

lemma add_del_restores:
  assumes "inv t" "fst (add t k s) = 0"
  shows "lookup (snd (del (snd (add t k s)) k)) = lookup t"
proof
  fix k'
  have a: "inv (snd (add t k s))" using add_law [OF assms(1)] by blast
  show "lookup (snd (del (snd (add t k s)) k)) k' = lookup t k'"
    using del_law [OF a, of k k'] add_law [OF assms(1), of k s k'] add_fresh [OF assms] assms(2) by auto
qed

lemma del_other: "inv t \<Longrightarrow> k' \<noteq> k \<Longrightarrow> lookup (snd (del t k)) k' = lookup t k'"
  using del_law by simp

end

interpretation sti: key_map "table_wf crc32" "sock_table_lookup crc32" "sock_table_add crc32 mem_ok" "sock_table_del crc32"
proof
  fix t :: "'a sock_table" and k k' s
  assume wf: "table_wf crc32 t"
  then have d: "distinct (map fst (t i))" for i by (simp add: table_wf_def)
  show "table_wf crc32 (snd (sock_table_add crc32 mem_ok t k s)) \<and>
      sock_table_lookup crc32 (snd (sock_table_add crc32 mem_ok t k s)) k' =
        (if k' = k \<and> fst (sock_table_add crc32 mem_ok t k s) = 0 then Some s else sock_table_lookup crc32 t k') \<and>
      (sock_table_lookup crc32 t k \<noteq> None \<longrightarrow> fst (sock_table_add crc32 mem_ok t k s) \<noteq> 0)"
  proof (cases "sock_table_lookup crc32 t k = None \<and> mem_ok")
    case True
    then have "k \<notin> fst ` set (t (sock_hash_idx crc32 k))" and n: "entry_lookup (t (sock_hash_idx crc32 k)) k = None"
      by (simp_all add: sock_table_lookup_def entry_lookup_None)
    then have "table_wf crc32 (snd (sock_table_add crc32 mem_ok t k s))"
      using d True by (simp add: sock_table_add_def table_wf_def Let_def)
    then show ?thesis
      using True n by (auto simp: sock_table_add_def sock_table_lookup_def Let_def split: option.splits)
  next
    case False
    then show ?thesis using wf by (auto simp: sock_table_add_def Let_def)
  qed
  show "table_wf crc32 (snd (sock_table_del crc32 t k)) \<and>
      sock_table_lookup crc32 (snd (sock_table_del crc32 t k)) k' =
        (if k' = k then None else sock_table_lookup crc32 t k') \<and>
      (fst (sock_table_del crc32 t k) = 0 \<longleftrightarrow> sock_table_lookup crc32 t k \<noteq> None)"
    using d wf entry_lookup_del [OF d] entry_del_distinct [OF d]
    by (auto simp: sock_table_del_def sock_table_lookup_def table_wf_def Let_def)
qed

text \<open>C21: the socket table is a map from connection keys, whatever the hash function: a
  successful add makes exactly the new key visible and is only possible for a key that is not
  there, a delete removes exactly its key and fails only when the key is not there, and adding and
  then deleting a key restores every lookup.\<close>

theorem sock_table_is_map:
  assumes "table_wf crc32 t"
  shows "(let (r, t') = sock_table_add crc32 mem_ok t k s in table_wf crc32 t' \<and>
      (r = 0 \<longleftrightarrow> mem_ok \<and> sock_table_lookup crc32 t k = None) \<and>
      sock_table_lookup crc32 t' = (if r = 0 then (sock_table_lookup crc32 t)(k := Some s) else sock_table_lookup crc32 t) \<and>
      (r = 0 \<longrightarrow> sock_table_lookup crc32 (snd (sock_table_del crc32 t' k)) = sock_table_lookup crc32 t)) \<and>
    (let (r, t') = sock_table_del crc32 t k in table_wf crc32 t' \<and>
      (r = 0 \<longleftrightarrow> sock_table_lookup crc32 t k \<noteq> None) \<and>
      sock_table_lookup crc32 t' = (sock_table_lookup crc32 t)(k := None))"
proof -
  have r: "fst (sock_table_add crc32 mem_ok t k s) = 0 \<longleftrightarrow> mem_ok \<and> sock_table_lookup crc32 t k = None"
    by (auto simp: sock_table_add_def Let_def)
  show ?thesis
    using sti.add_law [OF assms, of mem_ok k s] sti.del_law [OF assms, of k] sti.add_del_restores [OF assms, of mem_ok k s] r
    by (simp add: split_beta Let_def fun_eq_iff)
qed

lemma sock_table_is_map_witness:
  "sock_table_lookup (\<lambda>a b. ucast (a XOR b))
     (snd (sock_table_add (\<lambda>a b. ucast (a XOR b)) True sock_table_init
       (sock_key_init \<lparr>ip_hi = 0, ip_lo = 1\<rparr> 80 \<lparr>ip_hi = 0, ip_lo = 2\<rparr> 1024) (7 :: nat)))
     (sock_key_init \<lparr>ip_hi = 0, ip_lo = 1\<rparr> 80 \<lparr>ip_hi = 0, ip_lo = 2\<rparr> 1024) = Some 7"
proof -
  have "table_wf (\<lambda>a b. ucast (a XOR b)) (sock_table_init :: nat sock_table)"
    by (simp add: table_wf_def sock_table_init_def)
  from sock_table_is_map [OF this, of True
      "sock_key_init \<lparr>ip_hi = 0, ip_lo = 1\<rparr> 80 \<lparr>ip_hi = 0, ip_lo = 2\<rparr> 1024" 7]
  show ?thesis by (auto simp: Let_def split_beta sock_table_lookup_def sock_table_init_def)
qed

end
