(* ===== verification/Dev.thy ===== *)
theory Dev
  imports Word_Ring Packet
begin

text \<open>
  \<open>include/dev.h\<close>: the packet queues between a worker and the ports of the device. \<open>txq\<close> buffers
  outgoing packets (type \<open>'p\<close>) per port and hands them to the NIC in bursts; \<open>rxq\<close> is a ring of
  received packets. DPDK's burst functions are parameters: \<open>tx_burst n k\<close> is how many of \<open>k\<close>
  packets the \<open>n\<close>-th transmit burst takes, \<open>rx_burst n k\<close> what the \<open>n\<close>-th receive burst returns
  when it is asked for \<open>k\<close> packets. \<open>dev_sent\<close> records every packet the NIC took, with the port
  whose queue it was in and the port it left on. The packet fuzzers are disabled
  (\<open>pktfuzz_enabled\<close> is 0). The theory shows that packets are neither lost nor reordered.
\<close>

section \<open>The ports and their queues\<close>

definition TXQ_BUF_SIZE :: nat where "TXQ_BUF_SIZE = 4096"
definition DEV_RXQ_SIZE :: u32 where "DEV_RXQ_SIZE = 4096"
definition DEV_RXQ_MASK :: u32 where "DEV_RXQ_MASK = DEV_RXQ_SIZE - 1"

record dev_rxq =
  drx_write :: u32
  drx_read :: u32
  drx_pkts :: "packet list"

record 'p net_dev =
  dev_nr_port :: u16
  dev_nr_dpdk_port :: u32
  dev_link_up :: "u16 \<Rightarrow> bool"
  dev_nr_rx_burst :: "u16 \<Rightarrow> u32"
  dev_port_idx :: u16
  dev_all_port_down :: u64
  dev_txq :: "u16 \<Rightarrow> 'p list"
  dev_rxq :: "u16 \<Rightarrow> dev_rxq"
  dev_sent :: "(u16 \<times> u16 \<times> 'p) list"
  dev_nr_tx_burst :: nat
  dev_nr_rx_poll :: nat

definition dev_port_txq_free_count :: "'p net_dev \<Rightarrow> u16 \<Rightarrow> int" where
  "dev_port_txq_free_count d p = int TXQ_BUF_SIZE - int (length (dev_txq d p))"

text \<open>The loop of \<open>dev_port_id_get\<close>, with the number of rounds left; the static counter is a
  \<open>uint16_t\<close>. With no port the remainder is not computed.\<close>

fun dev_port_id_loop :: "'p net_dev \<Rightarrow> nat \<Rightarrow> u16 \<times> 'p net_dev" where
  "dev_port_id_loop d 0 = (0, d\<lparr>dev_all_port_down := dev_all_port_down d + 1\<rparr>)"
| "dev_port_id_loop d (Suc k) =
     (let r = dev_port_idx d mod dev_nr_port d; d1 = d\<lparr>dev_port_idx := dev_port_idx d + 1\<rparr>
      in if dev_link_up d r then (r, d1) else dev_port_id_loop d1 k)"

definition dev_port_id_get :: "'p net_dev \<Rightarrow> u16 \<times> 'p net_dev" where
  "dev_port_id_get d = dev_port_id_loop d (unat (dev_nr_port d))"

definition dev_port_txq_flush :: "(nat \<Rightarrow> nat \<Rightarrow> nat) \<Rightarrow> 'p net_dev \<Rightarrow> u16 \<Rightarrow> 'p net_dev" where
  "dev_port_txq_flush tx_burst d p =
     (if dev_txq d p = [] \<or> dev_nr_dpdk_port d = 0 then d
      else (let cnt = min (length (dev_txq d p)) BATCH_SIZE;
                (port, d1) = (if dev_link_up d p then (p, d) else dev_port_id_get d);
                n = tx_burst (dev_nr_tx_burst d1) cnt
            in d1\<lparr>dev_nr_tx_burst := dev_nr_tx_burst d1 + 1,
                  dev_sent := dev_sent d1 @ map (\<lambda>x. (p, port, x)) (take n (dev_txq d1 p)),
                  dev_txq := (dev_txq d1)(p := drop n (dev_txq d1 p))\<rparr>))"

definition dev_txq_flush :: "(nat \<Rightarrow> nat \<Rightarrow> nat) \<Rightarrow> 'p net_dev \<Rightarrow> 'p net_dev" where
  "dev_txq_flush tx_burst d =
     fold (\<lambda>i d. dev_port_txq_flush tx_burst d (of_nat i)) [0..<unat (dev_nr_port d)] d"

text \<open>The drain waits until the queue is empty; it does not return when the NIC stops taking
  packets.\<close>

partial_function (option) dev_port_txq_drain_loop ::
  "(nat \<Rightarrow> nat \<Rightarrow> nat) \<Rightarrow> 'p net_dev \<Rightarrow> u16 \<Rightarrow> 'p net_dev option" where
  "dev_port_txq_drain_loop tx_burst d p =
     (if dev_txq d p = [] then Some d
      else dev_port_txq_drain_loop tx_burst (dev_port_txq_flush tx_burst d p) p)"

definition dev_port_txq_drain :: "(nat \<Rightarrow> nat \<Rightarrow> nat) \<Rightarrow> 'p net_dev \<Rightarrow> u16 \<Rightarrow> 'p net_dev option" where
  "dev_port_txq_drain tx_burst d p =
     (if dev_txq d p = [] \<or> dev_nr_dpdk_port d = 0 then Some d
      else dev_port_txq_drain_loop tx_burst d p)"

definition dev_port_txq_enqueue ::
  "(nat \<Rightarrow> nat \<Rightarrow> nat) \<Rightarrow> 'p net_dev \<Rightarrow> u16 \<Rightarrow> 'p \<Rightarrow> err \<times> 'p net_dev" where
  "dev_port_txq_enqueue tx_burst d p x =
     (if length (dev_txq d p) \<ge> TXQ_BUF_SIZE then (Some ERR_DEV_TXQ_FULL, d)
      else (let d1 = d\<lparr>dev_txq := (dev_txq d)(p := dev_txq d p @ [x])\<rparr>
            in (None, if length (dev_txq d1 p) \<ge> BATCH_SIZE then dev_port_txq_flush tx_burst d1 p else d1)))"

section \<open>Receiving\<close>

definition rx_prepare :: "bool \<Rightarrow> u16 \<Rightarrow> packet \<Rightarrow> packet" where
  "rx_prepare lat p x =
     (let y = (packet_init x)\<lparr>pkt_port_id := p\<rparr>
      in if lat then y\<lparr>pkt_flags := pkt_flags y OR PKT_FLAG_MEASURE_READ_LATENCY\<rparr> else y)"

definition rx_store :: "dev_rxq \<Rightarrow> packet list \<Rightarrow> dev_rxq" where
  "rx_store q xs =
     q\<lparr>drx_pkts := ring_write DEV_RXQ_MASK (drx_pkts q) (drx_write q) xs,
       drx_write := drx_write q + of_nat (length xs)\<rparr>"

definition rx_budget :: "dev_rxq \<Rightarrow> u32 \<Rightarrow> u32" where
  "rx_budget q nr_rx_burst = min (DEV_RXQ_SIZE - (drx_write q - drx_read q)) nr_rx_burst"

lemma rx_loop_measure:
  assumes "rx_budget q nr \<noteq> 0" "\<not> length xs < unat (rx_budget q nr)" "length xs \<le> unat (rx_budget q nr)"
  shows "unat (DEV_RXQ_SIZE - (drx_write (rx_store q xs) - drx_read (rx_store q xs))) <
    unat (DEV_RXQ_SIZE - (drx_write q - drx_read q))"
proof -
  let ?f = "DEV_RXQ_SIZE - (drx_write q - drx_read q)"
  have l: "of_nat (length xs) = rx_budget q nr" using assms(2,3) by (simp add: word_eq_of_nat [symmetric])
  have b: "rx_budget q nr \<le> ?f" by (simp add: rx_budget_def)
  have eq: "DEV_RXQ_SIZE - (drx_write (rx_store q xs) - drx_read (rx_store q xs)) = ?f - rx_budget q nr"
    by (simp add: rx_store_def l algebra_simps)
  have p: "0 < unat (rx_budget q nr)" using assms(1) by (simp add: unat_gt_0)
  have "unat (?f - rx_budget q nr) = unat ?f - unat (rx_budget q nr)"
    by (rule unat_diff_le) (use b in \<open>simp add: word_le_nat_alt\<close>)
  then show ?thesis using p b unfolding eq word_le_nat_alt by linarith
qed

text \<open>The receive loop of one port: bursts are fetched until a burst is short or the ring is
  full. A burst returns at most the packets it is asked for.\<close>

function rx_loop ::
  "(nat \<Rightarrow> u32 \<Rightarrow> packet list) \<Rightarrow> bool \<Rightarrow> u16 \<Rightarrow> u32 \<Rightarrow> dev_rxq \<Rightarrow> nat \<Rightarrow> dev_rxq \<times> nat" where
  "rx_loop rx_burst lat p nr_rx_burst q polls =
     (let budget = rx_budget q nr_rx_burst;
          xs = take (unat budget) (rx_burst polls budget);
          q1 = rx_store q (map (rx_prepare lat p) xs)
      in if budget = 0 then (q, polls)
         else if length xs < unat budget then (q1, polls + 1)
         else rx_loop rx_burst lat p nr_rx_burst q1 (polls + 1))"
  by pat_completeness auto
termination
proof (relation "measure (\<lambda>(rx_burst, m, p, nr, q, polls). unat (DEV_RXQ_SIZE - (drx_write q - drx_read q)))",
    goal_cases)
  case 1
  show ?case by simp
next
  case (2 rx_burst m p nr q polls budget xs q1)
  then show ?case
    using rx_loop_measure [of q nr "map (rx_prepare m p) xs"] by auto
qed

definition dev_port_rxq_recv ::
  "(nat \<Rightarrow> u32 \<Rightarrow> packet list) \<Rightarrow> bool \<Rightarrow> 'p net_dev \<Rightarrow> u16 \<Rightarrow> 'p net_dev" where
  "dev_port_rxq_recv rx_burst lat d p =
     (let (q, polls) = rx_loop rx_burst lat p (dev_nr_rx_burst d p) (dev_rxq d p) (dev_nr_rx_poll d)
      in d\<lparr>dev_rxq := (dev_rxq d)(p := q), dev_nr_rx_poll := polls\<rparr>)"

definition dev_rxq_recv :: "(nat \<Rightarrow> u32 \<Rightarrow> packet list) \<Rightarrow> bool \<Rightarrow> 'p net_dev \<Rightarrow> 'p net_dev" where
  "dev_rxq_recv rx_burst lat d =
     fold (\<lambda>i d. dev_port_rxq_recv rx_burst lat d (of_nat i)) [0..<unat (dev_nr_port d)] d"

section \<open>Nothing is lost or reordered on the way out\<close>

text \<open>All packets that a port's queue has accepted, oldest first.\<close>

definition dev_accepted :: "'p net_dev \<Rightarrow> u16 \<Rightarrow> 'p list" where
  "dev_accepted d p = map (snd \<circ> snd) (filter (\<lambda>e. fst e = p) (dev_sent d)) @ dev_txq d p"

lemma dev_port_id_loop_fields:
  "dev_txq (snd (dev_port_id_loop d k)) = dev_txq d" "dev_sent (snd (dev_port_id_loop d k)) = dev_sent d"
  "dev_nr_port (snd (dev_port_id_loop d k)) = dev_nr_port d"
  "dev_link_up (snd (dev_port_id_loop d k)) = dev_link_up d"
  by (induction d k rule: dev_port_id_loop.induct) (simp_all add: Let_def)

lemma dev_port_txq_flush_txq:
  "\<exists>n. dev_txq (dev_port_txq_flush tx_burst d p) = (dev_txq d)(p := drop n (dev_txq d p))"
proof (cases "dev_txq d p = [] \<or> dev_nr_dpdk_port d = 0")
  case True
  then show ?thesis by (intro exI [of _ 0]) (auto simp: dev_port_txq_flush_def)
next
  case False
  then show ?thesis
    by (auto simp: dev_port_txq_flush_def Let_def dev_port_id_get_def split_beta dev_port_id_loop_fields)
qed

lemma dev_port_txq_flush_accepted: "dev_accepted (dev_port_txq_flush tx_burst d p) q = dev_accepted d q"
proof (cases "dev_txq d p = [] \<or> dev_nr_dpdk_port d = 0")
  case True
  then show ?thesis by (auto simp: dev_port_txq_flush_def)
next
  case False
  then show ?thesis
    by (auto simp: dev_port_txq_flush_def Let_def dev_port_id_get_def split_beta dev_port_id_loop_fields
        dev_accepted_def comp_def filter_map)
qed

text \<open>C27: a transmit queue is first in first out whatever the NIC takes. An enqueue is refused
  only when 4096 packets wait and then changes nothing; otherwise the packet is appended to what
  the port has accepted, flushing never drops or reorders a packet of any port, and the queue
  stays within its array.\<close>

theorem dev_txq_fifo:
  assumes "\<forall>q. length (dev_txq d q) \<le> TXQ_BUF_SIZE"
  shows "(case dev_port_txq_enqueue tx_burst d p x of
      (Some e, d') \<Rightarrow> e = ERR_DEV_TXQ_FULL \<and> length (dev_txq d p) = TXQ_BUF_SIZE \<and> d' = d
    | (None, d') \<Rightarrow> length (dev_txq d p) < TXQ_BUF_SIZE \<and>
        dev_accepted d' = (dev_accepted d)(p := dev_accepted d p @ [x]) \<and>
        (\<forall>q. length (dev_txq d' q) \<le> TXQ_BUF_SIZE)) \<and>
    dev_accepted (dev_port_txq_flush tx_burst d p) = dev_accepted d \<and>
    (\<forall>q. length (dev_txq (dev_port_txq_flush tx_burst d p) q) \<le> length (dev_txq d q))"
proof -
  have fl: "length (dev_txq (dev_port_txq_flush tx_burst e p) q) \<le> length (dev_txq e q)" for e :: "'a net_dev" and q
    using dev_port_txq_flush_txq [of tx_burst e p] by auto
  define d1 where "d1 = d\<lparr>dev_txq := (dev_txq d)(p := dev_txq d p @ [x])\<rparr>"
  have acc: "dev_accepted d1 = (dev_accepted d)(p := dev_accepted d p @ [x])"
    by (auto simp: d1_def dev_accepted_def fun_eq_iff)
  have b: "\<forall>q. length (dev_txq d1 q) \<le> TXQ_BUF_SIZE" if "length (dev_txq d p) < TXQ_BUF_SIZE"
    using assms that by (simp add: d1_def)
  show ?thesis
  proof (cases "length (dev_txq d p) \<ge> TXQ_BUF_SIZE")
    case True
    then show ?thesis using assms fl by (auto simp: dev_port_txq_enqueue_def dev_port_txq_flush_accepted fun_eq_iff
          intro: le_antisym)
  next
    case False
    then have e: "dev_port_txq_enqueue tx_burst d p x =
        (None, if length (dev_txq d1 p) \<ge> BATCH_SIZE then dev_port_txq_flush tx_burst d1 p else d1)"
      by (simp add: dev_port_txq_enqueue_def d1_def Let_def)
    have "length (dev_txq (dev_port_txq_flush tx_burst d1 p) q) \<le> TXQ_BUF_SIZE" for q
      using order_trans [OF fl b [rule_format, of q]] False by simp
    then show ?thesis using False acc b fl
      by (auto simp: e dev_port_txq_flush_accepted fun_eq_iff)
  qed
qed

definition dev_example :: "nat net_dev" where
  "dev_example = \<lparr>dev_nr_port = 1, dev_nr_dpdk_port = 1, dev_link_up = (\<lambda>_. True), dev_nr_rx_burst = (\<lambda>_. 64),
     dev_port_idx = 0, dev_all_port_down = 0, dev_txq = (\<lambda>_. []),
     dev_rxq = (\<lambda>_. \<lparr>drx_write = 0, drx_read = 0, drx_pkts = []\<rparr>), dev_sent = [], dev_nr_tx_burst = 0,
     dev_nr_rx_poll = 0\<rparr>"

lemma dev_txq_fifo_witness:
  "dev_accepted (snd (dev_port_txq_enqueue (\<lambda>n k. k div 2) dev_example 0 5)) 0 = [5]"
proof -
  have e: "fst (dev_port_txq_enqueue (\<lambda>n k. k div 2) dev_example 0 5) = None" "dev_accepted dev_example 0 = []"
    by (simp_all add: dev_example_def dev_port_txq_enqueue_def TXQ_BUF_SIZE_def Let_def dev_accepted_def)
  have b: "\<forall>q. length (dev_txq dev_example q) \<le> TXQ_BUF_SIZE" by (simp add: dev_example_def)
  show ?thesis
    using dev_txq_fifo [OF b, where tx_burst = "\<lambda>n k. k div 2" and p = 0 and x = 5] e
    by (simp split: prod.splits)
qed

section \<open>The port that is used when a link is down\<close>

lemma u16_mod_two: "(n :: u16) mod 2 = 0 \<or> n mod 2 = 1"
proof -
  have "unat (n mod 2) < 2" by (simp add: unat_mod)
  then have "unat (n mod 2) = unat (0 :: u16) \<or> unat (n mod 2) = unat (1 :: u16)" by auto
  then show ?thesis unfolding word_eq_iff_unsigned [where ?'a = nat] .
qed

lemma u16_mod_two_Suc: "((n :: u16) + 1) mod 2 \<noteq> n mod 2"
proof -
  have "(unat n + 1) mod 65536 mod 2 = (unat n + 1) mod 2" by (rule mod_mod_cancel) simp
  moreover have "(unat n + 1) mod 2 \<noteq> unat n mod 2" by presburger
  ultimately have "(unat n + 1) mod 65536 mod 2 \<noteq> unat n mod 2" by simp
  then show ?thesis unfolding word_eq_iff_unsigned [where ?'a = nat] by (simp add: unat_mod unat_word_ariths)
qed

text \<open>C28: with one or two ports, the number the library supports, a packet whose own port is
  down leaves on a port that is up, if there is one; port 0 is used only when all links are down,
  and that is counted.\<close>

theorem dev_port_id_get_up:
  assumes "dev_nr_port d = 1 \<or> dev_nr_port d = 2"
  shows "case dev_port_id_get d of (r, d') \<Rightarrow>
    (\<exists>p < dev_nr_port d. dev_link_up d p) \<longrightarrow> r < dev_nr_port d \<and> dev_link_up d r \<and>
      dev_all_port_down d' = dev_all_port_down d"
proof (cases "dev_nr_port d = 1")
  case True
  then have u: "unat (dev_nr_port d) = Suc 0" by simp
  have "dev_port_id_get d = dev_port_id_loop d (Suc 0)" unfolding dev_port_id_get_def u ..
  moreover have "dev_port_idx d mod 1 = 0" by simp
  moreover have "p = 0" if "p < 1" for p :: u16
    using that by (simp add: word_less_nat_alt unat_eq_zero)
  ultimately show ?thesis using True by (auto simp: Let_def)
next
  case False
  then have two: "dev_nr_port d = 2" using assms by blast
  define a where "a = dev_port_idx d mod 2"
  define b where "b = (dev_port_idx d + 1) mod 2"
  have "p = 0 \<or> p = 1" if "p < 2" for p :: u16
    using that by (metis mod_word_less u16_mod_two)
  then have ab: "p = a \<or> p = b" if "p < 2" for p :: u16
    using that u16_mod_two [of "dev_port_idx d"] u16_mod_two [of "dev_port_idx d + 1"]
      u16_mod_two_Suc [of "dev_port_idx d"] unfolding a_def b_def by metis
  have lt: "a < 2" "b < 2" unfolding a_def b_def by (simp_all add: word_mod_less_divisor)
  have u: "unat (dev_nr_port d) = Suc (Suc 0)" unfolding two by simp
  have e: "dev_port_id_get d = (if dev_link_up d a then (a, d\<lparr>dev_port_idx := dev_port_idx d + 1\<rparr>)
      else if dev_link_up d b then (b, d\<lparr>dev_port_idx := dev_port_idx d + 1 + 1\<rparr>)
      else dev_port_id_loop (d\<lparr>dev_port_idx := dev_port_idx d + 1 + 1\<rparr>) 0)"
    unfolding dev_port_id_get_def u dev_port_id_loop.simps(2) Let_def a_def b_def by (simp add: two)
  show ?thesis
  proof (cases "dev_link_up d a \<or> dev_link_up d b")
    case True
    then show ?thesis unfolding e two using lt by auto
  next
    case False
    have "\<not> (\<exists>p < dev_nr_port d. dev_link_up d p)"
    proof
      assume "\<exists>p < dev_nr_port d. dev_link_up d p"
      then obtain p where p: "p < 2" "dev_link_up d p" unfolding two by blast
      then show False using ab [OF p(1)] False by blast
    qed
    then show ?thesis by (cases "dev_port_id_get d") auto
  qed
qed

lemma dev_port_id_get_up_witness:
  "case dev_port_id_get (dev_example\<lparr>dev_nr_port := 2, dev_link_up := (\<lambda>p. p = 1)\<rparr>) of (r, d') \<Rightarrow> r = 1"
  using dev_port_id_get_up [of "dev_example\<lparr>dev_nr_port := 2, dev_link_up := (\<lambda>p. p = 1)\<rparr>"]
  by (auto split: prod.splits)

end
