(* ===== verification/Tcp_Sock.thy ===== *)
theory Tcp_Sock
  imports Tcp_Queue Flex_Fifo Tx_Desc Timer Tcp_Opts Sack Sock_Table Dev
begin

text \<open>
  The state of the stack and the small operations on it: \<open>struct tcp_sock\<close> and the inline
  functions of \<open>include/sock.h\<close>, \<open>struct tpa_worker\<close> and those of \<open>include/worker.h\<close>, the address
  helpers of \<open>include/api/tpa.h\<close>.

  A handler works on one worker and one socket and returns both. A socket is named by its
  position in the \<open>socks\<close> array (\<open>sk_pos\<close>, its address in the code); the FIFO nodes and the timers
  inside a socket are named by that position. Descriptors live in \<open>desc_mem\<close>, named by their
  index. The worker record also keeps a history of effects outside the stack: the received
  packets that were freed, the buffers of copied writes that were freed, the copies into such
  buffers (destination, source and length), and the \<open>write_done\<close> callbacks that ran. Ports are numbers in host order, so the conversions \<open>htons\<close> and \<open>ntohs\<close> of
  ports disappear, except where the code feeds a port in network order to the hash.

  What is not code of this library is an argument, the record \<open>env\<close>. Statistics, traces and logs
  are left out: no decision reads them. Hardware offload rules (\<open>src/offload.c\<close>) are left out of
  the socket's life cycle.
\<close>

section \<open>Constants\<close>

definition TSOCK_SID_UNALLOCATED :: int where "TSOCK_SID_UNALLOCATED = -1"
definition TSOCK_SID_FREEED :: int where "TSOCK_SID_FREEED = -2"

definition TSOCK_FLAG_FIN_NEEDED :: u32 where "TSOCK_FLAG_FIN_NEEDED = 1"
definition TSOCK_FLAG_SYN_NEEDED :: u32 where "TSOCK_FLAG_SYN_NEEDED = 2"
definition TSOCK_FLAG_RST_NEEDED :: u32 where "TSOCK_FLAG_RST_NEEDED = 4"
definition TSOCK_FLAG_ACK_NEEDED :: u32 where "TSOCK_FLAG_ACK_NEEDED = 16"
definition TSOCK_FLAG_TCP_FLAGS_MASK :: u32 where "TSOCK_FLAG_TCP_FLAGS_MASK = 0xff"
definition TSOCK_FLAG_ACK_NOW :: u32 where "TSOCK_FLAG_ACK_NOW = 0x10000"
definition TSOCK_FLAG_FIN_PENDING :: u32 where "TSOCK_FLAG_FIN_PENDING = 0x20000"
definition TSOCK_FLAG_FIN_SENT :: u32 where "TSOCK_FLAG_FIN_SENT = 0x40000"
definition TSOCK_FLAG_CLOSE_PROCESSED :: u32 where "TSOCK_FLAG_CLOSE_PROCESSED = 0x100000"
definition TSOCK_FLAG_EOF :: u32 where "TSOCK_FLAG_EOF = 0x200000"
definition TSOCK_FLAG_PUT :: u32 where "TSOCK_FLAG_PUT = 0x400000"
definition TSOCK_FLAG_MISSING_ARP :: u32 where "TSOCK_FLAG_MISSING_ARP = 0x1000000"

lemmas tsock_flag_defs = TSOCK_FLAG_FIN_NEEDED_def TSOCK_FLAG_SYN_NEEDED_def
  TSOCK_FLAG_RST_NEEDED_def TSOCK_FLAG_ACK_NEEDED_def TSOCK_FLAG_TCP_FLAGS_MASK_def
  TSOCK_FLAG_ACK_NOW_def TSOCK_FLAG_FIN_PENDING_def TSOCK_FLAG_FIN_SENT_def
  TSOCK_FLAG_CLOSE_PROCESSED_def TSOCK_FLAG_EOF_def TSOCK_FLAG_PUT_def TSOCK_FLAG_MISSING_ARP_def

definition tsock_flags_to_tcp_flags :: "u32 \<Rightarrow> u8" where
  "tsock_flags_to_tcp_flags f = ucast (f AND TSOCK_FLAG_TCP_FLAGS_MASK)"

definition TSOCK_QUICKACK_COUNT :: u8 where "TSOCK_QUICKACK_COUNT = 30"
definition TSOCK_MAX_MERGE_SIZE :: nat where "TSOCK_MAX_MERGE_SIZE = 48000"

definition TPA_EVENT_IN :: u32 where "TPA_EVENT_IN = 1"
definition TPA_EVENT_OUT :: u32 where "TPA_EVENT_OUT = 4"
definition TPA_EVENT_ERR :: u32 where "TPA_EVENT_ERR = 8"
definition TPA_EVENT_HUP :: u32 where "TPA_EVENT_HUP = 16"

datatype errno = ECONNREFUSED | ECONNRESET | ETIMEDOUT | EBADF | ENOTCONN | EPIPE | EAGAIN
  | EINVAL | EADDRINUSE | ENFILE | EBUSY

section \<open>Sockets\<close>

record ether_hdr =
  eth_dst :: "u8 list"
  eth_src :: "u8 list"
  eth_type :: u16

text \<open>The part of \<open>struct eth_ip_hdr\<close> that \<open>init_net_hdr\<close> fills; the constant fields of the IP
  headers are written where the header becomes bytes.\<close>

record eth_ip_hdr =
  net_eth :: ether_hdr
  net_is_ip4 :: bool
  net_src :: tpa_ip
  net_dst :: tpa_ip

datatype retrans_stage = NONE | FAST_RETRANS | RTO

datatype last_ts_type = LAST_TS_READ | LAST_TS_WRITE | LAST_TS_RCV_DATA | LAST_TS_RCV_PKT
  | LAST_TS_SND_DATA | LAST_TS_SND_PKT

record tcp_sock =
  sk_pos :: nat
  sid :: int
  state :: tcp_state
  tso_enabled :: bool
  ts_enabled :: bool
  ts_ok :: bool
  ws_enabled :: bool
  ws_ok :: bool
  sack_enabled :: bool
  sack_ok :: bool
  is_ipv6 :: bool
  passive_connection :: bool
  listen_sock :: bool
  closed_at_syn_rcvd :: bool
  data_seq_nxt :: u32
  snd_nxt :: u32
  snd_una :: u32
  snd_recover :: u32
  snd_wnd :: u32
  snd_wl1 :: u32
  snd_wl2 :: u32
  snd_ts :: u32
  snd_cwnd :: u32
  snd_cwnd_uncommited :: u32
  snd_cwnd_orig :: u32
  snd_cwnd_ts_us :: u64
  snd_ssthresh :: u32
  snd_mss :: u16
  snd_wscale :: u8
  rcv_wscale :: u8
  rcv_nxt :: u32
  rcv_wnd :: u32
  sacked_bytes :: u32
  packet_id :: u16
  flags :: u32
  net_hdr :: eth_ip_hdr
  port_id :: u16
  remote_ip :: tpa_ip
  local_ip :: tpa_ip
  remote_port :: u16
  local_port :: u16
  rcv_isn :: u32
  snd_isn :: u32
  init_ts_us :: u64
  net_hdr_len :: u8
  sk_err :: "errno option"
  nr_dupack :: u16
  retrans_stage :: retrans_stage
  rto_shift :: u8
  quickack :: u8
  close_issued :: bool
  rto_start_ts :: u64
  ts_recent :: u32
  ts_recent_in_sec :: u32
  last_ack_sent :: u32
  last_ack_sent_ts :: u32
  rtt :: u32
  srtt :: u32
  rttvar :: u32
  rto :: u32
  zero_wnd_probe_shift :: u8
  keepalive_shift :: u8
  nr_ooo_pkt :: u16
  ooo_start_ts :: u32
  rx_merge_head :: "packet option"
  rxq :: "packet tcp_rxq"
  last_ooo_pkt :: "nat option"
  rcv_ooo_queue :: "packet list"
  txq :: "nat tcp_txq"
  partial_ack :: u32
  interested_events :: u32
  last_events :: u32
  event_events :: u32
  event_data :: u64
  retrans_seq :: u32
  retrans_ts_val :: u32
  retrans_desc_base :: u16
  opts_listen_scaling :: bool
  opts_local_port :: u16
  opts_data :: u64
  last_ts :: "last_ts_type \<Rightarrow> u64"
  sack_blocks :: "tcp_sack_block list"

section \<open>Workers and the environment\<close>

datatype timer_kind = TimerRto | TimerWait | TimerKeepalive

datatype timer_id = SockTimer nat timer_kind | BlockTimer nat

record port_block =
  pb_start :: u16
  pb_end :: u16
  pb_size :: u16
  pb_mask :: u16
  pb_refcnt :: int
  pb_port_mask :: u16

text \<open>\<open>struct port_alloc_ctrl\<close>; \<open>port_map\<close> holds the file descriptor that keeps a port
  reserved in the kernel, or -1.\<close>

record port_alloc_ctrl =
  pac_min :: u16
  pac_max :: u16
  nr_port_allocated :: u64
  nr_port_allocated_total :: u64
  nr_socket_failure :: u64
  nr_bind_failure :: u64
  pac_nr_port_block :: u64
  port_map :: "u16 \<Rightarrow> int"

text \<open>An outgoing packet: the bytes of its headers, and the buffers of the payload as address and
  length. \<open>tx_tso\<close> is the segment size when the NIC has to cut the packet.\<close>

record tx_pkt =
  tx_hdr :: "u8 list"
  tx_segs :: "(u64 \<times> u32) list"
  tx_seq :: u32
  tx_len :: u16
  tx_tcp_flags :: u8
  tx_hdr_len :: u8
  tx_retransmit :: bool
  tx_tso :: "u16 option"
  tx_tsock :: nat

text \<open>\<open>neigh_flush_queue\<close> lists the packets whose neighbour was found by the neighbour thread, with
  the mark of those whose socket is gone.

  The globals that only one worker's calls are followed through (the port allocator, the
  table of listening sockets and the number of sockets, behind locks or atomic) are kept in the
  worker record.\<close>

record tpa_worker =
  wk_id :: u8
  nr_ooo_mbuf :: u32
  nr_in_process_mbuf :: u32
  nr_write_mbuf :: u32
  nr_tsock :: u32
  nr_tsock_total :: u64
  ts_us :: u64
  cycles_start :: u64
  cycles_end :: u64
  cycles_total :: u64
  cycles_busy :: u64
  cycles_outside_worker :: u64
  cycles_last_poll :: u64
  desc_pool :: tx_desc_pool
  desc_mem :: "nat \<Rightarrow> tx_desc"
  event_queue :: "nat flex_fifo"
  wk_output :: "nat flex_fifo"
  wk_delayed_ack :: "nat flex_fifo"
  wk_accept :: "nat flex_fifo"
  wk_timers :: "timer_id timer_ctrl"
  wk_sock_table :: "nat sock_table"
  wk_listen_table :: "nat sock_table"
  port_blocks :: "nat list"
  block_mem :: "nat \<Rightarrow> port_block"
  nr_block_alloc :: nat
  pac :: port_alloc_ctrl
  wk_dev :: "tx_pkt net_dev"
  neigh_waiting :: "tx_pkt list"
  neigh_flush_queue :: "(bool \<times> tx_pkt) list"
  freed_pkts :: "nat list"
  freed_bufs :: "nat list"
  copies :: "(u64 \<times> u64 \<times> u32) list"
  done_calls :: "(nat \<times> u64 \<times> u64) list"
  nr_alloc :: nat
  nr_malloc :: nat
  nr_rdtsc :: nat
  nr_neigh_wait :: nat
  nr_offload :: nat
  nr_socket :: nat
  nr_sock :: int
  wk_errno :: "errno option"

text \<open>
  The environment: the TCP configuration; whether the \<open>n\<close>-th allocation from a mempool succeeds
  and where its buffer is; the headroom and tailroom of a buffer; the time stamp counter and its
  frequency; the CRC; the neighbour cache (\<open>env_neigh\<close>, what \<open>neigh_lookup\<close> returns) and whether
  its waiting queue has room; the burst functions of the NIC; the device addresses; the worker
  layout; the checksum functions; what an unwritten urgent pointer holds; whether the \<open>n\<close>-th
  \<open>malloc\<close> succeeds; what \<open>socket\<close> and \<open>bind\<close> return in their \<open>n\<close>-th call (\<open>None\<close>: no
  descriptor) and the \<open>errno\<close> they leave when they fail; whether the \<open>n\<close>-th request for a hardware flow rule succeeds.
\<close>

record env =
  cfg :: tcp_cfg
  env_alloc :: "nat \<Rightarrow> bool"
  env_buf_addr :: "nat \<Rightarrow> u64"
  env_buf_iova :: "nat \<Rightarrow> u64"
  env_headroom :: nat
  env_tailroom :: u32
  env_rdtsc :: "nat \<Rightarrow> u64"
  env_hz :: u64
  env_crc32 :: "u64 \<Rightarrow> u64 \<Rightarrow> u32"
  env_neigh :: "tpa_ip \<Rightarrow> u8 list option"
  env_neigh_room :: "nat \<Rightarrow> bool"
  env_tx_burst :: "nat \<Rightarrow> nat \<Rightarrow> nat"
  env_rx_burst :: "nat \<Rightarrow> u32 \<Rightarrow> packet list"
  env_mac :: "u8 list"
  env_ip4 :: u32
  env_ip6 :: tpa_ip
  env_nr_worker :: u32
  env_worker_shift :: nat
  env_worker_mask :: u32
  env_phdr_cksum :: "u8 list \<Rightarrow> bool \<Rightarrow> u16"
  env_ip4_cksum :: "packet \<Rightarrow> u16"
  env_tcp_cksum :: "packet \<Rightarrow> u16"
  env_stale_urp :: u16
  env_malloc :: "nat \<Rightarrow> bool"
  env_socket :: "nat \<Rightarrow> int option"
  env_bind :: "nat \<Rightarrow> u16 \<Rightarrow> bool"
  env_sys_errno :: "nat \<Rightarrow> errno option"
  env_offload :: "nat \<Rightarrow> bool"

definition TSC_TO_US :: "env \<Rightarrow> u64 \<Rightarrow> u64" where
  "TSC_TO_US E tsc = tsc div (env_hz E div 1000000)"

definition rte_rdtsc :: "env \<Rightarrow> tpa_worker \<Rightarrow> u64 \<times> tpa_worker" where
  "rte_rdtsc E w = (env_rdtsc E (nr_rdtsc w), w\<lparr>nr_rdtsc := nr_rdtsc w + 1\<rparr>)"

text \<open>\<open>packet_alloc\<close> tries the preferred pool and then the backup pool; the result names the
  buffer.\<close>

definition packet_alloc :: "env \<Rightarrow> tpa_worker \<Rightarrow> nat option \<times> tpa_worker" where
  "packet_alloc E w =
     (let n = nr_alloc w
      in if env_alloc E n then (Some n, w\<lparr>nr_alloc := n + 1\<rparr>)
         else if env_alloc E (n + 1) then (Some (n + 1), w\<lparr>nr_alloc := n + 2\<rparr>)
         else (None, w\<lparr>nr_alloc := n + 2\<rparr>))"

definition c_malloc :: "env \<Rightarrow> tpa_worker \<Rightarrow> bool \<times> tpa_worker" where
  "c_malloc E w = (env_malloc E (nr_malloc w), w\<lparr>nr_malloc := nr_malloc w + 1\<rparr>)"

definition packet_free :: "tpa_worker \<Rightarrow> packet \<Rightarrow> tpa_worker" where
  "packet_free w p = w\<lparr>freed_pkts := freed_pkts w @ [pkt_id p]\<rparr>"

definition tx_desc_done :: "tpa_worker \<Rightarrow> nat \<Rightarrow> tpa_worker" where
  "tx_desc_done w d =
     (let desc = desc_mem w d;
          w1 = (if desc_flags desc AND TX_DESC_FLAG_MEM_FROM_MBUF \<noteq> 0
                then w\<lparr>freed_bufs := freed_bufs w @ (case desc_pkt desc of None \<Rightarrow> [] | Some b \<Rightarrow> [b]),
                       nr_write_mbuf := nr_write_mbuf w - 1\<rparr>
                else w);
          w2 = (case desc_write_done desc of
                  None \<Rightarrow> w1
                | Some f \<Rightarrow> w1\<lparr>done_calls := done_calls w1 @ [(f, desc_base desc, desc_param desc)]\<rparr>)
      in w2\<lparr>desc_pool := tx_desc_free (desc_pool w2) d\<rparr>)"

section \<open>Inline functions of \<open>worker.h\<close>\<close>

definition tsock_update_last_ts :: "tpa_worker \<Rightarrow> tcp_sock \<Rightarrow> last_ts_type \<Rightarrow> tcp_sock" where
  "tsock_update_last_ts w t k = t\<lparr>last_ts := (last_ts t)(k := cycles_start w)\<rparr>"

definition last_ts_in_us :: "env \<Rightarrow> tcp_sock \<Rightarrow> last_ts_type \<Rightarrow> u64" where
  "last_ts_in_us E t k = TSC_TO_US E (last_ts t k)"

definition tsock_event_add :: "tpa_worker \<Rightarrow> tcp_sock \<Rightarrow> u32 \<Rightarrow> tpa_worker \<times> tcp_sock" where
  "tsock_event_add w t ev =
     (let t1 = t\<lparr>last_events := ev, event_events := event_events t OR ev\<rparr>
      in (if event_events t1 AND interested_events t1 \<noteq> 0
          then w\<lparr>event_queue := flex_fifo_push_if_not_exist (event_queue w) (sk_pos t)\<rparr> else w, t1))"

definition output_tsock_enqueue :: "tpa_worker \<Rightarrow> tcp_sock \<Rightarrow> tpa_worker" where
  "output_tsock_enqueue w t = w\<lparr>wk_output := flex_fifo_push_if_not_exist (wk_output w) (sk_pos t)\<rparr>"

fun output_dequeue_loop :: "nat \<Rightarrow> nat flex_fifo \<Rightarrow> nat list \<times> nat flex_fifo" where
  "output_dequeue_loop 0 ff = ([], ff)"
| "output_dequeue_loop (Suc k) ff =
     (case flex_fifo_pop ff of
        (None, ff1) \<Rightarrow> ([], ff1)
      | (Some n, ff1) \<Rightarrow> (let (ns, ff2) = output_dequeue_loop k ff1 in (n # ns, ff2)))"

text \<open>The dequeued sockets are returned; in the code they are in \<open>worker->tsocks\<close>.\<close>

definition output_tsock_dequeue :: "tpa_worker \<Rightarrow> nat list \<times> tpa_worker" where
  "output_tsock_dequeue w =
     (let (ns, ff) = output_dequeue_loop BATCH_SIZE (wk_output w) in (ns, w\<lparr>wk_output := ff\<rparr>))"

definition accept_tsock_enqueue :: "tpa_worker \<Rightarrow> tcp_sock \<Rightarrow> tpa_worker" where
  "accept_tsock_enqueue w t = w\<lparr>wk_accept := flex_fifo_push (wk_accept w) (sk_pos t)\<rparr>"

definition cycles_update_begin :: "env \<Rightarrow> tpa_worker \<Rightarrow> tpa_worker" where
  "cycles_update_begin E w =
     (let (now, w1) = rte_rdtsc E w;
          w2 = w1\<lparr>cycles_outside_worker := cycles_outside_worker w1 + (now - cycles_end w1),
                  cycles_total := cycles_total w1 + (now - cycles_start w1)\<rparr>;
          (c, w3) = rte_rdtsc E w2
      in w3\<lparr>cycles_start := c, ts_us := TSC_TO_US E c\<rparr>)"

definition cycles_update_end :: "env \<Rightarrow> tpa_worker \<Rightarrow> bool \<Rightarrow> tpa_worker" where
  "cycles_update_end E w busy =
     (let (now, w1) = rte_rdtsc E w; w2 = w1\<lparr>cycles_end := now\<rparr>
      in if busy then w2\<lparr>cycles_busy := cycles_busy w2 + (cycles_end w2 - cycles_start w2)\<rparr> else w2)"

definition now_in_sec :: "tpa_worker \<Rightarrow> u32" where
  "now_in_sec w = ucast (ts_us w div 1000000)"

definition too_many_used_mbufs :: "env \<Rightarrow> tpa_worker \<Rightarrow> bool" where
  "too_many_used_mbufs E w \<longleftrightarrow>
     nr_ooo_mbuf w + nr_in_process_mbuf w + nr_write_mbuf w > drop_ooo_threshold (cfg E)"

section \<open>Inline functions of \<open>sock.h\<close>\<close>

definition tsock_reset_quickack :: "tcp_sock \<Rightarrow> tcp_sock" where
  "tsock_reset_quickack t = t\<lparr>quickack := TSOCK_QUICKACK_COUNT\<rparr>"

definition wk_timer_start :: "tpa_worker \<Rightarrow> tcp_sock \<Rightarrow> timer_kind \<Rightarrow> u64 \<Rightarrow> u64 \<Rightarrow> tpa_worker" where
  "wk_timer_start w t k now expire = w\<lparr>wk_timers := timer_start (wk_timers w) (SockTimer (sk_pos t) k) now expire\<rparr>"

definition wk_timer_stop :: "tpa_worker \<Rightarrow> tcp_sock \<Rightarrow> timer_kind \<Rightarrow> tpa_worker" where
  "wk_timer_stop w t k = w\<lparr>wk_timers := timer_stop (wk_timers w) (SockTimer (sk_pos t) k)\<rparr>"

text \<open>\<open>rto << rto_shift\<close> is a 32-bit shift; for shifts of 32 and more, which C leaves undefined,
  the model has 0.\<close>

definition tsock_rearm_timer_rto :: "tpa_worker \<Rightarrow> tcp_sock \<Rightarrow> u64 \<Rightarrow> tpa_worker" where
  "tsock_rearm_timer_rto w t now =
     wk_timer_start w t TimerRto now (ucast (push_bit (unat (rto_shift t)) (rto t)))"

definition tsock_rearm_timer_keepalive :: "env \<Rightarrow> tpa_worker \<Rightarrow> tcp_sock \<Rightarrow> u64 \<Rightarrow> tpa_worker \<times> tcp_sock" where
  "tsock_rearm_timer_keepalive E w t now =
     (let t1 = t\<lparr>keepalive_shift := 0\<rparr>
      in (if keepalive (cfg E) \<noteq> 0
          then wk_timer_start w t1 TimerKeepalive now (ucast (keepalive (cfg E))) else w, t1))"

definition tcp_reset_retrans :: "tcp_sock \<Rightarrow> u32 \<Rightarrow> u16 \<Rightarrow> tcp_sock" where
  "tcp_reset_retrans t seq dbase = t\<lparr>retrans_seq := seq, retrans_desc_base := dbase\<rparr>"

definition make_flow_mark :: "env \<Rightarrow> u32 \<Rightarrow> u32 \<Rightarrow> u32" where
  "make_flow_mark E wid s = push_bit (env_worker_shift E) s OR wid"

text \<open>The result is the socket id of the mark or the error, and the packet with its worker id.\<close>

definition parse_flow_mark :: "env \<Rightarrow> packet \<Rightarrow> (stats_code + int) \<times> packet" where
  "parse_flow_mark E p =
     (if \<not> mb_fdir_id (pkt_mbuf p) then (Inl WARN_MISSING_FLOW_MARK, p)
      else (let hi = mb_fdir_hi (pkt_mbuf p);
                p1 = p\<lparr>pkt_wid := ucast (hi AND env_worker_mask E)\<rparr>
            in if ucast (pkt_wid p1) \<ge> env_nr_worker E then (Inl ERR_FLOW_MARK_INVALID, p1)
               else (Inr (sint (drop_bit (env_worker_shift E) hi)), p1)))"

section \<open>Addresses\<close>

text \<open>The machine is little endian: \<open>u32[2]\<close> and \<open>u32[3]\<close> are the low and high half of \<open>u64[1]\<close>.\<close>

definition tpa_ip_is_ipv4 :: "tpa_ip \<Rightarrow> bool" where
  "tpa_ip_is_ipv4 ip \<longleftrightarrow> ip_hi ip = 0 \<and> (ucast (ip_lo ip) :: u32) = 0xffff0000"

definition tpa_ip_set_ipv4 :: "u32 \<Rightarrow> tpa_ip" where
  "tpa_ip_set_ipv4 ip4 = \<lparr>ip_hi = 0, ip_lo = push_bit 32 (ucast ip4) OR 0xffff0000\<rparr>"

definition tpa_ip_get_ipv4 :: "tpa_ip \<Rightarrow> u32" where
  "tpa_ip_get_ipv4 ip = ucast (drop_bit 32 (ip_lo ip))"

definition le64_of :: "(nat \<Rightarrow> u8) \<Rightarrow> nat \<Rightarrow> u64" where
  "le64_of p i = (\<Sum>k<8. push_bit (8 * k) (ucast (p (i + k))))"

definition le32_of :: "(nat \<Rightarrow> u8) \<Rightarrow> nat \<Rightarrow> u32" where
  "le32_of p i = (\<Sum>k<4. push_bit (8 * k) (ucast (p (i + k))))"

definition tpa_ip_set_ipv6 :: "(nat \<Rightarrow> u8) \<Rightarrow> nat \<Rightarrow> tpa_ip" where
  "tpa_ip_set_ipv6 p i = \<lparr>ip_hi = le64_of p i, ip_lo = le64_of p (i + 8)\<rparr>"

definition init_tpa_ip_from_pkt :: "packet \<Rightarrow> tpa_ip \<times> tpa_ip" where
  "init_tpa_ip_from_pkt p =
     (let ip = packet_ip_hdr p
      in if pkt_flags p AND PKT_FLAG_IS_IPV6 \<noteq> 0 then (tpa_ip_set_ipv6 ip 8, tpa_ip_set_ipv6 ip 24)
         else (tpa_ip_set_ipv4 (le32_of ip 12), tpa_ip_set_ipv4 (le32_of ip 16)))"

definition tuple_matches :: "env \<Rightarrow> tcp_sock \<Rightarrow> packet \<Rightarrow> bool" where
  "tuple_matches E t p =
     (let (src_ip, dst_ip) = init_tpa_ip_from_pkt p
      in if state t = TCP_STATE_LISTEN then
           if local_port t \<noteq> pkt_dst_port p then False
           else if pkt_flags p AND PKT_FLAG_IS_IPV6 \<noteq> 0 then tpa_ip_equal (env_ip6 E) dst_ip
           else env_ip4 E = tpa_ip_get_ipv4 dst_ip
         else local_port t = pkt_dst_port p \<and> remote_port t = pkt_src_port p \<and>
           tpa_ip_equal (local_ip t) dst_ip \<and> tpa_ip_equal (remote_ip t) src_ip)"

definition init_net_hdr :: "ether_hdr \<Rightarrow> tpa_ip \<Rightarrow> tpa_ip \<Rightarrow> eth_ip_hdr \<times> u8" where
  "init_net_hdr eth lip rip =
     (let v4 = tpa_ip_is_ipv4 lip
      in (\<lparr>net_eth = eth, net_is_ip4 = v4, net_src = lip, net_dst = rip\<rparr>,
          ETH_HDR_LEN + of_nat (if v4 then IP4_HDR_SIZE else IP6_HDR_SIZE)))"

definition init_net_hdr_from_pkt :: "packet \<Rightarrow> eth_ip_hdr \<times> u8 \<times> tpa_ip \<times> tpa_ip" where
  "init_net_hdr_from_pkt p =
     (let eth = (\<lambda>i. packet_data p (unat (pkt_l2_off p) + i));
          (rip, lip) = init_tpa_ip_from_pkt p;
          (hdr, len) = init_net_hdr \<lparr>eth_dst = map (\<lambda>i. eth (6 + i)) [0..<6], eth_src = map eth [0..<6],
                                     eth_type = rd16 eth 12\<rparr> lip rip
      in (hdr, len, lip, rip))"

definition RTE_ETHER_TYPE_IPV4 :: u16 where "RTE_ETHER_TYPE_IPV4 = 0x0800"
definition RTE_ETHER_TYPE_IPV6 :: u16 where "RTE_ETHER_TYPE_IPV6 = 0x86dd"

text \<open>\<open>eth_lookup\<close>: the header is filled even when the neighbour is unknown; the flag says
  whether it was found.\<close>

definition eth_lookup :: "env \<Rightarrow> tpa_ip \<Rightarrow> bool \<times> ether_hdr" where
  "eth_lookup E ip =
     (let ty = (if tpa_ip_is_ipv4 ip then RTE_ETHER_TYPE_IPV4 else RTE_ETHER_TYPE_IPV6)
      in case env_neigh E ip of
           Some mac \<Rightarrow> (True, \<lparr>eth_dst = mac, eth_src = env_mac E, eth_type = ty\<rparr>)
         | None \<Rightarrow> (False, \<lparr>eth_dst = replicate 6 0, eth_src = env_mac E, eth_type = ty\<rparr>))"

definition bswap16 :: "u16 \<Rightarrow> u16" where
  "bswap16 x = push_bit 8 x OR drop_bit 8 x"

definition isn_gen :: "env \<Rightarrow> tpa_worker \<Rightarrow> tpa_ip \<Rightarrow> u16 \<Rightarrow> u16 \<Rightarrow> u32 \<times> tpa_worker" where
  "isn_gen E w rip lport rport =
     (let seq = env_crc32 E (ip_hi rip OR ucast (bswap16 lport)) (ip_lo rip OR ucast (bswap16 rport));
          (tsc, w1) = rte_rdtsc E w
      in (seq + ucast (drop_bit 10 tsc), w1))"

section \<open>A socket, a worker and an environment\<close>

text \<open>A socket whose memory is all zero, as \<open>memset\<close> leaves it; \<open>tsock_init\<close> starts from it.\<close>

definition net_hdr_zero :: eth_ip_hdr where
  "net_hdr_zero = \<lparr>net_eth = \<lparr>eth_dst = replicate 6 0, eth_src = replicate 6 0, eth_type = 0\<rparr>, net_is_ip4 = False,
     net_src = \<lparr>ip_hi = 0, ip_lo = 0\<rparr>, net_dst = \<lparr>ip_hi = 0, ip_lo = 0\<rparr>\<rparr>"

definition tsock_zero :: "nat \<Rightarrow> int \<Rightarrow> tcp_sock" where
  "tsock_zero pos s =
     \<lparr>sk_pos = pos, sid = s, state = TCP_STATE_CLOSED, tso_enabled = False, ts_enabled = False, ts_ok = False,
      ws_enabled = False, ws_ok = False, sack_enabled = False, sack_ok = False, is_ipv6 = False,
      passive_connection = False, listen_sock = False, closed_at_syn_rcvd = False, data_seq_nxt = 0, snd_nxt = 0,
      snd_una = 0, snd_recover = 0, snd_wnd = 0, snd_wl1 = 0, snd_wl2 = 0, snd_ts = 0, snd_cwnd = 0,
      snd_cwnd_uncommited = 0, snd_cwnd_orig = 0, snd_cwnd_ts_us = 0, snd_ssthresh = 0, snd_mss = 0,
      snd_wscale = 0, rcv_wscale = 0, rcv_nxt = 0, rcv_wnd = 0, sacked_bytes = 0, packet_id = 0, flags = 0,
      net_hdr = net_hdr_zero, port_id = 0, remote_ip = \<lparr>ip_hi = 0, ip_lo = 0\<rparr>,
      local_ip = \<lparr>ip_hi = 0, ip_lo = 0\<rparr>, remote_port = 0, local_port = 0, rcv_isn = 0, snd_isn = 0,
      init_ts_us = 0, net_hdr_len = 0, sk_err = None, nr_dupack = 0, retrans_stage = NONE, rto_shift = 0,
      quickack = 0, close_issued = False, rto_start_ts = 0, ts_recent = 0, ts_recent_in_sec = 0,
      last_ack_sent = 0, last_ack_sent_ts = 0, rtt = 0, srtt = 0, rttvar = 0, rto = 0,
      zero_wnd_probe_shift = 0, keepalive_shift = 0, nr_ooo_pkt = 0, ooo_start_ts = 0, rx_merge_head = None,
      rxq = \<lparr>rxq_unread = 0, rxq_max = 0, rxq_size = 0, rxq_mask = 0, rxq_objs = []\<rparr>, last_ooo_pkt = None,
      rcv_ooo_queue = [],
      txq = \<lparr>txq_una = 0, txq_nxt = 0, txq_write = 0, txq_size = 0, txq_mask = 0, txq_descs = []\<rparr>,
      partial_ack = 0, interested_events = 0, last_events = 0, event_events = 0, event_data = 0,
      retrans_seq = 0, retrans_ts_val = 0, retrans_desc_base = 0, opts_listen_scaling = False,
      opts_local_port = 0, opts_data = 0, last_ts = (\<lambda>_. 0), sack_blocks = []\<rparr>"

text \<open>A buffer that nothing was received into.\<close>

definition pkt_zero :: packet where
  "pkt_zero =
     \<lparr>pkt_id = 0, pkt_mbuf = \<lparr>mb_l3_ipv4 = False, mb_l3_ipv6 = False, mb_l4_tcp = False, mb_ip_cksum_good = False,
        mb_l4_cksum_good = False, mb_fdir_id = False, mb_fdir_hi = 0, mb_data_off = 0, mb_pkt_len = 0, mb_nb_segs = 0\<rparr>,
      pkt_src_port = 0, pkt_dst_port = 0, pkt_flags = 0, pkt_wid = 0, pkt_l2_off = 0, pkt_l3_off = 0, pkt_l4_off = 0,
      pkt_hdr_len = 0, pkt_nr_read_seg = 0, pkt_seq = 0, pkt_ack = 0, pkt_ts_val = 0, pkt_ts_ecr = 0, pkt_wnd = 0,
      pkt_len = 0, pkt_opt_len = 0, pkt_tcp_flags = 0, pkt_port_id = 0, pkt_segs = [], pkt_to_read = 0\<rparr>"

text \<open>An idle worker with small queues and an environment in which every request of the outside
  world succeeds, on which the theorems are tried out.\<close>

definition fifo_example :: "nat flex_fifo" where
  "fifo_example = \<lparr>ff_list_size = 0, ff_list = [], ff_ring_total = 0, ff_list_total = 0, ff_write = 0, ff_read = 0,
     ff_mask = 3, ff_size = 4, ff_ring = [0, 0, 0, 0], ff_prev = (\<lambda>_. PrevIdx 0)\<rparr>"

definition desc_zero :: tx_desc where
  "desc_zero = \<lparr>desc_addr = 0, desc_phys_addr = 0, desc_len = 0, desc_flags = 0, desc_write_done = None, desc_base = 0,
     desc_param = 0, desc_seq = 0, desc_ts_us = 0, desc_tsc_start = 0, desc_tsc_submit = 0, desc_tsc_xmit = 0,
     desc_pkt = None\<rparr>"

definition worker_example :: tpa_worker where
  "worker_example =
     \<lparr>wk_id = 0, nr_ooo_mbuf = 0, nr_in_process_mbuf = 0, nr_write_mbuf = 0, nr_tsock = 0, nr_tsock_total = 0,
      ts_us = 0, cycles_start = 0, cycles_end = 0, cycles_total = 0, cycles_busy = 0, cycles_outside_worker = 0,
      cycles_last_poll = 0, desc_pool = \<lparr>pool_nr_desc = 4, pool_off = 4, pool_descs = [0, 1, 2, 3]\<rparr>,
      desc_mem = (\<lambda>_. desc_zero), event_queue = fifo_example, wk_output = fifo_example,
      wk_delayed_ack = fifo_example, wk_accept = fifo_example,
      wk_timers = timer_ctrl_init (\<lambda>_. \<lparr>tm_slot_idx = 0, tm_active = False, tm_closed = False\<rparr>) 0,
      wk_sock_table = sock_table_init, wk_listen_table = sock_table_init, port_blocks = [],
      block_mem = (\<lambda>_. \<lparr>pb_start = 0, pb_end = 0, pb_size = 0, pb_mask = 0, pb_refcnt = 0, pb_port_mask = 0\<rparr>),
      nr_block_alloc = 0,
      pac = \<lparr>pac_min = 41000, pac_max = 64000, nr_port_allocated = 0, nr_port_allocated_total = 0,
             nr_socket_failure = 0, nr_bind_failure = 0, pac_nr_port_block = 0, port_map = (\<lambda>_. -1)\<rparr>,
      wk_dev = \<lparr>dev_nr_port = 1, dev_nr_dpdk_port = 1, dev_link_up = (\<lambda>_. True), dev_nr_rx_burst = (\<lambda>_. 64),
                dev_port_idx = 0, dev_all_port_down = 0, dev_txq = (\<lambda>_. []),
                dev_rxq = (\<lambda>_. \<lparr>drx_write = 0, drx_read = 0, drx_pkts = []\<rparr>), dev_sent = [],
                dev_nr_tx_burst = 0, dev_nr_rx_poll = 0\<rparr>,
      neigh_waiting = [], neigh_flush_queue = [], freed_pkts = [], freed_bufs = [], copies = [], done_calls = [], nr_alloc = 0, nr_malloc = 0,
      nr_rdtsc = 0, nr_neigh_wait = 0, nr_offload = 0, nr_socket = 0, nr_sock = 0, wk_errno = None\<rparr>"

definition env_example :: env where
  "env_example =
     \<lparr>cfg = tcp_cfg_default, env_alloc = (\<lambda>_. True), env_buf_addr = (\<lambda>n. of_nat n * 4096),
      env_buf_iova = (\<lambda>n. of_nat n * 4096), env_headroom = 128, env_tailroom = 2048, env_rdtsc = (\<lambda>n. of_nat n),
      env_hz = 1000000, env_crc32 = (\<lambda>a b. ucast (a + b)), env_neigh = (\<lambda>_. Some [2, 0, 0, 0, 0, 1]),
      env_neigh_room = (\<lambda>_. True), env_tx_burst = (\<lambda>_ k. k), env_rx_burst = (\<lambda>_ _. []),
      env_mac = [2, 0, 0, 0, 0, 2], env_ip4 = 0x0100000a, env_ip6 = \<lparr>ip_hi = 0x80fe, ip_lo = 1\<rparr>,
      env_nr_worker = 1, env_worker_shift = 0, env_worker_mask = 0, env_phdr_cksum = (\<lambda>_ _. 0),
      env_ip4_cksum = (\<lambda>_. 0), env_tcp_cksum = (\<lambda>_. 0), env_stale_urp = 0, env_malloc = (\<lambda>_. True), env_socket = (\<lambda>n. Some (int n)),
      env_bind = (\<lambda>_ _. True), env_sys_errno = (\<lambda>_. None), env_offload = (\<lambda>_. True)\<rparr>"

end
