(* ===== verification/Port_Alloc.thy ===== *)
theory Port_Alloc
  imports Tcp_Sock
begin

text \<open>
  \<open>src/port_alloc.c\<close>: local ports. Ports are reserved in the kernel one by one (\<open>port_alloc\<close>) or
  in aligned blocks of 64 that belong to a worker (\<open>port_block_alloc\<close>); connections take a port of
  a block through the worker's socket table (\<open>port_bind\<close>) and give it back (\<open>port_unbind\<close>). A
  block is named by a number, its content is in \<open>block_mem\<close>. Left out: the kernel's port range
  file, the shell command, the locks, the flow rules of a block (only whether creating them
  succeeds).
\<close>

section \<open>Single ports\<close>

definition PORT_MIN :: u16 where "PORT_MIN = 41000"
definition PORT_MAX :: u16 where "PORT_MAX = 64000"
definition PORT_FREED :: int where "PORT_FREED = -1"
definition DEFAULT_PORT_BLOCK_SIZE :: u16 where "DEFAULT_PORT_BLOCK_SIZE = 64"
definition DEFAULT_PORT_BLOCK_MASK :: u16 where "DEFAULT_PORT_BLOCK_MASK = 63"
definition MAX_PORT_BLOCK_PER_WORKER :: nat where "MAX_PORT_BLOCK_PER_WORKER = 1024"

definition PORT_COUNT :: "tpa_worker \<Rightarrow> int" where
  "PORT_COUNT w = uint (pac_max (pac w)) - uint (pac_min (pac w))"

definition port_allocated :: "tpa_worker \<Rightarrow> u16 \<Rightarrow> bool" where
  "port_allocated w port \<longleftrightarrow> port_map (pac w) port \<ge> 0"

definition do_port_alloc :: "env \<Rightarrow> tpa_worker \<Rightarrow> u16 \<Rightarrow> u16 \<times> tpa_worker" where
  "do_port_alloc E w port =
     (if port_allocated w port then (0, w)
      else (let n = nr_socket w; w1 = w\<lparr>nr_socket := n + 1\<rparr>; p = pac w1
            in case env_socket E n of
                 None \<Rightarrow> (0, w1\<lparr>pac := p\<lparr>nr_socket_failure := nr_socket_failure p + 1\<rparr>,
                                wk_errno := env_sys_errno E n\<rparr>)
               | Some fd \<Rightarrow>
                   if \<not> env_bind E n port
                   then (0, w1\<lparr>pac := p\<lparr>nr_bind_failure := nr_bind_failure p + 1\<rparr>,
                               wk_errno := env_sys_errno E n\<rparr>)
                   else (port, w1\<lparr>pac := p\<lparr>port_map := (port_map p)(port := fd),
                       nr_port_allocated := nr_port_allocated p + 1,
                       nr_port_allocated_total := nr_port_allocated_total p + 1\<rparr>\<rparr>)))"

fun port_alloc_loop :: "env \<Rightarrow> tpa_worker \<Rightarrow> u16 \<Rightarrow> nat \<Rightarrow> u16 \<times> tpa_worker" where
  "port_alloc_loop E w port 0 = (0, w)"
| "port_alloc_loop E w port (Suc k) =
     (let (r, w1) = do_port_alloc E w port
      in if r > 0 then (port, w1)
         else (let port1 = port + 1
               in port_alloc_loop E w1 (if port1 = pac_max (pac w1) then pac_min (pac w1) else port1) k))"

definition port_alloc :: "env \<Rightarrow> tpa_worker \<Rightarrow> u16 \<Rightarrow> u16 \<times> tpa_worker" where
  "port_alloc E w port =
     (if port \<noteq> 0 then do_port_alloc E w port
      else (let (tsc, w1) = rte_rdtsc E w
            in port_alloc_loop E w1 (ucast (tsc mod word_of_int (PORT_COUNT w1)) + pac_min (pac w1))
                 (nat (PORT_COUNT w1))))"

definition port_free :: "tpa_worker \<Rightarrow> u16 \<Rightarrow> int \<times> tpa_worker" where
  "port_free w port =
     (let p = pac w; fd = port_map p port;
          p1 = (if fd \<ge> 0 then p\<lparr>nr_port_allocated := nr_port_allocated p - 1\<rparr> else p)
      in (if fd \<ge> 0 then 0 else -1, w\<lparr>pac := p1\<lparr>port_map := (port_map p1)(port := PORT_FREED)\<rparr>\<rparr>))"

text \<open>\<open>rng\<close> is what \<open>sscanf\<close> reads from the configured value, \<open>None\<close> when it is not two
  numbers.\<close>

definition local_port_range_set :: "tpa_worker \<Rightarrow> (int \<times> int) option \<Rightarrow> int \<times> tpa_worker" where
  "local_port_range_set w rng =
     (case rng of
        None \<Rightarrow> (-1, w)
      | Some (mn, mx) \<Rightarrow>
          if mn < uint PORT_MIN \<or> mn \<ge> uint PORT_MAX \<or> mx < uint PORT_MIN \<or> mx \<ge> uint PORT_MAX then (-1, w)
          else if mn \<ge> mx then (-1, w)
          else (0, w\<lparr>pac := (pac w)\<lparr>pac_min := word_of_int mn, pac_max := word_of_int mx\<rparr>\<rparr>))"

section \<open>Blocks\<close>

definition port_block_get :: "tpa_worker \<Rightarrow> nat \<Rightarrow> tpa_worker" where
  "port_block_get w b =
     w\<lparr>block_mem := (block_mem w)(b := (block_mem w b)\<lparr>pb_refcnt := pb_refcnt (block_mem w b) + 1\<rparr>),
       wk_timers := timer_stop (wk_timers w) (BlockTimer b)\<rparr>"

definition port_block_put :: "env \<Rightarrow> tpa_worker \<Rightarrow> nat \<Rightarrow> tpa_worker" where
  "port_block_put E w b =
     (let w1 = w\<lparr>block_mem := (block_mem w)(b := (block_mem w b)\<lparr>pb_refcnt := pb_refcnt (block_mem w b) - 1\<rparr>)\<rparr>
      in if pb_refcnt (block_mem w1 b) = 0
         then w1\<lparr>wk_timers := timer_start (wk_timers w1) (BlockTimer b) (ts_us w1) (ucast (time_wait (cfg E)))\<rparr>
         else w1)"

text \<open>The first entry that is the block is overwritten by the last entry, and the count goes down
  whether or not an entry was found.\<close>

fun drop_block :: "nat \<Rightarrow> nat \<Rightarrow> nat list \<Rightarrow> nat list" where
  "drop_block b lst [] = []"
| "drop_block b lst (x # xs) = (if x = b then lst # xs else x # drop_block b lst xs)"

definition worker_drop_port_block :: "tpa_worker \<Rightarrow> nat \<Rightarrow> tpa_worker" where
  "worker_drop_port_block w b =
     w\<lparr>port_blocks := butlast (drop_block b (last (port_blocks w)) (port_blocks w))\<rparr>"

definition port_block_free :: "tpa_worker \<Rightarrow> nat \<Rightarrow> tpa_worker" where
  "port_block_free w b =
     (let blk = block_mem w b;
          w1 = fold (\<lambda>i w. snd (port_free w (of_nat i))) [unat (pb_start blk)..<unat (pb_end blk)] w
      in worker_drop_port_block w1 b)"

definition port_block_timeout :: "tpa_worker \<Rightarrow> nat \<Rightarrow> tpa_worker" where
  "port_block_timeout w b = (if pb_refcnt (block_mem w b) > 0 then w else port_block_free w b)"

definition port_in_block :: "port_block \<Rightarrow> u16 \<Rightarrow> bool" where
  "port_in_block blk port \<longleftrightarrow> port \<ge> pb_start blk \<and> port < pb_end blk"

definition port_block_find :: "tpa_worker \<Rightarrow> u16 \<Rightarrow> nat option" where
  "port_block_find w port = find (\<lambda>b. port_in_block (block_mem w b) port) (port_blocks w)"

definition port_range_is_free :: "tpa_worker \<Rightarrow> u16 \<Rightarrow> u16 \<Rightarrow> bool" where
  "port_range_is_free w start sz \<longleftrightarrow>
     list_all (\<lambda>i. \<not> port_map (pac w) (of_nat (unat start + i)) \<ge> 0) [0..<unat sz]"

text \<open>The loop that reserves the ports of a block: the ports reserved so far, and whether all
  were.\<close>

fun block_ports_alloc :: "env \<Rightarrow> tpa_worker \<Rightarrow> u16 \<Rightarrow> nat \<Rightarrow> u16 list \<Rightarrow> bool \<times> u16 list \<times> tpa_worker" where
  "block_ports_alloc E w port 0 ports = (True, ports, w)"
| "block_ports_alloc E w port (Suc k) ports =
     (let (p, w1) = port_alloc E w port
      in if p = 0 then (False, ports, w1) else block_ports_alloc E w1 (port + 1) k (ports @ [p]))"

definition block_fail :: "tpa_worker \<Rightarrow> u16 list \<Rightarrow> tpa_worker" where
  "block_fail w ports = fold (\<lambda>p w. snd (port_free w p)) (rev ports) w"

text \<open>The test \<open>size & ~size\<close> is never true and is left out.\<close>

definition do_port_block_alloc :: "env \<Rightarrow> tpa_worker \<Rightarrow> u16 \<Rightarrow> u16 \<Rightarrow> nat option \<times> tpa_worker" where
  "do_port_block_alloc E w start sz =
     (if \<not> port_range_is_free w start sz then (None, w)
      else case c_malloc E w of
        (False, w1) \<Rightarrow> (None, w1)
      | (True, w1) \<Rightarrow>
          (case block_ports_alloc E w1 start (unat sz) [] of
             (False, ports, w2) \<Rightarrow> (None, block_fail w2 ports)
           | (True, ports, w2) \<Rightarrow>
               (let b = nr_block_alloc w2;
                    w3 = w2\<lparr>nr_block_alloc := b + 1,
                            block_mem := (block_mem w2)(b := \<lparr>pb_start = start, pb_end = start + sz,
                              pb_size = sz, pb_mask = sz - 1, pb_refcnt = 0,
                              pb_port_mask = 0xffff AND NOT (sz - 1)\<rparr>),
                            wk_timers := timer_init (wk_timers w2) (BlockTimer b),
                            wk_errno := None, nr_offload := nr_offload w2 + 1\<rparr>
                in if env_offload E (nr_offload w2)
                   then (Some b, w3\<lparr>pac := (pac w3)\<lparr>pac_nr_port_block := pac_nr_port_block (pac w3) + 1\<rparr>\<rparr>)
                   else (None, block_fail (w3\<lparr>wk_errno := Some EBUSY\<rparr>) ports))))"

fun block_alloc_loop :: "env \<Rightarrow> tpa_worker \<Rightarrow> u16 \<Rightarrow> u16 \<Rightarrow> u16 \<Rightarrow> nat \<Rightarrow> nat option \<times> tpa_worker" where
  "block_alloc_loop E w start mn mx 0 = (None, w)"
| "block_alloc_loop E w start mn mx (Suc k) =
     (let start1 = (if start \<ge> mx then mn else start);
          (b, w1) = do_port_block_alloc E w start1 DEFAULT_PORT_BLOCK_SIZE
      in if b \<noteq> None \<or> wk_errno w1 = Some EBUSY then (b, w1)
         else block_alloc_loop E w1 (start1 + DEFAULT_PORT_BLOCK_SIZE) mn mx k)"

definition port_block_alloc :: "env \<Rightarrow> tpa_worker \<Rightarrow> u16 \<Rightarrow> nat option \<times> tpa_worker" where
  "port_block_alloc E w port =
     (if port \<noteq> 0
      then do_port_block_alloc E w (port AND NOT DEFAULT_PORT_BLOCK_MASK) DEFAULT_PORT_BLOCK_SIZE
      else (let mn = (pac_min (pac w) + DEFAULT_PORT_BLOCK_MASK) AND NOT DEFAULT_PORT_BLOCK_MASK;
                mx = pac_max (pac w) AND NOT DEFAULT_PORT_BLOCK_MASK;
                (tsc, w1) = rte_rdtsc E w;
                start = (ucast (drop_bit 2 tsc mod word_of_int (PORT_COUNT w)) + mn) AND NOT DEFAULT_PORT_BLOCK_MASK
            in block_alloc_loop E w1 start mn mx (nat ((uint mx - uint mn) div 64))))"

section \<open>Binding\<close>

definition key_with_port :: "sock_key \<Rightarrow> u16 \<Rightarrow> sock_key" where
  "key_with_port key port = key\<lparr>key_local_port := port\<rparr>"

definition wk_table_add :: "env \<Rightarrow> tpa_worker \<Rightarrow> sock_key \<Rightarrow> nat \<Rightarrow> int \<times> tpa_worker" where
  "wk_table_add E w key s =
     (let (ret, tab) = sock_table_add (env_crc32 E) (env_malloc E (nr_malloc w)) (wk_sock_table w) key s
      in (ret, w\<lparr>wk_sock_table := tab, nr_malloc := nr_malloc w + 1\<rparr>))"

definition wk_table_del :: "env \<Rightarrow> tpa_worker \<Rightarrow> sock_key \<Rightarrow> int \<times> tpa_worker" where
  "wk_table_del E w key =
     (let (ret, tab) = sock_table_del (env_crc32 E) (wk_sock_table w) key in (ret, w\<lparr>wk_sock_table := tab\<rparr>))"

fun bind_block_loop :: "env \<Rightarrow> tpa_worker \<Rightarrow> nat \<Rightarrow> sock_key \<Rightarrow> nat \<Rightarrow> nat \<Rightarrow> nat \<Rightarrow> u16 \<times> tpa_worker" where
  "bind_block_loop E w b key s idx 0 = (0, w)"
| "bind_block_loop E w b key s idx (Suc k) =
     (let port = pb_start (block_mem w b) + of_nat idx;
          (ret, w1) = wk_table_add E w (key_with_port key port) s
      in if ret = 0 then (port, port_block_get w1 b)
         else bind_block_loop E w1 b key s (if idx + 1 \<ge> unat (pb_size (block_mem w b)) then 0 else idx + 1) k)"

definition bind_from_port_block :: "env \<Rightarrow> tpa_worker \<Rightarrow> nat \<Rightarrow> sock_key \<Rightarrow> nat \<Rightarrow> u16 \<times> tpa_worker" where
  "bind_from_port_block E w b key s =
     (let (tsc, w1) = rte_rdtsc E w; sz = pb_size (block_mem w1 b)
      in bind_block_loop E w1 b key s (unat (drop_bit 2 tsc) mod unat sz) (unat sz))"

definition worker_alloc_port_block :: "env \<Rightarrow> tpa_worker \<Rightarrow> u16 \<Rightarrow> nat option \<times> tpa_worker" where
  "worker_alloc_port_block E w port =
     (if length (port_blocks w) \<ge> MAX_PORT_BLOCK_PER_WORKER then (None, w)
      else case port_block_alloc E w port of
        (None, w1) \<Rightarrow> (None, w1)
      | (Some b, w1) \<Rightarrow> (Some b, w1\<lparr>port_blocks := port_blocks w1 @ [b]\<rparr>))"

definition port_bind_on_given_port :: "env \<Rightarrow> tpa_worker \<Rightarrow> sock_key \<Rightarrow> nat \<Rightarrow> u16 \<times> tpa_worker" where
  "port_bind_on_given_port E w key s =
     (let port = key_local_port key
      in case (case port_block_find w port of
                 Some b \<Rightarrow> (Some b, w) | None \<Rightarrow> worker_alloc_port_block E w port) of
           (None, w1) \<Rightarrow> (0, w1)
         | (Some b, w1) \<Rightarrow>
             (let (ret, w2) = wk_table_add E w1 key s
              in if ret < 0 then (0, w2) else (port, port_block_get w2 b)))"

fun bind_blocks_loop :: "env \<Rightarrow> tpa_worker \<Rightarrow> sock_key \<Rightarrow> nat \<Rightarrow> nat \<Rightarrow> nat \<Rightarrow> u16 \<times> tpa_worker" where
  "bind_blocks_loop E w key s idx 0 = (0, w)"
| "bind_blocks_loop E w key s idx (Suc k) =
     (let (port, w1) = bind_from_port_block E w (port_blocks w ! idx) key s
      in if port > 0 then (port, w1)
         else bind_blocks_loop E w1 key s (if idx + 1 \<ge> length (port_blocks w) then 0 else idx + 1) k)"

definition port_bind_on_random_port :: "env \<Rightarrow> tpa_worker \<Rightarrow> sock_key \<Rightarrow> nat \<Rightarrow> u16 \<times> tpa_worker" where
  "port_bind_on_random_port E w key s =
     (let (port, w1) =
            (if port_blocks w = [] then (0, w)
             else (let (tsc, w1) = rte_rdtsc E w; n = length (port_blocks w1)
                   in bind_blocks_loop E w1 key s (unat (drop_bit 2 tsc) mod n) n))
      in if port > 0 then (port, w1)
         else case worker_alloc_port_block E w1 0 of
                (None, w2) \<Rightarrow> (0, w2)
              | (Some b, w2) \<Rightarrow> bind_from_port_block E w2 b key s)"

definition port_bind :: "env \<Rightarrow> tpa_worker \<Rightarrow> sock_key \<Rightarrow> nat \<Rightarrow> u16 \<times> tpa_worker" where
  "port_bind E w key s =
     (if key_local_port key \<noteq> 0 then port_bind_on_given_port E w key s
      else port_bind_on_random_port E w key s)"

definition port_unbind :: "env \<Rightarrow> tpa_worker \<Rightarrow> sock_key \<Rightarrow> int \<times> tpa_worker" where
  "port_unbind E w key =
     (case port_block_find w (key_local_port key) of
        None \<Rightarrow> (-1, w)
      | Some b \<Rightarrow>
          (let (ret, w1) = wk_table_del E w key
           in if ret < 0 then (-1, w1) else (0, port_block_put E w1 b)))"

section \<open>Reserving ports\<close>

text \<open>The fields that reserving ports leaves alone.\<close>

definition same_tables :: "tpa_worker \<Rightarrow> tpa_worker \<Rightarrow> bool" where
  "same_tables w w' \<longleftrightarrow> wk_sock_table w' = wk_sock_table w \<and> port_blocks w' = port_blocks w \<and>
     block_mem w' = block_mem w \<and> nr_block_alloc w' = nr_block_alloc w \<and>
     pac_min (pac w') = pac_min (pac w) \<and> pac_max (pac w') = pac_max (pac w)"

lemma same_tables_refl [simp]: "same_tables w w"
  by (simp add: same_tables_def)

lemma same_tables_trans [trans]: "same_tables a b \<Longrightarrow> same_tables b c \<Longrightarrow> same_tables a c"
  by (simp add: same_tables_def)

definition fds_ok :: "env \<Rightarrow> bool" where
  "fds_ok E \<longleftrightarrow> (\<forall>n fd. env_socket E n = Some fd \<longrightarrow> 0 \<le> fd)"

lemma do_port_alloc_same: "same_tables w (snd (do_port_alloc E w port))"
  by (auto simp: do_port_alloc_def same_tables_def Let_def split: option.splits)

lemma do_port_alloc_allocated:
  assumes "fds_ok E" "do_port_alloc E w port = (r, w')" "port \<noteq> 0"
  shows "(r = 0 \<and> port_allocated w' = port_allocated w) \<or>
    (r = port \<and> \<not> port_allocated w port \<and> port_allocated w' = (port_allocated w)(port := True))"
  using assms
  by (auto simp: do_port_alloc_def port_allocated_def fds_ok_def Let_def fun_eq_iff
      split: if_splits option.splits)

lemma port_free_same: "same_tables w (snd (port_free w port))"
  by (auto simp: port_free_def same_tables_def Let_def)

lemma port_free_allocated: "port_allocated (snd (port_free w port)) = (port_allocated w)(port := False)"
  by (auto simp: port_free_def port_allocated_def PORT_FREED_def Let_def fun_eq_iff)

lemma port_free_fold:
  "same_tables w (fold (\<lambda>p w. snd (port_free w p)) ports w) \<and>
   port_allocated (fold (\<lambda>p w. snd (port_free w p)) ports w) = (\<lambda>p. port_allocated w p \<and> p \<notin> set ports)"
proof (induction ports arbitrary: w)
  case (Cons p ports)
  show ?case using Cons [of "snd (port_free w p)"] port_free_same [of w p]
    by (auto simp: port_free_allocated intro: same_tables_trans)
qed simp

lemma block_fail_allocated:
  "same_tables w (block_fail w ports)" "port_allocated (block_fail w ports) p \<longleftrightarrow> port_allocated w p \<and> p \<notin> set ports"
  using port_free_fold [of w "rev ports"] by (simp_all add: block_fail_def)

lemma of_nat_u16_nonzero: "0 < n \<Longrightarrow> n < 65536 \<Longrightarrow> (of_nat n :: u16) \<noteq> 0"
  using unat_of_nat_small [of n, where ?'w = 16] by (auto simp del: unat_of_nat)

lemma block_ports_alloc_spec:
  assumes "fds_ok E" "0 < n" "n + k \<le> 65536"
    and "block_ports_alloc E w (of_nat n) k ports = (ok, ports', w')"
  shows "same_tables w w' \<and> (\<exists>j \<le> k. (ok \<longrightarrow> j = k) \<and> ports' = ports @ map of_nat [n..<n + j] \<and>
    (\<forall>p. port_allocated w' p \<longleftrightarrow> port_allocated w p \<or> p \<in> of_nat ` {n..<n + j}) \<and>
    (\<forall>p \<in> of_nat ` {n..<n + j}. \<not> port_allocated w p))"
  using assms
proof (induction k arbitrary: n w ports)
  case 0
  then show ?case by auto
next
  case (Suc k)
  let ?p = "of_nat n :: u16"
  have nz: "?p \<noteq> 0" using Suc.prems by (intro of_nat_u16_nonzero) auto
  obtain r w1 where r: "do_port_alloc E w ?p = (r, w1)" by fastforce
  have pa: "port_alloc E w ?p = (r, w1)" using nz r by (simp add: port_alloc_def)
  have same: "same_tables w w1" using do_port_alloc_same [of w E ?p] r by simp
  note al = do_port_alloc_allocated [OF Suc.prems(1) r nz]
  show ?case
  proof (cases "r = 0")
    case True
    then have "port_allocated w1 = port_allocated w" using al nz by auto
    moreover have "ok = False" "ports' = ports" "w' = w1" using Suc.prems(4) pa True by auto
    ultimately show ?thesis using same by (intro conjI exI [of _ 0]) auto
  next
    case False
    then have rp: "\<not> port_allocated w ?p" "port_allocated w1 = (port_allocated w)(?p := True)" using al by auto
    have "r = ?p" using al False by auto
    then have rec: "block_ports_alloc E w1 (of_nat (Suc n)) k (ports @ [?p]) = (ok, ports', w')"
      using Suc.prems(4) pa False by (simp add: add.commute)
    from Suc.IH [OF Suc.prems(1) _ _ rec] Suc.prems obtain j where
      j: "j \<le> k" "ok \<longrightarrow> j = k" "same_tables w1 w'"
      "ports' = (ports @ [?p]) @ map of_nat [Suc n..<Suc n + j]"
      "\<forall>p. port_allocated w' p \<longleftrightarrow> port_allocated w1 p \<or> p \<in> of_nat ` {Suc n..<Suc n + j}"
      "\<forall>p \<in> of_nat ` {Suc n..<Suc n + j}. \<not> port_allocated w1 p" by auto
    have ins: "{n..<n + Suc j} = insert n {Suc n..<Suc n + j}" by auto
    have up: "[n..<n + Suc j] = n # [Suc n..<Suc n + j]" by (simp add: upt_conv_Cons)
    have "\<forall>p \<in> of_nat ` {n..<n + Suc j}. \<not> port_allocated w p"
      using j(6) rp unfolding ins by (auto split: if_splits)
    moreover have "\<forall>p. port_allocated w' p \<longleftrightarrow> port_allocated w p \<or> p \<in> of_nat ` {n..<n + Suc j}"
      using j(5) rp(2) unfolding ins by auto
    moreover have "ports' = ports @ map of_nat [n..<n + Suc j]" unfolding j(4) up by simp
    ultimately show ?thesis using j(1,2) same_tables_trans [OF same j(3)]
      by (intro conjI exI [of _ "Suc j"]) auto
  qed
qed

text \<open>The ports of a range that starts at \<open>start\<close>.\<close>

definition port_range :: "u16 \<Rightarrow> u16 \<Rightarrow> u16 set" where
  "port_range start sz = of_nat ` {unat start..<unat start + unat sz}"

lemma do_port_block_alloc_cases:
  assumes "fds_ok E" "0 < unat start" "unat start + unat sz \<le> 65536"
    and "do_port_block_alloc E w start sz = (r, w')"
  shows "(r = None \<and> same_tables w (w'\<lparr>block_mem := block_mem w, nr_block_alloc := nr_block_alloc w\<rparr>) \<and>
      (\<forall>b < nr_block_alloc w. block_mem w' b = block_mem w b) \<and> nr_block_alloc w \<le> nr_block_alloc w' \<and>
      port_allocated w' = port_allocated w) \<or>
    (r = Some (nr_block_alloc w) \<and> nr_block_alloc w' = Suc (nr_block_alloc w) \<and>
      block_mem w' = (block_mem w)(nr_block_alloc w := \<lparr>pb_start = start, pb_end = start + sz, pb_size = sz,
        pb_mask = sz - 1, pb_refcnt = 0, pb_port_mask = 0xffff AND NOT (sz - 1)\<rparr>) \<and>
      same_tables w (w'\<lparr>block_mem := block_mem w, nr_block_alloc := nr_block_alloc w\<rparr>) \<and>
      (\<forall>p. port_allocated w' p \<longleftrightarrow> port_allocated w p \<or> p \<in> port_range start sz) \<and>
      (\<forall>p \<in> port_range start sz. \<not> port_allocated w p))"
proof (cases "\<not> port_range_is_free w start sz \<or> \<not> env_malloc E (nr_malloc w)")
  case True
  then show ?thesis using assms(4)
    by (auto simp: do_port_block_alloc_def c_malloc_def same_tables_def port_allocated_def fun_eq_iff
        split: if_splits)
next
  case False
  define w1 where "w1 = w\<lparr>nr_malloc := nr_malloc w + 1\<rparr>"
  obtain ok ports w2 where al: "block_ports_alloc E w1 start (unat sz) [] = (ok, ports, w2)"
    by (metis prod_cases3)
  have w1: "same_tables w w1" "port_allocated w1 = port_allocated w"
    by (auto simp: w1_def same_tables_def port_allocated_def)
  from block_ports_alloc_spec [OF assms(1-3), of w1 "[]" ok ports w2] al obtain j where
    j: "same_tables w1 w2" "ok \<longrightarrow> j = unat sz" "ports = map of_nat [unat start..<unat start + j]"
    "\<forall>p. port_allocated w2 p \<longleftrightarrow> port_allocated w p \<or> p \<in> of_nat ` {unat start..<unat start + j}"
    "\<forall>p \<in> of_nat ` {unat start..<unat start + j}. \<not> port_allocated w p"
    unfolding w1(2) by auto
  have s2: "same_tables w w2" using same_tables_trans [OF w1(1) j(1)] .
  have undo: "port_allocated w p \<longleftrightarrow> port_allocated w2 p \<and> p \<notin> set ports" for p
    using j(3-5) by auto
  let ?w3 = "w2\<lparr>nr_block_alloc := nr_block_alloc w2 + 1, block_mem := (block_mem w2)(nr_block_alloc w2 :=
      \<lparr>pb_start = start, pb_end = start + sz, pb_size = sz, pb_mask = sz - 1, pb_refcnt = 0,
       pb_port_mask = 0xffff AND NOT (sz - 1)\<rparr>), wk_timers := timer_init (wk_timers w2) (BlockTimer (nr_block_alloc w2)),
      wk_errno := None, nr_offload := nr_offload w2 + 1\<rparr>"
  have e: "do_port_block_alloc E w start sz =
      (if \<not> ok then (None, block_fail w2 ports)
       else if env_offload E (nr_offload w2)
       then (Some (nr_block_alloc w2), ?w3\<lparr>pac := (pac ?w3)\<lparr>pac_nr_port_block := pac_nr_port_block (pac ?w3) + 1\<rparr>\<rparr>)
       else (None, block_fail (?w3\<lparr>wk_errno := Some EBUSY\<rparr>) ports))"
    using False al by (simp add: do_port_block_alloc_def c_malloc_def w1_def Let_def)
  consider "\<not> ok" | "ok" "env_offload E (nr_offload w2)" | "ok" "\<not> env_offload E (nr_offload w2)" by blast
  then show ?thesis
  proof cases
    case 1
    then have "r = None" "w' = block_fail w2 ports" using e assms(4) by auto
    then show ?thesis using s2 undo block_fail_allocated [of w2 ports]
      by (auto simp: same_tables_def fun_eq_iff)
  next
    case 2
    then show ?thesis using e assms(4) s2 j
      by (auto simp: same_tables_def port_allocated_def port_range_def)
  next
    case 3
    then have r: "r = None" "w' = block_fail (?w3\<lparr>wk_errno := Some EBUSY\<rparr>) ports" using e assms(4) by auto
    have "port_allocated (?w3\<lparr>wk_errno := Some EBUSY\<rparr>) = port_allocated w2"
      by (simp add: port_allocated_def fun_eq_iff)
    then show ?thesis using r s2 undo block_fail_allocated [of "?w3\<lparr>wk_errno := Some EBUSY\<rparr>" ports]
      by (auto simp: same_tables_def fun_eq_iff)
  qed
qed

section \<open>The blocks of a worker\<close>

definition blk_ok :: "port_block \<Rightarrow> bool" where
  "blk_ok B \<longleftrightarrow> 64 \<le> unat (pb_start B) \<and> unat (pb_start B) + 64 < 65536 \<and> pb_size B = 64 \<and>
     pb_end B = pb_start B + 64"

text \<open>The invariant: the blocks of the worker are distinct, disjoint and fully reserved, and the
  configured range is a part of the library's.\<close>

definition ports_wf :: "tpa_worker \<Rightarrow> bool" where
  "ports_wf w \<longleftrightarrow>
     (\<forall>b \<in> set (port_blocks w). b < nr_block_alloc w \<and> blk_ok (block_mem w b) \<and>
        (\<forall>p \<in> port_range (pb_start (block_mem w b)) 64. port_allocated w p)) \<and>
     distinct (port_blocks w) \<and>
     (\<forall>b \<in> set (port_blocks w). \<forall>b' \<in> set (port_blocks w). b \<noteq> b' \<longrightarrow>
        port_range (pb_start (block_mem w b)) 64 \<inter> port_range (pb_start (block_mem w b')) 64 = {}) \<and>
     41000 \<le> unat (pac_min (pac w)) \<and> unat (pac_min (pac w)) < unat (pac_max (pac w)) \<and>
     unat (pac_max (pac w)) \<le> 64000"

lemma ports_wf_blk: "ports_wf w \<Longrightarrow> b \<in> set (port_blocks w) \<Longrightarrow> blk_ok (block_mem w b)"
  by (simp add: ports_wf_def)

lemma port_in_block_range:
  assumes "blk_ok B"
  shows "port_in_block B p \<longleftrightarrow> p \<in> port_range (pb_start B) 64"
proof -
  have e: "unat (pb_end B) = unat (pb_start B) + 64"
    using assms unat_add_small [of "pb_start B" 64] by (simp add: blk_ok_def)
  show ?thesis
  proof
    assume "port_in_block B p"
    then have "unat p \<in> {unat (pb_start B)..<unat (pb_start B) + 64}"
      using e by (simp add: port_in_block_def word_le_nat_alt word_less_nat_alt)
    then show "p \<in> port_range (pb_start B) 64" unfolding port_range_def
      by (intro image_eqI [of _ _ "unat p"]) simp_all
  next
    assume "p \<in> port_range (pb_start B) 64"
    then obtain n where n: "p = of_nat n" "unat (pb_start B) \<le> n" "n < unat (pb_start B) + 64"
      by (auto simp: port_range_def)
    moreover have "unat p = n" unfolding n(1) using n(3) assms by (intro unat_of_nat_small) (simp add: blk_ok_def)
    ultimately show "port_in_block B p" using e by (simp add: port_in_block_def word_le_nat_alt word_less_nat_alt)
  qed
qed

lemma port_block_find_iff:
  assumes "ports_wf w"
  shows "port_block_find w p = Some b \<longleftrightarrow> b \<in> set (port_blocks w) \<and> port_in_block (block_mem w b) p"
proof
  assume "port_block_find w p = Some b"
  then show "b \<in> set (port_blocks w) \<and> port_in_block (block_mem w b) p"
    by (auto simp: port_block_find_def find_Some_iff)
next
  assume b: "b \<in> set (port_blocks w) \<and> port_in_block (block_mem w b) p"
  then obtain b' where f: "port_block_find w p = Some b'"
    by (cases "port_block_find w p") (auto simp: port_block_find_def find_None_iff)
  then have b': "b' \<in> set (port_blocks w)" "port_in_block (block_mem w b') p"
    by (auto simp: port_block_find_def find_Some_iff)
  have "p \<in> port_range (pb_start (block_mem w b)) 64 \<inter> port_range (pb_start (block_mem w b')) 64"
    using b b' port_in_block_range [OF ports_wf_blk [OF assms]] by blast
  then have "b = b'" using assms b b' unfolding ports_wf_def by blast
  then show "port_block_find w p = Some b" using f by simp
qed

definition alloc_rel :: "tpa_worker \<Rightarrow> nat option \<Rightarrow> tpa_worker \<Rightarrow> bool" where
  "alloc_rel w r w' \<longleftrightarrow>
     wk_sock_table w' = wk_sock_table w \<and> port_blocks w' = port_blocks w \<and>
     pac_min (pac w') = pac_min (pac w) \<and> pac_max (pac w') = pac_max (pac w) \<and>
     (\<forall>b < nr_block_alloc w. block_mem w' b = block_mem w b) \<and> nr_block_alloc w \<le> nr_block_alloc w' \<and>
     (case r of
        None \<Rightarrow> port_allocated w' = port_allocated w
      | Some b \<Rightarrow> nr_block_alloc w \<le> b \<and> b < nr_block_alloc w' \<and> blk_ok (block_mem w' b) \<and>
          (\<forall>p. port_allocated w' p \<longleftrightarrow> port_allocated w p \<or> p \<in> port_range (pb_start (block_mem w' b)) 64) \<and>
          (\<forall>p \<in> port_range (pb_start (block_mem w' b)) 64. \<not> port_allocated w p))"

lemma alloc_rel_trans: "alloc_rel w None w1 \<Longrightarrow> alloc_rel w1 r w2 \<Longrightarrow> alloc_rel w r w2"
  by (auto simp: alloc_rel_def split: option.splits)

lemma do_port_block_alloc_rel:
  assumes "fds_ok E" "64 \<le> unat start" "unat start + 64 < 65536" "do_port_block_alloc E w start 64 = (r, w')"
  shows "alloc_rel w r w' \<and> (\<forall>b. r = Some b \<longrightarrow> pb_start (block_mem w' b) = start)"
  using do_port_block_alloc_cases [OF assms(1) _ _ assms(4)] assms(2,3)
  by (auto simp: alloc_rel_def same_tables_def blk_ok_def)

lemma block_alloc_loop_rel:
  assumes "fds_ok E" "64 \<le> unat start" "64 \<le> unat mn" "unat mn + 64 < 65536" "unat mx + 64 < 65536"
    and "block_alloc_loop E w start mn mx k = (r, w')"
  shows "alloc_rel w r w'"
  using assms(2,6)
proof (induction k arbitrary: w start)
  case 0
  then show ?case by (auto simp: alloc_rel_def)
next
  case (Suc k)
  let ?s = "if start \<ge> mx then mn else start"
  have s: "64 \<le> unat ?s" "unat ?s + 64 < 65536"
    using Suc.prems(1) assms(3,4,5) by (auto simp: word_le_nat_alt not_le)
  obtain b w1 where b: "do_port_block_alloc E w ?s 64 = (b, w1)" by fastforce
  have rel: "alloc_rel w b w1" using do_port_block_alloc_rel [OF assms(1) s b] by blast
  show ?case
  proof (cases "b \<noteq> None \<or> wk_errno w1 = Some EBUSY")
    case True
    then show ?thesis using Suc.prems(2) b rel by (simp add: DEFAULT_PORT_BLOCK_SIZE_def Let_def split: if_splits)
  next
    case False
    then have rec: "block_alloc_loop E w1 (?s + 64) mn mx k = (r, w')"
      using Suc.prems(2) b by (simp add: DEFAULT_PORT_BLOCK_SIZE_def Let_def)
    have "unat (?s + 64) = unat ?s + 64" using s(2) by (subst unat_add_small) simp_all
    then have "alloc_rel w1 r w'" using Suc.IH [OF _ rec] by simp
    then show ?thesis using alloc_rel_trans [of w w1 r w'] rel False by auto
  qed
qed

lemma unat_align: "unat (y AND NOT DEFAULT_PORT_BLOCK_MASK) = unat y - unat y mod 64"
proof -
  have m: "DEFAULT_PORT_BLOCK_MASK = mask 6" by (simp add: DEFAULT_PORT_BLOCK_MASK_def mask_eq_exp_minus_1)
  have "(y AND NOT (mask 6)) + (y AND mask 6) = (y AND NOT (mask 6)) OR (y AND mask 6)"
    by (rule disjunctive_add) (auto simp: bit_simps)
  also have "\<dots> = y" by (rule bit_word_eqI) (auto simp: bit_simps)
  finally have "y AND NOT (mask 6) = y - (y AND mask 6)" by (simp add: eq_diff_eq)
  moreover have "unat (y AND mask 6) = unat y mod 64" by (simp add: unat_and_mask)
  moreover have "unat (y - (y AND mask 6)) = unat y - unat (y AND mask 6)"
    by (rule unat_diff_le) (simp add: unat_and_mask)
  ultimately show ?thesis unfolding m by simp
qed

lemma unat_mod_word_of_int:
  assumes "0 < c" "c < 65536"
  shows "unat (ucast (x mod word_of_int c :: u64) :: u16) = unat x mod nat c"
proof -
  have "unat (word_of_int c :: u64) = nat c"
    using assms by (simp add: unat_eq_nat_uint uint_word_of_int_eq take_bit_int_eq_self)
  then have "unat (x mod word_of_int c) = unat x mod nat c" by (simp add: unat_mod)
  moreover have "unat x mod nat c < 65536"
    using assms mod_less_divisor [of "nat c" "unat x"] by linarith
  ultimately show ?thesis by (simp add: unat_ucast_small)
qed

lemma port_block_alloc_rel:
  assumes "fds_ok E" "ports_wf w" "port = 0 \<or> 64 \<le> unat port \<and> unat port < 65472"
    and "port_block_alloc E w port = (r, w')"
  shows "alloc_rel w r w' \<and> (\<forall>b. r = Some b \<and> port \<noteq> 0 \<longrightarrow> port_in_block (block_mem w' b) port)"
proof (cases "port = 0")
  case False
  let ?s = "port AND NOT DEFAULT_PORT_BLOCK_MASK"
  have u: "unat ?s = unat port - unat port mod 64" by (rule unat_align)
  have d: "unat port = 64 * (unat port div 64) + unat port mod 64" "unat port mod 64 < 64"
    "1 \<le> unat port div 64"
    using assms(3) False div_le_mono [of 64 "unat port" 64] by auto
  have s: "64 \<le> unat ?s" "unat ?s + 64 < 65536" "unat ?s \<le> unat port" "unat port < unat ?s + 64"
    using assms(3) False d unfolding u by linarith+
  have "do_port_block_alloc E w ?s 64 = (r, w')"
    using assms(4) False by (simp add: port_block_alloc_def DEFAULT_PORT_BLOCK_SIZE_def)
  from do_port_block_alloc_rel [OF assms(1) s(1,2) this]
  have rel: "alloc_rel w r w'" and st: "\<forall>b. r = Some b \<longrightarrow> pb_start (block_mem w' b) = ?s" by blast+
  have "port_in_block (block_mem w' b) port" if "r = Some b" for b
  proof -
    have "blk_ok (block_mem w' b)" "pb_start (block_mem w' b) = ?s" using rel st that by (auto simp: alloc_rel_def)
    then show ?thesis using s unat_add_small [of ?s 64]
      by (simp add: port_in_block_def blk_ok_def word_le_nat_alt word_less_nat_alt)
  qed
  then show ?thesis using rel by blast
next
  case True
  define lo hi where "lo = unat (pac_min (pac w))" and "hi = unat (pac_max (pac w))"
  have wf: "41000 \<le> lo" "lo < hi" "hi \<le> 64000"
    using assms(2) by (simp_all add: ports_wf_def lo_def hi_def)
  let ?M = "NOT DEFAULT_PORT_BLOCK_MASK"
  let ?mn = "(pac_min (pac w) + DEFAULT_PORT_BLOCK_MASK) AND ?M" and ?mx = "pac_max (pac w) AND ?M"
  define x where "x = (ucast (drop_bit 2 (env_rdtsc E (nr_rdtsc w)) mod word_of_int (PORT_COUNT w)) :: u16)"
  have pc: "PORT_COUNT w = int (hi - lo)"
    using wf by (simp add: PORT_COUNT_def of_nat_diff lo_def hi_def)
  have x: "unat x < hi - lo"
  proof -
    have "unat x = unat (drop_bit 2 (env_rdtsc E (nr_rdtsc w))) mod nat (int (hi - lo))"
      unfolding x_def pc using wf by (intro unat_mod_word_of_int) auto
    then show ?thesis using wf unfolding nat_int by simp
  qed
  have up: "unat (pac_min (pac w) + DEFAULT_PORT_BLOCK_MASK) = lo + 63"
    using wf by (subst unat_add_small) (simp_all add: DEFAULT_PORT_BLOCK_MASK_def lo_def)
  have mn: "lo \<le> unat ?mn" "unat ?mn \<le> lo + 63"
    unfolding unat_align up using mod_less_divisor [of 64 "lo + 63"] by linarith+
  have mx: "unat ?mx \<le> 64000" unfolding unat_align using wf by (simp add: hi_def)
  have b: "unat x + unat ?mn < 65536" using x mn wf by linarith
  have xs: "unat (x + ?mn) = unat x + unat ?mn" by (rule unat_add_small) (use b in simp)
  have s: "64 \<le> unat ((x + ?mn) AND ?M)"
    unfolding unat_align [of "x + ?mn"] xs using mn wf mod_less_divisor [of 64 "unat x + unat ?mn"] by linarith
  have mn': "64 \<le> unat ?mn" "unat ?mn + 64 < 65536" using mn wf by linarith+
  have mx': "unat ?mx + 64 < 65536" using mx by linarith
  obtain k where "block_alloc_loop E (w\<lparr>nr_rdtsc := nr_rdtsc w + 1\<rparr>) ((x + ?mn) AND ?M) ?mn ?mx k = (r, w')"
    using assms(4) True by (auto simp: port_block_alloc_def rte_rdtsc_def x_def Let_def)
  from block_alloc_loop_rel [OF assms(1) s mn' mx' this]
  have "alloc_rel (w\<lparr>nr_rdtsc := nr_rdtsc w + 1\<rparr>) r w'" .
  then have "alloc_rel w r w'" by (auto simp: alloc_rel_def port_allocated_def split: option.splits)
  then show ?thesis using True by blast
qed

lemma ports_wf_alloc:
  assumes "ports_wf w" "alloc_rel w r w'"
  shows "ports_wf w'" "r = Some b \<Longrightarrow> ports_wf (w'\<lparr>port_blocks := port_blocks w' @ [b]\<rparr>)"
proof -
  have pb: "port_blocks w' = port_blocks w" and
    rng: "pac_min (pac w') = pac_min (pac w)" "pac_max (pac w') = pac_max (pac w)" and
    mono: "nr_block_alloc w \<le> nr_block_alloc w'" and
    al: "port_allocated w p \<Longrightarrow> port_allocated w' p" for p
    using assms(2) by (auto simp: alloc_rel_def split: option.splits)
  have old: "block_mem w' b = block_mem w b" "b < nr_block_alloc w"
    "\<forall>p \<in> port_range (pb_start (block_mem w b)) 64. port_allocated w p" "blk_ok (block_mem w b)"
    if "b \<in> set (port_blocks w)" for b
    using assms that by (auto simp: alloc_rel_def ports_wf_def)
  show "ports_wf w'"
  proof -
    have "\<forall>b \<in> set (port_blocks w). b < nr_block_alloc w' \<and> blk_ok (block_mem w' b) \<and>
        (\<forall>p \<in> port_range (pb_start (block_mem w' b)) 64. port_allocated w' p)"
      using old al mono by (metis order_less_le_trans)
    moreover have "\<forall>b \<in> set (port_blocks w). \<forall>b' \<in> set (port_blocks w). b \<noteq> b' \<longrightarrow>
        port_range (pb_start (block_mem w' b)) 64 \<inter> port_range (pb_start (block_mem w' b')) 64 = {}"
      using assms(1) old(1) by (simp add: ports_wf_def)
    ultimately show ?thesis using assms(1) unfolding ports_wf_def pb rng by blast
  qed
  then show "ports_wf (w'\<lparr>port_blocks := port_blocks w' @ [b]\<rparr>)" if "r = Some b"
  proof -
    have new: "nr_block_alloc w \<le> b" "b < nr_block_alloc w'" "blk_ok (block_mem w' b)"
      "\<And>p. p \<in> port_range (pb_start (block_mem w' b)) 64 \<Longrightarrow> port_allocated w' p \<and> \<not> port_allocated w p"
      using assms(2) that by (auto simp: alloc_rel_def)
    have nin: "b \<notin> set (port_blocks w')" using old(2) [of b] new(1) pb by auto
    have dis: "port_range (pb_start (block_mem w' b)) 64 \<inter> port_range (pb_start (block_mem w' c)) 64 = {}"
      if "c \<in> set (port_blocks w')" for c
      using new(4) old(1,3) [of c] that pb by auto
    have pa: "port_allocated (w'\<lparr>port_blocks := port_blocks w' @ [b]\<rparr>) = port_allocated w'"
      by (simp add: port_allocated_def fun_eq_iff)
    show ?thesis
      using \<open>ports_wf w'\<close> new(2-4) nin dis dis [unfolded Int_commute [of "port_range (pb_start (block_mem w' b)) 64"]]
      by (auto simp: ports_wf_def pa)
  qed
qed

lemma worker_alloc_port_block_wf:
  assumes "fds_ok E" "ports_wf w" "port = 0 \<or> 64 \<le> unat port \<and> unat port < 65472"
    and "worker_alloc_port_block E w port = (r, w')"
  shows "ports_wf w' \<and> wk_sock_table w' = wk_sock_table w \<and>
    (\<forall>b. r = Some b \<longrightarrow> b \<in> set (port_blocks w') \<and> (port \<noteq> 0 \<longrightarrow> port_in_block (block_mem w' b) port))"
proof (cases "length (port_blocks w) \<ge> MAX_PORT_BLOCK_PER_WORKER")
  case True
  then show ?thesis using assms(2,4) by (auto simp: worker_alloc_port_block_def)
next
  case False
  obtain r1 w1 where r1: "port_block_alloc E w port = (r1, w1)" by fastforce
  from port_block_alloc_rel [OF assms(1-3) this]
  have rel: "alloc_rel w r1 w1" and inb: "\<And>b. r1 = Some b \<Longrightarrow> port \<noteq> 0 \<Longrightarrow> port_in_block (block_mem w1 b) port" by blast+
  have tab: "wk_sock_table w1 = wk_sock_table w" using rel by (simp add: alloc_rel_def)
  show ?thesis
    using assms(4) False r1 tab inb ports_wf_alloc [OF assms(2) rel]
    by (cases r1) (auto simp: worker_alloc_port_block_def)
qed

section \<open>Binding a connection to a port\<close>

definition wk_lookup :: "env \<Rightarrow> tpa_worker \<Rightarrow> sock_key \<Rightarrow> nat option" where
  "wk_lookup E w = sock_table_lookup (env_crc32 E) (wk_sock_table w)"

definition wk_table_wf :: "env \<Rightarrow> tpa_worker \<Rightarrow> bool" where
  "wk_table_wf E w \<longleftrightarrow> table_wf (env_crc32 E) (wk_sock_table w)"

text \<open>What a bind promises: the socket is reachable under exactly one more key, whose port is in
  a reserved block of the worker that will not time out; a failed bind leaves every lookup as it
  was.\<close>

definition bind_result :: "env \<Rightarrow> tpa_worker \<Rightarrow> sock_key \<Rightarrow> nat \<Rightarrow> u16 \<Rightarrow> tpa_worker \<Rightarrow> bool" where
  "bind_result E w key s p w' \<longleftrightarrow> ports_wf w' \<and> wk_table_wf E w' \<and>
     (if p = 0 then wk_lookup E w' = wk_lookup E w
      else wk_lookup E w (key_with_port key p) = None \<and>
        wk_lookup E w' = (wk_lookup E w)(key_with_port key p \<mapsto> s) \<and>
        (\<exists>b. port_block_find w' p = Some b \<and> port_allocated w' p \<and>
             timer_is_stopped (wk_timers w') (BlockTimer b)))"

lemma bind_result_cong:
  "wk_lookup E w1 = wk_lookup E w \<Longrightarrow> bind_result E w1 key s p w' = bind_result E w key s p w'"
  unfolding bind_result_def by simp

lemma ports_wf_updates [simp]:
  "ports_wf (w\<lparr>wk_sock_table := tab\<rparr>) = ports_wf w" "ports_wf (w\<lparr>nr_malloc := n\<rparr>) = ports_wf w"
  "ports_wf (w\<lparr>nr_rdtsc := n\<rparr>) = ports_wf w" "ports_wf (w\<lparr>wk_timers := tc\<rparr>) = ports_wf w"
  by (simp_all add: ports_wf_def port_allocated_def)

lemma port_block_get_mem:
  "pb_start (block_mem (port_block_get w b) c) = pb_start (block_mem w c)"
  "pb_end (block_mem (port_block_get w b) c) = pb_end (block_mem w c)"
  "pb_size (block_mem (port_block_get w b) c) = pb_size (block_mem w c)"
  by (simp_all add: port_block_get_def)

lemma port_block_get_same:
  "port_blocks (port_block_get w b) = port_blocks w" "pac (port_block_get w b) = pac w"
  "wk_sock_table (port_block_get w b) = wk_sock_table w" "nr_block_alloc (port_block_get w b) = nr_block_alloc w"
  by (simp_all add: port_block_get_def)

lemma ports_wf_get: "ports_wf (port_block_get w b) = ports_wf w"
  unfolding ports_wf_def port_allocated_def blk_ok_def port_block_get_mem port_block_get_same ..

lemma port_block_get_in: "port_in_block (block_mem (port_block_get w b) c) p = port_in_block (block_mem w c) p"
  by (simp add: port_in_block_def port_block_get_mem)

lemma bind_result_get:
  assumes "ports_wf w1" "wk_table_wf E w1" "b \<in> set (port_blocks w1)" "port_in_block (block_mem w1 b) p" "p \<noteq> 0"
    and "wk_lookup E w (key_with_port key p) = None" "wk_lookup E w1 = (wk_lookup E w)(key_with_port key p \<mapsto> s)"
  shows "bind_result E w key s p (port_block_get w1 b)"
proof -
  have wf: "ports_wf (port_block_get w1 b)" using assms(1) by (simp add: ports_wf_get)
  have f: "port_block_find (port_block_get w1 b) p = Some b"
    using assms(3,4) port_block_find_iff [OF wf] by (simp add: port_block_get_same port_block_get_in)
  have "p \<in> port_range (pb_start (block_mem w1 b)) 64"
    using port_in_block_range [OF ports_wf_blk [OF assms(1,3)]] assms(4) by blast
  then have "port_allocated (port_block_get w1 b) p"
    using assms(1,3) by (auto simp: ports_wf_def port_allocated_def port_block_get_same)
  moreover have "timer_is_stopped (wk_timers (port_block_get w1 b)) (BlockTimer b)"
    by (simp add: port_block_get_def timer_is_stopped_def timer_stop_def Let_def)
  ultimately show ?thesis
    using assms(2,5-7) wf f by (auto simp: bind_result_def wk_table_wf_def wk_lookup_def port_block_get_same)
qed

lemma wk_table_add_spec:
  assumes "wk_table_wf E w" "wk_table_add E w key s = (ret, w')"
  shows "wk_table_wf E w'" "w' = w\<lparr>wk_sock_table := wk_sock_table w', nr_malloc := nr_malloc w + 1\<rparr>"
    "ret = 0 \<or> ret = -1" "ret = 0 \<Longrightarrow> wk_lookup E w key = None \<and> wk_lookup E w' = (wk_lookup E w)(key \<mapsto> s)"
    "ret \<noteq> 0 \<Longrightarrow> wk_lookup E w' = wk_lookup E w"
proof -
  let ?ok = "env_malloc E (nr_malloc w)"
  have t: "table_wf (env_crc32 E) (wk_sock_table w)" using assms(1) by (simp add: wk_table_wf_def)
  have e: "ret = fst (sock_table_add (env_crc32 E) ?ok (wk_sock_table w) key s)"
    "w' = w\<lparr>wk_sock_table := snd (sock_table_add (env_crc32 E) ?ok (wk_sock_table w) key s), nr_malloc := nr_malloc w + 1\<rparr>"
    using assms(2) by (auto simp: wk_table_add_def split_beta Let_def)
  note law = sti.add_law [OF t, of ?ok key s]
  show "wk_table_wf E w'" using law e(2) by (simp add: wk_table_wf_def)
  show "w' = w\<lparr>wk_sock_table := wk_sock_table w', nr_malloc := nr_malloc w + 1\<rparr>" using e(2) by simp
  show "ret = 0 \<or> ret = -1" using e(1) by (auto simp: sock_table_add_def Let_def split: if_splits)
  show "ret = 0 \<Longrightarrow> wk_lookup E w key = None \<and> wk_lookup E w' = (wk_lookup E w)(key \<mapsto> s)"
    using law e by (auto simp: wk_lookup_def fun_eq_iff)
  show "ret \<noteq> 0 \<Longrightarrow> wk_lookup E w' = wk_lookup E w" using law e by (auto simp: wk_lookup_def fun_eq_iff)
qed

lemma bind_block_loop_result:
  assumes "b \<in> set (port_blocks w)" "ports_wf w" "wk_table_wf E w" "idx < 64"
    and "bind_block_loop E w b key s idx k = (p, w')"
  shows "bind_result E w key s p w' \<and> port_blocks w' = port_blocks w"
  using assms
proof (induction k arbitrary: w idx)
  case 0
  then show ?case by (auto simp: bind_result_def)
next
  case (Suc k)
  note blk = ports_wf_blk [OF Suc.prems(2,1), unfolded blk_ok_def]
  let ?port = "pb_start (block_mem w b) + of_nat idx"
  have i: "unat (of_nat idx :: u16) = idx" using Suc.prems(4) by (intro unat_of_nat_small) simp
  have u: "unat ?port = unat (pb_start (block_mem w b)) + idx"
    using blk Suc.prems(4) i by (subst unat_add_small) simp_all
  have nz: "?port \<noteq> 0" using u blk by auto
  have inb: "port_in_block (block_mem w b) ?port"
    using u blk Suc.prems(4) unat_add_small [of "pb_start (block_mem w b)" 64]
    by (simp add: port_in_block_def word_le_nat_alt word_less_nat_alt)
  obtain ret w1 where add: "wk_table_add E w (key_with_port key ?port) s = (ret, w1)" by fastforce
  note sp = wk_table_add_spec [OF Suc.prems(3) add]
  have fr: "port_blocks w1 = port_blocks w" "block_mem w1 = block_mem w" "ports_wf w1 = ports_wf w"
    by (subst sp(2), simp)+
  show ?case
  proof (cases "ret = 0")
    case True
    then have "p = ?port" "w' = port_block_get w1 b" using Suc.prems(5) add by (simp_all add: Let_def)
    then show ?thesis
      using bind_result_get [of w1 E b ?port w key s] sp(1) sp(4) [OF True] nz inb Suc.prems fr
      by (simp add: port_block_get_same)
  next
    case False
    let ?i = "if idx + 1 \<ge> unat (pb_size (block_mem w b)) then 0 else idx + 1"
    have "bind_block_loop E w1 b key s ?i k = (p, w')" using Suc.prems(5) add False by (simp add: Let_def)
    moreover have "?i < 64" using blk by simp
    ultimately have "bind_result E w1 key s p w' \<and> port_blocks w' = port_blocks w1"
      using Suc.IH [of w1 ?i] Suc.prems fr sp(1) by simp
    then show ?thesis using bind_result_cong [OF sp(5) [OF False]] fr by simp
  qed
qed

lemma bind_from_port_block_result:
  assumes "b \<in> set (port_blocks w)" "ports_wf w" "wk_table_wf E w"
    and "bind_from_port_block E w b key s = (p, w')"
  shows "bind_result E w key s p w' \<and> port_blocks w' = port_blocks w"
proof -
  define w1 where "w1 = w\<lparr>nr_rdtsc := nr_rdtsc w + 1\<rparr>"
  have sz: "pb_size (block_mem w1 b) = 64"
    using ports_wf_blk [OF assms(2,1)] by (simp add: blk_ok_def w1_def)
  then obtain idx where r: "bind_block_loop E w1 b key s idx 64 = (p, w')" and i: "idx < 64"
    using assms(4) by (auto simp: bind_from_port_block_def rte_rdtsc_def w1_def Let_def)
  have "bind_result E w1 key s p w' \<and> port_blocks w' = port_blocks w1"
    using assms by (intro bind_block_loop_result [OF _ _ _ i r]) (simp_all add: w1_def wk_table_wf_def)
  moreover have "wk_lookup E w1 = wk_lookup E w" "port_blocks w1 = port_blocks w" by (simp_all add: w1_def wk_lookup_def)
  ultimately show ?thesis using bind_result_cong by metis
qed

lemma bind_blocks_loop_result:
  assumes "ports_wf w" "wk_table_wf E w" "idx < length (port_blocks w)"
    and "bind_blocks_loop E w key s idx k = (p, w')"
  shows "bind_result E w key s p w'"
  using assms
proof (induction k arbitrary: w idx)
  case 0
  then show ?case by (auto simp: bind_result_def)
next
  case (Suc k)
  obtain q w1 where q: "bind_from_port_block E w (port_blocks w ! idx) key s = (q, w1)" by fastforce
  have r: "bind_result E w key s q w1" "port_blocks w1 = port_blocks w"
    using bind_from_port_block_result [OF _ Suc.prems(1,2) q] Suc.prems(3) by auto
  show ?case
  proof (cases "q > 0")
    case True
    then show ?thesis using r Suc.prems(4) q by (simp add: Let_def)
  next
    case False
    then have q0: "q = 0" by (simp add: word_gt_0)
    let ?i = "if idx + 1 \<ge> length (port_blocks w) then 0 else idx + 1"
    have e: "bind_blocks_loop E w1 key s ?i k = (p, w')" using Suc.prems(4) q q0 by (simp add: Let_def)
    have w1: "ports_wf w1" "wk_table_wf E w1" "wk_lookup E w1 = wk_lookup E w" "?i < length (port_blocks w1)"
      using r q0 Suc.prems(3) by (auto simp: bind_result_def)
    show ?thesis using Suc.IH [OF w1(1,2,4) e] bind_result_cong [OF w1(3)] by simp
  qed
qed

lemma port_bind_on_random_port_result:
  assumes "fds_ok E" "ports_wf w" "wk_table_wf E w"
  shows "case port_bind_on_random_port E w key s of (p, w') \<Rightarrow> bind_result E w key s p w'"
proof -
  define w0 where "w0 = (if port_blocks w = [] then (0, w)
    else (let (tsc, w1) = rte_rdtsc E w; n = length (port_blocks w1)
          in bind_blocks_loop E w1 key s (unat (drop_bit 2 tsc) mod n) n))"
  obtain q w1 where q: "w0 = (q, w1)" by fastforce
  have r: "bind_result E w key s q w1"
  proof (cases "port_blocks w = []")
    case True
    then show ?thesis using q assms(2,3) by (simp add: w0_def bind_result_def)
  next
    case False
    then obtain i n where "bind_blocks_loop E (w\<lparr>nr_rdtsc := nr_rdtsc w + 1\<rparr>) key s i n = (q, w1)"
      "i < length (port_blocks w)"
      using q by (auto simp: w0_def rte_rdtsc_def Let_def)
    then have "bind_result E (w\<lparr>nr_rdtsc := nr_rdtsc w + 1\<rparr>) key s q w1"
      using assms by (intro bind_blocks_loop_result [where k = n]) (auto simp: wk_table_wf_def)
    then show ?thesis using bind_result_cong [of E "w\<lparr>nr_rdtsc := nr_rdtsc w + 1\<rparr>" w] by (simp add: wk_lookup_def)
  qed
  show ?thesis
  proof (cases "q > 0")
    case True
    then show ?thesis using r q
      by (simp add: port_bind_on_random_port_def w0_def [symmetric])
  next
    case False
    then have q0: "q = 0" by (simp add: word_gt_0)
    then have w1: "ports_wf w1" "wk_table_wf E w1" "wk_lookup E w1 = wk_lookup E w" using r by (simp_all add: bind_result_def)
    obtain bo w2 where b: "worker_alloc_port_block E w1 0 = (bo, w2)" by fastforce
    from worker_alloc_port_block_wf [OF assms(1) w1(1) _ b]
    have w2: "ports_wf w2" "wk_table_wf E w2" "wk_lookup E w2 = wk_lookup E w" "\<And>b. bo = Some b \<Longrightarrow> b \<in> set (port_blocks w2)"
      using w1 by (simp_all add: wk_table_wf_def wk_lookup_def)
    show ?thesis
    proof (cases bo)
      case None
      then show ?thesis using q q0 b w2
        by (simp add: port_bind_on_random_port_def w0_def [symmetric] bind_result_def)
    next
      case (Some c)
      obtain p w' where p: "bind_from_port_block E w2 c key s = (p, w')" by fastforce
      have "bind_result E w key s p w'"
        using bind_from_port_block_result [OF w2(4) [OF Some] w2(1,2) p] bind_result_cong [OF w2(3)] by simp
      then show ?thesis using q q0 b Some p
        by (simp add: port_bind_on_random_port_def w0_def [symmetric])
    qed
  qed
qed

lemma port_bind_on_given_port_result:
  assumes "fds_ok E" "ports_wf w" "wk_table_wf E w"
    and "64 \<le> unat (key_local_port key) \<and> unat (key_local_port key) < 65472 \<and> key_local_port key \<noteq> 0"
  shows "case port_bind_on_given_port E w key s of (p, w') \<Rightarrow> bind_result E w key s p w' \<and> (p = 0 \<or> p = key_local_port key)"
proof -
  let ?port = "key_local_port key"
  have kp: "key_with_port key ?port = key" by (simp add: key_with_port_def)
  define a where "a = (case port_block_find w ?port of Some b \<Rightarrow> (Some b, w) | None \<Rightarrow> worker_alloc_port_block E w ?port)"
  obtain bo w1 where b: "a = (bo, w1)" by fastforce
  have w1: "ports_wf w1" "wk_table_wf E w1" "wk_lookup E w1 = wk_lookup E w"
    "\<And>b. bo = Some b \<Longrightarrow> b \<in> set (port_blocks w1) \<and> port_in_block (block_mem w1 b) ?port"
    using b worker_alloc_port_block_wf [OF assms(1,2) _, of ?port] port_block_find_iff [OF assms(2)] assms(2-4)
    by (auto simp: a_def wk_table_wf_def wk_lookup_def split: option.splits)
  show ?thesis
  proof (cases bo)
    case None
    then show ?thesis using b w1
      by (simp add: port_bind_on_given_port_def a_def [symmetric] bind_result_def)
  next
    case (Some c)
    obtain ret w2 where ad: "wk_table_add E w1 key s = (ret, w2)" by fastforce
    note sp = wk_table_add_spec [OF w1(2) ad]
    have fr: "port_blocks w2 = port_blocks w1" "block_mem w2 = block_mem w1" "ports_wf w2 = ports_wf w1"
      by (subst sp(2), simp)+
    show ?thesis
    proof (cases "ret = 0")
      case True
      have "bind_result E w key s ?port (port_block_get w2 c)"
        using sp(1) sp(4) [OF True] w1 Some fr assms(4) kp by (intro bind_result_get) auto
      then show ?thesis using b Some ad True
        by (simp add: port_bind_on_given_port_def a_def [symmetric])
    next
      case ne: False
      then have "ret < 0" using sp(3) by auto
      then show ?thesis using b Some ad ne sp(1) sp(5) [OF ne] fr w1
        by (simp add: port_bind_on_given_port_def a_def [symmetric] bind_result_def)
    qed
  qed
qed

lemma port_bind_result:
  assumes "fds_ok E" "ports_wf w" "wk_table_wf E w"
    and "key_local_port key = 0 \<or> 64 \<le> unat (key_local_port key) \<and> unat (key_local_port key) < 65472"
  shows "case port_bind E w key s of (p, w') \<Rightarrow> bind_result E w key s p w' \<and>
    (key_local_port key \<noteq> 0 \<and> p \<noteq> 0 \<longrightarrow> p = key_local_port key)"
proof (cases "key_local_port key = 0")
  case True
  then show ?thesis using port_bind_on_random_port_result [OF assms(1-3), of key s]
    by (simp add: port_bind_def split: prod.splits)
next
  case False
  then have "64 \<le> unat (key_local_port key) \<and> unat (key_local_port key) < 65472 \<and> key_local_port key \<noteq> 0"
    using assms(4) by blast
  from port_bind_on_given_port_result [OF assms(1-3) this, of s] False show ?thesis
    by (auto simp: port_bind_def split: prod.splits)
qed

text \<open>C29: binding a connection to a local port. \<open>port_bind\<close> either reports failure and no
  lookup changes, or it returns a port that is reserved in a block of the worker whose timer is
  stopped, the connection's key was free and is now the only new entry of the socket table, and a
  port the caller asked for is the port that is bound. The blocks of the worker stay disjoint and
  reserved.\<close>

theorem port_bind_correct:
  assumes "fds_ok E" "ports_wf w" "wk_table_wf E w"
    and "key_local_port key = 0 \<or> 64 \<le> unat (key_local_port key) \<and> unat (key_local_port key) < 65472"
  shows "case port_bind E w key s of (p, w') \<Rightarrow> bind_result E w key s p w' \<and>
    (key_local_port key \<noteq> 0 \<and> p \<noteq> 0 \<longrightarrow> p = key_local_port key)"
  using assms by (rule port_bind_result)

text \<open>A worker that owns the block of the ports 49984 to 50047, and a key to bind.\<close>

definition worker_with_block :: tpa_worker where
  "worker_with_block = worker_example\<lparr>port_blocks := [0], nr_block_alloc := 1,
     block_mem := (\<lambda>_. \<lparr>pb_start = 49984, pb_end = 50048, pb_size = 64, pb_mask = 63, pb_refcnt = 0,
       pb_port_mask = 0xffc0\<rparr>), pac := (pac worker_example)\<lparr>port_map := (\<lambda>_. 5)\<rparr>\<rparr>"

definition key_example :: "u16 \<Rightarrow> sock_key" where
  "key_example port = sock_key_init \<lparr>ip_hi = 0, ip_lo = 0x0200000affff0000\<rparr> 80 \<lparr>ip_hi = 0, ip_lo = 0x0100000affff0000\<rparr> port"

lemma example_wf:
  "fds_ok env_example" "ports_wf worker_example" "ports_wf worker_with_block"
  "wk_table_wf env_example worker_example" "wk_table_wf env_example worker_with_block"
  by (simp_all add: fds_ok_def env_example_def ports_wf_def worker_example_def worker_with_block_def blk_ok_def
      port_allocated_def wk_table_wf_def table_wf_def sock_table_init_def)

lemma port_bind_example: "fst (port_bind env_example worker_with_block (key_example 50000) 7) = 50000"
  by (simp add: port_bind_def port_bind_on_given_port_def key_example_def sock_key_init_def port_block_find_def
      worker_with_block_def worker_example_def port_in_block_def wk_table_add_def sock_table_add_def sock_table_lookup_def
      sock_table_init_def env_example_def)

theorem port_bind_correct_witness:
  "case port_bind env_example worker_with_block (key_example 50000) 7 of
     (p, w') \<Rightarrow> p = 50000 \<and> wk_lookup env_example w' (key_example 50000) = Some 7"
proof -
  obtain p w' where e: "port_bind env_example worker_with_block (key_example 50000) 7 = (p, w')" by fastforce
  then have p: "p = 50000" using port_bind_example by simp
  have "key_with_port (key_example 50000) 50000 = key_example 50000"
    by (simp add: key_with_port_def key_example_def sock_key_init_def)
  then show ?thesis
    using port_bind_correct [OF example_wf(1,3,5), of "key_example 50000" 7] e p
    by (simp add: bind_result_def key_example_def sock_key_init_def)
qed

section \<open>Giving a port back\<close>

lemma port_block_put_same:
  "port_blocks (port_block_put E w b) = port_blocks w" "pac (port_block_put E w b) = pac w"
  "wk_sock_table (port_block_put E w b) = wk_sock_table w" "nr_block_alloc (port_block_put E w b) = nr_block_alloc w"
  "pb_start (block_mem (port_block_put E w b) c) = pb_start (block_mem w c)"
  "pb_end (block_mem (port_block_put E w b) c) = pb_end (block_mem w c)"
  "pb_size (block_mem (port_block_put E w b) c) = pb_size (block_mem w c)"
  by (simp_all add: port_block_put_def Let_def)

lemma ports_wf_put: "ports_wf (port_block_put E w b) = ports_wf w"
  unfolding ports_wf_def port_allocated_def blk_ok_def port_block_put_same ..

lemma wk_table_del_spec:
  assumes "wk_table_wf E w" "wk_table_del E w key = (ret, w')"
  shows "wk_table_wf E w'" "w' = w\<lparr>wk_sock_table := wk_sock_table w'\<rparr>"
    "ret = (if wk_lookup E w key = None then -1 else 0)" "wk_lookup E w' = (wk_lookup E w)(key := None)"
proof -
  have t: "table_wf (env_crc32 E) (wk_sock_table w)" using assms(1) by (simp add: wk_table_wf_def)
  have e: "ret = fst (sock_table_del (env_crc32 E) (wk_sock_table w) key)"
    "w' = w\<lparr>wk_sock_table := snd (sock_table_del (env_crc32 E) (wk_sock_table w) key)\<rparr>"
    using assms(2) by (auto simp: wk_table_del_def split_beta Let_def)
  note law = sti.del_law [OF t, of key]
  show "wk_table_wf E w'" using law e(2) by (simp add: wk_table_wf_def)
  show "w' = w\<lparr>wk_sock_table := wk_sock_table w'\<rparr>" using e(2) by simp
  show "ret = (if wk_lookup E w key = None then -1 else 0)"
    unfolding e(1) by (simp add: sock_table_del_def wk_lookup_def sock_table_lookup_def Let_def)
  show "wk_lookup E w' = (wk_lookup E w)(key := None)" using law e by (auto simp: wk_lookup_def fun_eq_iff)
qed



section \<open>Reserving a block\<close>

lemma block_ports_alloc_ok:
  assumes "\<And>m. env_socket E m \<noteq> None" "\<And>m p. env_bind E m p" "fds_ok E" "0 < n" "n + k \<le> 65536"
    and "\<And>i. i < k \<Longrightarrow> \<not> port_allocated w (of_nat (n + i))"
  shows "fst (block_ports_alloc E w (of_nat n) k ports)"
  using assms(4-)
proof (induction k arbitrary: n w ports)
  case (Suc k)
  let ?p = "of_nat n :: u16"
  have nz: "?p \<noteq> 0" using Suc.prems by (intro of_nat_u16_nonzero) auto
  obtain fd where fd: "env_socket E (nr_socket w) = Some fd" using assms(1) by blast
  obtain r w1 where d: "do_port_alloc E w ?p = (r, w1)" by fastforce
  then have r: "r = ?p" using Suc.prems(3) [of 0] assms(2) fd by (auto simp: do_port_alloc_def Let_def)
  have free: "\<not> port_allocated w1 (of_nat (Suc n + i))" if "i < k" for i
  proof -
    have "unat (of_nat (n + Suc i) :: u16) = n + Suc i" "unat ?p = n"
      using that Suc.prems(2) by - (rule unat_of_nat_small, simp)+
    then have "(of_nat (n + Suc i) :: u16) \<noteq> ?p" by (metis add_cancel_right_right nat.simps(3))
    then show ?thesis using do_port_alloc_allocated [OF assms(3) d nz] Suc.prems(3) [of "Suc i"] that r nz
      by (auto simp: add.commute)
  qed
  have "fst (block_ports_alloc E w1 (of_nat (Suc n)) k (ports @ [r]))"
    using Suc.prems(2) free by (intro Suc.IH) auto
  then show ?case using d r nz by (simp add: port_alloc_def add.commute)
qed simp

lemma do_port_block_alloc_ok:
  assumes "\<And>m. env_socket E m \<noteq> None" "\<And>m p. env_bind E m p" "fds_ok E" "\<And>m. env_malloc E m" "\<And>m. env_offload E m"
    and "0 < unat start" "unat start + unat sz \<le> 65536" "port_range_is_free w start sz"
  shows "fst (do_port_block_alloc E w start sz) \<noteq> None"
proof -
  let ?w = "w\<lparr>nr_malloc := nr_malloc w + 1\<rparr>"
  obtain ok ports w2 where a: "block_ports_alloc E ?w start (unat sz) [] = (ok, ports, w2)" by (metis prod_cases3)
  have "fst (block_ports_alloc E ?w (of_nat (unat start)) (unat sz) [])"
    using assms by (intro block_ports_alloc_ok)
      (auto simp: port_range_is_free_def list_all_iff port_allocated_def)
  then have ok using a by simp
  then show ?thesis using assms(4,5,8) a by (simp add: do_port_block_alloc_def c_malloc_def Let_def)
qed

text \<open>C31: reserving a block of ports is all or nothing. When the block is not created, whatever step
  failed, exactly the ports reserved before are reserved; when it is created, its ports were all
  free and now are all reserved, and no other port changed.\<close>

theorem do_port_block_alloc_atomic:
  assumes "fds_ok E" "0 < unat start" "unat start + unat sz \<le> 65536"
  shows "case do_port_block_alloc E w start sz of
    (None, w') \<Rightarrow> port_allocated w' = port_allocated w
  | (Some b, w') \<Rightarrow> (\<forall>p. port_allocated w' p \<longleftrightarrow> port_allocated w p \<or> p \<in> port_range start sz) \<and>
      (\<forall>p \<in> port_range start sz. \<not> port_allocated w p) \<and> pb_refcnt (block_mem w' b) = 0"
proof -
  obtain r w' where d: "do_port_block_alloc E w start sz = (r, w')" by fastforce
  from do_port_block_alloc_cases [OF assms d] show ?thesis unfolding d by (auto split: option.splits)
qed

lemma example_range_free: "port_range_is_free worker_example start sz"
  by (simp add: port_range_is_free_def worker_example_def list_all_iff)

lemma example_block_alloc:
  "0 < unat start \<Longrightarrow> unat start + unat sz \<le> 65536 \<Longrightarrow> fst (do_port_block_alloc env_example worker_example start sz) \<noteq> None"
  by (intro do_port_block_alloc_ok example_range_free example_wf) (simp_all add: env_example_def)

theorem do_port_block_alloc_atomic_witness:
  "\<exists>b w'. do_port_block_alloc env_example worker_example 41024 64 = (Some b, w') \<and> port_allocated w' 41087 \<and>
     \<not> port_allocated w' 41088"
proof -
  obtain b w' where e: "do_port_block_alloc env_example worker_example 41024 64 = (Some b, w')"
    using example_block_alloc [of 41024 64] by (cases "do_port_block_alloc env_example worker_example 41024 64") auto
  have m: "41087 \<in> port_range 41024 64" unfolding port_range_def by (intro image_eqI [of _ _ 41087]) simp_all
  have "unat x < 41088" if "x \<in> port_range 41024 64" for x
    using that by (auto simp: port_range_def unat_of_nat_small)
  then have m': "41088 \<notin> port_range 41024 64" by fastforce
  have n: "\<not> port_allocated worker_example 41088" by (simp add: port_allocated_def worker_example_def)
  show ?thesis using do_port_block_alloc_atomic [OF example_wf(1), of 41024 64 worker_example] m m' n e by simp
qed

text \<open>C32: the block that holds the highest ports cannot be used. The end of the block that starts at
  65472 is 65536, stored in 16 bits as 0, so no port is ever found in it: a connection bound to
  such a port keeps its entry in the socket table, unbinding it fails and changes nothing.\<close>

theorem last_port_block_is_lost:
  assumes "fds_ok E" "65472 \<le> unat (key_local_port key)" "port_block_find w (key_local_port key) = None"
    and "\<forall>b \<in> set (port_blocks w). b < nr_block_alloc w"
    and "port_bind E w key s = (p, w')" "p \<noteq> 0"
  shows "p = key_local_port key \<and> port_unbind E w' key = (-1, w')"
proof -
  let ?p = "key_local_port key"
  have nz: "?p \<noteq> 0" using assms(2) by (metis (no_types, lifting) not_numeral_le_zero unsigned_0)
  have lt: "unat ?p < 65536" using unsigned_less [of ?p, where ?'a = nat] by simp
  have al: "unat (?p AND NOT DEFAULT_PORT_BLOCK_MASK) = 65472"
  proof -
    obtain n where n: "unat ?p = n" "65472 \<le> n" "n < 65536" using assms(2) lt by blast
    have "n div 64 = 1023" using n by (auto intro: div_nat_eqI)
    then have "n - n mod 64 = 65472" using minus_mod_eq_mult_div [of n 64] by simp
    then show ?thesis using unat_align [of ?p] n by simp
  qed
  obtain b w1 w2 where w1: "worker_alloc_port_block E w ?p = (Some b, w1)" and b: "p = ?p"
    and w': "w' = port_block_get w2 b" "port_blocks w2 = port_blocks w1" "block_mem w2 = block_mem w1"
    using assms(3,5,6) nz
    by (fastforce simp: port_bind_def port_bind_on_given_port_def wk_table_add_def Let_def
        split: prod.splits option.splits if_splits)
  obtain w0 where d: "do_port_block_alloc E w (?p AND NOT DEFAULT_PORT_BLOCK_MASK) DEFAULT_PORT_BLOCK_SIZE = (Some b, w0)"
    and w0: "w1 = w0\<lparr>port_blocks := port_blocks w0 @ [b]\<rparr>"
    using w1 nz by (auto simp: worker_alloc_port_block_def port_block_alloc_def split: if_splits option.splits prod.splits)
  have c: "pb_end (block_mem w0 b) = 0" "port_blocks w0 = port_blocks w"
    "\<And>x. x < nr_block_alloc w \<Longrightarrow> block_mem w0 x = block_mem w x"
  proof -
    have "(?p AND NOT DEFAULT_PORT_BLOCK_MASK) + DEFAULT_PORT_BLOCK_SIZE = 0"
      unfolding word_eq_iff_unsigned [where ?'a = nat] unat_word_ariths al by (simp add: DEFAULT_PORT_BLOCK_SIZE_def)
    with do_port_block_alloc_cases [OF assms(1) _ _ d] al
    show "pb_end (block_mem w0 b) = 0" "port_blocks w0 = port_blocks w"
      "\<And>x. x < nr_block_alloc w \<Longrightarrow> block_mem w0 x = block_mem w x"
      by (auto simp: DEFAULT_PORT_BLOCK_SIZE_def same_tables_def)
  qed
  have "port_block_find w' ?p = None"
    using w' w0 c assms(3,4)
    by (auto simp: port_block_find_def find_None_iff port_block_get_in port_block_get_same port_block_get_mem port_in_block_def)
  then show ?thesis using b by (simp add: port_unbind_def)
qed

theorem last_port_block_is_lost_witness:
  "\<exists>w'. port_bind env_example worker_example (key_example 65500) 7 = (65500, w') \<and>
     port_unbind env_example w' (key_example 65500) = (-1, w')"
proof -
  obtain p w' where e: "port_bind env_example worker_example (key_example 65500) 7 = (p, w')" by fastforce
  obtain b w0 where d: "do_port_block_alloc env_example worker_example 65472 64 = (Some b, w0)"
    using example_block_alloc [of 65472 64] by (cases "do_port_block_alloc env_example worker_example 65472 64") auto
  have "wk_sock_table w0 = sock_table_init"
    using do_port_block_alloc_cases [OF example_wf(1) _ _ d] by (simp add: same_tables_def worker_example_def)
  then have "p = 65500"
    using e d by (auto simp: port_bind_def port_bind_on_given_port_def key_example_def sock_key_init_def
        port_block_find_def worker_alloc_port_block_def port_block_alloc_def DEFAULT_PORT_BLOCK_MASK_def
        DEFAULT_PORT_BLOCK_SIZE_def MAX_PORT_BLOCK_PER_WORKER_def wk_table_add_def sock_table_add_def sock_table_lookup_def
        sock_table_init_def worker_example_def [THEN arg_cong, of port_blocks] env_example_def
        [THEN arg_cong, of env_malloc] Let_def split: prod.splits)
  then show ?thesis
    using last_port_block_is_lost [OF example_wf(1) _ _ _ e] e
    by (simp add: key_example_def sock_key_init_def worker_example_def port_block_find_def)
qed

end
