(* ===== verification/Rcv_Data.thy ===== *)
theory Rcv_Data
  imports Tcp_Sock
begin

text \<open>
  The receive side of the data path, from \<open>src/tcp/tcp_input.c\<close>: delivery into the receive queue,
  the out-of-order queue, and reading by the application (\<open>tsock_zreadv\<close>). The out-of-order queue
  is the list of its packets in TAILQ order; \<open>last_ooo_pkt\<close> is the identity of a packet. A handler
  returns the packet it was given as it left it, since the caller looks at its length again.
  Latency measurement and traces are left out. What the application reads of the stream of the
  peer is shown in the theories that follow.
\<close>

section \<open>Reading\<close>

text \<open>What a read hands to the application: a buffer of a packet and the packet that
  \<open>iov_read_done\<close> has to be told about.\<close>

record read_iov =
  riov_seg :: seg
  riov_param :: nat

definition iov_buf_free :: "tpa_worker \<Rightarrow> packet \<Rightarrow> tpa_worker \<times> packet" where
  "iov_buf_free w p =
     (let p1 = p\<lparr>pkt_nr_read_seg := pkt_nr_read_seg p - 1\<rparr>
      in if pkt_nr_read_seg p1 = 0
         then (packet_free (w\<lparr>nr_in_process_mbuf := nr_in_process_mbuf w - ucast (mb_nb_segs (pkt_mbuf p1))\<rparr>) p1, p1)
         else (w, p1))"

definition pkt_to_iov_one_seg :: "packet \<Rightarrow> seg \<Rightarrow> read_iov \<times> packet" where
  "pkt_to_iov_one_seg head s =
     (\<lparr>riov_seg = s, riov_param = pkt_id head\<rparr>, head\<lparr>pkt_len := pkt_len head - seg_l5_len s\<rparr>)"

text \<open>The loop of \<open>pkt_to_iov\<close>: \<open>i\<close> is the position of \<open>to_read\<close>, \<open>room\<close> the number of free
  entries of the array, \<open>sz\<close> the bytes so far. The chain never ends before the length is used up
  in the code; the model stops there.\<close>

fun pkt_to_iov_loop :: "packet \<Rightarrow> nat \<Rightarrow> nat \<Rightarrow> nat \<Rightarrow> read_iov list \<Rightarrow> packet \<times> nat \<times> nat \<times> read_iov list" where
  "pkt_to_iov_loop p i sz 0 acc = (p, i, sz, acc)"
| "pkt_to_iov_loop p i sz (Suc room) acc =
     (if pkt_len p = 0 \<or> i \<ge> length (pkt_segs p) then (p, i, sz, acc)
      else (let s = pkt_segs p ! i; (iov, p1) = pkt_to_iov_one_seg p s
            in pkt_to_iov_loop p1 (i + 1) (sz + unat (seg_l5_len s)) room (acc @ [iov])))"

definition pkt_to_iov :: "packet \<Rightarrow> nat \<Rightarrow> nat \<Rightarrow> read_iov list \<Rightarrow> bool \<times> packet \<times> nat \<times> read_iov list" where
  "pkt_to_iov p sz nr_iov acc =
     (let (p1, i, sz1, acc1) = pkt_to_iov_loop p (pkt_to_read p) sz (nr_iov - length acc) acc
      in if pkt_len p1 \<noteq> 0 then (False, p1\<lparr>pkt_to_read := i\<rparr>, sz1, acc1) else (True, p1, sz1, acc1))"

definition rxq_store :: "packet tcp_rxq \<Rightarrow> u16 \<Rightarrow> packet \<Rightarrow> packet tcp_rxq" where
  "rxq_store q off p = q\<lparr>rxq_objs := (rxq_objs q)[slot (rxq_mask q) (rxq_unread q + off) := p]\<rparr>"

text \<open>The loop of \<open>tsock_zreadv\<close>; \<open>k\<close> bounds the number of packets that can still be consumed,
  the queue is empty when it is 0.\<close>

fun zreadv_loop :: "tpa_worker \<Rightarrow> packet tcp_rxq \<Rightarrow> nat \<Rightarrow> nat \<Rightarrow> nat \<Rightarrow> read_iov list \<Rightarrow> nat \<Rightarrow>
    tpa_worker \<times> packet tcp_rxq \<times> nat \<times> nat \<times> read_iov list" where
  "zreadv_loop w q nr_pkt sz nr_iov acc 0 = (w, q, nr_pkt, sz, acc)"
| "zreadv_loop w q nr_pkt sz nr_iov acc (Suc k) =
     (case tcp_rxq_peek_unread q (of_nat nr_pkt) of
        None \<Rightarrow> (w, q, nr_pkt, sz, acc)
      | Some p \<Rightarrow>
          (let (done, p1, sz1, acc1) = pkt_to_iov p sz nr_iov acc;
               q1 = rxq_store q (of_nat nr_pkt) p1
           in if \<not> done then (w, q1, nr_pkt, sz1, acc1)
              else zreadv_loop (w\<lparr>nr_in_process_mbuf := nr_in_process_mbuf w + ucast (mb_nb_segs (pkt_mbuf p1))\<rparr>)
                     q1 (nr_pkt + 1) sz1 nr_iov acc1 k))"

text \<open>\<open>TSOCK_READ_CHECK\<close>: the error, if there is one.\<close>

definition tsock_read_check :: "tcp_sock \<Rightarrow> errno option" where
  "tsock_read_check t =
     (if close_issued t then Some EBADF
      else if sk_err t \<noteq> None then sk_err t
      else if state t = TCP_STATE_LISTEN \<or> state t = TCP_STATE_CLOSED then Some ENOTCONN
      else None)"

definition tsock_zreadv :: "tpa_worker \<Rightarrow> tcp_sock \<Rightarrow> nat \<Rightarrow> int \<times> read_iov list \<times> tpa_worker \<times> tcp_sock" where
  "tsock_zreadv w t nr_iov =
     (case tsock_read_check t of
        Some e \<Rightarrow> (-1, [], w\<lparr>wk_errno := Some e\<rparr>, t)
      | None \<Rightarrow>
          (let (w1, q, nr_pkt, sz, iovs) =
                 zreadv_loop w (rxq t) 0 0 nr_iov [] (unat (tcp_rxq_readable_count (rxq t)))
           in if sz = 0
              then if flags t AND TSOCK_FLAG_EOF \<noteq> 0 then (0, iovs, w1, t\<lparr>rxq := q\<rparr>)
                   else (-1, iovs, w1\<lparr>wk_errno := Some EAGAIN\<rparr>, t\<lparr>rxq := q\<rparr>)
              else (let t1 = t\<lparr>rxq := tcp_rxq_update_unread q (of_nat nr_pkt)\<rparr>;
                        (w2, t2) = (if rcv_wnd t1 = 0
                          then (output_tsock_enqueue w1 t1, t1\<lparr>flags := flags t1 OR TSOCK_FLAG_ACK_NEEDED\<rparr>)
                          else (w1, t1))
                    in (int sz, iovs, w2, t2\<lparr>rcv_wnd := rcv_wnd t2 + of_nat sz\<rparr>))))"

section \<open>Delivery\<close>

definition tcp_rcv_enqueue :: "tpa_worker \<Rightarrow> tcp_sock \<Rightarrow> packet \<Rightarrow> err \<times> tpa_worker \<times> tcp_sock \<times> packet" where
  "tcp_rcv_enqueue w t p =
     (let p1 = (if ucast (pkt_len p) > rcv_wnd t
                then tcp_packet_cut p (ucast (pkt_len p) - rcv_wnd t) CUT_TAIL else p)
      in if pkt_len p1 = 0 then (None, w, t, p1)
         else (let (n, q) = tcp_rxq_enqueue_burst (rxq t) [p1]
               in if n \<noteq> 1 then (Some ERR_TCP_RXQ_ENQUEUE_FAIL, w, t\<lparr>rxq := q\<rparr>, p1)
                  else (let t1 = t\<lparr>rxq := q, rcv_nxt := rcv_nxt t + ucast (pkt_len p1),
                                   rcv_wnd := rcv_wnd t - ucast (pkt_len p1)\<rparr>;
                            (w2, t2) = tsock_event_add w t1 TPA_EVENT_IN
                        in (None, w2, tsock_update_last_ts w2 t2 LAST_TS_RCV_DATA, p1))))"

definition tsock_remove_ooo_pkt :: "tpa_worker \<Rightarrow> tcp_sock \<Rightarrow> packet \<Rightarrow> tpa_worker \<times> tcp_sock" where
  "tsock_remove_ooo_pkt w t p =
     (w\<lparr>nr_ooo_mbuf := nr_ooo_mbuf w - ucast (mb_nb_segs (pkt_mbuf p))\<rparr>,
      t\<lparr>rcv_ooo_queue := filter (\<lambda>q. pkt_id q \<noteq> pkt_id p) (rcv_ooo_queue t),
        nr_ooo_pkt := nr_ooo_pkt t - 1,
        last_ooo_pkt := (if last_ooo_pkt t = Some (pkt_id p) then None else last_ooo_pkt t)\<rparr>)"

fun drop_ooo_loop :: "tpa_worker \<Rightarrow> tcp_sock \<Rightarrow> nat \<Rightarrow> tpa_worker \<times> tcp_sock" where
  "drop_ooo_loop w t 0 = (w, t)"
| "drop_ooo_loop w t (Suc k) =
     (if rcv_ooo_queue t = [] then drop_ooo_loop w t k
      else (let p = last (rcv_ooo_queue t); (w1, t1) = tsock_remove_ooo_pkt w t p
            in drop_ooo_loop (packet_free w1 p) t1 k))"

definition tsock_drop_ooo_mbufs :: "tpa_worker \<Rightarrow> tcp_sock \<Rightarrow> tpa_worker \<times> tcp_sock" where
  "tsock_drop_ooo_mbufs w t =
     (if nr_ooo_pkt t = 0 then (w, t) else drop_ooo_loop w t (max (unat (nr_ooo_pkt t) div 4) 1))"

text \<open>A packet of the queue that was cut in place.\<close>

definition ooo_store :: "tcp_sock \<Rightarrow> packet \<Rightarrow> tcp_sock" where
  "ooo_store t p = t\<lparr>rcv_ooo_queue := map (\<lambda>q. if pkt_id q = pkt_id p then p else q) (rcv_ooo_queue t)\<rparr>"

text \<open>The loop of \<open>ooo_queue_drain\<close>. The third component is the list of the packets that were
  looked at, as they are now; the first says whether the queue was walked without an error.\<close>

fun ooo_drain_loop :: "tpa_worker \<Rightarrow> tcp_sock \<Rightarrow> packet list \<Rightarrow> bool \<times> tpa_worker \<times> tcp_sock \<times> packet list" where
  "ooo_drain_loop w t [] = (True, w, t, [])"
| "ooo_drain_loop w t (p # ps) =
     (if pkt_seq p \<noteq> rcv_nxt t then (True, w, t, [])
      else case tcp_rcv_enqueue w t p of
        (Some e, w1, t1, p1) \<Rightarrow> (False, w1, ooo_store t1 p1, [p1])
      | (None, w1, t1, p1) \<Rightarrow>
          (let (w2, t2) = tsock_remove_ooo_pkt w1 t1 p1; (ok, w3, t3, out) = ooo_drain_loop w2 t2 ps
           in (ok, w3, t3, p1 # out)))"

definition ooo_queue_drain :: "tpa_worker \<Rightarrow> tcp_sock \<Rightarrow> tpa_worker \<times> tcp_sock \<times> packet list" where
  "ooo_queue_drain w t =
     (let (ok, w1, t1, out) = ooo_drain_loop w t (rcv_ooo_queue t)
      in if \<not> ok then (w1, t1, out)
         else (let t2 = t1\<lparr>sack_blocks := sack_regulate (rcv_nxt t1) (sack_blocks t1)\<rparr>
               in (w1, if nr_ooo_pkt t2 = 0 then t2\<lparr>last_ooo_pkt := None, sack_blocks := []\<rparr> else t2, out)))"

section \<open>The out-of-order queue\<close>

fun ooo_insert_after :: "nat \<Rightarrow> packet \<Rightarrow> packet list \<Rightarrow> packet list" where
  "ooo_insert_after i p [] = []"
| "ooo_insert_after i p (q # qs) = (if pkt_id q = i then q # p # qs else q # ooo_insert_after i p qs)"

definition ooo_queue_insert ::
  "env \<Rightarrow> tpa_worker \<Rightarrow> tcp_sock \<Rightarrow> packet option \<Rightarrow> packet \<Rightarrow> err \<times> tpa_worker \<times> tcp_sock \<times> packet" where
  "ooo_queue_insert E w t prev p =
     (let to_cut = pkt_seq p + ucast (pkt_len p) - (rcv_nxt t + rcv_wnd t);
          p1 = (if sint to_cut > 0 then tcp_packet_cut p to_cut CUT_TAIL else p)
      in if pkt_len p1 = 0 then (Some ERR_TCP_RCV_OOO_DUP, w, t, p1)
         else if pkt_seq p1 \<noteq> rcv_nxt t \<and> ucast (nr_ooo_pkt t) \<ge> rcv_ooo_limit (cfg E)
         then (Some ERR_TCP_RCV_OOO_LIMIT, w, t, p1)
         else (None, w\<lparr>nr_ooo_mbuf := nr_ooo_mbuf w + ucast (mb_nb_segs (pkt_mbuf p1))\<rparr>,
               t\<lparr>rcv_ooo_queue := (case prev of Some pr \<Rightarrow> ooo_insert_after (pkt_id pr) p1 (rcv_ooo_queue t)
                                              | None \<Rightarrow> p1 # rcv_ooo_queue t),
                 sack_blocks := sack_update (sack_ok t) (sack_blocks t) (pkt_seq p1) (ucast (pkt_len p1)),
                 nr_ooo_pkt := nr_ooo_pkt t + 1, last_ooo_pkt := Some (pkt_id p1)\<rparr>, p1))"

text \<open>The loop over the packets after the new one.\<close>

fun ooo_trim_next :: "tpa_worker \<Rightarrow> tcp_sock \<Rightarrow> packet \<Rightarrow> packet list \<Rightarrow> tpa_worker \<times> tcp_sock \<times> packet" where
  "ooo_trim_next w t p [] = (w, t, p)"
| "ooo_trim_next w t p (nx # ps) =
     (let to_cut = pkt_seq p + ucast (pkt_len p) - pkt_seq nx
      in if sint to_cut \<le> 0 then (w, t, p)
         else if sint to_cut < uint (pkt_len nx) then (w, t, tcp_packet_cut p to_cut CUT_TAIL)
         else (let (w1, t1) = tsock_remove_ooo_pkt w t nx in ooo_trim_next (packet_free w1 nx) t1 p ps))"

text \<open>The prediction: the packet continues the one that was inserted last, at the end of the
  queue.\<close>

definition ooo_predict :: "tcp_sock \<Rightarrow> packet \<Rightarrow> packet option" where
  "ooo_predict t p =
     (if rcv_ooo_queue t \<noteq> [] \<and> last_ooo_pkt t = Some (pkt_id (last (rcv_ooo_queue t))) \<and>
         pkt_seq (last (rcv_ooo_queue t)) + ucast (pkt_len (last (rcv_ooo_queue t))) = pkt_seq p
      then Some (last (rcv_ooo_queue t)) else None)"

definition last_opt :: "'a list \<Rightarrow> 'a option" where
  "last_opt xs = (if xs = [] then None else Some (last xs))"

definition tcp_rcv_data_ooo :: "env \<Rightarrow> tpa_worker \<Rightarrow> tcp_sock \<Rightarrow> packet \<Rightarrow> err \<times> tpa_worker \<times> tcp_sock \<times> packet" where
  "tcp_rcv_data_ooo E w t0 p =
     (let t = (if nr_ooo_pkt t0 = 0 then t0\<lparr>ooo_start_ts := ucast (ts_us w)\<rparr> else t0)
      in case ooo_predict t p of
           Some prev \<Rightarrow> ooo_queue_insert E w t (Some prev) p
         | None \<Rightarrow>
             (let before = takeWhile (\<lambda>q. \<not> seq_gt (pkt_seq q) (pkt_seq p)) (rcv_ooo_queue t);
                  after = dropWhile (\<lambda>q. \<not> seq_gt (pkt_seq q) (pkt_seq p)) (rcv_ooo_queue t)
              in case last_opt before of
                   None \<Rightarrow> (let (w1, t1, p1) = ooo_trim_next w t p after in ooo_queue_insert E w1 t1 None p1)
                 | Some prev \<Rightarrow>
                     if pkt_seq p = pkt_seq prev \<and> pkt_len p > pkt_len prev
                     then (let (w1, t1) = tsock_remove_ooo_pkt w t prev;
                               (w2, t2, p2) = ooo_trim_next (packet_free w1 prev) t1 p after
                           in ooo_queue_insert E w2 t2 (last_opt (butlast before)) p2)
                     else (let to_cut = pkt_seq prev + ucast (pkt_len prev) - pkt_seq p
                           in if sint to_cut > 0 \<and> sint to_cut \<ge> uint (pkt_len p)
                              then (Some ERR_TCP_RCV_OOO_DUP, w, t, p)
                              else (let p1 = (if sint to_cut > 0 then tcp_packet_cut p to_cut CUT_HEAD else p);
                                        (w2, t2, p2) = ooo_trim_next w t p1 after
                                    in ooo_queue_insert E w2 t2 (Some prev) p2))))"

definition tsock_set_ack_flag :: "env \<Rightarrow> tcp_sock \<Rightarrow> u32 \<Rightarrow> tcp_sock" where
  "tsock_set_ack_flag E t ack_now =
     (let t1 = (if quickack t \<noteq> 0 then t\<lparr>quickack := quickack t - 1\<rparr> else t);
          ack = (if quickack t \<noteq> 0 then TSOCK_FLAG_ACK_NOW else ack_now);
          ack1 = (if delayed_ack (cfg E) = 0 \<or> rcv_nxt t1 - last_ack_sent t1 \<ge> ucast (snd_mss t1)
                  then TSOCK_FLAG_ACK_NOW else ack)
      in t1\<lparr>flags := flags t1 OR TSOCK_FLAG_ACK_NEEDED OR ack1\<rparr>)"

text \<open>After the out-of-order queue is drained, the packet is what draining made of it.\<close>

definition drained_as :: "packet list \<Rightarrow> packet \<Rightarrow> packet" where
  "drained_as out p = (case find (\<lambda>q. pkt_id q = pkt_id p) out of Some q \<Rightarrow> q | None \<Rightarrow> p)"

definition tcp_rcv_data :: "env \<Rightarrow> tpa_worker \<Rightarrow> tcp_sock \<Rightarrow> packet \<Rightarrow> err \<times> tpa_worker \<times> tcp_sock \<times> packet" where
  "tcp_rcv_data E w t p =
     (if pkt_len p = 0
      then (None, w, if has_flag_fin p \<and> pkt_seq p = rcv_nxt t then t\<lparr>rcv_nxt := rcv_nxt t + 1\<rparr> else t, p)
      else if seq_lt (pkt_seq p) (rcv_nxt t) \<and> rcv_nxt t - pkt_seq p \<ge> ucast (pkt_len p)
      then (None, w, t, p\<lparr>pkt_len := 0\<rparr>)
      else (let p1 = (if seq_lt (pkt_seq p) (rcv_nxt t)
                      then tcp_packet_cut p (rcv_nxt t - pkt_seq p) CUT_HEAD else p)
            in if pkt_seq p1 = rcv_nxt t \<and>
                 \<not> (rcv_ooo_queue t \<noteq> [] \<and> seq_ge (pkt_seq p1 + ucast (pkt_len p1)) (pkt_seq (hd (rcv_ooo_queue t))))
               then tcp_rcv_enqueue w (tsock_set_ack_flag E t 0) p1
               else (let t1 = tsock_set_ack_flag E (tsock_reset_quickack t) TSOCK_FLAG_ACK_NOW;
                         (err, w2, t2, p2) = tcp_rcv_data_ooo E w t1 p1;
                         (w3, t3, out) = ooo_queue_drain w2 t2
                     in (err, w3, t3, drained_as out p2))))"

definition validate_seq :: "tcp_sock \<Rightarrow> packet \<Rightarrow> err" where
  "validate_seq t p =
     (let s = pkt_seq p; e = s + ucast (pkt_len p)
      in if pkt_len p = 0 \<and> s = rcv_nxt t then None
         else if seq_le e (rcv_nxt t) \<or> seq_ge s (rcv_nxt t + rcv_wnd t) then Some ERR_TCP_INVALID_SEQ
         else None)"

end
