(* ===== verification/Rcv_Ooo.thy ===== *)
theory Rcv_Ooo
  imports Rcv_Data
begin

text \<open>
  The byte stream and the out-of-order queue. The peer's data is a function \<open>S\<close> from stream
  positions to bytes; position \<open>x\<close> has the sequence number \<open>base + x\<close>. A segment at position \<open>x\<close>
  is a packet with that sequence number whose payload is \<open>S\<close> from \<open>x\<close> on. The theory relates
  delivery, draining, trimming and inserting to this stream.
\<close>

section \<open>Pieces of a stream\<close>

definition stream :: "(int \<Rightarrow> u8) \<Rightarrow> int \<Rightarrow> int \<Rightarrow> u8 list" where
  "stream S a b = map (\<lambda>k. S (a + int k)) [0..<nat (b - a)]"

lemma length_stream [simp]: "length (stream S a b) = nat (b - a)"
  by (simp add: stream_def)

lemma stream_empty [simp]: "b \<le> a \<Longrightarrow> stream S a b = []"
  by (simp add: stream_def)

lemma stream_append: "a \<le> b \<Longrightarrow> b \<le> c \<Longrightarrow> stream S a b @ stream S b c = stream S a c"
  by (rule nth_equalityI) (auto simp: stream_def nth_append algebra_simps)

lemma drop_stream: "drop n (stream S a b) = stream S (a + int n) b"
  by (rule nth_equalityI) (auto simp: stream_def algebra_simps)

lemma take_stream: "a + int n \<le> b \<Longrightarrow> take n (stream S a b) = stream S a (a + int n)"
  by (rule nth_equalityI) (auto simp: stream_def)

section \<open>Segments\<close>

definition plen :: "packet \<Rightarrow> int" where
  "plen p = uint (pkt_len p)"

lemma plen_bounds: "0 \<le> plen p" "plen p < 65536"
  using unsigned_less [of "pkt_len p", where ?'a = int] by (simp_all add: plen_def)

lemma unat_pkt_len: "unat (pkt_len p) = nat (plen p)"
  by (simp only: plen_def unat_eq_nat_uint)

lemma plen_0: "plen p = 0 \<longleftrightarrow> pkt_len p = 0"
  by (simp add: plen_def uint_0_iff)

lemma plen_pos: "0 < plen p \<longleftrightarrow> pkt_len p \<noteq> 0"
  using plen_0 [of p] plen_bounds(1) [of p] by linarith

definition seg_at :: "(int \<Rightarrow> u8) \<Rightarrow> u32 \<Rightarrow> packet \<Rightarrow> int \<Rightarrow> bool" where
  "seg_at S base p x \<longleftrightarrow> pkt_seq p = base + word_of_int x \<and> pkt_wf p \<and> payload p = stream S x (x + plen p)"

lemma ucast_len: "(ucast (pkt_len p) :: u32) = word_of_int (plen p)"
  by (simp add: plen_def)

lemma seg_at_end: "seg_at S base p x \<Longrightarrow> pkt_seq p + ucast (pkt_len p) = base + word_of_int (x + plen p)"
  by (simp add: seg_at_def ucast_len)

lemma unat_word_of_int_small: "0 \<le> k \<Longrightarrow> k < 2 ^ 32 \<Longrightarrow> unat (word_of_int k :: u32) = nat k"
  by (simp only: unat_eq_nat_uint uint_word_of_int) (simp add: take_bit_int_eq_self)

lemma seq_diff: "base + word_of_int x - (base + word_of_int y) = (word_of_int (x - y) :: u32)"
  by simp

lemma tcp_packet_cut_same [simp]:
  "pkt_id (tcp_packet_cut p n d) = pkt_id p" "pkt_mbuf (tcp_packet_cut p n d) = pkt_mbuf p"
  by (cases d; simp add: tcp_packet_cut_def tcp_packet_cut_head_def tcp_packet_cut_tail_def Let_def split_beta)+

lemma seg_at_cut:
  assumes "seg_at S base p x" "0 \<le> k" "k \<le> plen p"
  shows "seg_at S base (tcp_packet_cut p (word_of_int k) CUT_HEAD) (x + k)"
    "seg_at S base (tcp_packet_cut p (word_of_int k) CUT_TAIL) x"
    "plen (tcp_packet_cut p (word_of_int k) d) = plen p - k"
proof -
  have "k < 65536" using assms(3) plen_bounds(2) [of p] by linarith
  then have k: "unat (word_of_int k :: u32) = nat k" using assms(2) by (intro unat_word_of_int_small) simp_all
  have le: "unat (word_of_int k :: u32) \<le> unat (pkt_len p)" using k assms(3) by (simp add: unat_pkt_len)
  have p: "pkt_wf p" "pkt_seq p = base + word_of_int x" "payload p = stream S x (x + plen p)"
    using assms(1) by (simp_all add: seg_at_def)
  note c = tcp_packet_cut_spec [OF p(1) le]
  have len: "plen (tcp_packet_cut p (word_of_int k) d) = plen p - k" for d
  proof -
    have "nat (plen (tcp_packet_cut p (word_of_int k) d)) = nat (plen p) - nat k" using c(7) [of d] k by (simp add: unat_pkt_len)
    then show ?thesis using assms(2,3) plen_bounds(1) [of "tcp_packet_cut p (word_of_int k) d"] by linarith
  qed
  show "plen (tcp_packet_cut p (word_of_int k) d) = plen p - k" by (rule len)
  show "seg_at S base (tcp_packet_cut p (word_of_int k) CUT_HEAD) (x + k)"
    unfolding seg_at_def len using c k p assms(2) by (simp add: drop_stream)
  have "unat (pkt_len p) - nat k = nat (plen p - k)" using assms(2) by (simp add: unat_pkt_len nat_diff_distrib)
  then show "seg_at S base (tcp_packet_cut p (word_of_int k) CUT_TAIL) x"
    unfolding seg_at_def len using c k p assms(2,3) by (simp add: take_stream)
qed

section \<open>The bytes an application can still read\<close>

definition unread_bytes :: "packet \<Rightarrow> u8 list" where
  "unread_bytes p = take (unat (pkt_len p)) (concat (map seg_bytes (rd_segs p)))"

text \<open>The chain has a buffer boundary where the unread bytes end.\<close>

definition rd_wf :: "packet \<Rightarrow> bool" where
  "rd_wf p \<longleftrightarrow> pkt_len p \<noteq> 0 \<and> (\<forall>s\<in>set (rd_segs p). seg_ok s) \<and>
     (\<exists>k\<le>length (rd_segs p). segs_len (take k (rd_segs p)) = unat (pkt_len p))"

definition unread :: "tcp_sock \<Rightarrow> u8 list" where
  "unread t = concat (map unread_bytes (rxq_items (rxq t)))"

lemma take_concat_segs: "take (segs_len (take k ss)) (concat (map seg_bytes ss)) = concat (map seg_bytes (take k ss))"
proof -
  have "concat (map seg_bytes ss) = concat (map seg_bytes (take k ss)) @ concat (map seg_bytes (drop k ss))"
    by (metis append_take_drop_id concat_append map_append)
  then show ?thesis by simp
qed

lemma unread_bytes_payload: "pkt_wf p \<Longrightarrow> unread_bytes p = payload p"
  using take_concat_segs [of "unat (pkt_nr_read_seg p)" "rd_segs p"]
  by (simp add: pkt_wf_def unread_bytes_def payload_def)

lemma rd_wf_pkt: "pkt_wf p \<Longrightarrow> pkt_len p \<noteq> 0 \<Longrightarrow> rd_wf p"
  by (auto simp: pkt_wf_def rd_wf_def)

lemma length_unread_bytes: "rd_wf p \<Longrightarrow> length (unread_bytes p) = unat (pkt_len p)"
  by (metis length_concat_seg_bytes rd_wf_def take_concat_segs unread_bytes_def)

section \<open>Delivery\<close>

definition rxq_ok :: "tcp_sock \<Rightarrow> bool" where
  "rxq_ok t \<longleftrightarrow> rxq_wf (rxq t) \<and> (\<forall>p\<in>set (rxq_items (rxq t)). rd_wf p)"

text \<open>The packet that \<open>tcp_rcv_enqueue\<close> delivers, and the socket after the delivery.\<close>

definition rcv_cut :: "tcp_sock \<Rightarrow> packet \<Rightarrow> packet" where
  "rcv_cut t p = (if ucast (pkt_len p) > rcv_wnd t then tcp_packet_cut p (ucast (pkt_len p) - rcv_wnd t) CUT_TAIL else p)"

definition rcv_done :: "tpa_worker \<Rightarrow> tcp_sock \<Rightarrow> packet \<Rightarrow> packet tcp_rxq \<Rightarrow> tcp_sock" where
  "rcv_done w t p q =
     t\<lparr>rxq := q, rcv_nxt := rcv_nxt t + ucast (pkt_len p), rcv_wnd := rcv_wnd t - ucast (pkt_len p),
       last_events := TPA_EVENT_IN, event_events := event_events t OR TPA_EVENT_IN,
       last_ts := (last_ts t)(LAST_TS_RCV_DATA := cycles_start w)\<rparr>"

lemma rcv_done_sel [simp]:
  "rxq (rcv_done w t p q) = q" "rcv_nxt (rcv_done w t p q) = rcv_nxt t + ucast (pkt_len p)"
  "rcv_wnd (rcv_done w t p q) = rcv_wnd t - ucast (pkt_len p)" "rcv_ooo_queue (rcv_done w t p q) = rcv_ooo_queue t"
  by (simp_all add: rcv_done_def)

lemma tcp_rcv_enqueue_eq:
  "\<exists>w'. tcp_rcv_enqueue w t p =
     (let p' = rcv_cut t p; (n, q) = tcp_rxq_enqueue_burst (rxq t) [p']
      in if pkt_len p' = 0 then (None, w, t, p')
         else if n \<noteq> 1 then (Some ERR_TCP_RXQ_ENQUEUE_FAIL, w, t\<lparr>rxq := q\<rparr>, p')
         else (None, w', rcv_done w t p' q, p'))"
proof -
  let ?p = "rcv_cut t p"
  obtain n q where e: "tcp_rxq_enqueue_burst (rxq t) [?p] = (n, q)" by fastforce
  show ?thesis unfolding tcp_rcv_enqueue_def rcv_cut_def [symmetric] Let_def e prod.case
    by (simp add: tsock_event_add_def tsock_update_last_ts_def rcv_done_def Let_def)
qed

lemma rcv_cut_spec:
  assumes "seg_at S base p x"
  shows "seg_at S base (rcv_cut t p) x" "plen (rcv_cut t p) = min (plen p) (uint (rcv_wnd t))"
    "pkt_id (rcv_cut t p) = pkt_id p"
proof -
  let ?k = "plen p - uint (rcv_wnd t)"
  have gt: "ucast (pkt_len p) > rcv_wnd t \<longleftrightarrow> ?k > 0"
    by (simp add: word_less_def uint_up_ucast is_up plen_def)
  have k: "(ucast (pkt_len p) - rcv_wnd t :: u32) = word_of_int ?k" by (simp add: plen_def)
  have "seg_at S base (rcv_cut t p) x \<and> plen (rcv_cut t p) = min (plen p) (uint (rcv_wnd t))"
  proof (cases "?k > 0")
    case True
    then have "rcv_cut t p = tcp_packet_cut p (word_of_int ?k) CUT_TAIL" using gt k by (simp add: rcv_cut_def)
    then show ?thesis using True seg_at_cut(2,3) [OF assms, of ?k] by (simp add: min_def)
  next
    case False
    then show ?thesis using assms gt by (simp add: rcv_cut_def min_def)
  qed
  then show "seg_at S base (rcv_cut t p) x" "plen (rcv_cut t p) = min (plen p) (uint (rcv_wnd t))" by auto
  show "pkt_id (rcv_cut t p) = pkt_id p" by (simp add: rcv_cut_def)
qed

text \<open>The receive queue after an attempt to append one packet.\<close>

lemma rxq_push:
  assumes "rxq_ok t" "rd_wf p" "tcp_rxq_enqueue_burst (rxq t) [p] = (n, q)"
  shows "rxq_ok (t\<lparr>rxq := q\<rparr>)" "n = 1 \<Longrightarrow> rxq_items q = rxq_items (rxq t) @ [p]"
    "n \<noteq> 1 \<Longrightarrow> rxq_items q = rxq_items (rxq t)" "n = 1 \<longleftrightarrow> rxq_readable (rxq t) < length (rxq_objs (rxq t))"
proof -
  have wf: "rxq_wf (rxq t)" using assms(1) by (simp add: rxq_ok_def)
  have nr: "unat n = min (length (rxq_objs (rxq t)) - rxq_readable (rxq t)) 1"
    using tcp_rxq_enqueue_burst_nr [OF wf, of "[p]"] assms(3) by simp
  have it: "rxq_wf q" "rxq_items q = rxq_items (rxq t) @ take (unat n) [p]"
    using tcp_rxq_enqueue_burst_items [OF wf, of "[p]"] assms(3) by simp_all
  have n01: "n = 1 \<longleftrightarrow> unat n = 1" unfolding word_eq_iff_unsigned [where ?'a = nat] by simp
  have t0: "n \<noteq> 1 \<Longrightarrow> unat n = 0" using nr n01 by linarith
  show "n = 1 \<Longrightarrow> rxq_items q = rxq_items (rxq t) @ [p]" using it(2) by simp
  show "n \<noteq> 1 \<Longrightarrow> rxq_items q = rxq_items (rxq t)" using it(2) t0 by simp
  show "n = 1 \<longleftrightarrow> rxq_readable (rxq t) < length (rxq_objs (rxq t))" using nr n01 by linarith
  show "rxq_ok (t\<lparr>rxq := q\<rparr>)" using it assms(1,2) by (auto simp: rxq_ok_def dest: in_set_takeD)
qed

lemma uint_wnd_sub:
  assumes "plen p \<le> uint (rcv_wnd t)"
  shows "uint (rcv_wnd t - ucast (pkt_len p)) = uint (rcv_wnd t) - plen p"
proof -
  have e: "uint (ucast (pkt_len p) :: u32) = plen p" by (simp add: plen_def uint_up_ucast is_up)
  then have "uint (ucast (pkt_len p) :: u32) \<le> uint (rcv_wnd t)" using assms by simp
  then have "uint (rcv_wnd t - ucast (pkt_len p)) = uint (rcv_wnd t) - uint (ucast (pkt_len p) :: u32)"
    by (metis uint_sub_lem)
  then show ?thesis using e by simp
qed

lemma tcp_rcv_enqueue_spec:
  assumes n: "rcv_nxt t = base + word_of_int n" and p: "seg_at S base p n" and q: "rxq_ok t"
    and e: "tcp_rcv_enqueue w t p = (e, w', t', p')"
  shows "seg_at S base p' n \<and> plen p' = min (plen p) (uint (rcv_wnd t)) \<and> pkt_id p' = pkt_id p \<and>
    rcv_ooo_queue t' = rcv_ooo_queue t \<and> rxq_ok t' \<and> (plen p \<le> uint (rcv_wnd t) \<longrightarrow> p' = p) \<and>
    (\<exists>m. m = (if e = None then n + plen p' else n) \<and> rcv_nxt t' = base + word_of_int m \<and>
      uint (rcv_wnd t') = uint (rcv_wnd t) - (m - n) \<and> unread t' = unread t @ stream S n m)"
proof -
  let ?p = "rcv_cut t p"
  note c = rcv_cut_spec [OF p, of t]
  obtain k rq where b: "tcp_rxq_enqueue_burst (rxq t) [?p] = (k, rq)" by fastforce
  obtain wx where eq: "(e, w', t', p') = (if pkt_len ?p = 0 then (None, w, t, ?p)
      else if k \<noteq> 1 then (Some ERR_TCP_RXQ_ENQUEUE_FAIL, w, t\<lparr>rxq := rq\<rparr>, ?p) else (None, wx, rcv_done w t ?p rq, ?p))"
    using tcp_rcv_enqueue_eq [of w t p] e b by (auto simp: Let_def)
  have p': "p' = ?p" using eq by (simp split: if_splits)
  have id: "plen p \<le> uint (rcv_wnd t) \<longrightarrow> ?p = p" by (simp add: rcv_cut_def word_less_def uint_up_ucast is_up plen_def)
  consider (empty) "pkt_len ?p = 0" | (full) "pkt_len ?p \<noteq> 0" "k \<noteq> 1" | (ok) "pkt_len ?p \<noteq> 0" "k = 1" by blast
  then show ?thesis
  proof cases
    case empty
    then have "t' = t" "plen p' = 0" using eq p' by (simp_all add: plen_0)
    then show ?thesis using c p' n q id by auto
  next
    case full
    then have t': "t' = t\<lparr>rxq := rq\<rparr>" "e \<noteq> None" using eq by simp_all
    have "rd_wf ?p" using c(1) full(1) by (simp add: seg_at_def rd_wf_pkt)
    note r = rxq_push [OF q this b]
    have "unread t' = unread t" using r(3) full(2) t' by (simp add: unread_def)
    then show ?thesis using c p' n r(1) t' id by (intro conjI exI [of _ n]) auto
  next
    case ok
    then have t': "t' = rcv_done w t ?p rq" "e = None" using eq by simp_all
    have rd: "rd_wf ?p" using c(1) ok(1) by (simp add: seg_at_def rd_wf_pkt)
    note r = rxq_push [OF q rd b]
    have "payload ?p = stream S n (n + plen ?p)" "pkt_wf ?p" using c(1) by (simp_all add: seg_at_def)
    then have "unread t' = unread t @ stream S n (n + plen ?p)"
      using r(2) ok(2) t' by (simp add: unread_def unread_bytes_payload)
    moreover have "rxq_ok t'" using r(1) t' by (simp add: rxq_ok_def)
    moreover have "uint (rcv_wnd t') = uint (rcv_wnd t) - plen ?p" using t'(1) c(2) by (simp add: uint_wnd_sub)
    ultimately show ?thesis using c p' n t' id
      by (intro conjI exI [of _ "n + plen ?p"]) (simp_all add: ucast_len)
  qed
qed

section \<open>The out-of-order queue\<close>

type_synonym placed = "packet \<times> int"

text \<open>The packets with their positions: segments of the stream between \<open>n\<close> and \<open>R\<close>, in order,
  not overlapping.\<close>

definition placed_ok :: "(int \<Rightarrow> u8) \<Rightarrow> u32 \<Rightarrow> int \<Rightarrow> int \<Rightarrow> placed \<Rightarrow> bool" where
  "placed_ok S base n R z \<longleftrightarrow> seg_at S base (fst z) (snd z) \<and> 0 < plen (fst z) \<and> n \<le> snd z \<and> snd z + plen (fst z) \<le> R"

definition ahead :: "placed \<Rightarrow> placed \<Rightarrow> bool" where
  "ahead a b \<longleftrightarrow> snd a + plen (fst a) \<le> snd b"

definition zid :: "placed \<Rightarrow> nat" where
  "zid z = pkt_id (fst z)"

definition ooo_ok :: "(int \<Rightarrow> u8) \<Rightarrow> u32 \<Rightarrow> int \<Rightarrow> int \<Rightarrow> placed list \<Rightarrow> bool" where
  "ooo_ok S base n R zs \<longleftrightarrow> (\<forall>z\<in>set zs. placed_ok S base n R z) \<and> sorted_wrt ahead zs \<and> distinct (map zid zs)"

definition rcv_ok :: "(int \<Rightarrow> u8) \<Rightarrow> u32 \<Rightarrow> int \<Rightarrow> placed list \<Rightarrow> tcp_sock \<Rightarrow> bool" where
  "rcv_ok S base n zs t \<longleftrightarrow> rcv_nxt t = base + word_of_int n \<and> rcv_ooo_queue t = map fst zs \<and>
     ooo_ok S base n (n + uint (rcv_wnd t)) zs \<and> uint (rcv_wnd t) < 2 ^ 30 \<and> rxq_ok t"

lemma ooo_ok_Cons:
  "ooo_ok S base n R (z # zs) \<longleftrightarrow> placed_ok S base n R z \<and> (\<forall>y\<in>set zs. ahead z y \<and> zid z \<noteq> zid y) \<and> ooo_ok S base n R zs"
  by (auto simp: ooo_ok_def)

lemma ooo_ok_advance:
  assumes "ooo_ok S base n R (z # zs)" "m \<le> snd z + plen (fst z)"
  shows "ooo_ok S base m R zs"
  using assms by (fastforce simp: ooo_ok_def placed_ok_def ahead_def)

lemma filter_id_head:
  assumes "ooo_ok S base n R (z # zs)"
  shows "filter (\<lambda>q. pkt_id q \<noteq> zid z) (map fst (z # zs)) = map fst zs"
  using assms by (auto simp: ooo_ok_Cons zid_def filter_id_conv)

lemma same_pos:
  assumes "pkt_seq p = base + word_of_int n" "seg_at S base p x" "\<bar>x - n\<bar> < 2 ^ 31"
  shows "x = n"
  using assms(1,2) word_of_int_inj_pos [OF assms(3), of base] unfolding seg_at_def by metis

lemma map_store_same: "map (\<lambda>q. if pkt_id q = i then f q else q) xs = xs" if "\<And>q. q \<in> set xs \<Longrightarrow> pkt_id q = i \<Longrightarrow> f q = q"
  using that by (auto intro: map_idI)

lemma tsock_remove_ooo_pkt_sel [simp]:
  "rcv_ooo_queue (snd (tsock_remove_ooo_pkt w t p)) = filter (\<lambda>q. pkt_id q \<noteq> pkt_id p) (rcv_ooo_queue t)"
  "rcv_nxt (snd (tsock_remove_ooo_pkt w t p)) = rcv_nxt t" "rcv_wnd (snd (tsock_remove_ooo_pkt w t p)) = rcv_wnd t"
  "rxq (snd (tsock_remove_ooo_pkt w t p)) = rxq t"
  by (simp_all add: tsock_remove_ooo_pkt_def)

lemma unread_cong: "rxq t = rxq t' \<Longrightarrow> unread t = unread t'" "rxq t = rxq t' \<Longrightarrow> rxq_ok t = rxq_ok t'"
  by (simp_all add: unread_def rxq_ok_def)

text \<open>Draining delivers the packets at the front that continue the stream.\<close>

lemma ooo_drain_loop_spec:
  assumes "rcv_ok S base n zs t" "ooo_drain_loop w t (map fst zs) = (ok, w', t', out)"
  shows "\<exists>m zs'. n \<le> m \<and> rcv_ok S base m zs' t' \<and> m + uint (rcv_wnd t') = n + uint (rcv_wnd t) \<and>
    unread t' = unread t @ stream S n m"
  using assms
proof (induction zs arbitrary: n w t ok w' t' out)
  case Nil
  then show ?case by (auto intro!: exI [of _ n] exI [of _ "[]"])
next
  case (Cons z zs)
  let ?p = "fst z" and ?W = "uint (rcv_wnd t)"
  have r: "rcv_nxt t = base + word_of_int n" "rcv_ooo_queue t = map fst (z # zs)" "ooo_ok S base n (n + ?W) (z # zs)"
    "?W < 2 ^ 30" "rxq_ok t" using Cons.prems(1) by (simp_all add: rcv_ok_def)
  have z: "seg_at S base ?p (snd z)" "0 < plen ?p" "n \<le> snd z" "snd z + plen ?p \<le> n + ?W"
    using r(3) by (simp_all add: ooo_ok_Cons placed_ok_def)
  show ?case
  proof (cases "pkt_seq ?p = rcv_nxt t")
    case False
    then show ?thesis using Cons.prems by (auto intro!: exI [of _ n] exI [of _ "z # zs"])
  next
    case True
    have x: "snd z = n" using same_pos [OF _ z(1), of n] True r(1) z(2-4) r(4) by simp
    obtain e w1 t1 p1 where en: "tcp_rcv_enqueue w t ?p = (e, w1, t1, p1)" by (metis prod_cases4)
    have len: "plen ?p \<le> ?W" using z(4) x by simp
    define m where "m = (if e = None then n + plen ?p else n)"
    have p1: "p1 = ?p" and t1: "rcv_ooo_queue t1 = rcv_ooo_queue t" "rxq_ok t1" "rcv_nxt t1 = base + word_of_int m"
      "uint (rcv_wnd t1) = ?W - (m - n)" "unread t1 = unread t @ stream S n m"
      using tcp_rcv_enqueue_spec [OF r(1) _ r(5) en, of S] z(1) x len by (auto simp: m_def)
    show ?thesis
    proof (cases e)
      case (Some err)
      have "rcv_ooo_queue (ooo_store t1 p1) = map fst (z # zs)"
        using t1(1) r(2,3) p1 by (auto simp: ooo_store_def ooo_ok_Cons zid_def intro!: map_idI)
      then have "rcv_ok S base n (z # zs) (ooo_store t1 p1)"
        using r t1 Some by (simp add: rcv_ok_def m_def ooo_store_def rxq_ok_def)
      moreover have "t' = ooo_store t1 p1" using Cons.prems(2) True en Some by simp
      ultimately show ?thesis using t1 Some
        by (intro exI [of _ n] exI [of _ "z # zs"]) (simp add: m_def ooo_store_def unread_def)
    next
      case None
      let ?t2 = "snd (tsock_remove_ooo_pkt w1 t1 p1)"
      have m: "m = n + plen ?p" using None by (simp add: m_def)
      have q2: "rcv_ooo_queue ?t2 = map fst zs"
        using t1(1) r(2) p1 filter_id_head [OF r(3)] by (simp add: zid_def)
      have "ooo_ok S base m (m + uint (rcv_wnd t1)) zs"
        using ooo_ok_advance [OF r(3), of m] x m t1(4) by simp
      then have ok2: "rcv_ok S base m zs ?t2"
        using q2 t1 r(4) m z(2) by (simp add: rcv_ok_def rxq_ok_def)
      obtain ok3 w3 t3 out3 where d1: "ooo_drain_loop (fst (tsock_remove_ooo_pkt w1 t1 p1)) ?t2 (map fst zs) = (ok3, w3, t3, out3)"
        by (metis prod_cases4)
      have "t' = t3" using Cons.prems(2) True en None d1 by (simp add: split_beta Let_def)
      note d = d1 this
      from Cons.IH [OF ok2 d(1)] obtain m' zs' where ih: "m \<le> m'" "rcv_ok S base m' zs' t3"
        "m' + uint (rcv_wnd t3) = m + uint (rcv_wnd ?t2)" "unread t3 = unread ?t2 @ stream S m m'" by blast
      have "unread ?t2 = unread t @ stream S n m" using t1(5) by (simp add: unread_def)
      then show ?thesis using ih d(2) m t1(4) z(2) stream_append [of n m m' S]
        by (intro exI [of _ m'] exI [of _ zs']) simp
    qed
  qed
qed

lemma ooo_queue_drain_spec:
  assumes "rcv_ok S base n zs t" "ooo_queue_drain w t = (w', t', out)"
  shows "\<exists>m zs'. n \<le> m \<and> rcv_ok S base m zs' t' \<and> m + uint (rcv_wnd t') = n + uint (rcv_wnd t) \<and>
    unread t' = unread t @ stream S n m"
proof -
  obtain ok w1 t1 out1 where l: "ooo_drain_loop w t (map fst zs) = (ok, w1, t1, out1)" by (metis prod_cases4)
  have "rcv_ooo_queue t = map fst zs" using assms(1) by (simp add: rcv_ok_def)
  then have "rcv_ooo_queue t' = rcv_ooo_queue t1 \<and> rcv_nxt t' = rcv_nxt t1 \<and> rcv_wnd t' = rcv_wnd t1 \<and> rxq t' = rxq t1"
    using assms(2) l by (auto simp: ooo_queue_drain_def Let_def split: if_splits)
  then have "rcv_ok S base m zs' t' = rcv_ok S base m zs' t1" "unread t' = unread t1" "rcv_wnd t' = rcv_wnd t1" for m zs'
    by (simp_all add: rcv_ok_def rxq_ok_def unread_def)
  then show ?thesis using ooo_drain_loop_spec [OF assms(1) l] by simp
qed

section \<open>Inserting a segment\<close>

text \<open>Dropping and cutting against the packets that follow.\<close>

lemma filter_id_mid:
  assumes "distinct (map zid (xs @ z # ys))"
  shows "filter (\<lambda>q. pkt_id q \<noteq> pkt_id (fst z)) (map fst (xs @ z # ys)) = map fst (xs @ ys)"
proof -
  have "filter (\<lambda>q. pkt_id q \<noteq> pkt_id (fst z)) (map fst us) = map fst us" if "zid z \<notin> zid ` set us" for us
  proof (intro filter_True ballI)
    fix q assume "q \<in> set (map fst us)"
    then obtain u where "u \<in> set us" "q = fst u" by auto
    then show "pkt_id q \<noteq> pkt_id (fst z)" using that by (metis imageI zid_def)
  qed
  then show ?thesis using assms by (auto simp: image_iff)
qed

lemma sint_pos_diff:
  assumes "\<bar>x - y\<bar> < 2 ^ 31"
  shows "sint (base + word_of_int x - (base + word_of_int y) :: u32) = x - y"
  using sint_seq_diff [OF assms] .

lemma ooo_trim_next_spec:
  assumes "rcv_ooo_queue t = map fst (before @ after)" "ooo_ok S base n R (before @ after)" "seg_at S base p x"
    "\<forall>z\<in>set after. x \<le> snd z" "n \<le> x" "x \<le> R" "R - n < 2 ^ 30" "ooo_trim_next w t p (map fst after) = (w', t', p')"
  shows "\<exists>after'. rcv_ooo_queue t' = map fst (before @ after') \<and> ooo_ok S base n R (before @ after') \<and>
    seg_at S base p' x \<and> pkt_id p' = pkt_id p \<and> set after' \<subseteq> set after \<and> (\<forall>z\<in>set after'. x + plen p' \<le> snd z) \<and>
    rcv_nxt t' = rcv_nxt t \<and> rcv_wnd t' = rcv_wnd t \<and> rxq t' = rxq t"
  using assms
proof (induction after arbitrary: w t)
  case Nil
  then show ?case by (intro exI [of _ "[]"]) auto
next
  case (Cons z zs)
  let ?y = "snd z" and ?q = "fst z"
  have z: "seg_at S base ?q ?y" "0 < plen ?q" "n \<le> ?y" "?y + plen ?q \<le> R" "x \<le> ?y"
    using Cons.prems(2,4) by (auto simp: ooo_ok_def placed_ok_def)
  have zs: "\<forall>y\<in>set zs. ?y + plen ?q \<le> snd y" using Cons.prems(2) by (auto simp: ooo_ok_def sorted_wrt_append ahead_def)
  define c where "c = x + plen p - ?y"
  have c: "sint (pkt_seq p + ucast (pkt_len p) - pkt_seq ?q) = c"
  proof -
    have "R - n < 1073741824" using Cons.prems(7) by simp
    then have "\<bar>x + plen p - ?y\<bar> < 2147483648" using z Cons.prems(5,6) plen_bounds [of p] by linarith
    then show ?thesis 
      using sint_pos_diff [of "x + plen p" ?y base] z(1) unfolding seg_at_end [OF Cons.prems(3)] c_def seg_at_def by simp
  qed
  have cw: "pkt_seq p + ucast (pkt_len p) - pkt_seq ?q = word_of_int c"
    unfolding seg_at_end [OF Cons.prems(3)] using z(1) by (simp add: seg_at_def c_def)
  have eq: "ooo_trim_next w t p (map fst (z # zs)) = (if c \<le> 0 then (w, t, p)
      else if c < plen ?q then (w, t, tcp_packet_cut p (word_of_int c) CUT_TAIL)
      else ooo_trim_next (packet_free (fst (tsock_remove_ooo_pkt w t ?q)) ?q) (snd (tsock_remove_ooo_pkt w t ?q)) p (map fst zs))"
    using c unfolding cw by (simp add: Let_def cw plen_def split_beta)
  consider (keep) "c \<le> 0" | (cut) "0 < c" "c < plen ?q" | (drop) "plen ?q \<le> c" "0 < c" using z(2) by linarith
  then show ?case
  proof cases
    case keep
    then have r: "t' = t" "p' = p" using Cons.prems(8) eq by simp_all
    have "x + plen p \<le> ?y" using keep by (simp add: c_def)
    then have "\<forall>y\<in>set (z # zs). x + plen p \<le> snd y" using zs z(2) by fastforce
    then show ?thesis using Cons.prems(1-3) r by (intro exI [of _ "z # zs"]) simp
  next
    case cut
    have ct: "0 \<le> c" "c \<le> plen p" using cut(1) z(5) by (simp_all add: c_def)
    have r: "t' = t" "p' = tcp_packet_cut p (word_of_int c) CUT_TAIL"
      using Cons.prems(8) eq cut by simp_all
    note s = seg_at_cut(2,3) [OF Cons.prems(3) ct]
    have "\<forall>y\<in>set (z # zs). x + plen p' \<le> snd y" using zs z(2) s r(2) by (fastforce simp: c_def)
    then show ?thesis using r s Cons.prems(1,2) by (intro exI [of _ "z # zs"]) simp
  next
    case drop
    let ?t = "snd (tsock_remove_ooo_pkt w t ?q)"
    have q1: "rcv_ooo_queue ?t = map fst (before @ zs)"
      using filter_id_mid [of before z zs] Cons.prems(1,2) by (simp add: ooo_ok_def)
    have o1: "ooo_ok S base n R (before @ zs)" using Cons.prems(2) by (auto simp: ooo_ok_def sorted_wrt_append)
    obtain w1 where d: "ooo_trim_next w1 ?t p (map fst zs) = (w', t', p')"
      using Cons.prems(8) eq drop by simp
    from Cons.IH [OF q1 o1 Cons.prems(3) _ Cons.prems(5-7) d] Cons.prems(4)
    show ?thesis by auto
  qed
qed

lemma ooo_insert_after_mid:
  "distinct (map zid (xs @ z # ys)) \<Longrightarrow>
   ooo_insert_after (pkt_id (fst z)) p (map fst (xs @ z # ys)) = map fst (xs @ [z]) @ p # map fst ys"
  by (induction xs) (auto simp: zid_def)

lemma ooo_queue_insert_queue:
  assumes "distinct (map zid (before @ after))" "prev = map_option fst (last_opt before)"
  shows "(case prev of Some pr \<Rightarrow> ooo_insert_after (pkt_id pr) p (map fst (before @ after))
    | None \<Rightarrow> p # map fst (before @ after)) = map fst (before @ (p, x) # after)"
proof (cases before rule: rev_cases)
  case Nil
  then show ?thesis using assms(2) by (simp add: last_opt_def)
next
  case (snoc xs z)
  then show ?thesis using assms ooo_insert_after_mid [of xs z after p] by (simp add: last_opt_def)
qed

lemma ooo_ok_insert:
  assumes "ooo_ok S base n R (before @ after)" "placed_ok S base n R (p, x)" "zid (p, x) \<notin> zid ` set (before @ after)"
    "\<forall>z\<in>set before. ahead z (p, x)" "\<forall>z\<in>set after. ahead (p, x) z"
  shows "ooo_ok S base n R (before @ (p, x) # after)"
  using assms by (auto simp: ooo_ok_def sorted_wrt_append)

text \<open>A place in the queue for a segment: what is before it ends before it starts, what is after
  it starts after its end.\<close>

definition ooo_gap :: "placed list \<Rightarrow> placed list \<Rightarrow> packet \<Rightarrow> int \<Rightarrow> bool" where
  "ooo_gap before after p x \<longleftrightarrow> (\<forall>z\<in>set before. snd z + plen (fst z) \<le> x) \<and> (\<forall>z\<in>set after. x + plen p \<le> snd z)"

definition same_rcv :: "tcp_sock \<Rightarrow> tcp_sock \<Rightarrow> bool" where
  "same_rcv t t' \<longleftrightarrow> rcv_nxt t' = rcv_nxt t \<and> rcv_wnd t' = rcv_wnd t \<and> rxq t' = rxq t"

lemma ooo_queue_insert_spec:
  assumes ok: "rcv_ok S base n (before @ after) t" and p: "seg_at S base p x" and gap: "ooo_gap before after p x"
    and x: "n \<le> x" "x \<le> n + uint (rcv_wnd t)" and id: "pkt_id p \<notin> zid ` set (before @ after)"
    and prev: "prev = map_option fst (last_opt before)"
    and e: "ooo_queue_insert E w t prev p = (e, w', t', p')"
  shows "\<exists>zs'. rcv_ok S base n zs' t' \<and> same_rcv t t'"
proof -
  let ?R = "n + uint (rcv_wnd t)"
  have r: "rcv_nxt t = base + word_of_int n" "rcv_ooo_queue t = map fst (before @ after)" "ooo_ok S base n ?R (before @ after)"
    "uint (rcv_wnd t) < 2 ^ 30" "rxq_ok t" using ok by (simp_all add: rcv_ok_def)
  define c where "c = x + plen p - ?R"
  have R: "rcv_nxt t + rcv_wnd t = base + word_of_int ?R" using r(1) by simp
  have cw: "pkt_seq p + ucast (pkt_len p) - (rcv_nxt t + rcv_wnd t) = word_of_int c"
    unfolding R seg_at_end [OF p] by (simp add: c_def)
  have sc: "sint (word_of_int c :: u32) = c"
  proof (rule sint_word_of_int_small)
    have "uint (rcv_wnd t) < 1073741824" "0 \<le> uint (rcv_wnd t)" using r(4) by simp_all
    then show "- (2 ^ 31) \<le> c" "c < 2 ^ 31" using x plen_bounds [of p] by (simp_all add: c_def)
  qed
  define p1 where "p1 = (if c > 0 then tcp_packet_cut p (word_of_int c) CUT_TAIL else p)"
  have p1: "seg_at S base p1 x" "plen p1 = min (plen p) (?R - x)" "pkt_id p1 = pkt_id p"
  proof -
    have "seg_at S base p1 x \<and> plen p1 = min (plen p) (?R - x)"
    proof (cases "c > 0")
      case True
      then show ?thesis using seg_at_cut(2,3) [OF p, of c] x(2) by (simp add: p1_def c_def min_def)
    qed (use p in \<open>simp add: p1_def c_def min_def\<close>)
    then show "seg_at S base p1 x" "plen p1 = min (plen p) (?R - x)" by auto
  qed (simp add: p1_def)
  define q where "q = (case prev of Some pr \<Rightarrow> ooo_insert_after (pkt_id pr) p1 (rcv_ooo_queue t) | None \<Rightarrow> p1 # rcv_ooo_queue t)"
  have "e \<noteq> None \<and> t' = t \<or> 0 < plen p1 \<and> rcv_ooo_queue t' = q \<and> same_rcv t t'"
    using e unfolding ooo_queue_insert_def cw sc Let_def p1_def [symmetric] q_def [symmetric]
    by (auto simp: same_rcv_def plen_pos split: if_splits)
  then show ?thesis
  proof (elim disjE conjE)
    assume "t' = t"
    then show ?thesis using ok by (auto simp: same_rcv_def)
  next
    assume a: "0 < plen p1" "rcv_ooo_queue t' = q" "same_rcv t t'"
    have q: "q = map fst (before @ (p1, x) # after)"
      unfolding q_def r(2) using r(3) prev by (intro ooo_queue_insert_queue) (simp_all add: ooo_ok_def)
    have "ooo_ok S base n ?R (before @ (p1, x) # after)"
    proof (rule ooo_ok_insert [OF r(3)])
      show "placed_ok S base n ?R (p1, x)" using p1 a(1) x by (simp add: placed_ok_def)
      show "zid (p1, x) \<notin> zid ` set (before @ after)" using id p1(3) by (simp add: zid_def)
      show "\<forall>z\<in>set before. ahead z (p1, x)" "\<forall>z\<in>set after. ahead (p1, x) z"
        using gap p1(2) by (force simp: ooo_gap_def ahead_def)+
    qed
    then have "rcv_ok S base n (before @ (p1, x) # after) t'"
      using r a q by (simp add: rcv_ok_def same_rcv_def rxq_ok_def)
    then show ?thesis using a(3) by blast
  qed
qed

lemma same_rcv_trans: "same_rcv a b \<Longrightarrow> same_rcv b c \<Longrightarrow> same_rcv a c"
  by (simp add: same_rcv_def)

lemma rcv_ok_same:
  "rcv_ok S base n zs t \<Longrightarrow> same_rcv t t' \<Longrightarrow> rcv_ooo_queue t' = map fst zs' \<Longrightarrow>
   ooo_ok S base n (n + uint (rcv_wnd t)) zs' \<Longrightarrow> rcv_ok S base n zs' t'"
  by (simp add: rcv_ok_def same_rcv_def rxq_ok_def)

lemma rcv_ok_placed:
  assumes "rcv_ok S base n zs t" "z \<in> set zs"
  shows "seg_at S base (fst z) (snd z)" "0 < plen (fst z)" "n \<le> snd z" "snd z + plen (fst z) \<le> n + uint (rcv_wnd t)"
  using assms by (auto simp: rcv_ok_def ooo_ok_def placed_ok_def)

lemma rcv_wnd_small: "rcv_ok S base n zs t \<Longrightarrow> 0 \<le> uint (rcv_wnd t) \<and> uint (rcv_wnd t) < 1073741824"
  by (simp add: rcv_ok_def)

text \<open>Where the scan of the queue stops.\<close>

lemma ooo_split:
  assumes ok: "rcv_ok S base n zs t" and p: "seg_at S base p x" and x: "n \<le> x" "x \<le> n + uint (rcv_wnd t)"
  defines "before \<equiv> takeWhile (\<lambda>z. snd z \<le> x) zs" and "after \<equiv> dropWhile (\<lambda>z. snd z \<le> x) zs"
  shows "takeWhile (\<lambda>q. \<not> seq_gt (pkt_seq q) (pkt_seq p)) (rcv_ooo_queue t) = map fst before"
    "dropWhile (\<lambda>q. \<not> seq_gt (pkt_seq q) (pkt_seq p)) (rcv_ooo_queue t) = map fst after"
    "zs = before @ after" "\<forall>z\<in>set before. snd z \<le> x" "\<forall>z\<in>set after. x < snd z"
proof -
  have gt: "(\<not> seq_gt (pkt_seq (fst z)) (pkt_seq p)) = (snd z \<le> x)" if z: "z \<in> set zs" for z
  proof -
    have "\<bar>snd z - x\<bar> < 2147483648" using rcv_ok_placed [OF ok z] rcv_wnd_small [OF ok] x by linarith
    then show ?thesis using seq_pos(3) [of "snd z" x base] rcv_ok_placed(1) [OF ok z] p by (auto simp: seg_at_def)
  qed
  have "rcv_ooo_queue t = map fst zs" using ok by (simp add: rcv_ok_def)
  then show "takeWhile (\<lambda>q. \<not> seq_gt (pkt_seq q) (pkt_seq p)) (rcv_ooo_queue t) = map fst before"
    "dropWhile (\<lambda>q. \<not> seq_gt (pkt_seq q) (pkt_seq p)) (rcv_ooo_queue t) = map fst after"
    using gt takeWhile_cong [OF refl, of zs "(\<lambda>q. \<not> seq_gt (pkt_seq q) (pkt_seq p)) \<circ> fst" "\<lambda>z. snd z \<le> x"]
      dropWhile_cong [OF refl, of zs "(\<lambda>q. \<not> seq_gt (pkt_seq q) (pkt_seq p)) \<circ> fst" "\<lambda>z. snd z \<le> x"]
    by (simp_all add: takeWhile_map dropWhile_map before_def after_def)
  show zs: "zs = before @ after" by (simp add: before_def after_def)
  show "\<forall>z\<in>set before. snd z \<le> x" by (auto simp: before_def dest: set_takeWhileD)
  show "\<forall>z\<in>set after. x < snd z"
  proof (cases after)
    case (Cons a as)
    then have "x < snd a" unfolding after_def by (metis dropWhile_eq_Cons_conv not_le)
    moreover have "ooo_ok S base n (n + uint (rcv_wnd t)) (before @ a # as)" using ok zs Cons by (simp add: rcv_ok_def)
    then have "\<forall>z\<in>set as. snd a + plen (fst a) \<le> snd z" by (simp add: ooo_ok_def sorted_wrt_append ahead_def)
    ultimately show ?thesis using Cons plen_bounds(1) [of "fst a"] by fastforce
  qed simp
qed

text \<open>Trimming against what follows and inserting.\<close>

lemma ooo_trim_insert:
  assumes ok: "rcv_ok S base n (before @ after) t" and p: "seg_at S base p x"
    and b: "\<forall>z\<in>set before. snd z + plen (fst z) \<le> x" and a: "\<forall>z\<in>set after. x \<le> snd z"
    and x: "n \<le> x" "x \<le> n + uint (rcv_wnd t)" and id: "pkt_id p \<notin> zid ` set (before @ after)"
    and tr: "ooo_trim_next w t p (map fst after) = (w1, t1, p1)"
    and e: "ooo_queue_insert E w1 t1 (map_option fst (last_opt before)) p1 = (e, w', t', p')"
  shows "\<exists>zs'. rcv_ok S base n zs' t' \<and> same_rcv t t'"
proof -
  let ?R = "n + uint (rcv_wnd t)"
  have q: "rcv_ooo_queue t = map fst (before @ after)" "ooo_ok S base n ?R (before @ after)" "?R - n < 2 ^ 30"
    using ok by (simp_all add: rcv_ok_def)
  from ooo_trim_next_spec [OF q(1,2) p a x q(3) tr] obtain after' where
    t1: "rcv_ooo_queue t1 = map fst (before @ after')" "ooo_ok S base n ?R (before @ after')" "seg_at S base p1 x"
    "pkt_id p1 = pkt_id p" "set after' \<subseteq> set after" "\<forall>z\<in>set after'. x + plen p1 \<le> snd z" "same_rcv t t1"
    unfolding same_rcv_def by blast
  have ok1: "rcv_ok S base n (before @ after') t1" by (rule rcv_ok_same [OF ok t1(7,1,2)])
  have "ooo_gap before after' p1 x" using b t1(6) by (simp add: ooo_gap_def)
  moreover have "x \<le> n + uint (rcv_wnd t1)" using x(2) t1(7) by (simp add: same_rcv_def)
  moreover have "pkt_id p1 \<notin> zid ` set (before @ after')" using id t1(4,5) by auto
  ultimately show ?thesis
    using ooo_queue_insert_spec [OF ok1 t1(3) _ x(1) _ _ refl e] same_rcv_trans [OF t1(7)] by blast
qed

end
