(* ===== verification/Rcv_Stream.thy ===== *)
theory Rcv_Stream
  imports Rcv_Ooo
begin

text \<open>
  What the application reads is what the peer sent: receiving segments and reading move bytes
  along the stream without losing, duplicating or reordering any.
\<close>

section \<open>Receiving a segment\<close>

lemma last_opt_map: "last_opt (map f xs) = map_option f (last_opt xs)"
  by (simp add: last_opt_def last_map)

text \<open>The part of \<open>tcp_rcv_data_ooo\<close> after the scan, for a packet whose predecessor is the last
  of \<open>before\<close>.\<close>

lemma ooo_after_prev:
  assumes ok: "rcv_ok S base n (pre @ z # after) t" and p: "seg_at S base p x"
    and zx: "snd z \<le> x" and a: "\<forall>y\<in>set after. x < snd y"
    and x: "n \<le> x" "x \<le> n + uint (rcv_wnd t)" and id: "pkt_id p \<notin> zid ` set (pre @ z # after)"
    and e: "(if pkt_seq p = pkt_seq (fst z) \<and> pkt_len p > pkt_len (fst z)
      then (let (w1, t1) = tsock_remove_ooo_pkt w t (fst z);
                (w2, t2, p2) = ooo_trim_next (packet_free w1 (fst z)) t1 p (map fst after)
            in ooo_queue_insert E w2 t2 (last_opt (map fst pre)) p2)
      else (let to_cut = pkt_seq (fst z) + ucast (pkt_len (fst z)) - pkt_seq p
            in if sint to_cut > 0 \<and> sint to_cut \<ge> uint (pkt_len p)
               then (Some ERR_TCP_RCV_OOO_DUP, w, t, p)
               else (let p1 = (if sint to_cut > 0 then tcp_packet_cut p to_cut CUT_HEAD else p);
                         (w2, t2, p2) = ooo_trim_next w t p1 (map fst after)
                     in ooo_queue_insert E w2 t2 (Some (fst z)) p2))) = (e, w', t', p')"
  shows "\<exists>zs'. rcv_ok S base n zs' t' \<and> same_rcv t t'"
proof -
  let ?R = "n + uint (rcv_wnd t)"
  have q: "rcv_ooo_queue t = map fst (pre @ z # after)" "ooo_ok S base n ?R (pre @ z # after)"
    using ok by (simp_all add: rcv_ok_def)
  have z: "seg_at S base (fst z) (snd z)" "0 < plen (fst z)" "n \<le> snd z" "snd z + plen (fst z) \<le> ?R"
    using rcv_ok_placed [OF ok, of z] by simp_all
  have pre: "\<forall>y\<in>set pre. snd y + plen (fst y) \<le> snd z" and aft: "\<forall>y\<in>set after. snd z + plen (fst z) \<le> snd y"
    using q(2) by (auto simp: ooo_ok_def sorted_wrt_append ahead_def)
  show ?thesis
  proof (cases "pkt_seq p = pkt_seq (fst z) \<and> pkt_len p > pkt_len (fst z)")
    case True
    let ?t1 = "snd (tsock_remove_ooo_pkt w t (fst z))"
    obtain w1 w2 t2 p2 where d: "ooo_trim_next w1 ?t1 p (map fst after) = (w2, t2, p2)"
      "ooo_queue_insert E w2 t2 (map_option fst (last_opt pre)) p2 = (e, w', t', p')"
      using e True by (auto simp: Let_def last_opt_map split: prod.splits)
    have "rcv_ooo_queue ?t1 = map fst (pre @ after)" using filter_id_mid [of pre z after] q by (simp add: ooo_ok_def)
    moreover have "ooo_ok S base n ?R (pre @ after)" using q(2) by (auto simp: ooo_ok_def sorted_wrt_append)
    moreover have s1: "same_rcv t ?t1" by (simp add: same_rcv_def)
    ultimately have ok1: "rcv_ok S base n (pre @ after) ?t1" using rcv_ok_same [OF ok] by blast
    have "\<forall>y\<in>set pre. snd y + plen (fst y) \<le> x" "\<forall>y\<in>set after. x \<le> snd y" using pre zx a by auto
    moreover have "x \<le> n + uint (rcv_wnd ?t1)" "pkt_id p \<notin> zid ` set (pre @ after)" using x(2) id by auto
    ultimately show ?thesis
      using ooo_trim_insert [OF ok1 p _ _ x(1) _ _ d] same_rcv_trans [OF s1] by blast
  next
    case False
    define c where "c = snd z + plen (fst z) - x"
    have cw: "pkt_seq (fst z) + ucast (pkt_len (fst z)) - pkt_seq p = word_of_int c"
      unfolding seg_at_end [OF z(1)] using p by (simp add: seg_at_def c_def)
    have sc: "sint (word_of_int c :: u32) = c"
    proof (rule sint_word_of_int_small)
      show "- (2 ^ 31) \<le> c" "c < 2 ^ 31" using z(2-4) x rcv_wnd_small [OF ok] by (simp_all add: c_def)
    qed
    define p1 where "p1 = (if c > 0 then tcp_packet_cut p (word_of_int c) CUT_HEAD else p)"
    show ?thesis
    proof (cases "c > 0 \<and> c \<ge> uint (pkt_len p)")
      case True
      then have "t' = t" using e False unfolding cw by (simp add: sc Let_def)
      then show ?thesis using ok by (auto simp: same_rcv_def)
    next
      case F2: False
      let ?x = "max x (snd z + plen (fst z))"
      have p1: "seg_at S base p1 ?x" "pkt_id p1 = pkt_id p"
        using p seg_at_cut(1) [OF p, of c] F2 by (auto simp: p1_def c_def plen_def max_def)
      obtain w2 t2 p2 where d: "ooo_trim_next w t p1 (map fst after) = (w2, t2, p2)"
        "ooo_queue_insert E w2 t2 (Some (fst z)) p2 = (e, w', t', p')"
        using e False F2 unfolding cw by (auto simp: sc Let_def p1_def split: prod.splits)
      have ok': "rcv_ok S base n ((pre @ [z]) @ after) t" using ok by simp
      have "\<forall>y\<in>set (pre @ [z]). snd y + plen (fst y) \<le> ?x" using pre z(2) zx by fastforce
      moreover have "\<forall>y\<in>set after. ?x \<le> snd y" using a aft by fastforce
      moreover have "n \<le> ?x" "?x \<le> ?R" using x z(4) by simp_all
      moreover have "pkt_id p1 \<notin> zid ` set ((pre @ [z]) @ after)" using id p1(2) by simp
      moreover have "Some (fst z) = map_option fst (last_opt (pre @ [z]))" by (simp add: last_opt_def)
      ultimately show ?thesis using ooo_trim_insert [OF ok' p1(1)] d by metis
    qed
  qed
qed

lemma tcp_rcv_data_ooo_spec:
  assumes ok: "rcv_ok S base n zs t" and p: "seg_at S base p x" and x: "n \<le> x" "x \<le> n + uint (rcv_wnd t)"
    and id: "pkt_id p \<notin> zid ` set zs" and e: "tcp_rcv_data_ooo E w t p = (e, w', t', p')"
  shows "\<exists>zs'. rcv_ok S base n zs' t' \<and> same_rcv t t'"
proof -
  define t1 where "t1 = (if nr_ooo_pkt t = 0 then t\<lparr>ooo_start_ts := ucast (ts_us w)\<rparr> else t)"
  have s1: "same_rcv t t1" by (simp add: t1_def same_rcv_def)
  have q1: "rcv_ooo_queue t1 = map fst zs" using ok by (simp add: t1_def rcv_ok_def)
  have ok1: "rcv_ok S base n zs t1" using ok by (intro rcv_ok_same [OF ok s1 q1]) (simp add: rcv_ok_def)
  have x1: "x \<le> n + uint (rcv_wnd t1)" using x(2) s1 by (simp add: same_rcv_def)
  have lift: "\<exists>zs'. rcv_ok S base n zs' t' \<and> same_rcv t t'" if "\<exists>zs'. rcv_ok S base n zs' t' \<and> same_rcv t1 t'"
    using that same_rcv_trans [OF s1] by blast
  show ?thesis
  proof (cases "ooo_predict t1 p")
    case (Some prev)
    then have zs: "zs \<noteq> []" "prev = fst (last zs)" "pkt_seq (fst (last zs)) + ucast (pkt_len (fst (last zs))) = pkt_seq p"
      using q1 by (auto simp: ooo_predict_def last_map split: if_splits)
    have lz: "last zs \<in> set zs" using zs(1) by simp
    note z = rcv_ok_placed [OF ok1 lz]
    have xe: "snd (last zs) + plen (fst (last zs)) = x"
    proof -
      let ?e = "snd (last zs) + plen (fst (last zs))"
      have "\<bar>?e - x\<bar> < 2147483648" using z x(1) x1 rcv_wnd_small [OF ok1] by linarith
      then have d: "\<bar>?e - x\<bar> < 2 ^ 31" by simp
      have "base + word_of_int ?e = base + word_of_int x" using zs(3) p seg_at_end [OF z(1)] unfolding seg_at_def by metis
      then show ?thesis using word_of_int_inj_pos [OF d, of base] by blast
    qed
    have b: "\<forall>y\<in>set zs. snd y + plen (fst y) \<le> x" 
    proof -
      obtain us u where u: "zs = us @ [u]" using zs(1) by (cases zs rule: rev_cases) auto
      then have "\<forall>y\<in>set us. snd y + plen (fst y) \<le> snd u" using ok1 by (simp add: rcv_ok_def ooo_ok_def sorted_wrt_append ahead_def)
      moreover have "snd u \<le> x" "snd u + plen (fst u) = x" using u xe z(2) by simp_all
      ultimately show ?thesis using u by fastforce
    qed
    have "\<exists>zs'. rcv_ok S base n zs' t' \<and> same_rcv t1 t'"
    proof (rule ooo_queue_insert_spec [of S base n zs "[]" t1 p x "Some prev" E w e w' t' p'])
      show "ooo_gap zs [] p x" using b by (simp add: ooo_gap_def)
      show "Some prev = map_option fst (last_opt zs)" using zs by (simp add: last_opt_def)
      show "ooo_queue_insert E w t1 (Some prev) p = (e, w', t', p')"
        using e Some by (simp add: tcp_rcv_data_ooo_def t1_def [symmetric] Let_def)
    qed (use ok1 p x(1) x1 id in simp_all)
    then show ?thesis by (rule lift)
  next
    case None
    define before after where "before = takeWhile (\<lambda>z. snd z \<le> x) zs" and "after = dropWhile (\<lambda>z. snd z \<le> x) zs"
    note sp = ooo_split [OF ok1 p x(1) x1, folded before_def after_def]
    have e1: "(case last_opt (map fst before) of
        None \<Rightarrow> (let (w1, t2, p1) = ooo_trim_next w t1 p (map fst after) in ooo_queue_insert E w1 t2 None p1)
      | Some prev \<Rightarrow>
         if pkt_seq p = pkt_seq prev \<and> pkt_len p > pkt_len prev
         then (let (w1, t2) = tsock_remove_ooo_pkt w t1 prev;
                   (w2, t2, p2) = ooo_trim_next (packet_free w1 prev) t2 p (map fst after)
               in ooo_queue_insert E w2 t2 (last_opt (butlast (map fst before))) p2)
         else (let to_cut = pkt_seq prev + ucast (pkt_len prev) - pkt_seq p
               in if sint to_cut > 0 \<and> sint to_cut \<ge> uint (pkt_len p)
                  then (Some ERR_TCP_RCV_OOO_DUP, w, t1, p)
                  else (let p1 = (if sint to_cut > 0 then tcp_packet_cut p to_cut CUT_HEAD else p);
                            (w2, t2, p2) = ooo_trim_next w t1 p1 (map fst after)
                        in ooo_queue_insert E w2 t2 (Some prev) p2))) = (e, w', t', p')"
      using e None by (simp only: tcp_rcv_data_ooo_def t1_def [symmetric] Let_def sp(1,2) option.case)
    show ?thesis
    proof (rule lift, cases before rule: rev_cases)
      case Nil
      obtain w1 t2 p1 where d: "ooo_trim_next w t1 p (map fst after) = (w1, t2, p1)"
        "ooo_queue_insert E w1 t2 (map_option fst (last_opt before)) p1 = (e, w', t', p')"
        using e1 Nil by (auto simp: last_opt_def split: prod.splits)
      show "\<exists>zs'. rcv_ok S base n zs' t' \<and> same_rcv t1 t'"
        using ooo_trim_insert [OF _ p _ _ x(1) x1 _ d] ok1 sp(3,5) id Nil by fastforce
    next
      case (snoc pre z)
      have "rcv_ok S base n (pre @ z # after) t1" "snd z \<le> x" "pkt_id p \<notin> zid ` set (pre @ z # after)"
        using ok1 sp(3,4) id snoc by auto
      note a = ooo_after_prev [OF this(1) p this(2) sp(5) x(1) x1 this(3)]
      have bl: "last_opt (map fst before) = Some (fst z)" "butlast (map fst before) = map fst pre"
        using snoc by (simp_all add: last_opt_def)
      show "\<exists>zs'. rcv_ok S base n zs' t' \<and> same_rcv t1 t'"
        by (rule a [OF e1 [unfolded bl option.case]])
    qed
  qed
qed

lemma tsock_set_ack_flag_sel [simp]:
  "rcv_nxt (tsock_set_ack_flag E t f) = rcv_nxt t" "rcv_wnd (tsock_set_ack_flag E t f) = rcv_wnd t"
  "rxq (tsock_set_ack_flag E t f) = rxq t" "rcv_ooo_queue (tsock_set_ack_flag E t f) = rcv_ooo_queue t"
  "rcv_nxt (tsock_reset_quickack t) = rcv_nxt t" "rcv_wnd (tsock_reset_quickack t) = rcv_wnd t"
  "rxq (tsock_reset_quickack t) = rxq t" "rcv_ooo_queue (tsock_reset_quickack t) = rcv_ooo_queue t"
  by (simp_all add: tsock_set_ack_flag_def tsock_reset_quickack_def Let_def)

lemma rcv_ok_flag [simp]:
  "rcv_ok S base n zs (tsock_set_ack_flag E t f) = rcv_ok S base n zs t"
  "rcv_ok S base n zs (tsock_reset_quickack t) = rcv_ok S base n zs t"
  "unread (tsock_set_ack_flag E t f) = unread t" "unread (tsock_reset_quickack t) = unread t"
  by (simp_all add: rcv_ok_def rxq_ok_def unread_def)

text \<open>A segment that \<open>validate_seq\<close> accepts overlaps the receive window.\<close>

lemma validate_seq_pos:
  assumes ok: "rcv_ok S base n zs t" and p: "seg_at S base p x" and far: "\<bar>x - n\<bar> < 2 ^ 30"
    and v: "validate_seq t p = None" and len: "pkt_len p \<noteq> 0"
  shows "n < x + plen p" "x < n + uint (rcv_wnd t)"
proof -
  have nx: "rcv_nxt t = base + word_of_int n" using ok by (simp add: rcv_ok_def)
  have R: "rcv_nxt t + rcv_wnd t = base + word_of_int (n + uint (rcv_wnd t))" using nx by simp
  have f: "\<bar>x - n\<bar> < 1073741824" using far by simp
  have "\<bar>x + plen p - n\<bar> < 2147483648" "\<bar>x - (n + uint (rcv_wnd t))\<bar> < 2147483648"
    using f plen_bounds [of p] rcv_wnd_small [OF ok] by linarith+
  then have d: "\<bar>x + plen p - n\<bar> < 2 ^ 31" "\<bar>x - (n + uint (rcv_wnd t))\<bar> < 2 ^ 31" by simp_all
  have v2: "\<not> seq_le (pkt_seq p + ucast (pkt_len p)) (rcv_nxt t)" "\<not> seq_ge (pkt_seq p) (rcv_nxt t + rcv_wnd t)"
    using v len by (auto simp: validate_seq_def Let_def split: if_splits)
  show "n < x + plen p" using v2(1) seq_pos(2) [OF d(1), of base] unfolding nx seg_at_end [OF p] by linarith
  show "x < n + uint (rcv_wnd t)" using v2(2) seq_pos(4) [OF d(2), of base] p unfolding R seg_at_def by simp
qed

definition rcv_moves :: "(int \<Rightarrow> u8) \<Rightarrow> u32 \<Rightarrow> int \<Rightarrow> tcp_sock \<Rightarrow> tcp_sock \<Rightarrow> bool" where
  "rcv_moves S base n t t' \<longleftrightarrow> (\<exists>m zs'. n \<le> m \<and> rcv_ok S base m zs' t' \<and> m + uint (rcv_wnd t') = n + uint (rcv_wnd t) \<and>
     unread t' = unread t @ stream S n m)"

lemma tcp_rcv_enqueue_moves:
  assumes ok: "rcv_ok S base n zs t" and p: "seg_at S base p n"
    and h: "\<not> (rcv_ooo_queue t \<noteq> [] \<and> seq_ge (pkt_seq p + ucast (pkt_len p)) (pkt_seq (hd (rcv_ooo_queue t))))"
    and e: "tcp_rcv_enqueue w t p = (e, w', t', p')"
  shows "rcv_moves S base n t t'"
proof -
  have r: "rcv_nxt t = base + word_of_int n" "rcv_ooo_queue t = map fst zs" "ooo_ok S base n (n + uint (rcv_wnd t)) zs" "rxq_ok t"
    "uint (rcv_wnd t) < 2 ^ 30" using ok by (simp_all add: rcv_ok_def)
  define m where "m = (if e = None then n + plen p' else n)"
  have sp: "plen p' \<le> plen p" "plen p' \<le> uint (rcv_wnd t)" "rcv_ooo_queue t' = rcv_ooo_queue t" "rxq_ok t'"
    "rcv_nxt t' = base + word_of_int m" "uint (rcv_wnd t') = uint (rcv_wnd t) - (m - n)" "unread t' = unread t @ stream S n m"
    using tcp_rcv_enqueue_spec [OF r(1) p r(4) e] by (auto simp: m_def)
  have m: "n \<le> m" "m \<le> n + plen p" using sp(1) plen_bounds(1) [of p'] plen_bounds(1) [of p] by (auto simp: m_def)
  have "ooo_ok S base m (n + uint (rcv_wnd t)) zs"
  proof (cases zs)
    case (Cons z zs')
    have z: "seg_at S base (fst z) (snd z)" "0 < plen (fst z)" "n \<le> snd z" "snd z + plen (fst z) \<le> n + uint (rcv_wnd t)"
      using rcv_ok_placed [OF ok, of z] Cons by simp_all
    have "\<bar>n + plen p - snd z\<bar> < 2147483648" using z plen_bounds [of p] rcv_wnd_small [OF ok] by linarith
    then have d: "\<bar>n + plen p - snd z\<bar> < 2 ^ 31" by simp
    have "\<not> seq_ge (pkt_seq p + ucast (pkt_len p)) (pkt_seq (fst z))" using h r(2) Cons by simp
    then have "n + plen p < snd z" using seq_pos(4) [OF d, of base] z(1) unfolding seg_at_end [OF p] seg_at_def by simp
    moreover have "\<forall>y\<in>set zs'. snd z \<le> snd y" using r(3) Cons z(2) by (fastforce simp: ooo_ok_def ahead_def)
    ultimately have "\<forall>y\<in>set zs. m \<le> snd y" using Cons m(2) by fastforce
    then show ?thesis using r(3) by (auto simp: ooo_ok_def placed_ok_def)
  qed (simp add: ooo_ok_def)
  moreover have R: "n + uint (rcv_wnd t) = m + uint (rcv_wnd t')" using sp(6) by simp
  ultimately have "ooo_ok S base m (m + uint (rcv_wnd t')) zs" by (simp only: R)
  moreover have "uint (rcv_wnd t') < 2 ^ 30" using R r(5) m(1) by simp
  ultimately have "rcv_ok S base m zs t'" using sp(3-5) r(2) by (simp add: rcv_ok_def)
  then show ?thesis unfolding rcv_moves_def using m(1) sp(6,7) by (intro exI [of _ m] exI [of _ zs]) simp
qed

lemma tcp_rcv_data_moves:
  assumes ok: "rcv_ok S base n zs t" and p: "seg_at S base p x" and far: "\<bar>x - n\<bar> < 2 ^ 30"
    and v: "validate_seq t p = None" and len: "pkt_len p \<noteq> 0" and id: "pkt_id p \<notin> pkt_id ` set (rcv_ooo_queue t)"
    and e: "tcp_rcv_data E w t p = (e, w', t', p')"
  shows "rcv_moves S base n t t'"
proof -
  note vp = validate_seq_pos [OF ok p far v len]
  have nx: "rcv_nxt t = base + word_of_int n" using ok by (simp add: rcv_ok_def)
  have d: "\<bar>x - n\<bar> < 2 ^ 31" using far by simp
  have lt: "seq_lt (pkt_seq p) (rcv_nxt t) \<longleftrightarrow> x < n" using seq_pos(1) [OF d, of base] p nx by (simp add: seg_at_def)
  have df: "rcv_nxt t - pkt_seq p = word_of_int (n - x)" using p nx by (simp add: seg_at_def)
  have short: "\<not> (x < n \<and> rcv_nxt t - pkt_seq p \<ge> ucast (pkt_len p))"
  proof (intro notI, elim conjE)
    assume "x < n" and ge: "rcv_nxt t - pkt_seq p \<ge> ucast (pkt_len p)"
    from ge have "uint (ucast (pkt_len p) :: u32) \<le> uint (word_of_int (n - x) :: u32)" unfolding df word_le_def .
    moreover have "uint (word_of_int (n - x) :: u32) = n - x"
      using \<open>x < n\<close> far by (simp only: uint_word_of_int) (simp add: take_bit_int_eq_self)
    ultimately show False using vp(1) by (simp add: plen_def uint_up_ucast is_up)
  qed
  define p1 where "p1 = (if x < n then tcp_packet_cut p (word_of_int (n - x)) CUT_HEAD else p)"
  let ?x = "max x n"
  have p1: "seg_at S base p1 ?x" "pkt_id p1 = pkt_id p"
    using p seg_at_cut(1) [OF p, of "n - x"] vp(1) by (auto simp: p1_def max_def)
  have x1: "n \<le> ?x" "?x \<le> n + uint (rcv_wnd t)" using vp(2) by auto
  have id1: "pkt_id p1 \<notin> zid ` set zs" using id p1(2) ok by (auto simp: rcv_ok_def zid_def image_image)
  have e1: "(if pkt_seq p1 = rcv_nxt t \<and>
        \<not> (rcv_ooo_queue t \<noteq> [] \<and> seq_ge (pkt_seq p1 + ucast (pkt_len p1)) (pkt_seq (hd (rcv_ooo_queue t))))
      then tcp_rcv_enqueue w (tsock_set_ack_flag E t 0) p1
      else (let t1 = tsock_set_ack_flag E (tsock_reset_quickack t) TSOCK_FLAG_ACK_NOW;
                (err, w2, t2, p2) = tcp_rcv_data_ooo E w t1 p1; (w3, t3, out) = ooo_queue_drain w2 t2
            in (err, w3, t3, drained_as out p2))) = (e, w', t', p')"
    using e len short unfolding tcp_rcv_data_def lt df [symmetric] p1_def by (simp add: Let_def)
  show ?thesis
  proof (cases "pkt_seq p1 = rcv_nxt t \<and>
        \<not> (rcv_ooo_queue t \<noteq> [] \<and> seq_ge (pkt_seq p1 + ucast (pkt_len p1)) (pkt_seq (hd (rcv_ooo_queue t))))")
    case True
    have "\<bar>?x - n\<bar> < 2 ^ 31" using far by auto
    then have "?x = n" using same_pos [OF _ p1(1), of n] True nx by simp
    then have "seg_at S base p1 n" using p1(1) by simp
    moreover have "tcp_rcv_enqueue w (tsock_set_ack_flag E t 0) p1 = (e, w', t', p')" using e1 unfolding if_P [OF True] .
    ultimately have "rcv_moves S base n (tsock_set_ack_flag E t 0) t'"
      using ok True by (intro tcp_rcv_enqueue_moves [of S base n zs]) auto
    then show ?thesis by (simp add: rcv_moves_def)
  next
    case False
    define t1 where "t1 = tsock_set_ack_flag E (tsock_reset_quickack t) TSOCK_FLAG_ACK_NOW"
    obtain err w2 t2 p2 where oo: "tcp_rcv_data_ooo E w t1 p1 = (err, w2, t2, p2)" by (metis prod_cases4)
    obtain w3 out where dr: "ooo_queue_drain w2 t2 = (w3, t', out)"
      using e1 [unfolded if_not_P [OF False]] oo by (auto simp: t1_def [symmetric] Let_def split: prod.splits)
    have ok1: "rcv_ok S base n zs t1" "?x \<le> n + uint (rcv_wnd t1)" "unread t1 = unread t" "rcv_wnd t1 = rcv_wnd t"
      using ok x1(2) by (simp_all add: t1_def)
    from tcp_rcv_data_ooo_spec [OF ok1(1) p1(1) x1(1) ok1(2) id1 oo] obtain zs' where
      ok2: "rcv_ok S base n zs' t2" and s2: "same_rcv t1 t2" by blast
    have "unread t2 = unread t" "rcv_wnd t2 = rcv_wnd t" using s2 ok1(3,4) by (simp_all add: same_rcv_def unread_def)
    then show ?thesis using ooo_queue_drain_spec [OF ok2 dr] by (simp add: rcv_moves_def)
  qed
qed

section \<open>Reading\<close>

definition read_bytes :: "read_iov list \<Rightarrow> u8 list" where
  "read_bytes iovs = concat (map (\<lambda>v. seg_bytes (riov_seg v)) iovs)"

lemma read_bytes_append [simp]: "read_bytes (a @ b) = read_bytes a @ read_bytes b"
  and read_bytes_Nil [simp]: "read_bytes [] = []"
  by (simp_all add: read_bytes_def)

text \<open>A position \<open>i\<close> in the chain from which the rest of the packet can be read.\<close>

definition rd_at :: "packet \<Rightarrow> nat \<Rightarrow> bool" where
  "rd_at p i \<longleftrightarrow> (\<forall>s\<in>set (drop i (pkt_segs p)). seg_ok s) \<and>
     (\<exists>k\<le>length (drop i (pkt_segs p)). segs_len (take k (drop i (pkt_segs p))) = unat (pkt_len p))"

definition bytes_at :: "packet \<Rightarrow> nat \<Rightarrow> u8 list" where
  "bytes_at p i = take (unat (pkt_len p)) (concat (map seg_bytes (drop i (pkt_segs p))))"

lemma rd_at_step:
  assumes "rd_at p i" "pkt_len p \<noteq> 0"
  defines "s \<equiv> pkt_segs p ! i" and "p1 \<equiv> p\<lparr>pkt_len := pkt_len p - seg_l5_len (pkt_segs p ! i)\<rparr>"
  shows "i < length (pkt_segs p)" "rd_at p1 (Suc i)" "bytes_at p i = seg_bytes s @ bytes_at p1 (Suc i)"
proof -
  let ?ss = "drop i (pkt_segs p)"
  obtain k where k: "k \<le> length ?ss" "segs_len (take k ?ss) = unat (pkt_len p)" using assms(1) by (auto simp: rd_at_def)
  have nz: "unat (pkt_len p) \<noteq> 0" using assms(2) by (simp add: unat_eq_zero)
  then have k0: "k \<noteq> 0" using k(2) by (cases k) auto
  then show i: "i < length (pkt_segs p)" using k(1) by simp
  then have ss: "?ss = s # drop (Suc i) (pkt_segs p)" by (simp add: s_def Cons_nth_drop_Suc)
  obtain j where j: "k = Suc j" using k0 by (cases k) auto
  have len: "unat (seg_l5_len s) + segs_len (take j (drop (Suc i) (pkt_segs p))) = unat (pkt_len p)" using k(2) ss j by simp
  have l1: "unat (pkt_len p1) = unat (pkt_len p) - unat (seg_l5_len s)"
    using len unfolding p1_def s_def by (simp add: unat_diff_le)
  show "rd_at p1 (Suc i)"
    using assms(1) k(1) ss j len l1 unfolding rd_at_def by (auto simp: p1_def intro!: exI [of _ j])
  show "bytes_at p i = seg_bytes s @ bytes_at p1 (Suc i)"
    using len l1 unfolding bytes_at_def ss by (simp add: p1_def take_append)
qed

lemma pkt_to_iov_loop_spec:
  assumes "rd_at p i" "pkt_to_iov_loop p i sz room acc = (p', i', sz', acc')"
  shows "\<exists>new. acc' = acc @ new \<and> bytes_at p i = read_bytes new @ bytes_at p' i' \<and> sz' = sz + length (read_bytes new) \<and>
    rd_at p' i' \<and> p' = p\<lparr>pkt_len := pkt_len p'\<rparr> \<and> length new \<le> room \<and> (pkt_len p' \<noteq> 0 \<longrightarrow> length new = room)"
  using assms
proof (induction room arbitrary: p i sz acc)
  case 0
  then show ?case by (intro exI [of _ "[]"]) auto
next
  case (Suc room)
  show ?case
  proof (cases "pkt_len p = 0")
    case True
    then show ?thesis using Suc.prems by (intro exI [of _ "[]"]) auto
  next
    case False
    let ?s = "pkt_segs p ! i" and ?p1 = "p\<lparr>pkt_len := pkt_len p - seg_l5_len (pkt_segs p ! i)\<rparr>"
    note st = rd_at_step [OF Suc.prems(1) False]
    have "pkt_to_iov_loop ?p1 (Suc i) (sz + unat (seg_l5_len ?s)) room (acc @ [\<lparr>riov_seg = ?s, riov_param = pkt_id p\<rparr>])
        = (p', i', sz', acc')"
      using Suc.prems(2) False st(1) by (simp add: pkt_to_iov_one_seg_def Let_def)
    from Suc.IH [OF st(2) this] obtain new where n: "acc' = (acc @ [\<lparr>riov_seg = ?s, riov_param = pkt_id p\<rparr>]) @ new"
      "bytes_at ?p1 (Suc i) = read_bytes new @ bytes_at p' i'" "sz' = sz + unat (seg_l5_len ?s) + length (read_bytes new)"
      "rd_at p' i'" "p' = ?p1\<lparr>pkt_len := pkt_len p'\<rparr>" "length new \<le> room" "pkt_len p' \<noteq> 0 \<longrightarrow> length new = room" by blast
    let ?n = "\<lparr>riov_seg = ?s, riov_param = pkt_id p\<rparr> # new"
    have rb: "read_bytes ?n = seg_bytes ?s @ read_bytes new" by (simp add: read_bytes_def)
    have "?p1\<lparr>pkt_len := l\<rparr> = p\<lparr>pkt_len := l\<rparr>" for l by simp
    then have "p' = p\<lparr>pkt_len := pkt_len p'\<rparr>" using n(5) by metis
    then show ?thesis using n(1-4,6,7) st(3) rb by (intro exI [of _ ?n] conjI) simp_all
  qed
qed

lemma rd_at_wf: "rd_wf p \<longleftrightarrow> rd_at p (pkt_to_read p) \<and> pkt_len p \<noteq> 0" "unread_bytes p = bytes_at p (pkt_to_read p)"
  by (auto simp: rd_wf_def rd_at_def rd_segs_def bytes_at_def unread_bytes_def)

lemma pkt_to_iov_spec:
  assumes "rd_wf p" "length acc \<le> nr_iov" "pkt_to_iov p sz nr_iov acc = (full, p', sz', acc')"
  shows "\<exists>new. acc' = acc @ new \<and> length acc' \<le> nr_iov \<and> sz' = sz + length (read_bytes new) \<and>
    (full \<longrightarrow> unread_bytes p = read_bytes new) \<and>
    (\<not> full \<longrightarrow> rd_wf p' \<and> unread_bytes p = read_bytes new @ unread_bytes p' \<and> length acc' = nr_iov)"
proof -
  obtain p1 i acc1 sz1 where l: "pkt_to_iov_loop p (pkt_to_read p) sz (nr_iov - length acc) acc = (p1, i, sz1, acc1)"
    by (metis prod_cases4)
  have r: "rd_at p (pkt_to_read p)" using assms(1) rd_at_wf(1) by blast
  from pkt_to_iov_loop_spec [OF r l] obtain new where n: "acc1 = acc @ new"
    "bytes_at p (pkt_to_read p) = read_bytes new @ bytes_at p1 i" "sz1 = sz + length (read_bytes new)" "rd_at p1 i"
    "length new \<le> nr_iov - length acc" "pkt_len p1 \<noteq> 0 \<longrightarrow> length new = nr_iov - length acc" by blast
  have o: "acc' = acc1" "sz' = sz1" "full \<longleftrightarrow> pkt_len p1 = 0" "\<not> full \<Longrightarrow> p' = p1\<lparr>pkt_to_read := i\<rparr>"
    using assms(3) l by (auto simp: pkt_to_iov_def split: if_splits)
  have z: "pkt_len p1 = 0 \<Longrightarrow> bytes_at p1 i = []" by (simp add: bytes_at_def)
  have "\<not> full \<Longrightarrow> rd_wf p' \<and> unread_bytes p' = bytes_at p1 i"
    using o(3,4) n(4) by (simp add: rd_at_wf rd_at_def bytes_at_def)
  then show ?thesis using n o z assms(2) by (intro exI [of _ new]) (auto simp: rd_at_wf(2))
qed

lemma rxq_store_items:
  assumes "rxq_wf q" "k < rxq_readable q"
  shows "rxq_items (rxq_store q (of_nat k) p) = (rxq_items q)[k := p]" "rxq_wf (rxq_store q (of_nat k) p)"
    "rxq_readable (rxq_store q (of_nat k) p) = rxq_readable q"
proof -
  note wf = rxq_wfD [OF assms(1)]
  have inj: "slot (rxq_mask q) (rxq_unread q + of_nat i) = slot (rxq_mask q) (rxq_unread q + of_nat k) \<longleftrightarrow> i = k"
    if "i < rxq_readable q" for i
    using slot_inj [OF wf(1), of i k "rxq_unread q"] that assms(2) wf(3) by auto
  show r: "rxq_readable (rxq_store q (of_nat k) p) = rxq_readable q" by (simp add: rxq_readable_def rxq_store_def)
  show "rxq_wf (rxq_store q (of_nat k) p)" using assms(1) r by (simp add: rxq_wf_def rxq_store_def)
  show "rxq_items (rxq_store q (of_nat k) p) = (rxq_items q)[k := p]"
  proof (rule nth_equalityI)
    fix i assume "i < length (rxq_items (rxq_store q (of_nat k) p))"
    then have i: "i < rxq_readable q" using r by simp
    have s: "slot (rxq_mask q) (rxq_unread q + of_nat k) < length (rxq_objs q)" using wf(1) by simp
    show "rxq_items (rxq_store q (of_nat k) p) ! i = (rxq_items q)[k := p] ! i"
      using i inj [OF i] s r by (cases "i = k") (simp_all add: rxq_items_def rxq_store_def rxq_readable_def)
  qed (use r in simp)
qed

lemma zreadv_loop_spec:
  assumes "rxq_wf q" "\<forall>p\<in>set (drop nr (rxq_items q)). rd_wf p" "nr \<le> rxq_readable q" "length acc \<le> nr_iov"
    "zreadv_loop w q nr sz nr_iov acc k = (w', q', nr', sz', acc')"
  shows "\<exists>new. acc' = acc @ new \<and> sz' = sz + length (read_bytes new) \<and> rxq_wf q' \<and> rxq_readable q' = rxq_readable q \<and>
    nr' \<le> rxq_readable q' \<and> (\<forall>p\<in>set (drop nr' (rxq_items q')). rd_wf p) \<and>
    concat (map unread_bytes (drop nr (rxq_items q))) = read_bytes new @ concat (map unread_bytes (drop nr' (rxq_items q'))) \<and>
    (k = rxq_readable q - nr \<and> length acc' < nr_iov \<longrightarrow> nr' = rxq_readable q) \<and> (nr' = nr \<or> read_bytes new \<noteq> [])"
  using assms
proof (induction k arbitrary: w q nr sz acc)
  case 0
  then show ?case by (intro exI [of _ "[]"]) auto
next
  case (Suc k)
  have lt: "rxq_readable q < 65536" using rxq_wfD(3,4) [OF Suc.prems(1)] by simp
  then have un: "unat (of_nat nr :: u16) = nr" using Suc.prems(3) by (intro unat_of_nat_small) simp
  show ?case
  proof (cases "nr < rxq_readable q")
    case False
    then show ?thesis using Suc.prems un by (intro exI [of _ "[]"]) (auto simp: tcp_rxq_peek_unread_nth)
  next
    case True
    let ?p = "rxq_items q ! nr"
    have pk: "tcp_rxq_peek_unread q (of_nat nr) = Some ?p" using True un by (simp add: tcp_rxq_peek_unread_nth)
    have dr: "drop nr (rxq_items q) = ?p # drop (Suc nr) (rxq_items q)" using True by (simp add: Cons_nth_drop_Suc)
    obtain full p1 sz1 acc1 where io: "pkt_to_iov ?p sz nr_iov acc = (full, p1, sz1, acc1)" by (metis prod_cases4)
    have wfp: "rd_wf ?p" using Suc.prems(2) dr by simp
    from pkt_to_iov_spec [OF wfp Suc.prems(4) io] obtain new where n: "acc1 = acc @ new" "length acc1 \<le> nr_iov"
      "sz1 = sz + length (read_bytes new)" "full \<longrightarrow> unread_bytes ?p = read_bytes new"
      "\<not> full \<longrightarrow> rd_wf p1 \<and> unread_bytes ?p = read_bytes new @ unread_bytes p1 \<and> length acc1 = nr_iov" by blast
    let ?q = "rxq_store q (of_nat nr) p1"
    note st = rxq_store_items [OF Suc.prems(1) True, of p1]
    have d1: "drop (Suc nr) (rxq_items ?q) = drop (Suc nr) (rxq_items q)" using st(1) by simp
    show ?thesis
    proof (cases full)
      case False
      then have r: "q' = ?q" "nr' = nr" "acc' = acc1" "sz' = sz1" using Suc.prems(5) pk io by auto
      have "drop nr (rxq_items ?q) = p1 # drop (Suc nr) (rxq_items q)"
        using st(1) True by (simp add: drop_update_at)
      then show ?thesis using r n False st(2,3) dr Suc.prems(2,3) by (intro exI [of _ new]) auto
    next
      case full: True
      obtain w1 where d: "zreadv_loop w1 ?q (Suc nr) sz1 nr_iov acc1 k = (w', q', nr', sz', acc')"
        using Suc.prems(5) pk io full by auto
      have rd: "\<forall>p\<in>set (drop (Suc nr) (rxq_items ?q)). rd_wf p" using Suc.prems(2) dr d1 by simp
      have "Suc nr \<le> rxq_readable ?q" using True st(3) by simp
      from Suc.IH [OF st(2) rd this n(2) d, unfolded st(3)] obtain new2 where m: "acc' = acc1 @ new2"
        "sz' = sz1 + length (read_bytes new2)" "rxq_wf q'" "rxq_readable q' = rxq_readable q" "nr' \<le> rxq_readable q'"
        "\<forall>p\<in>set (drop nr' (rxq_items q')). rd_wf p"
        "concat (map unread_bytes (drop (Suc nr) (rxq_items ?q))) = read_bytes new2 @ concat (map unread_bytes (drop nr' (rxq_items q')))"
        "k = rxq_readable q - Suc nr \<and> length acc' < nr_iov \<longrightarrow> nr' = rxq_readable q"
        by blast
      have "read_bytes new \<noteq> []"
        using n(4) full length_unread_bytes [OF wfp] wfp by (auto simp: rd_wf_def unat_eq_zero)
      then show ?thesis using m n full dr d1 by (intro exI [of _ "new @ new2"]) auto
    qed
  qed
qed

text \<open>A read takes the next bytes of the stream, opens the window by as many, and takes all that
  is there when the array has room.\<close>

lemma tsock_zreadv_spec:
  assumes "rxq_ok t" "tsock_zreadv w t nr_iov = (ret, iovs, w', t')"
  shows "rxq_ok t' \<and> unread t = read_bytes iovs @ unread t' \<and> rcv_nxt t' = rcv_nxt t \<and>
    rcv_ooo_queue t' = rcv_ooo_queue t \<and> rcv_wnd t' = rcv_wnd t + of_nat (length (read_bytes iovs)) \<and>
    (if tsock_read_check t \<noteq> None then ret = -1 \<and> iovs = []
     else if read_bytes iovs \<noteq> [] then ret = int (length (read_bytes iovs))
     else ret = (if flags t AND TSOCK_FLAG_EOF \<noteq> 0 then 0 else -1)) \<and>
    (tsock_read_check t = None \<and> length iovs < nr_iov \<longrightarrow> unread t' = [])"
proof (cases "tsock_read_check t")
  case (Some e)
  then show ?thesis using assms by (auto simp: tsock_zreadv_def rxq_ok_def unread_def)
next
  case None
  let ?k = "unat (tcp_rxq_readable_count (rxq t))"
  obtain w1 q nr sz acc where l: "zreadv_loop w (rxq t) 0 0 nr_iov [] ?k = (w1, q, nr, sz, acc)" by (metis prod_cases5)
  have r: "rxq_wf (rxq t)" "\<forall>p\<in>set (drop 0 (rxq_items (rxq t))). rd_wf p" using assms(1) by (simp_all add: rxq_ok_def)
  have kr: "?k = rxq_readable (rxq t) - 0" by (simp add: tcp_rxq_readable_count_def rxq_readable_def)
  from zreadv_loop_spec [OF r le0 _ l] obtain new where n: "acc = new" "sz = length (read_bytes new)" "rxq_wf q"
    "rxq_readable q = rxq_readable (rxq t)" "nr \<le> rxq_readable q" "\<forall>p\<in>set (drop nr (rxq_items q)). rd_wf p"
    "unread t = read_bytes new @ concat (map unread_bytes (drop nr (rxq_items q)))"
    "length acc < nr_iov \<longrightarrow> nr = rxq_readable q" "nr = 0 \<or> read_bytes new \<noteq> []"
    using kr by (auto simp: unread_def)
  have nr: "unat (of_nat nr :: u16) = nr" using n(5) rxq_wfD(3,4) [OF n(3)] by (intro unat_of_nat_small) simp
  note up = tcp_rxq_update_unread_drop [OF n(3), of "of_nat nr", unfolded nr, OF n(5)]
  have it: "iovs = acc" using assms(2) None l by (auto simp: tsock_zreadv_def Let_def split: if_splits prod.splits)
  show ?thesis
  proof (cases "sz = 0")
    case True
    have t': "t' = t\<lparr>rxq := q\<rparr>" "ret = (if flags t AND TSOCK_FLAG_EOF \<noteq> 0 then 0 else -1)"
      using assms(2) None l True by (auto simp: tsock_zreadv_def Let_def split: if_splits)
    have nr0: "nr = 0" "read_bytes acc = []" using True n(1,2,9) by auto
    then have "unread t' = unread t" using n(1,7) t'(1) by (simp add: unread_def)
    moreover have "rxq_ok t'" using t'(1) n(3,6) nr0 by (simp add: rxq_ok_def)
    moreover have "length acc < nr_iov \<longrightarrow> rxq_items q = []" using n(8) nr0(1) by (metis length_0_conv length_rxq_items)
    then have "length acc < nr_iov \<longrightarrow> unread t' = []" using t'(1) by (simp add: unread_def)
    ultimately show ?thesis using it t' None nr0 by simp
  next
    case False
    let ?q = "tcp_rxq_update_unread q (of_nat nr)"
    have t': "rxq t' = ?q" "rcv_nxt t' = rcv_nxt t" "rcv_ooo_queue t' = rcv_ooo_queue t"
      "rcv_wnd t' = rcv_wnd t + of_nat sz" "ret = int sz"
      using assms(2) None l False by (auto simp: tsock_zreadv_def Let_def split: if_splits prod.splits)
    have "rxq_ok t'" using t'(1) up n(6) by (simp add: rxq_ok_def)
    moreover have "unread t' = concat (map unread_bytes (drop nr (rxq_items q)))" using t'(1) up by (simp add: unread_def)
    ultimately show ?thesis using n it t' None False by auto
  qed
qed

section \<open>The application reads the stream\<close>

text \<open>Dropping from the end of the out-of-order queue, as a worker does that is short of buffers.\<close>

lemma drop_ooo_loop_ok:
  "rcv_ok S base n zs t \<Longrightarrow> drop_ooo_loop w t k = (w', t') \<Longrightarrow> \<exists>zs'. rcv_ok S base n zs' t' \<and> same_rcv t t'"
proof (induction k arbitrary: w t zs)
  case 0
  then show ?case by (auto simp: same_rcv_def)
next
  case (Suc k)
  show ?case
  proof (cases zs rule: rev_cases)
    case Nil
    then have "rcv_ooo_queue t = []" using Suc.prems(1) by (simp add: rcv_ok_def)
    then show ?thesis using Suc by simp
  next
    case (snoc us u)
    let ?t1 = "snd (tsock_remove_ooo_pkt w t (fst u))"
    have q: "rcv_ooo_queue t = map fst (us @ [u])" "ooo_ok S base n (n + uint (rcv_wnd t)) (us @ [u])"
      using Suc.prems(1) snoc by (simp_all add: rcv_ok_def)
    obtain w1 where d: "drop_ooo_loop w1 ?t1 k = (w', t')"
      using Suc.prems(2) q(1) by (auto simp: split_beta Let_def)
    have "rcv_ooo_queue ?t1 = map fst us" using filter_id_mid [of us u "[]"] q by (simp add: ooo_ok_def)
    moreover have "ooo_ok S base n (n + uint (rcv_wnd t)) us" using q(2) by (auto simp: ooo_ok_def sorted_wrt_append)
    moreover have s: "same_rcv t ?t1" by (simp add: same_rcv_def)
    ultimately have "rcv_ok S base n us ?t1" using rcv_ok_same [OF Suc.prems(1)] by blast
    from Suc.IH [OF this d] same_rcv_trans [OF s] show ?thesis by blast
  qed
qed

lemma tsock_drop_ooo_mbufs_ok:
  assumes "rcv_ok S base n zs t" "tsock_drop_ooo_mbufs w t = (w', t')"
  shows "\<exists>zs'. rcv_ok S base n zs' t' \<and> same_rcv t t'"
  using drop_ooo_loop_ok [OF assms(1)] assms by (auto simp: tsock_drop_ooo_mbufs_def same_rcv_def split: if_splits)

text \<open>
  A connection's receive side as a transition system. The state is the worker, the socket and the
  bytes the application has read. The network delivers any segment of the stream that passes the
  window check, less than \<open>2 ^ 30\<close> positions away from the next expected byte; the application
  reads with any number of buffers; the worker may drop out-of-order packets, and does other work
  in between.
\<close>

type_synonym rcv_state = "tpa_worker \<times> tcp_sock \<times> u8 list"

inductive rcv_step :: "env \<Rightarrow> (int \<Rightarrow> u8) \<Rightarrow> u32 \<Rightarrow> rcv_state \<Rightarrow> rcv_state \<Rightarrow> bool" for E S base where
  segment: "seg_at S base p x \<Longrightarrow> \<bar>x - int (length (got @ unread t))\<bar> < 2 ^ 30 \<Longrightarrow> pkt_len p \<noteq> 0 \<Longrightarrow>
    validate_seq t p = None \<Longrightarrow> pkt_id p \<notin> pkt_id ` set (rcv_ooo_queue t) \<Longrightarrow>
    tcp_rcv_data E w t p = (e, w', t', p') \<Longrightarrow> rcv_step E S base (w, t, got) (w', t', got)"
| read: "tsock_zreadv w t nr_iov = (ret, iovs, w', t') \<Longrightarrow>
    rcv_step E S base (w, t, got) (w', t', got @ read_bytes iovs)"
| drop: "tsock_drop_ooo_mbufs w t = (w', t') \<Longrightarrow> rcv_step E S base (w, t, got) (w', t', got)"
| other: "rcv_step E S base (w, t, got) (w', t, got)"

definition rcv_inv :: "(int \<Rightarrow> u8) \<Rightarrow> u32 \<Rightarrow> int \<Rightarrow> rcv_state \<Rightarrow> bool" where
  "rcv_inv S base W st \<longleftrightarrow> (case st of (w, t, got) \<Rightarrow> \<exists>n zs. rcv_ok S base n zs t \<and> got @ unread t = stream S 0 n \<and> 0 \<le> n \<and>
     uint (rcv_wnd t) + int (length (unread t)) = W)"

lemma rcv_step_inv:
  assumes "rcv_step E S base st st'" "rcv_inv S base W st" "W < 2 ^ 30"
  shows "rcv_inv S base W st'"
  using assms
proof (induction rule: rcv_step.induct)
  case (segment p x got t w e w' t' p')
  from segment.prems(1) obtain n zs where i: "rcv_ok S base n zs t" "got @ unread t = stream S 0 n" "0 \<le> n"
    "uint (rcv_wnd t) + int (length (unread t)) = W" by (auto simp: rcv_inv_def)
  have "int (length (got @ unread t)) = n" using i(2,3) by (metis int_nat_eq diff_zero length_stream)
  then have far: "\<bar>x - n\<bar> < 2 ^ 30" using segment.hyps(2) by simp
  from tcp_rcv_data_moves [OF i(1) segment.hyps(1) far segment.hyps(4,3,5,6)] obtain m zs' where
    m: "n \<le> m" "rcv_ok S base m zs' t'" "m + uint (rcv_wnd t') = n + uint (rcv_wnd t)" "unread t' = unread t @ stream S n m"
    unfolding rcv_moves_def by blast
  have "got @ unread t' = stream S 0 m" using m(1,4) i(2,3) stream_append [of 0 n m S] by (metis append.assoc)
  moreover have "uint (rcv_wnd t') + int (length (unread t')) = W" using m(1,3,4) i(4) by simp
  ultimately show ?case using m(1,2) i(3) by (auto simp: rcv_inv_def intro!: exI [of _ m] exI [of _ zs'])
next
  case (read w t nr_iov ret iovs w' t' got)
  from read.prems(1) obtain n zs where i: "rcv_ok S base n zs t" "got @ unread t = stream S 0 n" "0 \<le> n"
    "uint (rcv_wnd t) + int (length (unread t)) = W" by (auto simp: rcv_inv_def)
  have "rxq_ok t" using i(1) by (simp add: rcv_ok_def)
  note r = tsock_zreadv_spec [OF this read.hyps]
  have len: "length (unread t) = length (read_bytes iovs) + length (unread t')" using r by (metis length_append)
  have wn: "uint (rcv_wnd t') = uint (rcv_wnd t) + int (length (read_bytes iovs))"
  proof -
    have b: "uint (rcv_wnd t) + int (length (read_bytes iovs)) < 2 ^ 32" using i(4) len read.prems(2) by simp
    have "rcv_wnd t' = word_of_int (uint (rcv_wnd t) + int (length (read_bytes iovs)))" using r by simp
    then show ?thesis using b by (simp only: uint_word_of_int) (simp add: take_bit_int_eq_self)
  qed
  have "ooo_ok S base n (n + uint (rcv_wnd t')) zs"
    using i(1) wn by (auto simp: rcv_ok_def ooo_ok_def placed_ok_def)
  moreover have "uint (rcv_wnd t') < 2 ^ 30" using wn i(4) len read.prems(2) by simp
  ultimately have "rcv_ok S base n zs t'" using i(1) r by (simp add: rcv_ok_def)
  then show ?case using i(2-4) r wn len by (auto simp: rcv_inv_def intro!: exI [of _ n] exI [of _ zs])
next
  case (drop w t w' t' got)
  from drop.prems(1) obtain n zs where i: "rcv_ok S base n zs t" "got @ unread t = stream S 0 n" "0 \<le> n"
    "uint (rcv_wnd t) + int (length (unread t)) = W" by (auto simp: rcv_inv_def)
  from tsock_drop_ooo_mbufs_ok [OF i(1) drop.hyps] obtain zs' where d: "rcv_ok S base n zs' t'" "same_rcv t t'" by blast
  then have "unread t' = unread t" "rcv_wnd t' = rcv_wnd t" by (simp_all add: same_rcv_def unread_def)
  then show ?case using i(2-4) d(1) by (auto simp: rcv_inv_def)
qed (auto simp: rcv_inv_def)

lemma rcv_steps_inv:
  assumes "(rcv_step E S base)\<^sup>*\<^sup>* st st'" "rcv_inv S base W st" "W < 2 ^ 30"
  shows "rcv_inv S base W st'"
  using assms(1,2) by (induction rule: rtranclp_induct) (auto intro: rcv_step_inv [OF _ _ assms(3)])

text \<open>C3: the application reads the peer's byte stream. Starting from an empty receive side, after
  any sequence of segments (in any order, overlapping, repeated, some lost), reads and drops of
  out-of-order packets, the bytes read so far followed by the bytes waiting in the receive queue
  are exactly the stream from its start up to the next expected byte, and the advertised window
  is the initial window less the bytes that wait.\<close>

theorem app_reads_the_stream:
  assumes "(rcv_step E S (rcv_nxt t0))\<^sup>*\<^sup>* (w0, t0, []) (w, t, got)"
    and "rxq_wf (rxq t0)" "rxq_items (rxq t0) = []" "rcv_ooo_queue t0 = []" "uint (rcv_wnd t0) < 2 ^ 30"
  shows "got @ unread t = stream S 0 (int (length (got @ unread t))) \<and>
    rcv_nxt t = rcv_nxt t0 + of_nat (length (got @ unread t)) \<and>
    uint (rcv_wnd t) + int (length (unread t)) = uint (rcv_wnd t0)"
proof -
  have "rcv_ok S (rcv_nxt t0) 0 [] t0" using assms(2-5) by (simp add: rcv_ok_def ooo_ok_def rxq_ok_def)
  then have "rcv_inv S (rcv_nxt t0) (uint (rcv_wnd t0)) (w0, t0, [])"
    using assms(3) by (auto simp: rcv_inv_def unread_def)
  from rcv_steps_inv [OF assms(1) this assms(5)] obtain n zs where
    i: "rcv_ok S (rcv_nxt t0) n zs t" "got @ unread t = stream S 0 n" "0 \<le> n"
      "uint (rcv_wnd t) + int (length (unread t)) = uint (rcv_wnd t0)" by (auto simp: rcv_inv_def)
  have n: "n = int (length (got @ unread t))" using i(2,3) by (metis int_nat_eq diff_zero length_stream)
  have "rcv_nxt t = rcv_nxt t0 + word_of_int n" using i(1) by (simp add: rcv_ok_def)
  then show ?thesis using i(2,4) n by (metis of_int_of_nat_eq)
qed

text \<open>A socket that expects the sequence number 0xfffffffe, and segments of the stream
  0, 1, 2, ... of bytes.\<close>

definition rcv_example :: tcp_sock where
  "rcv_example = (tsock_zero 0 0)\<lparr>state := TCP_STATE_ESTABLISHED, rcv_nxt := 0xfffffffe, rcv_wnd := 1000,
     rxq := \<lparr>rxq_unread = 0xffff, rxq_max = 0xffff, rxq_size = 4, rxq_mask = 3, rxq_objs = replicate 4 pkt_example\<rparr>\<rparr>"

definition seg_example :: "nat \<Rightarrow> nat \<Rightarrow> nat \<Rightarrow> packet" where
  "seg_example i x len = pkt_example\<lparr>pkt_id := i, pkt_seq := 0xfffffffe + of_nat x, pkt_len := of_nat len, pkt_nr_read_seg := 1,
     pkt_segs := [\<lparr>seg_buf = (\<lambda>k. of_nat (x + k - 54)), seg_l5_off = 54, seg_l5_len = of_nat len\<rparr>]\<rparr>"

definition rcv_run :: "err \<times> tpa_worker \<times> tcp_sock \<times> packet" where
  "rcv_run = tcp_rcv_data env_example worker_example rcv_example (seg_example 1 3 4)"

definition rcv_run2 :: "err \<times> tpa_worker \<times> tcp_sock \<times> packet" where
  "rcv_run2 = tcp_rcv_data env_example (fst (snd rcv_run)) (fst (snd (snd rcv_run))) (seg_example 2 0 5)"

lemma seg_examples:
  "seg_at word_of_int 0xfffffffe (seg_example 1 3 4) 3" "seg_at word_of_int 0xfffffffe (seg_example 2 0 5) 0"
  by (simp_all add: seg_at_def seg_example_def pkt_example_def pkt_wf_def rd_segs_def segs_len_def seg_ok_def payload_def
      seg_bytes_def stream_def plen_def upt_rec)

lemma rcv_run_checks:
  "validate_seq rcv_example (seg_example 1 3 4) = None"
  "validate_seq (fst (snd (snd rcv_run))) (seg_example 2 0 5) = None"
  "pkt_id (seg_example 2 0 5) \<notin> pkt_id ` set (rcv_ooo_queue (fst (snd (snd rcv_run))))"
  "length (unread (fst (snd (snd rcv_run)))) = 0" "length (unread (fst (snd (snd rcv_run2)))) = 7"
  by code_simp+

theorem app_reads_the_stream_witness:
  "unread (fst (snd (snd rcv_run2))) = [0, 1, 2, 3, 4, 5, 6] \<and> rcv_nxt (fst (snd (snd rcv_run2))) = 5"
proof -
  obtain e1 w1 t1 p1 where r1: "rcv_run = (e1, w1, t1, p1)" by (metis prod_cases4)
  obtain e2 w2 t2 p2 where r2: "rcv_run2 = (e2, w2, t2, p2)" by (metis prod_cases4)
  note c = rcv_run_checks [unfolded r1 r2 fst_conv snd_conv]
  have nx: "rcv_nxt rcv_example = 0xfffffffe" "rcv_ooo_queue rcv_example = []" "rxq_items (rxq rcv_example) = []"
    "rxq_wf (rxq rcv_example)" "uint (rcv_wnd rcv_example) < 2 ^ 30"
    by (simp_all add: rcv_example_def tsock_zero_def rxq_items_def rxq_readable_def rxq_wf_def ring_ok_def exI [of _ 2])
  have u0: "unread rcv_example = []" using nx(3) by (simp add: unread_def)
  have "rcv_step env_example word_of_int 0xfffffffe (worker_example, rcv_example, []) (w1, t1, [])"
    using seg_examples(1) c(1) r1 nx(2) u0
    by (intro rcv_step.segment [where p = "seg_example 1 3 4" and x = 3]) (simp_all add: rcv_run_def seg_example_def)
  moreover have "rcv_step env_example word_of_int 0xfffffffe (w1, t1, []) (w2, t2, [])"
    using seg_examples(2) c(2-4) r2 [unfolded rcv_run2_def r1]
    by (intro rcv_step.segment [where p = "seg_example 2 0 5" and x = 0]) (simp_all add: seg_example_def)
  ultimately have "(rcv_step env_example word_of_int (rcv_nxt rcv_example))\<^sup>*\<^sup>* (worker_example, rcv_example, []) (w2, t2, [])"
    unfolding nx(1) by (meson converse_rtranclp_into_rtranclp r_into_rtranclp)
  from app_reads_the_stream [OF this nx(4,3,2,5)] c(5) show ?thesis
    by (simp add: r2 nx(1) stream_def upt_rec)
qed

end
