(* ===== verification/Sock_Life.thy ===== *)
theory Sock_Life
  imports Port_Alloc Rcv_Data
begin

text \<open>
  The life of a socket, from \<open>src/sock.c\<close> and \<open>include/sock.h\<close>: initialisation, allocation from
  the array of sockets, binding, lookup, and release. The array \<open>sock_ctrl->socks\<close> is a function
  from positions; the configured maximum, which \<open>enlarge_sock_count\<close> doubles, is kept with it.
  Hardware offload rules and the trace buffers are left out, except that creating rules may fail.
  The theory shows that releasing a socket gives back everything it holds.
\<close>

section \<open>Initialisation\<close>

record tpa_sock_opts =
  opt_listen_scaling :: bool
  opt_data :: u64
  opt_local_port :: u16

definition convert_sock_opts :: "tpa_sock_opts \<Rightarrow> tcp_sock \<Rightarrow> tcp_sock" where
  "convert_sock_opts opts t = t\<lparr>opts_listen_scaling := opt_listen_scaling opts, opts_local_port := opt_local_port opts,
     opts_data := opt_data opts\<rparr>"

definition TSOCK_RCV_WND_DEFAULT :: "tcp_sock \<Rightarrow> u32" where
  "TSOCK_RCV_WND_DEFAULT t = ucast (rxq_size (rxq t)) * 1400"

definition FLEX_FIFO_NODE_INIT :: "nat flex_fifo \<Rightarrow> nat \<Rightarrow> nat flex_fifo" where
  "FLEX_FIFO_NODE_INIT ff n = NODE_SET_IDX ff n 0"

text \<open>The nodes, the delayed ACK node by \<open>memset\<close>, and the three timers of a socket.\<close>

definition tsock_nodes_init :: "tpa_worker \<Rightarrow> nat \<Rightarrow> tpa_worker" where
  "tsock_nodes_init w n =
     w\<lparr>wk_output := FLEX_FIFO_NODE_INIT (wk_output w) n, event_queue := FLEX_FIFO_NODE_INIT (event_queue w) n,
       wk_accept := FLEX_FIFO_NODE_INIT (wk_accept w) n, wk_delayed_ack := FLEX_FIFO_NODE_INIT (wk_delayed_ack w) n\<rparr>"

definition tsock_timers_init :: "tpa_worker \<Rightarrow> nat \<Rightarrow> tpa_worker" where
  "tsock_timers_init w n =
     w\<lparr>wk_timers := timer_init (timer_init (timer_init (wk_timers w) (SockTimer n TimerRto)) (SockTimer n TimerWait))
         (SockTimer n TimerKeepalive)\<rparr>"

text \<open>
  \<open>tsock_init\<close>, called by a worker. The third component is the return code: \<open>Some 0\<close>, \<open>Some -1\<close>
  for \<open>-ENOMEM\<close>, and \<open>None\<close> when the assertion on the configured queue sizes fails and the process
  aborts. The content of fresh memory is never read.
\<close>

definition tsock_init :: "env \<Rightarrow> tpa_worker \<Rightarrow> tcp_sock \<Rightarrow> int \<Rightarrow> tpa_sock_opts option \<Rightarrow> tpa_worker \<times> tcp_sock \<times> int option" where
  "tsock_init E w t0 s opts =
     (let t1 = tsock_zero (sk_pos t0) (sid t0);
          t2 = (case opts of None \<Rightarrow> t1 | Some op \<Rightarrow> convert_sock_opts op t1);
          w1 = w\<lparr>nr_tsock := nr_tsock w + 1, nr_tsock_total := nr_tsock_total w + 1\<rparr>;
          t3 = t2\<lparr>tso_enabled := enable_tso (cfg E), ts_enabled := enable_ts (cfg E), ws_enabled := enable_ws (cfg E),
                  sack_enabled := enable_sack (cfg E)\<rparr>;
          w2 = tsock_timers_init w1 (sk_pos t0);
          rsz = ucast (rcv_queue_size (cfg E)) :: u16; ssz = ucast (snd_queue_size (cfg E)) :: u16;
          (ok1, w3) = c_malloc E w2
      in if \<not> ok1 then (w3, t3, Some (-1))
         else case tcp_rxq_init (rxq t3\<lparr>rxq_objs := replicate (unat (rcv_queue_size (cfg E))) pkt_zero\<rparr>) rsz of
           None \<Rightarrow> (w3, t3, None)
         | Some rq \<Rightarrow>
             (let (ok2, w4) = c_malloc E w3; t4 = t3\<lparr>rxq := rq\<rparr>
              in if \<not> ok2 then (w4, t4, Some (-1))
                 else case tcp_txq_init (txq t4\<lparr>txq_descs := replicate (unat (snd_queue_size (cfg E))) 0\<rparr>) ssz of
                   None \<Rightarrow> (w4, t4, None)
                 | Some tq \<Rightarrow>
                     (let t5 = t4\<lparr>txq := tq\<rparr>
                      in (tsock_nodes_init w4 (sk_pos t0),
                          t5\<lparr>rcv_wnd := TSOCK_RCV_WND_DEFAULT t5, quickack := TSOCK_QUICKACK_COUNT, listen_sock := False,
                             sid := s\<rparr>, Some 0))))"

section \<open>Release\<close>

fun reclaim_rxq_loop :: "tpa_worker \<Rightarrow> packet tcp_rxq \<Rightarrow> nat \<Rightarrow> nat \<Rightarrow> tpa_worker" where
  "reclaim_rxq_loop w q i 0 = w"
| "reclaim_rxq_loop w q i (Suc k) =
     (case tcp_rxq_peek_unread q (of_nat i) of
        None \<Rightarrow> w
      | Some p \<Rightarrow> reclaim_rxq_loop (packet_free w p) q (i + 1) k)"

text \<open>The loops run once for every entry of the queue; the bounds are the number of entries.\<close>

definition reclaim_rxq :: "tpa_worker \<Rightarrow> tcp_sock \<Rightarrow> tpa_worker" where
  "reclaim_rxq w t = reclaim_rxq_loop w (rxq t) 0 (unat (tcp_rxq_readable_count (rxq t)))"

fun reclaim_txq_loop :: "tpa_worker \<Rightarrow> nat tcp_txq \<Rightarrow> nat \<Rightarrow> nat \<Rightarrow> tpa_worker" where
  "reclaim_txq_loop w q i 0 = w"
| "reclaim_txq_loop w q i (Suc k) =
     (case tcp_txq_peek_una q (of_nat i) of
        None \<Rightarrow> w
      | Some d \<Rightarrow> reclaim_txq_loop (tx_desc_done w d) q (i + 1) k)"

definition reclaim_txq :: "tpa_worker \<Rightarrow> tcp_sock \<Rightarrow> tpa_worker" where
  "reclaim_txq w t = reclaim_txq_loop w (txq t) 0 (unat (txq_write (txq t) - txq_una (txq t)))"

fun reclaim_ooo_loop :: "tpa_worker \<Rightarrow> tcp_sock \<Rightarrow> packet list \<Rightarrow> tpa_worker \<times> tcp_sock" where
  "reclaim_ooo_loop w t [] = (w, t)"
| "reclaim_ooo_loop w t (p # ps) =
     (let (w1, t1) = tsock_remove_ooo_pkt w t p in reclaim_ooo_loop (packet_free w1 p) t1 ps)"

definition reclaim_rcv_ooo_queue :: "tpa_worker \<Rightarrow> tcp_sock \<Rightarrow> tpa_worker \<times> tcp_sock" where
  "reclaim_rcv_ooo_queue w t = reclaim_ooo_loop w t (rcv_ooo_queue t)"

definition tsock_key :: "tcp_sock \<Rightarrow> sock_key" where
  "tsock_key t = sock_key_init (remote_ip t) (remote_port t) (local_ip t) (local_port t)"

definition tsock_unbind :: "env \<Rightarrow> tpa_worker \<Rightarrow> tcp_sock \<Rightarrow> int \<times> tpa_worker" where
  "tsock_unbind E w t = port_unbind E w (tsock_key t)"

definition remove_passive_sock :: "env \<Rightarrow> tpa_worker \<Rightarrow> tcp_sock \<Rightarrow> int \<times> tpa_worker" where
  "remove_passive_sock E w t = wk_table_del E w (tsock_key t)"

definition listen_key :: "u16 \<Rightarrow> sock_key" where
  "listen_key port = \<lparr>key_local_ip = \<lparr>ip_hi = 0, ip_lo = 0\<rparr>, key_remote_ip = \<lparr>ip_hi = 0, ip_lo = 0\<rparr>,
     key_local_port = port, key_remote_port = 0\<rparr>"

definition add_listen_sock :: "env \<Rightarrow> tpa_worker \<Rightarrow> tcp_sock \<Rightarrow> int \<times> tpa_worker" where
  "add_listen_sock E w t =
     (let (ret, tab) = sock_table_add (env_crc32 E) (env_malloc E (nr_malloc w)) (wk_listen_table w)
            (listen_key (local_port t)) (sk_pos t)
      in (ret, w\<lparr>wk_listen_table := tab, nr_malloc := nr_malloc w + 1\<rparr>))"

definition remove_listen_sock :: "env \<Rightarrow> tpa_worker \<Rightarrow> tcp_sock \<Rightarrow> int \<times> tpa_worker" where
  "remove_listen_sock E w t =
     (let (ret, tab) = sock_table_del (env_crc32 E) (wk_listen_table w) (listen_key (local_port t))
      in (ret, w\<lparr>wk_listen_table := tab\<rparr>))"

definition wk_timer_close :: "tpa_worker \<Rightarrow> nat \<Rightarrow> timer_kind \<Rightarrow> tpa_worker" where
  "wk_timer_close w n k = w\<lparr>wk_timers := timer_close (wk_timers w) (SockTimer n k)\<rparr>"

definition tsock_nodes_remove :: "tpa_worker \<Rightarrow> nat \<Rightarrow> tpa_worker" where
  "tsock_nodes_remove w n =
     w\<lparr>wk_output := snd (flex_fifo_remove (wk_output w) n), wk_delayed_ack := snd (flex_fifo_remove (wk_delayed_ack w) n),
       event_queue := snd (flex_fifo_remove (event_queue w) n), wk_accept := snd (flex_fifo_remove (wk_accept w) n)\<rparr>"

text \<open>The first part of \<open>tsock_free\<close>: the entries of the socket in the tables.\<close>

definition tsock_detach :: "env \<Rightarrow> tpa_worker \<Rightarrow> tcp_sock \<Rightarrow> tpa_worker" where
  "tsock_detach E w t =
     (if local_port t = 0 then w
      else if listen_sock t then snd (remove_listen_sock E (snd (port_free w (local_port t))) t)
      else if passive_connection t then snd (remove_passive_sock E w t)
      else snd (tsock_unbind E w t))"

definition tsock_free :: "env \<Rightarrow> tpa_worker \<Rightarrow> tcp_sock \<Rightarrow> tpa_worker \<times> tcp_sock" where
  "tsock_free E w t =
     (let err = wk_errno w;
          w1 = w\<lparr>nr_tsock := nr_tsock w - 1\<rparr>;
          w2 = tsock_detach E w1 t;
          w3 = wk_timer_close (wk_timer_close (wk_timer_close w2 (sk_pos t) TimerRto) (sk_pos t) TimerWait)
                 (sk_pos t) TimerKeepalive;
          w4 = reclaim_txq (reclaim_rxq w3 t) t;
          (w5, t1) = reclaim_rcv_ooo_queue w4 t;
          w6 = tsock_nodes_remove w5 (sk_pos t)
      in (w6\<lparr>nr_sock := nr_sock w6 - 1, wk_errno := err\<rparr>, t1\<lparr>sid := TSOCK_SID_FREEED\<rparr>))"

definition tsock_try_update_eth_hdr :: "env \<Rightarrow> tcp_sock \<Rightarrow> int \<times> tcp_sock" where
  "tsock_try_update_eth_hdr E t =
     (let (found, eth) = eth_lookup E (remote_ip t)
      in if \<not> found then (-1, t)
         else (0, if net_eth (net_hdr t) \<noteq> eth then t\<lparr>net_hdr := (net_hdr t)\<lparr>net_eth := eth\<rparr>\<rparr> else t))"

section \<open>The array of sockets\<close>

record sock_ctrl =
  sc_nr_max_sock :: u32
  sc_nr_expand_times :: u8
  sc_expand_failed :: bool
  sc_next_sock :: u32
  sc_socks :: "nat \<Rightarrow> tcp_sock"

text \<open>\<open>expand\<close> says whether \<open>mem_file_expand\<close> gives the memory.\<close>

definition enlarge_sock_count :: "bool \<Rightarrow> sock_ctrl \<Rightarrow> int \<times> sock_ctrl" where
  "enlarge_sock_count expand sc =
     (if sc_expand_failed sc then (-1, sc)
      else if \<not> expand then (-1, sc\<lparr>sc_expand_failed := True\<rparr>)
      else (let n = unat (sc_nr_max_sock sc)
            in (0, sc\<lparr>sc_socks := (\<lambda>i. if n \<le> i \<and> i < 2 * n then (sc_socks sc i)\<lparr>sid := TSOCK_SID_UNALLOCATED\<rparr> else sc_socks sc i),
                      sc_nr_max_sock := sc_nr_max_sock sc * 2, sc_nr_expand_times := sc_nr_expand_times sc + 1\<rparr>)))"

fun sock_scan :: "sock_ctrl \<Rightarrow> nat \<Rightarrow> nat \<Rightarrow> (nat \<times> nat) option" where
  "sock_scan sc i 0 = None"
| "sock_scan sc i (Suc k) =
     (let s = unat ((sc_next_sock sc + of_nat i) AND (sc_nr_max_sock sc - 1))
      in if sid (sc_socks sc s) < 0 then Some (s, i) else sock_scan sc (i + 1) k)"

definition sock_pick :: "sock_ctrl \<Rightarrow> nat option \<times> sock_ctrl" where
  "sock_pick sc =
     (case sock_scan sc 0 (unat (sc_nr_max_sock sc)) of
        None \<Rightarrow> (None, sc)
      | Some (s, i) \<Rightarrow> (Some s, sc\<lparr>sc_next_sock := sc_next_sock sc + of_nat i + 1\<rparr>))"

text \<open>After the array has been doubled its second half is free, so the second scan succeeds and the
  \<open>goto again\<close> is taken at most once.\<close>

definition sock_find :: "bool \<Rightarrow> sock_ctrl \<Rightarrow> nat option \<times> sock_ctrl" where
  "sock_find expand sc =
     (case sock_pick sc of
        (Some s, sc1) \<Rightarrow> (Some s, sc1)
      | (None, sc1) \<Rightarrow>
          (let (ret, sc2) = enlarge_sock_count expand sc1
           in if ret = 0 then sock_pick (sc2\<lparr>sc_next_sock := sc_nr_max_sock sc2 div 2\<rparr>) else (None, sc2)))"

definition sock_alloc :: "env \<Rightarrow> bool \<Rightarrow> tpa_worker \<Rightarrow> sock_ctrl \<Rightarrow> tpa_sock_opts option \<Rightarrow>
    (tcp_sock option \<times> tpa_worker \<times> sock_ctrl) option" where
  "sock_alloc E expand w sc opts =
     (case sock_find expand sc of
        (None, sc1) \<Rightarrow> Some (None, w, sc1)
      | (Some s, sc1) \<Rightarrow>
          (case tsock_init E w (sc_socks sc1 s) (int s) opts of
             (w1, t, None) \<Rightarrow> None
           | (w1, t, Some ret) \<Rightarrow>
               Some (if ret < 0 then None else Some t, w1, sc1\<lparr>sc_socks := (sc_socks sc1)(s := t)\<rparr>)))"

text \<open>\<open>None\<close> only when \<open>tsock_init\<close> aborts. The new socket is also in the array.\<close>

definition sock_create :: "env \<Rightarrow> bool \<Rightarrow> tpa_worker \<Rightarrow> sock_ctrl \<Rightarrow> tpa_sock_opts option \<Rightarrow> bool \<Rightarrow>
    (tcp_sock option \<times> tpa_worker \<times> sock_ctrl) option" where
  "sock_create E expand w sc opts ipv6 =
     (case sock_alloc E expand w sc opts of
        None \<Rightarrow> None
      | Some (None, w1, sc1) \<Rightarrow> Some (None, w1\<lparr>wk_errno := Some ENFILE\<rparr>, sc1)
      | Some (Some t, w1, sc1) \<Rightarrow>
          (let t1 = t\<lparr>is_ipv6 := ipv6\<rparr>
           in Some (Some t1, w1\<lparr>nr_sock := nr_sock w1 + 1\<rparr>, sc1\<lparr>sc_socks := (sc_socks sc1)(sk_pos t1 := t1)\<rparr>)))"

definition tsock_get_by_sid :: "sock_ctrl \<Rightarrow> int \<Rightarrow> tcp_sock option" where
  "tsock_get_by_sid sc s =
     (if (word_of_int s :: u32) \<ge> sc_nr_max_sock sc then None
      else (let t = sc_socks sc (nat s) in if sid t < 0 then None else Some t))"

section \<open>Binding and lookup\<close>

definition tsock_bind :: "env \<Rightarrow> tpa_worker \<Rightarrow> tcp_sock \<Rightarrow> tpa_ip \<Rightarrow> u16 \<Rightarrow> int \<times> tpa_worker \<times> tcp_sock" where
  "tsock_bind E w t rip rport =
     (let lip = (if is_ipv6 t then env_ip6 E else tpa_ip_set_ipv4 (env_ip4 E));
          (lport, w1) = port_bind E w (sock_key_init rip rport lip (opts_local_port t)) (sk_pos t)
      in if lport = 0 then (-1, w1\<lparr>wk_errno := Some EADDRINUSE\<rparr>, t)
         else (let t1 = t\<lparr>remote_ip := rip, local_ip := lip, remote_port := rport, local_port := lport, sk_err := None\<rparr>;
                   w2 = w1\<lparr>nr_offload := nr_offload w1 + 1\<rparr>
               in if env_offload E (nr_offload w1) then (0, w2, t1)
                  else (-1, w2\<lparr>wk_errno := Some EBUSY\<rparr>, t1)))"

definition listen_tsock_lookup :: "env \<Rightarrow> tpa_worker \<Rightarrow> sock_ctrl \<Rightarrow> packet \<Rightarrow> stats_code + nat" where
  "listen_tsock_lookup E w sc p =
     (case sock_table_lookup (env_crc32 E) (wk_listen_table w) (listen_key (pkt_dst_port p)) of
        None \<Rightarrow> Inl ERR_NO_SOCK
      | Some s \<Rightarrow> if \<not> tuple_matches E (sc_socks sc s) p then Inl ERR_NO_SOCK else Inr s)"

definition pkt_key :: "packet \<Rightarrow> sock_key" where
  "pkt_key p =
     (let (rip, lip) = init_tpa_ip_from_pkt p in sock_key_init rip (pkt_src_port p) lip (pkt_dst_port p))"

definition tsock_lookup_slowpath :: "env \<Rightarrow> tpa_worker \<Rightarrow> sock_ctrl \<Rightarrow> packet \<Rightarrow> (stats_code + nat) \<times> packet" where
  "tsock_lookup_slowpath E w sc p =
     (case wk_lookup E w (pkt_key p) of
        None \<Rightarrow> (Inl ERR_NO_SOCK, p)
      | Some s \<Rightarrow> if sid (sc_socks sc s) < 0 then (Inl WARN_STALE_PKT_TUPLE_MISMATCH, p)
                  else (Inr s, p\<lparr>pkt_wid := wk_id w\<rparr>))"

text \<open>A mark whose socket id is negative as an \<open>int\<close> ends as an error; its code is of no
  consequence.\<close>

definition tsock_lookup :: "env \<Rightarrow> tpa_worker \<Rightarrow> sock_ctrl \<Rightarrow> packet \<Rightarrow> (stats_code + nat) \<times> packet" where
  "tsock_lookup E w sc p =
     (case parse_flow_mark E p of
        (Inr s, p1) \<Rightarrow>
          if s < 0 then (Inl ERR_FLOW_MARK_INVALID, p1)
          else if s \<ge> uint (sc_nr_max_sock sc) then (Inl ERR_NO_SOCK, p1)
          else (let t = sc_socks sc (nat s)
                in if \<not> tuple_matches E t p1 \<or> sid t \<noteq> s then (Inl WARN_STALE_PKT_TUPLE_MISMATCH, p1)
                   else if state t = TCP_STATE_LISTEN
                   then (case tsock_lookup_slowpath E w sc p1 of
                           (Inr child, p2) \<Rightarrow> (Inr child, p2) | (Inl e, p2) \<Rightarrow> (Inr (nat s), p2))
                   else (Inr (nat s), p1))
      | (Inl e, p1) \<Rightarrow>
          if e = WARN_MISSING_FLOW_MARK
          then (case tsock_lookup_slowpath E w sc p1 of
                  (Inl e2, p2) \<Rightarrow> if e2 = ERR_NO_SOCK then (listen_tsock_lookup E w sc p2, p2) else (Inl e2, p2)
                | (Inr s, p2) \<Rightarrow> (Inr s, p2))
          else (Inl e, p1))"

section \<open>What releasing a socket gives back\<close>

lemma rxq_items_peek:
  assumes "rxq_wf q" "i < rxq_readable q"
  shows "tcp_rxq_peek_unread q (of_nat i) = Some (rxq_items q ! i)"
  using assms rxq_wfD(3,4) [OF assms(1)] by (simp add: tcp_rxq_peek_unread_nth unat_of_nat_small)

lemma reclaim_rxq_loop_eq:
  "rxq_wf q \<Longrightarrow> i + k = rxq_readable q \<Longrightarrow>
   reclaim_rxq_loop w q i k = w\<lparr>freed_pkts := freed_pkts w @ map pkt_id (drop i (rxq_items q))\<rparr>"
proof (induction k arbitrary: i w)
  case (Suc k)
  then have "drop i (rxq_items q) = rxq_items q ! i # drop (Suc i) (rxq_items q)" by (simp add: Cons_nth_drop_Suc)
  then show ?case using Suc rxq_items_peek [OF Suc.prems(1), of i] by (simp add: packet_free_def)
qed simp

lemma reclaim_rxq_eq:
  "rxq_wf (rxq t) \<Longrightarrow> reclaim_rxq w t = w\<lparr>freed_pkts := freed_pkts w @ map pkt_id (rxq_items (rxq t))\<rparr>"
  using reclaim_rxq_loop_eq [of "rxq t" 0 "rxq_readable (rxq t)" w]
  by (simp add: reclaim_rxq_def tcp_rxq_readable_count_def rxq_readable_def)

lemma txq_items_peek:
  assumes "txq_wf q" "i < txq_used q"
  shows "tcp_txq_peek_una q (of_nat i) = Some (txq_items q ! i)"
proof -
  have "unat (of_nat i :: u16) = i" using assms txq_wfD(3,5) [OF assms(1)] by (intro unat_of_nat_small) simp
  then show ?thesis using assms(2) by (simp add: tcp_txq_peek_una_def txq_items_def txq_used_def word_le_nat_alt)
qed

lemma reclaim_txq_loop_eq:
  "txq_wf q \<Longrightarrow> i + k = txq_used q \<Longrightarrow> reclaim_txq_loop w q i k = fold (\<lambda>d w. tx_desc_done w d) (drop i (txq_items q)) w"
proof (induction k arbitrary: i w)
  case (Suc k)
  then have "drop i (txq_items q) = txq_items q ! i # drop (Suc i) (txq_items q)" by (simp add: Cons_nth_drop_Suc)
  then show ?case using Suc txq_items_peek [OF Suc.prems(1), of i] by simp
qed simp

lemma reclaim_txq_eq:
  "txq_wf (txq t) \<Longrightarrow> reclaim_txq w t = fold (\<lambda>d w. tx_desc_done w d) (txq_items (txq t)) w"
  using reclaim_txq_loop_eq [of "txq t" 0 "txq_used (txq t)" w] by (simp add: reclaim_txq_def txq_used_def)

text \<open>The callbacks that a descriptor owes to the application.\<close>

definition desc_calls :: "tx_desc \<Rightarrow> (nat \<times> u64 \<times> u64) list" where
  "desc_calls d = (case desc_write_done d of None \<Rightarrow> [] | Some f \<Rightarrow> [(f, desc_base d, desc_param d)])"

lemma tx_desc_done_sel [simp]:
  "freed_pkts (tx_desc_done w d) = freed_pkts w" "wk_output (tx_desc_done w d) = wk_output w"
  "wk_delayed_ack (tx_desc_done w d) = wk_delayed_ack w" "event_queue (tx_desc_done w d) = event_queue w"
  "wk_accept (tx_desc_done w d) = wk_accept w" "wk_timers (tx_desc_done w d) = wk_timers w"
  "wk_sock_table (tx_desc_done w d) = wk_sock_table w" "desc_mem (tx_desc_done w d) = desc_mem w"
  "done_calls (tx_desc_done w d) = done_calls w @ desc_calls (desc_mem w d)"
  "desc_pool (tx_desc_done w d) = tx_desc_free (desc_pool w) d" "ts_us (tx_desc_done w d) = ts_us w"
  "nr_ooo_mbuf (tx_desc_done w d) = nr_ooo_mbuf w" "cycles_start (tx_desc_done w d) = cycles_start w"
  by (simp_all add: tx_desc_done_def desc_calls_def Let_def split: option.splits)

lemma tx_desc_done_fold:
  fixes ds :: "nat list" and w :: tpa_worker
  defines "w' \<equiv> fold (\<lambda>d w. tx_desc_done w d) ds w"
  shows "freed_pkts w' = freed_pkts w" "wk_output w' = wk_output w" "wk_delayed_ack w' = wk_delayed_ack w"
    "event_queue w' = event_queue w" "wk_accept w' = wk_accept w" "wk_timers w' = wk_timers w"
    "wk_sock_table w' = wk_sock_table w" "desc_mem w' = desc_mem w"
    "done_calls w' = done_calls w @ concat (map (\<lambda>d. desc_calls (desc_mem w d)) ds)"
  unfolding w'_def by (induction ds arbitrary: w) simp_all

lemma tx_desc_done_pool:
  "pool_wf (desc_pool w) \<Longrightarrow> length (pool_free (desc_pool w)) + length ds \<le> unat (pool_nr_desc (desc_pool w)) \<Longrightarrow>
   pool_wf (desc_pool (fold (\<lambda>d w. tx_desc_done w d) ds w)) \<and>
   pool_free (desc_pool (fold (\<lambda>d w. tx_desc_done w d) ds w)) = pool_free (desc_pool w) @ ds"
proof (induction ds arbitrary: w)
  case (Cons d ds)
  have "length (pool_free (desc_pool w)) < unat (pool_nr_desc (desc_pool w))" using Cons.prems(2) by simp
  note f = tx_desc_free_push [OF Cons.prems(1) this, of d]
  show ?case using Cons.IH [of "tx_desc_done w d"] f Cons.prems(2) by simp
qed simp

lemma reclaim_ooo_loop_eq:
  fixes w t ps
  defines "r \<equiv> reclaim_ooo_loop w t ps"
  shows "freed_pkts (fst r) = freed_pkts w @ map pkt_id ps" "wk_output (fst r) = wk_output w"
    "wk_delayed_ack (fst r) = wk_delayed_ack w" "event_queue (fst r) = event_queue w" "wk_accept (fst r) = wk_accept w"
    "wk_timers (fst r) = wk_timers w" "wk_sock_table (fst r) = wk_sock_table w" "done_calls (fst r) = done_calls w"
    "desc_pool (fst r) = desc_pool w" "rcv_ooo_queue (snd r) = filter (\<lambda>q. pkt_id q \<notin> pkt_id ` set ps) (rcv_ooo_queue t)"
  unfolding r_def
  by (induction ps arbitrary: w t) (simp_all add: tsock_remove_ooo_pkt_def packet_free_def Let_def conj_commute)

lemma port_unbind_sel [simp]:
  "freed_pkts (snd (port_unbind E w key)) = freed_pkts w" "wk_output (snd (port_unbind E w key)) = wk_output w"
  "wk_delayed_ack (snd (port_unbind E w key)) = wk_delayed_ack w" "event_queue (snd (port_unbind E w key)) = event_queue w"
  "wk_accept (snd (port_unbind E w key)) = wk_accept w" "desc_mem (snd (port_unbind E w key)) = desc_mem w"
  "done_calls (snd (port_unbind E w key)) = done_calls w" "desc_pool (snd (port_unbind E w key)) = desc_pool w"
  by (auto simp: port_unbind_def wk_table_del_def port_block_put_def Let_def split: option.splits prod.splits)

lemma tsock_detach_sel [simp]:
  "freed_pkts (tsock_detach E w t) = freed_pkts w" "wk_output (tsock_detach E w t) = wk_output w"
  "wk_delayed_ack (tsock_detach E w t) = wk_delayed_ack w" "event_queue (tsock_detach E w t) = event_queue w"
  "wk_accept (tsock_detach E w t) = wk_accept w" "desc_mem (tsock_detach E w t) = desc_mem w"
  "done_calls (tsock_detach E w t) = done_calls w" "desc_pool (tsock_detach E w t) = desc_pool w"
  by (simp_all add: tsock_detach_def remove_listen_sock_def port_free_def remove_passive_sock_def wk_table_del_def
      tsock_unbind_def Let_def split_beta)

lemma wk_timer_close_sel [simp]:
  "freed_pkts (wk_timer_close w n k) = freed_pkts w" "wk_output (wk_timer_close w n k) = wk_output w"
  "wk_delayed_ack (wk_timer_close w n k) = wk_delayed_ack w" "event_queue (wk_timer_close w n k) = event_queue w"
  "wk_accept (wk_timer_close w n k) = wk_accept w" "desc_mem (wk_timer_close w n k) = desc_mem w"
  "done_calls (wk_timer_close w n k) = done_calls w" "desc_pool (wk_timer_close w n k) = desc_pool w"
  "wk_sock_table (wk_timer_close w n k) = wk_sock_table w"
  "wk_timers (wk_timer_close w n k) = timer_close (wk_timers w) (SockTimer n k)"
  by (simp_all add: wk_timer_close_def)

lemma tsock_nodes_remove_sel [simp]:
  "freed_pkts (tsock_nodes_remove w n) = freed_pkts w" "done_calls (tsock_nodes_remove w n) = done_calls w"
  "desc_pool (tsock_nodes_remove w n) = desc_pool w" "wk_timers (tsock_nodes_remove w n) = wk_timers w"
  "wk_sock_table (tsock_nodes_remove w n) = wk_sock_table w"
  by (simp_all add: tsock_nodes_remove_def)

definition timer_dead :: "'t timer_ctrl \<Rightarrow> 't \<Rightarrow> bool" where
  "timer_dead tc t \<longleftrightarrow> timer_is_stopped tc t \<and> tm_closed (tc_timers tc t)"

lemma timer_close_dead: "timer_dead (timer_close tc t) t" "timer_dead tc t' \<Longrightarrow> timer_dead (timer_close tc t) t'"
  by (auto simp: timer_dead_def timer_close_def timer_stop_def timer_is_stopped_def Let_def)

lemma timers_dead: "timer_dead (timer_close (timer_close (timer_close tc (SockTimer n TimerRto)) (SockTimer n TimerWait))
    (SockTimer n TimerKeepalive)) (SockTimer n k)"
  by (cases k) (simp_all add: timer_close_dead)

lemma fifo_removed: "ff_wf ff \<Longrightarrow> n \<notin> set (ff_items (snd (flex_fifo_remove ff n)))"
  using flex_fifo_remove_items(2) [of ff n] ff_wfD(5) [of ff] by simp

text \<open>The stages of \<open>tsock_free\<close> after the tables.\<close>

definition tsock_closed :: "env \<Rightarrow> tpa_worker \<Rightarrow> tcp_sock \<Rightarrow> tpa_worker" where
  "tsock_closed E w t =
     wk_timer_close (wk_timer_close (wk_timer_close (tsock_detach E (w\<lparr>nr_tsock := nr_tsock w - 1\<rparr>) t) (sk_pos t) TimerRto)
       (sk_pos t) TimerWait) (sk_pos t) TimerKeepalive"

lemma tsock_free_eq:
  fixes E :: env and w :: tpa_worker and t :: tcp_sock
  assumes "rxq_wf (rxq t)" "txq_wf (txq t)"
  defines "w3 \<equiv> tsock_closed E w t"
  defines "w4 \<equiv> fold (\<lambda>d w. tx_desc_done w d) (txq_items (txq t))
    (w3\<lparr>freed_pkts := freed_pkts w3 @ map pkt_id (rxq_items (rxq t))\<rparr>)"
  defines "r \<equiv> reclaim_ooo_loop w4 t (rcv_ooo_queue t)"
  defines "w6 \<equiv> tsock_nodes_remove (fst r) (sk_pos t)"
  shows "tsock_free E w t = (w6\<lparr>nr_sock := nr_sock w6 - 1, wk_errno := wk_errno w\<rparr>, (snd r)\<lparr>sid := TSOCK_SID_FREEED\<rparr>)"
  unfolding tsock_free_def Let_def tsock_closed_def [symmetric] reclaim_rxq_eq [OF assms(1)] reclaim_txq_eq [OF assms(2)]
    reclaim_rcv_ooo_queue_def w3_def [symmetric] w4_def [symmetric] r_def [symmetric]
  by (simp add: split_beta w6_def)

text \<open>C33: releasing a socket gives back everything it holds, once. The packets of the receive queue
  and of the out-of-order queue are freed; the descriptors of unacknowledged data go back to the
  pool and their completion callbacks run, each once and in order; the three timers are stopped
  and closed; the socket is in none of the worker's queues.\<close>

theorem tsock_free_releases:
  assumes "rxq_wf (rxq t)" "txq_wf (txq t)" "pool_wf (desc_pool w)"
    and "length (pool_free (desc_pool w)) + txq_used (txq t) \<le> unat (pool_nr_desc (desc_pool w))"
    and "ff_wf (wk_output w)" "ff_wf (wk_delayed_ack w)" "ff_wf (event_queue w)" "ff_wf (wk_accept w)"
  shows "case tsock_free E w t of (w', t') \<Rightarrow>
    freed_pkts w' = freed_pkts w @ map pkt_id (rxq_items (rxq t) @ rcv_ooo_queue t) \<and> rcv_ooo_queue t' = [] \<and>
    pool_free (desc_pool w') = pool_free (desc_pool w) @ txq_items (txq t) \<and>
    done_calls w' = done_calls w @ concat (map (\<lambda>d. desc_calls (desc_mem w d)) (txq_items (txq t))) \<and>
    (\<forall>k. timer_dead (wk_timers w') (SockTimer (sk_pos t) k)) \<and>
    sk_pos t \<notin> set (ff_items (wk_output w')) \<union> set (ff_items (wk_delayed_ack w')) \<union> set (ff_items (event_queue w')) \<union>
      set (ff_items (wk_accept w')) \<and>
    sid t' = TSOCK_SID_FREEED"
proof -
  define w3 where "w3 = tsock_closed E w t"
  define w4 where "w4 = fold (\<lambda>d w. tx_desc_done w d) (txq_items (txq t))
    (w3\<lparr>freed_pkts := freed_pkts w3 @ map pkt_id (rxq_items (rxq t))\<rparr>)"
  define r where "r = reclaim_ooo_loop w4 t (rcv_ooo_queue t)"
  have w3: "freed_pkts w3 = freed_pkts w" "wk_output w3 = wk_output w" "wk_delayed_ack w3 = wk_delayed_ack w"
    "event_queue w3 = event_queue w" "wk_accept w3 = wk_accept w" "desc_mem w3 = desc_mem w" "done_calls w3 = done_calls w"
    "desc_pool w3 = desc_pool w" "timer_dead (wk_timers w3) (SockTimer (sk_pos t) k)" for k
    by (simp_all add: w3_def tsock_closed_def timers_dead)
  note f = tx_desc_done_fold [of "txq_items (txq t)" "w3\<lparr>freed_pkts := freed_pkts w3 @ map pkt_id (rxq_items (rxq t))\<rparr>",
      folded w4_def]
  have p4: "pool_free (desc_pool w4) = pool_free (desc_pool w) @ txq_items (txq t)"
    unfolding w4_def using tx_desc_done_pool [of "w3\<lparr>freed_pkts := freed_pkts w3 @ map pkt_id (rxq_items (rxq t))\<rparr>"
      "txq_items (txq t)"] assms(3,4) w3(8) by simp
  note o = reclaim_ooo_loop_eq [of w4 t "rcv_ooo_queue t", folded r_def]
  have q: "rcv_ooo_queue (snd r) = []" using o(10) by (simp add: filter_empty_conv)
  have nd: "sk_pos t \<notin> set (ff_items (snd (flex_fifo_remove (wk_output (fst r)) (sk_pos t))))"
    "sk_pos t \<notin> set (ff_items (snd (flex_fifo_remove (wk_delayed_ack (fst r)) (sk_pos t))))"
    "sk_pos t \<notin> set (ff_items (snd (flex_fifo_remove (event_queue (fst r)) (sk_pos t))))"
    "sk_pos t \<notin> set (ff_items (snd (flex_fifo_remove (wk_accept (fst r)) (sk_pos t))))"
    using o(2-5) f w3 assms(5-8) by (simp_all add: fifo_removed)
  show ?thesis
    unfolding tsock_free_eq [OF assms(1,2), of E w, folded w3_def, folded w4_def, folded r_def] prod.case
    using o f w3 p4 q nd by (simp add: tsock_nodes_remove_def)
qed

definition sock_to_free :: tcp_sock where
  "sock_to_free = (tsock_zero 3 3)\<lparr>state := TCP_STATE_ESTABLISHED,
     rxq := \<lparr>rxq_unread = 0xffff, rxq_max = 0, rxq_size = 4, rxq_mask = 3, rxq_objs = replicate 4 (pkt_zero\<lparr>pkt_id := 5\<rparr>)\<rparr>,
     txq := \<lparr>txq_una = 0xffff, txq_nxt = 0xffff, txq_write = 1, txq_size = 4, txq_mask = 3, txq_descs = [9, 9, 9, 8]\<rparr>,
     rcv_ooo_queue := [pkt_zero\<lparr>pkt_id := 6\<rparr>]\<rparr>"

definition worker_to_free :: tpa_worker where
  "worker_to_free = worker_example\<lparr>desc_pool := \<lparr>pool_nr_desc = 4, pool_off = 2, pool_descs = [0, 1, 8, 9]\<rparr>,
     desc_mem := (\<lambda>_. desc_zero)(8 := desc_zero\<lparr>desc_write_done := Some 1, desc_param := 77\<rparr>)\<rparr>"

theorem tsock_free_releases_witness:
  "case tsock_free env_example worker_to_free sock_to_free of (w', t') \<Rightarrow>
    freed_pkts w' = [5, 6] \<and> pool_free (desc_pool w') = [0, 1, 8, 9] \<and> done_calls w' = [(1, 0, 77)] \<and>
    timer_dead (wk_timers w') (SockTimer 3 TimerRto) \<and> sid t' = TSOCK_SID_FREEED"
proof -
  have h: "rxq_wf (rxq sock_to_free)" "txq_wf (txq sock_to_free)"
    by (simp_all add: sock_to_free_def rxq_wf_def txq_wf_def ring_ok_def rxq_readable_def txq_used_def txq_inflight_def exI [of _ 2])
  have h2: "pool_wf (desc_pool worker_to_free)"
    "length (pool_free (desc_pool worker_to_free)) + txq_used (txq sock_to_free) \<le> unat (pool_nr_desc (desc_pool worker_to_free))"
    by code_simp+
  have h3: "ff_wf (wk_output worker_to_free)" "ff_wf (wk_delayed_ack worker_to_free)" "ff_wf (event_queue worker_to_free)"
    "ff_wf (wk_accept worker_to_free)"
    by (simp_all add: worker_to_free_def worker_example_def fifo_example_def ff_wf_def ring_ok_def RING_MAX_SIZE_def
        flex_fifo_ring_count_def ff_items_def ff_ring_items_def exI [of _ 2])
  have e: "freed_pkts worker_to_free = []" "done_calls worker_to_free = []" "sk_pos sock_to_free = 3"
    "map pkt_id (rxq_items (rxq sock_to_free) @ rcv_ooo_queue sock_to_free) = [5, 6]"
    "pool_free (desc_pool worker_to_free) @ txq_items (txq sock_to_free) = [0, 1, 8, 9]"
    "concat (map (\<lambda>d. desc_calls (desc_mem worker_to_free d)) (txq_items (txq sock_to_free))) = [(1, 0, 77)]"
    by code_simp+
  show ?thesis using tsock_free_releases [OF h h2 h3, of env_example] unfolding e by (simp add: split_beta)
qed

section \<open>The search for a free entry\<close>

lemma scan_index:
  assumes "sc_nr_max_sock sc = 2 ^ k" "k < 32"
  shows "unat ((sc_next_sock sc + of_nat i) AND (sc_nr_max_sock sc - 1)) = (unat (sc_next_sock sc) + i) mod 2 ^ k"
proof -
  have "sc_nr_max_sock sc - 1 = mask k" using assms by (simp add: mask_eq_exp_minus_1)
  moreover have "(2::nat) ^ k dvd 2 ^ 32" using assms(2) by (intro le_imp_power_dvd) simp
  ultimately show ?thesis
    by (simp add: unat_and_mask unat_word_ariths unat_of_nat mod_mod_cancel mod_add_right_eq)
qed

lemma sock_scan_spec:
  assumes "sc_nr_max_sock sc = 2 ^ k" "k < 32"
  shows "case sock_scan sc i m of
     Some (s, j) \<Rightarrow> s < 2 ^ k \<and> sid (sc_socks sc s) < 0
   | None \<Rightarrow> \<forall>j<m. 0 \<le> sid (sc_socks sc ((unat (sc_next_sock sc) + (i + j)) mod 2 ^ k))"
proof (induction m arbitrary: i)
  case (Suc m)
  show ?case
  proof (cases "sid (sc_socks sc ((unat (sc_next_sock sc) + i) mod 2 ^ k)) < 0")
    case False
    have "sock_scan sc i (Suc m) = sock_scan sc (i + 1) m" using False by (simp add: scan_index [OF assms])
    moreover have "\<forall>j<Suc m. 0 \<le> sid (sc_socks sc ((unat (sc_next_sock sc) + (i + j)) mod 2 ^ k))"
      if "\<forall>j<m. 0 \<le> sid (sc_socks sc ((unat (sc_next_sock sc) + (i + 1 + j)) mod 2 ^ k))"
      using that False by (auto simp: less_Suc_eq_0_disj)
    ultimately show ?thesis using Suc [of "i + 1"] by (cases "sock_scan sc (i + 1) m") auto
  qed (simp add: scan_index [OF assms])
qed simp

lemma scan_all:
  assumes "\<forall>j<2 ^ k. P ((n + j) mod 2 ^ k)" "s < 2 ^ k" shows "P (s :: nat)"
proof -
  let ?N = "2 ^ k :: nat"
  have "(n + (?N - n mod ?N + s) mod ?N) mod ?N = (n mod ?N + (?N - n mod ?N + s)) mod ?N"
    by (metis mod_add_left_eq mod_add_right_eq)
  also have "n mod ?N + (?N - n mod ?N + s) = ?N + s"
    by (simp add: trans_le_add1 less_imp_le)
  finally have "(n + (?N - n mod ?N + s) mod ?N) mod ?N = s" using assms(2) by simp
  then show ?thesis using assms(1) by (metis mod_less_divisor zero_less_numeral zero_less_power)
qed

lemma unat_pow2_u32: "k < 32 \<Longrightarrow> unat (2 ^ k :: u32) = 2 ^ k"
  using unat_of_nat_small [of "2 ^ k", where ?'w = 32] power_strict_increasing [of k 32 "2::nat"] by simp

lemma sock_pick_spec:
  assumes "sc_nr_max_sock sc = 2 ^ k" "k < 32" "sock_pick sc = (r, sc')"
  shows "sc_socks sc' = sc_socks sc" "sc_nr_max_sock sc' = sc_nr_max_sock sc"
    "case r of Some s \<Rightarrow> s < 2 ^ k \<and> sid (sc_socks sc s) < 0 | None \<Rightarrow> sc' = sc \<and> (\<forall>s<2 ^ k. 0 \<le> sid (sc_socks sc s))"
proof -
  have n: "unat (sc_nr_max_sock sc) = 2 ^ k" using assms(1,2) by (simp add: unat_pow2_u32)
  show "sc_socks sc' = sc_socks sc" "sc_nr_max_sock sc' = sc_nr_max_sock sc"
    using assms(3) by (auto simp: sock_pick_def split: option.splits prod.splits)
  show "case r of Some s \<Rightarrow> s < 2 ^ k \<and> sid (sc_socks sc s) < 0 | None \<Rightarrow> sc' = sc \<and> (\<forall>s<2 ^ k. 0 \<le> sid (sc_socks sc s))"
  proof (cases "sock_scan sc 0 (2 ^ k)")
    case None
    then have "\<forall>s<2 ^ k. 0 \<le> sid (sc_socks sc s)"
      using sock_scan_spec [OF assms(1,2), where i = 0 and m = "2 ^ k"]
        scan_all [of k "\<lambda>s. 0 \<le> sid (sc_socks sc s)" "unat (sc_next_sock sc)"] by simp
    then show ?thesis using None assms(3) by (auto simp: sock_pick_def n)
  next
    case (Some a)
    then show ?thesis using sock_scan_spec [OF assms(1,2), where i = 0 and m = "2 ^ k"] assms(3)
      by (cases a) (auto simp: sock_pick_def n)
  qed
qed

text \<open>C34: the search for a socket never hands out an entry in use and never gives up while there is
  one to give. The entry it returns is inside the array and free; no socket in use changes; it
  returns nothing only when every entry is in use and the array can not grow. After the array has
  been doubled the second scan always succeeds.\<close>

theorem sock_find_correct:
  assumes "sc_nr_max_sock sc = 2 ^ k" "k < 31"
  shows "case sock_find expand sc of
     (Some s, sc') \<Rightarrow> s < unat (sc_nr_max_sock sc') \<and> sid (sc_socks sc' s) < 0 \<and>
       (\<forall>i<2 ^ k. sc_socks sc' i = sc_socks sc i) \<and>
       (sc_nr_max_sock sc' = sc_nr_max_sock sc \<or>
        sc_nr_max_sock sc' = 2 * sc_nr_max_sock sc \<and> (\<forall>i<2 ^ k. 0 \<le> sid (sc_socks sc i)))
   | (None, sc') \<Rightarrow> (\<forall>i<2 ^ k. 0 \<le> sid (sc_socks sc i)) \<and> sc_socks sc' = sc_socks sc \<and>
       (sc_expand_failed sc \<or> \<not> expand)"
proof -
  have k: "k < 32" "k + 1 < 32" using assms(2) by simp_all
  obtain r sc1 where p: "sock_pick sc = (r, sc1)" by fastforce
  note P = sock_pick_spec [OF assms(1) k(1) p]
  show ?thesis
  proof (cases r)
    case (Some s)
    then show ?thesis using p P assms(1) k by (simp add: sock_find_def unat_pow2_u32)
  next
    case None
    have sc1: "sc1 = sc" and used: "\<forall>s<2 ^ k. 0 \<le> sid (sc_socks sc s)" using P(3) None by auto
    show ?thesis
    proof (cases "sc_expand_failed sc \<or> \<not> expand")
      case True
      then show ?thesis using p None sc1 used by (auto simp: sock_find_def enlarge_sock_count_def)
    next
      case False
      define sc2 where "sc2 = snd (enlarge_sock_count expand sc)"
      define sc3 where "sc3 = sc2\<lparr>sc_next_sock := sc_nr_max_sock sc2 div 2\<rparr>"
      have e: "enlarge_sock_count expand sc = (0, sc2)" using False by (simp add: sc2_def enlarge_sock_count_def Let_def)
      have n2: "sc_nr_max_sock sc3 = 2 ^ (k + 1)" "sc_nr_max_sock sc3 = 2 * sc_nr_max_sock sc"
        using False assms(1) by (simp_all add: sc3_def sc2_def enlarge_sock_count_def Let_def)
      have u: "unat (sc_nr_max_sock sc) = 2 ^ k" using assms(1) k by (simp add: unat_pow2_u32)
      have old: "\<forall>i<2 ^ k. sc_socks sc3 i = sc_socks sc i"
        using False u by (simp add: sc3_def sc2_def enlarge_sock_count_def Let_def)
      have free: "sid (sc_socks sc3 (2 ^ k)) < 0"
        using False u by (simp add: sc3_def sc2_def enlarge_sock_count_def Let_def TSOCK_SID_UNALLOCATED_def)
      obtain r' sc4 where p': "sock_pick sc3 = (r', sc4)" by fastforce
      note P' = sock_pick_spec [OF n2(1) k(2) p']
      have "sock_find expand sc = (r', sc4)"
        using p None sc1 e p' by (simp add: sock_find_def sc3_def)
      moreover obtain s where "r' = Some s" using P'(3) free by (cases r') (auto dest!: spec [of _ "2 ^ k"])
      moreover have "unat (sc_nr_max_sock sc4) = 2 ^ (k + 1)" using P'(2) n2(1) unat_pow2_u32 [OF k(2)] by simp
      ultimately show ?thesis using P' n2(2) old used by simp
    qed
  qed
qed

definition full_array :: sock_ctrl where
  "full_array = \<lparr>sc_nr_max_sock = 2, sc_nr_expand_times = 0, sc_expand_failed = False, sc_next_sock = 7,
     sc_socks = (\<lambda>i. tsock_zero i (int i))\<rparr>"

theorem sock_find_correct_witness:
  "case sock_find True full_array of
     (Some s, sc') \<Rightarrow> s < 4 \<and> sid (sc_socks sc' s) < 0 \<and> sc_socks sc' 0 = sc_socks full_array 0
   | (None, sc') \<Rightarrow> False"
proof -
  have "sc_nr_max_sock full_array = 2 ^ 1" by (simp add: full_array_def)
  moreover have "\<not> sc_expand_failed full_array" "2 * sc_nr_max_sock full_array = 4" by (simp_all add: full_array_def)
  ultimately show ?thesis using sock_find_correct [of full_array 1 True] by (auto split: prod.splits option.splits)
qed

text \<open>C35: when the memory of the receive queue can not be allocated, creating a socket fails but the
  worker still counts one more socket, and nothing takes it back: the counter of live sockets of
  the worker drifts by one with every such failure, while the global count does not.\<close>

theorem failed_create_counts_a_socket:
  assumes "sock_find expand sc = (Some s, sc1)" "\<not> env_malloc E (nr_malloc w)"
  shows "case sock_create E expand w sc opts ipv6 of
      Some (r, w', sc') \<Rightarrow> r = None \<and> wk_errno w' = Some ENFILE \<and> nr_tsock w' = nr_tsock w + 1 \<and> nr_sock w' = nr_sock w
    | None \<Rightarrow> False"
  using assms
  by (cases opts) (simp_all add: sock_create_def sock_alloc_def tsock_init_def tsock_timers_init_def c_malloc_def Let_def split_beta)

theorem failed_create_counts_a_socket_witness:
  "case sock_create (env_example\<lparr>env_malloc := (\<lambda>_. False)\<rparr>) True worker_example full_array None False of
      Some (r, w', sc') \<Rightarrow> r = None \<and> nr_tsock w' = 1 \<and> nr_sock w' = 0
    | None \<Rightarrow> False"
proof -
  have "fst (sock_find True full_array) = Some 2" by code_simp
  then have "sock_find True full_array = (Some 2, snd (sock_find True full_array))" by (metis prod.collapse)
  note h = failed_create_counts_a_socket [OF this, of "env_example\<lparr>env_malloc := (\<lambda>_. False)\<rparr>" worker_example None False]
  have "nr_tsock worker_example = 0" "nr_sock worker_example = 0" by (simp_all add: worker_example_def)
  then show ?thesis using h by (simp split: option.splits prod.splits)
qed

end
