(* ===== verification/Tcp_Output.thy ===== *)
theory Tcp_Output
  imports Sock_Life
begin

text \<open>
  \<open>src/tcp/tcp_output.c\<close>: the headers of outgoing packets, packets without data, the transmission
  and retransmission of the data in the send queue, the write calls of the application, and the
  output pass over a socket. An outgoing packet is a \<open>tx_pkt\<close>: its header bytes and the list of the
  buffers attached to it. Measuring of latencies and traces are left out. The buffers of outgoing
  packets that are dropped are not followed.
\<close>

section \<open>Headers\<close>

definition calc_tcp_opt_len :: "tcp_sock \<Rightarrow> u8 \<Rightarrow> nat \<times> u32" where
  "calc_tcp_opt_len t tcp_flags =
     (let ts = (if state t = TCP_STATE_SYN_SENT then ts_enabled t else ts_ok t);
          sp = (if state t = TCP_STATE_SYN_SENT then sack_enabled t else sack_ok t)
      in if tcp_flags AND TCP_FLAG_SYN \<noteq> 0
         then ((if ts then TCP_OPT_TS_SPACE else 0) + TCP_OPT_MSS_SPACE + (if ws_enabled t then TCP_OPT_WSCALE_SPACE else 0) +
                 (if sp then TCP_OPT_SACK_PERM_SPACE else 0),
               (if ts then TCP_OPT_TS_BIT else 0) OR TCP_OPT_MSS_BIT OR (if ws_enabled t then TCP_OPT_WSCALE_BIT else 0) OR
                 (if sp then TCP_OPT_SACK_PERM_BIT else 0))
         else ((if ts then TCP_OPT_TS_SPACE else 0) +
                 (if sack_blocks t \<noteq> [] then TCP_OPT_SACK_SPACE (length (sack_blocks t)) else 0),
               (if ts then TCP_OPT_TS_BIT else 0) OR (if sack_blocks t \<noteq> [] then TCP_OPT_SACK_BIT else 0)))"

definition calc_snd_mss :: "env \<Rightarrow> tcp_sock \<Rightarrow> bool \<Rightarrow> bool \<Rightarrow> u16 \<Rightarrow> u16" where
  "calc_snd_mss E t ts passive nego =
     (let ip_hdr_len = int (if is_ipv6 t then IP6_HDR_SIZE else IP4_HDR_SIZE);
          m = (if usr_snd_mss (cfg E) > 0
               then sint (usr_snd_mss (cfg E) + (if ts then of_nat TCP_OPT_TS_SPACE else 0))
               else (let d = DEFAULT_MTU - ip_hdr_len - int TCP_HDR_SIZE
                     in if d < 0 then TCP_MSS_DEFAULT else d))
      in if \<not> passive then word_of_int m
         else word_of_int (min m (if nego \<noteq> 0 then uint nego else TCP_MSS_DEFAULT)))"

definition le_bytes :: "nat \<Rightarrow> u64 \<Rightarrow> u8 list" where
  "le_bytes n x = map (\<lambda>k. ucast (drop_bit (8 * k) x)) [0..<n]"

definition ip_bytes :: "tpa_ip \<Rightarrow> u8 list" where
  "ip_bytes ip = le_bytes 8 (ip_hi ip) @ le_bytes 8 (ip_lo ip)"

definition eth_bytes :: "ether_hdr \<Rightarrow> u8 list" where
  "eth_bytes h = eth_dst h @ eth_src h @ be16 (eth_type h)"

text \<open>The IP header as it leaves: the constant fields of \<open>init_net_hdr\<close>, the lengths and the
  identification of \<open>mbuf_set_offload\<close>; the IPv4 header checksum is left to the NIC.\<close>

definition ip_hdr_bytes :: "eth_ip_hdr \<Rightarrow> u16 \<Rightarrow> u16 \<Rightarrow> u16 \<Rightarrow> u8 list" where
  "ip_hdr_bytes h payload_len tcp_hdr_len ident =
     (if net_is_ip4 h
      then [0x45, 0] @ be16 (payload_len + of_nat IP4_HDR_SIZE + tcp_hdr_len) @ be16 ident @ [0, 0, 64, IPPROTO_TCP] @ be16 0 @
           le_bytes 4 (ucast (tpa_ip_get_ipv4 (net_src h))) @ le_bytes 4 (ucast (tpa_ip_get_ipv4 (net_dst h)))
      else be32 0x60000000 @ be16 (payload_len + tcp_hdr_len) @ [IPPROTO_TCP, 255] @ ip_bytes (net_src h) @ ip_bytes (net_dst h))"

definition tcp_hdr_bytes :: "u16 \<Rightarrow> u16 \<Rightarrow> u32 \<Rightarrow> u32 \<Rightarrow> u16 \<Rightarrow> u8 \<Rightarrow> u16 \<Rightarrow> u16 \<Rightarrow> u16 \<Rightarrow> u8 list" where
  "tcp_hdr_bytes sport dport seq ack tcp_hdr_len tcp_flags wnd cksum urp =
     be16 sport @ be16 dport @ be32 seq @ be32 ack @ [push_bit 4 (ucast (drop_bit 2 tcp_hdr_len)), tcp_flags] @ be16 wnd @
     be16 cksum @ be16 urp"

text \<open>The length of the payload, \<open>mbuf.pkt_len\<close> before the headers are put in front.\<close>

definition tx_pkt_len :: "tx_pkt \<Rightarrow> u32" where
  "tx_pkt_len x = sum_list (map snd (tx_segs x))"

text \<open>\<open>mbuf_set_offload\<close>: whether the NIC has to segment the packet, and at which size.\<close>

definition mbuf_set_offload :: "tx_pkt \<Rightarrow> u16 \<Rightarrow> tx_pkt" where
  "mbuf_set_offload x mss = x\<lparr>tx_tso := (if tx_pkt_len x > ucast mss then Some mss else None)\<rparr>"

text \<open>What putting a header in front changes in the socket: a window that is out of range is
  closed, and a packet with an acknowledgement clears the request for one.\<close>

definition prepend_sock :: "tcp_sock \<Rightarrow> u8 \<Rightarrow> tcp_sock" where
  "prepend_sock t tcp_flags =
     (let t1 = (if rcv_wnd t \<ge> TCP_WINDOW_MAX then t\<lparr>rcv_wnd := 0\<rparr> else t)
      in if tcp_flags AND TCP_FLAG_ACK \<noteq> 0 then t1\<lparr>flags := flags t1 AND (NOT TSOCK_FLAG_ACK_NOW)\<rparr> else t1)"

text \<open>The network header is copied over the first 54 bytes. For IPv4 that clears the urgent
  pointer, for IPv6 the pointer holds what the buffer had.\<close>

definition prepend_tcp_hdr :: "env \<Rightarrow> tpa_worker \<Rightarrow> tcp_sock \<Rightarrow> tx_pkt \<Rightarrow> u32 \<Rightarrow> u8 \<Rightarrow> err \<times> tcp_sock \<times> tx_pkt" where
  "prepend_tcp_hdr E w t x0 seq tcp_flags =
     (let x = x0\<lparr>tx_tsock := sk_pos t\<rparr>;
          payload_len = ucast (tx_pkt_len x) :: u16;
          (opt_len, opts) = calc_tcp_opt_len t tcp_flags;
          tcp_hdr_len = of_nat (TCP_HDR_SIZE + opt_len) :: u16
      in if unat (net_hdr_len t) + TCP_HDR_SIZE + opt_len > env_headroom E then (Some ERR_PKT_PREPEND_HDR, t, x)
         else (let opt_bytes = fill_opts (ts_us w) (calc_snd_mss E t (opts AND TCP_OPT_TS_BIT \<noteq> 0) False 0) (sack_blocks t) opts;
                   t2 = prepend_sock t tcp_flags;
                   wnd0 = (if tcp_flags AND TCP_FLAG_SYN \<noteq> 0 then rcv_wnd t2 else drop_bit (unat (rcv_wscale t2)) (rcv_wnd t2));
                   wnd = min wnd0 0xffff;
                   ack = (if tcp_flags AND TCP_FLAG_ACK \<noteq> 0 then rcv_nxt t else 0);
                   mss = (if opts AND TCP_OPT_SACK_BIT \<noteq> 0
                          then snd_mss t2 - of_nat (TCP_OPT_SACK_SPACE (length (sack_blocks t2))) else snd_mss t2);
                   x1 = mbuf_set_offload x mss;
                   ip = ip_hdr_bytes (net_hdr t2) payload_len tcp_hdr_len (packet_id t2);
                   tcp = tcp_hdr_bytes (local_port t2) (remote_port t2) seq ack tcp_hdr_len tcp_flags (ucast wnd)
                           (env_phdr_cksum E ip (tx_tso x1 \<noteq> None)) (if net_is_ip4 (net_hdr t2) then 0 else env_stale_urp E)
               in (None, t2\<lparr>packet_id := packet_id t2 + 1\<rparr>,
                   x1\<lparr>tx_hdr := eth_bytes (net_eth (net_hdr t2)) @ ip @ tcp @ opt_bytes,
                      tx_hdr_len := net_hdr_len t2 + ucast tcp_hdr_len, tx_seq := seq, tx_len := payload_len,
                      tx_tcp_flags := tcp_flags\<rparr>)))"

section \<open>Packets without data\<close>

definition tx_pkt_empty :: tx_pkt where
  "tx_pkt_empty = \<lparr>tx_hdr = [], tx_segs = [], tx_seq = 0, tx_len = 0, tx_tcp_flags = 0, tx_hdr_len = 0,
     tx_retransmit = False, tx_tso = None, tx_tsock = 0\<rparr>"

definition wk_txq_enqueue :: "env \<Rightarrow> tpa_worker \<Rightarrow> u16 \<Rightarrow> tx_pkt \<Rightarrow> err \<times> tpa_worker" where
  "wk_txq_enqueue E w port x =
     (let (e, d) = dev_port_txq_enqueue (env_tx_burst E) (wk_dev w) port x in (e, w\<lparr>wk_dev := d\<rparr>))"

text \<open>The queue of packets that wait for a neighbour is drained by another thread: whether it has
  room is a fact of the environment. A second attempt follows the removal of stale requests.\<close>

definition neigh_wait_enqueue :: "env \<Rightarrow> tpa_worker \<Rightarrow> tx_pkt \<Rightarrow> err \<times> tpa_worker" where
  "neigh_wait_enqueue E w x =
     (let n = nr_neigh_wait w
      in if env_neigh_room E n then (None, w\<lparr>neigh_waiting := neigh_waiting w @ [x], nr_neigh_wait := n + 1\<rparr>)
         else if env_neigh_room E (n + 1) then (None, w\<lparr>neigh_waiting := neigh_waiting w @ [x], nr_neigh_wait := n + 2\<rparr>)
         else (Some ERR_NEIGH_ENQUEUE, w\<lparr>nr_neigh_wait := n + 2\<rparr>))"

datatype xmit_ret = XmitOk | XmitNoHdr | XmitErr stats_code

text \<open>What changes in the socket once the packet is queued.\<close>

definition flag_packet_sent :: "tpa_worker \<Rightarrow> tcp_sock \<Rightarrow> u8 \<Rightarrow> tcp_sock" where
  "flag_packet_sent w t tcp_flags =
     (let t1 = (if tcp_flags AND TCP_FLAG_ACK \<noteq> 0
                then t\<lparr>last_ack_sent := rcv_nxt t, last_ack_sent_ts := ucast (ts_us w),
                       flags := flags t AND NOT (TSOCK_FLAG_ACK_NEEDED OR TSOCK_FLAG_ACK_NOW)\<rparr> else t);
          t2 = (if tcp_flags AND TCP_FLAG_SYN \<noteq> 0 then t1\<lparr>flags := flags t1 AND NOT TSOCK_FLAG_SYN_NEEDED\<rparr> else t1);
          t3 = (if tcp_flags AND TCP_FLAG_FIN \<noteq> 0 then t2\<lparr>flags := flags t2 AND NOT TSOCK_FLAG_FIN_NEEDED\<rparr> else t2);
          t4 = (if tcp_flags AND TCP_FLAG_RST \<noteq> 0 then t3\<lparr>flags := flags t3 AND NOT TSOCK_FLAG_RST_NEEDED\<rparr> else t3)
      in tsock_update_last_ts w t4 LAST_TS_SND_PKT)"

text \<open>A header that does not fit is not an error here: the code goes on as if the packet had been
  queued.\<close>

definition xmit_flag_packet_with_seq :: "env \<Rightarrow> tpa_worker \<Rightarrow> tcp_sock \<Rightarrow> u32 \<Rightarrow> xmit_ret \<times> tpa_worker \<times> tcp_sock" where
  "xmit_flag_packet_with_seq E w t seq =
     (if net_hdr_len t = 0 then (XmitNoHdr, w, t\<lparr>flags := flags t AND NOT TSOCK_FLAG_TCP_FLAGS_MASK\<rparr>)
      else case packet_alloc E w of
        (None, w1) \<Rightarrow> (XmitErr ERR_PKT_ALLOC_FAIL, w1, t)
      | (Some b, w1) \<Rightarrow>
          (let tcp_flags = tsock_flags_to_tcp_flags (flags t)
           in case prepend_tcp_hdr E w1 t tx_pkt_empty seq tcp_flags of
                (Some e, t1, x) \<Rightarrow> (XmitOk, w1, flag_packet_sent w1 t1 tcp_flags)
              | (None, t1, x) \<Rightarrow>
                  (let missing = flags t1 AND TSOCK_FLAG_MISSING_ARP \<noteq> 0;
                       t2 = (if missing then t1\<lparr>flags := flags t1 AND NOT TSOCK_FLAG_MISSING_ARP\<rparr> else t1);
                       (e, w2) = (if missing then neigh_wait_enqueue E w1 x else wk_txq_enqueue E w1 (port_id t2) x)
                   in case e of
                        Some c \<Rightarrow> (XmitErr c, w2, t2)
                      | None \<Rightarrow> (XmitOk, w2, flag_packet_sent w2 t2 tcp_flags))))"

definition xmit_flag_packet :: "env \<Rightarrow> tpa_worker \<Rightarrow> tcp_sock \<Rightarrow> xmit_ret \<times> tpa_worker \<times> tcp_sock" where
  "xmit_flag_packet E w t =
     (let tcp_flags = tsock_flags_to_tcp_flags (flags t);
          seq = (if tcp_flags AND TCP_FLAG_SYN \<noteq> 0 then snd_isn t
                 else if tcp_flags AND TCP_FLAG_FIN \<noteq> 0 then data_seq_nxt t else snd_nxt t)
      in xmit_flag_packet_with_seq E w t seq)"

definition xmit_rst_for_listen :: "env \<Rightarrow> tpa_worker \<Rightarrow> tcp_sock \<Rightarrow> packet \<Rightarrow> err \<times> tpa_worker \<times> tcp_sock" where
  "xmit_rst_for_listen E w t p =
     (case packet_alloc E w of
        (None, w1) \<Rightarrow> (Some ERR_PKT_ALLOC_FAIL, w1, t)
      | (Some b, w1) \<Rightarrow>
          (let v6 = pkt_flags p AND PKT_FLAG_IS_IPV6 \<noteq> 0;
               pkt_len = unat ETH_HDR_LEN + TCP_HDR_SIZE + (if v6 then IP6_HDR_SIZE else IP4_HDR_SIZE)
           in if pkt_len > env_headroom E then (Some ERR_PKT_PREPEND_HDR, w1, t)
              else (let (hdr, _, lip, rip) = init_net_hdr_from_pkt p;
                        ip = ip_hdr_bytes hdr 0 (of_nat TCP_HDR_SIZE) (packet_id t);
                        tcp = tcp_hdr_bytes (pkt_dst_port p) (pkt_src_port p) (pkt_ack p) 0 (of_nat TCP_HDR_SIZE) TCP_FLAG_RST 0
                                (env_phdr_cksum E ip False) 0;
                        x = tx_pkt_empty\<lparr>tx_hdr := eth_bytes (net_eth hdr) @ ip @ tcp, tx_tcp_flags := TCP_FLAG_RST,
                              tx_hdr_len := of_nat pkt_len, tx_tsock := sk_pos t\<rparr>;
                        t1 = t\<lparr>packet_id := packet_id t + 1\<rparr>;
                        (e, w2) = wk_txq_enqueue E w1 (port_id t1) x
                    in case e of Some c \<Rightarrow> (Some c, w2, t1) | None \<Rightarrow> (None, w2, tsock_update_last_ts w2 t1 LAST_TS_SND_PKT))))"

definition flush_tcp_packet :: "tpa_worker \<Rightarrow> tcp_sock \<Rightarrow> tcp_sock" where
  "flush_tcp_packet w t =
     (let t1 = (if tsock_flags_to_tcp_flags (flags t) AND TCP_FLAG_SYN \<noteq> 0
                then t\<lparr>flags := flags t AND NOT TSOCK_FLAG_SYN_NEEDED\<rparr> else t)
      in tsock_update_last_ts w t1 LAST_TS_SND_PKT)"

text \<open>The caller always has a socket; the test for NULL is left out.\<close>

definition tcp_connect :: "env \<Rightarrow> tpa_worker \<Rightarrow> tcp_sock \<Rightarrow> int \<times> tpa_worker \<times> tcp_sock" where
  "tcp_connect E w t =
     (if state t \<noteq> TCP_STATE_CLOSED then (-1, w\<lparr>wk_errno := Some EADDRINUSE\<rparr>, t)
      else (let (isn, w1) = isn_gen E w (remote_ip t) (local_port t) (remote_port t);
                t1 = t\<lparr>state := TCP_STATE_SYN_SENT, snd_isn := isn\<rparr>
            in (0, output_tsock_enqueue w1 t1, t1)))"

section \<open>Transmission of data\<close>

definition MAX_HDR_LEN :: u32 where "MAX_HDR_LEN = 100"

definition tsock_snd_mss :: "tcp_sock \<Rightarrow> u32" where
  "tsock_snd_mss t = (if tso_enabled t then 0xffff - MAX_HDR_LEN else ucast (snd_mss t))"

definition tcp_zero_wnd_probe :: "env \<Rightarrow> tpa_worker \<Rightarrow> tcp_sock \<Rightarrow> tpa_worker \<times> tcp_sock" where
  "tcp_zero_wnd_probe E w t =
     (if ts_us w - last_ts_in_us E t LAST_TS_SND_PKT < ucast (push_bit (unat (zero_wnd_probe_shift t)) (rto t)) then (w, t)
      else (let t1 = t\<lparr>flags := flags t OR TSOCK_FLAG_ACK_NEEDED\<rparr>;
                (r, w2, t2) = xmit_flag_packet_with_seq E w t1 (snd_una t1 - 1)
            in (w2, t2\<lparr>zero_wnd_probe_shift := ucast (min (ucast (zero_wnd_probe_shift t2) + 1) (retries (cfg E)))\<rparr>)))"

record xmit_ctx =
  xc_seq :: u32
  xc_seq_max :: u32
  xc_budget :: int
  xc_desc_off :: u16
  xc_desc_base :: u16

text \<open>The first loop of \<open>xmit_one_packet\<close>: past the descriptors that the peer has already reported.\<close>

lemma peek_for_write_bound: "tcp_txq_peek_for_write q base off = Some d \<Longrightarrow> unat off < unat (txq_write q - base)"
  by (auto simp: tcp_txq_peek_for_write_def word_less_nat_alt not_le split: if_splits)

function skip_sacked :: "tpa_worker \<Rightarrow> tcp_sock \<Rightarrow> xmit_ctx \<Rightarrow> nat option \<times> xmit_ctx" where
  "skip_sacked w t c =
     (case tcp_txq_peek_for_write (txq t) (xc_desc_base c) (xc_desc_off c) of
        None \<Rightarrow> (None, c)
      | Some d \<Rightarrow>
          if desc_flags (desc_mem w d) AND TX_DESC_FLAG_SACKED = 0 then (Some d, c)
          else skip_sacked w t (c\<lparr>xc_desc_off := xc_desc_off c + 1,
                 xc_seq := desc_seq (desc_mem w d) + desc_len (desc_mem w d)\<rparr>))"
  by pat_completeness auto
termination
proof (relation "measure (\<lambda>(w, t, c). unat (txq_write (txq t) - xc_desc_base c) - unat (xc_desc_off c))")
  fix w t c d
  assume "tcp_txq_peek_for_write (txq t) (xc_desc_base c) (xc_desc_off c) = Some d"
  then have b: "unat (xc_desc_off c) < unat (txq_write (txq t) - xc_desc_base c)" by (rule peek_for_write_bound)
  have "unat (xc_desc_off c + 1) = unat (xc_desc_off c) + 1"
    using b unsigned_less [of "txq_write (txq t) - xc_desc_base c", where ?'a = nat] by (subst unat_add_small) simp_all
  then show "((w, t, c\<lparr>xc_desc_off := xc_desc_off c + 1, xc_seq := desc_seq (desc_mem w d) + desc_len (desc_mem w d)\<rparr>), w, t, c)
      \<in> measure (\<lambda>(w, t, c). unat (txq_write (txq t) - xc_desc_base c) - unat (xc_desc_off c))"
    using b by simp
qed simp

declare skip_sacked.simps [simp del]

definition desc_mark :: "tpa_worker \<Rightarrow> nat \<Rightarrow> u32 \<Rightarrow> tpa_worker" where
  "desc_mark w d f =
     w\<lparr>desc_mem := (desc_mem w)(d := (desc_mem w d)\<lparr>desc_flags := desc_flags (desc_mem w d) OR f\<rparr>)\<rparr>"

text \<open>One round of the second loop, once a buffer is there: how much of descriptor \<open>d\<close> is taken,
  and the budget that is left.\<close>

definition xmit_take :: "xmit_ctx \<Rightarrow> tx_desc \<Rightarrow> int \<Rightarrow> u32 \<times> int" where
  "xmit_take c desc budget =
     (let off = xc_seq c - desc_seq desc;
          len = min (desc_len desc - off) (word_of_int budget)
      in if seq_gt (xc_seq c + len) (xc_seq_max c)
         then (let len1 = xc_seq_max c - xc_seq c in (len1, 0))
         else (len, budget - sint len))"

text \<open>The body of the second loop: it either leaves the loop or goes on with the next descriptor.
  The number of buffers, the header included, is compared with \<open>pkt_max_chain\<close>.\<close>

type_synonym xmit_out = "err \<times> tpa_worker \<times> xmit_ctx \<times> tx_pkt \<times> u32"

definition xmit_round :: "env \<Rightarrow> tpa_worker \<Rightarrow> tcp_sock \<Rightarrow> xmit_ctx \<Rightarrow> nat \<Rightarrow> tx_pkt \<Rightarrow> int \<Rightarrow> u32 \<Rightarrow>
    xmit_out + (tpa_worker \<times> xmit_ctx \<times> nat \<times> tx_pkt \<times> int \<times> u32)" where
  "xmit_round E w t c d x budget sz =
     (let re = seq_lt (xc_seq c) (snd_nxt t);
          w1 = (if re then desc_mark w d TX_DESC_FLAG_RETRANS else w);
          x1 = (if re then x\<lparr>tx_retransmit := True\<rparr> else x);
          desc = desc_mem w1 d
      in if desc_flags desc AND TX_DESC_FLAG_SACKED \<noteq> 0 then Inl (None, w1, c, x1, sz)
         else case packet_alloc E w1 of
           (None, w2) \<Rightarrow> Inl (Some ERR_PKT_ALLOC_FAIL, w2, c, x1, sz)
         | (Some b, w2) \<Rightarrow>
             (let off = xc_seq c - desc_seq desc;
                  (len, budget1) = xmit_take c desc budget;
                  whole = (off + len = desc_len desc);
                  w3 = (if whole then w2\<lparr>desc_mem := (desc_mem w2)(d := desc\<lparr>desc_ts_us := ts_us w2\<rparr>)\<rparr> else w2);
                  c1 = c\<lparr>xc_seq := xc_seq c + len, xc_desc_off := xc_desc_off c + (if whole then 1 else 0)\<rparr>;
                  nx = (if whole then tcp_txq_peek_for_write (txq t) (xc_desc_base c1) (xc_desc_off c1) else Some d);
                  x2 = x1\<lparr>tx_segs := tx_segs x1 @ [(desc_phys_addr desc + ucast off, len)]\<rparr>;
                  sz1 = sz + len
              in if length (tx_segs x2) + 1 \<ge> unat (pkt_max_chain (cfg E)) then Inl (None, w3, c1, x2, sz1)
                 else case nx of None \<Rightarrow> Inl (None, w3, c1, x2, sz1) | Some d1 \<Rightarrow> Inr (w3, c1, d1, x2, budget1, sz1)))"

lemma xmit_round_chain:
  "xmit_round E w t c d x budget sz = Inr (w', c', d', x', budget', sz') \<Longrightarrow>
   length (tx_segs x') = length (tx_segs x) + 1 \<and> length (tx_segs x') + 1 < unat (pkt_max_chain (cfg E))"
  by (auto simp: xmit_round_def Let_def split: if_splits option.splits prod.splits)

function xmit_fill :: "env \<Rightarrow> tpa_worker \<Rightarrow> tcp_sock \<Rightarrow> xmit_ctx \<Rightarrow> nat \<Rightarrow> tx_pkt \<Rightarrow> int \<Rightarrow> u32 \<Rightarrow> xmit_out" where
  "xmit_fill E w t c d x budget sz =
     (if budget \<le> 0 then (None, w, c, x, sz)
      else case xmit_round E w t c d x budget sz of
        Inl out \<Rightarrow> out
      | Inr (w1, c1, d1, x1, budget1, sz1) \<Rightarrow> xmit_fill E w1 t c1 d1 x1 budget1 sz1)"
  by pat_completeness auto
termination
  by (relation "measure (\<lambda>(E, w, t, c, d, x, budget, sz). unat (pkt_max_chain (cfg E)) - length (tx_segs x))")
    (auto dest!: xmit_round_chain)

declare xmit_fill.simps [simp del]

text \<open>The result is the number of bytes sent, 0 when there is nothing to send, or an error.\<close>

definition xmit_one_packet :: "env \<Rightarrow> tpa_worker \<Rightarrow> tcp_sock \<Rightarrow> xmit_ctx \<Rightarrow>
    (stats_code + u32) \<times> tpa_worker \<times> tcp_sock \<times> xmit_ctx" where
  "xmit_one_packet E w t c0 =
     (case skip_sacked w t c0 of
        (None, c) \<Rightarrow> (Inr 0, w, t, c)
      | (Some d, c) \<Rightarrow>
          (case packet_alloc E w of
             (None, w1) \<Rightarrow> (Inl ERR_PKT_ALLOC_FAIL, w1, t, c)
           | (Some b, w1) \<Rightarrow>
               (let (e, w2, c1, x, sz) = xmit_fill E w1 t c d tx_pkt_empty (uint (min (word_of_int (xc_budget c)) (tsock_snd_mss t))) 0
                in if sz = 0 then (case e of Some code \<Rightarrow> Inl code | None \<Rightarrow> Inr 0, w2, t, c1)
                   else case prepend_tcp_hdr E w2 t x (xc_seq c1 - sz) TCP_FLAG_ACK of
                     (Some code, t1, x1) \<Rightarrow> (Inl code, w2, t1, c1)
                   | (None, t1, x1) \<Rightarrow>
                       (case wk_txq_enqueue E w2 (port_id t1) x1 of
                          (Some code, w3) \<Rightarrow> (Inl code, w3, t1, c1)
                        | (None, w3) \<Rightarrow>
                            (Inr sz, w3, t1\<lparr>flags := flags t1 AND NOT TSOCK_FLAG_TCP_FLAGS_MASK\<rparr>,
                             c1\<lparr>xc_budget := sint (word_of_int (xc_budget c1) - sz)\<rparr>)))))"

fun xmit_loop :: "env \<Rightarrow> tpa_worker \<Rightarrow> tcp_sock \<Rightarrow> xmit_ctx \<Rightarrow> nat \<Rightarrow> int \<Rightarrow> int \<times> tpa_worker \<times> tcp_sock \<times> xmit_ctx" where
  "xmit_loop E w t c 0 sz = (sz, w, t, c)"
| "xmit_loop E w t c (Suc k) sz =
     (if xc_budget c \<le> 0 then (sz, w, t, c)
      else case xmit_one_packet E w t c of
        (Inl e, w1, t1, c1) \<Rightarrow> (sz, w1, t1, c1)
      | (Inr n, w1, t1, c1) \<Rightarrow> if sint n \<le> 0 then (sz, w1, t1, c1) else xmit_loop E w1 t1 c1 k (sz + sint n))"

definition do_tcp_xmit_data :: "env \<Rightarrow> tpa_worker \<Rightarrow> tcp_sock \<Rightarrow> xmit_ctx \<Rightarrow> int \<times> tpa_worker \<times> tcp_sock \<times> xmit_ctx" where
  "do_tcp_xmit_data E w t c =
     (let (sz, w1, t1, c1) = xmit_loop E w t c (nat (min (dev_port_txq_free_count (wk_dev w) (port_id t)) (int BATCH_SIZE))) 0
      in if sz \<le> 0 then (sz, w1, t1, c1)
         else (let w2 = (if timer_is_stopped (wk_timers w1) (SockTimer (sk_pos t1) TimerRto)
                         then tsock_rearm_timer_rto w1 t1 (ts_us w1) else w1);
                   t2 = t1\<lparr>last_ack_sent := rcv_nxt t1, last_ack_sent_ts := ucast (ts_us w2), snd_ts := us_to_tcp_ts (ts_us w2)\<rparr>
               in (sz, w2, tsock_update_last_ts w2 (tsock_update_last_ts w2 t2 LAST_TS_SND_DATA) LAST_TS_SND_PKT, c1)))"

definition tcp_xmit_data :: "env \<Rightarrow> tpa_worker \<Rightarrow> tcp_sock \<Rightarrow> tpa_worker \<times> tcp_sock" where
  "tcp_xmit_data E w t =
     (let wnd = min (snd_wnd t) (snd_cwnd t)
      in if wnd = 0 then tcp_zero_wnd_probe E w t
         else (let (sz, w1, t1, c) = do_tcp_xmit_data E w t
                     \<lparr>xc_seq = snd_nxt t, xc_seq_max = data_seq_nxt t, xc_budget = sint (wnd - (snd_nxt t - snd_una t)),
                      xc_desc_off = 0, xc_desc_base = txq_nxt (txq t)\<rparr>
               in if xc_seq c = snd_nxt t1 then (w1, t1)
                  else (w1, t1\<lparr>snd_nxt := xc_seq c, txq := tcp_txq_update_nxt (txq t1) (xc_desc_off c)\<rparr>)))"

definition do_tcp_retrans :: "env \<Rightarrow> tpa_worker \<Rightarrow> tcp_sock \<Rightarrow> int \<Rightarrow> int \<times> tpa_worker \<times> tcp_sock" where
  "do_tcp_retrans E w t budget =
     (let (sz, w1, t1, c) = do_tcp_xmit_data E w t
            \<lparr>xc_seq = retrans_seq t, xc_seq_max = snd_nxt t, xc_budget = budget, xc_desc_off = 0,
             xc_desc_base = retrans_desc_base t\<rparr>
      in (sz, w1, t1\<lparr>retrans_seq := xc_seq c, retrans_desc_base := xc_desc_base c + xc_desc_off c\<rparr>))"

definition regulate_retrans :: "tcp_sock \<Rightarrow> tcp_sock" where
  "regulate_retrans t =
     (if seq_lt (retrans_seq t) (snd_una t) then tcp_reset_retrans t (snd_una t) (txq_una (txq t)) else t)"

definition tcp_retrans :: "env \<Rightarrow> tpa_worker \<Rightarrow> tcp_sock \<Rightarrow> tpa_worker \<times> tcp_sock" where
  "tcp_retrans E w t0 =
     (let t = regulate_retrans t0;
          (sz, w1, t1) = do_tcp_retrans E w t (sint (min (snd_wnd t) (snd_cwnd t) - (retrans_seq t - snd_una t)))
      in (w1, t1))"

definition tcp_fast_retrans :: "env \<Rightarrow> tpa_worker \<Rightarrow> tcp_sock \<Rightarrow> int \<Rightarrow> tpa_worker \<times> tcp_sock" where
  "tcp_fast_retrans E w t0 budget0 =
     (let t = regulate_retrans t0;
          b = sint (word_of_int budget0 - (retrans_seq t - snd_una t));
          budget = (if b < uint (snd_mss t) then uint (snd_mss t) else b);
          (sz, w1, t1) = do_tcp_retrans E w t budget
      in (w1, t1))"

section \<open>Writes\<close>

record tpa_iovec =
  iov_base :: u64
  iov_phys :: u64
  iov_len :: u32
  iov_param :: u64
  iov_write_done :: "nat option"

record write_ctx =
  wc_nr_desc_free :: nat
  wc_nr_desc :: nat
  wc_size :: u32
  wc_nr_fallback :: nat

definition refire_out_event_if_needed :: "tpa_worker \<Rightarrow> tcp_sock \<Rightarrow> tpa_worker \<times> tcp_sock" where
  "refire_out_event_if_needed w t =
     (if tcp_txq_unfinished_pkts (txq t) = 0 then tsock_event_add w t TPA_EVENT_OUT else (w, t))"

definition write_commit :: "tpa_worker \<Rightarrow> tcp_sock \<Rightarrow> write_ctx \<Rightarrow> tpa_worker \<times> tcp_sock" where
  "write_commit w t c =
     (let t1 = t\<lparr>txq := (txq t)\<lparr>txq_write := txq_write (txq t) + of_nat (wc_nr_desc c)\<rparr>, data_seq_nxt := data_seq_nxt t + wc_size c\<rparr>
      in (output_tsock_enqueue w t1, t1))"

definition txq_desc_at :: "tcp_sock \<Rightarrow> nat \<Rightarrow> nat" where
  "txq_desc_at t i = txq_descs (txq t) ! slot (txq_mask (txq t)) (txq_write (txq t) + of_nat i)"

definition txq_desc_put :: "tcp_sock \<Rightarrow> nat \<Rightarrow> nat \<Rightarrow> tcp_sock" where
  "txq_desc_put t i d =
     t\<lparr>txq := (txq t)\<lparr>txq_descs := (txq_descs (txq t))[slot (txq_mask (txq t)) (txq_write (txq t) + of_nat i) := d]\<rparr>\<rparr>"

definition desc_revoke :: "tpa_worker \<Rightarrow> nat \<Rightarrow> tpa_worker" where
  "desc_revoke w d =
     (let desc = desc_mem w d;
          w1 = (if desc_flags desc AND TX_DESC_FLAG_MEM_FROM_MBUF \<noteq> 0
                then w\<lparr>freed_bufs := freed_bufs w @ (case desc_pkt desc of None \<Rightarrow> [] | Some b \<Rightarrow> [b])\<rparr> else w)
      in w1\<lparr>desc_pool := tx_desc_free (desc_pool w1) d\<rparr>)"

definition write_revoke :: "tpa_worker \<Rightarrow> tcp_sock \<Rightarrow> write_ctx \<Rightarrow> tpa_worker" where
  "write_revoke w t c = fold (\<lambda>i w. desc_revoke w (txq_desc_at t i)) [0..<wc_nr_desc c] w"

text \<open>The memory of one descriptor of a write without a physical address: a buffer of its own into
  which the data is copied. The result is the descriptor's address, physical address, length,
  flags and packet.\<close>

definition write_fallback :: "env \<Rightarrow> tpa_worker \<Rightarrow> tpa_iovec \<Rightarrow> u32 \<Rightarrow> u32 \<Rightarrow> (u64 \<times> u64 \<times> u32 \<times> nat) option \<times> tpa_worker" where
  "write_fallback E w iov off len =
     (if too_many_used_mbufs E w then (None, w)
      else case packet_alloc E w of
        (None, w1) \<Rightarrow> (None, w1)
      | (Some b, w1) \<Rightarrow>
          (let len1 = min len (env_tailroom E)
           in (Some (env_buf_addr E b, env_buf_iova E b, len1, b),
               w1\<lparr>copies := copies w1 @ [(env_buf_addr E b, iov_base iov + ucast off, len1)]\<rparr>)))"

text \<open>One round of the loop of \<open>write_one_iov\<close>: \<open>None\<close> when the write fails, or the length that the
  new descriptor takes.\<close>

definition write_round :: "env \<Rightarrow> tpa_worker \<Rightarrow> tcp_sock \<Rightarrow> tpa_iovec \<Rightarrow> write_ctx \<Rightarrow> u32 \<Rightarrow>
    (nat \<times> u32) option \<times> tpa_worker \<times> tcp_sock \<times> write_ctx" where
  "write_round E w t iov c off =
     (if wc_nr_desc c + 1 > wc_nr_desc_free c then (None, w, t, c)
      else case tx_desc_alloc (desc_pool w) of
        (None, p) \<Rightarrow> (None, w, t, c)
      | (Some d, p) \<Rightarrow>
          (let w1 = w\<lparr>desc_pool := p\<rparr>;
               len = min (iov_len iov - off) (write_chunk_size (cfg E));
               (mem, w2) = (if iov_phys iov \<noteq> 0
                            then (Some (iov_base iov + ucast off, iov_phys iov + ucast off, len, None), w1)
                            else case write_fallback E w1 iov off len of
                              (None, w2) \<Rightarrow> (None, w2\<lparr>desc_pool := tx_desc_free (desc_pool w2) d\<rparr>)
                            | (Some (a, pa, l, b), w2) \<Rightarrow> (Some (a, pa, l, Some b), w2))
           in case mem of
                None \<Rightarrow> (None, w2, t, c)
              | Some (a, pa, l, b) \<Rightarrow>
                  (let desc = (desc_mem w2 d)\<lparr>desc_addr := a, desc_phys_addr := pa, desc_len := l, desc_write_done := None,
                         desc_base := 0, desc_param := 0, desc_flags := (if b = None then 0 else TX_DESC_FLAG_MEM_FROM_MBUF),
                         desc_seq := data_seq_nxt t + wc_size c,
                         desc_pkt := (if b = None then desc_pkt (desc_mem w2 d) else b)\<rparr>
                   in (Some (d, l), w2\<lparr>desc_mem := (desc_mem w2)(d := desc)\<rparr>, txq_desc_put t (wc_nr_desc c) d,
                       c\<lparr>wc_size := wc_size c + l, wc_nr_desc := wc_nr_desc c + 1,
                         wc_nr_fallback := wc_nr_fallback c + (if b = None then 0 else 1)\<rparr>))))"

lemma write_round_nr:
  "write_round E w t iov c off = (Some (d, l), w', t', c') \<Longrightarrow>
   wc_nr_desc c' = wc_nr_desc c + 1 \<and> wc_nr_desc_free c' = wc_nr_desc_free c \<and> wc_nr_desc c < wc_nr_desc_free c"
  by (auto simp: write_round_def Let_def split: if_splits option.splits prod.splits)

function write_iov_loop :: "env \<Rightarrow> tpa_worker \<Rightarrow> tcp_sock \<Rightarrow> tpa_iovec \<Rightarrow> write_ctx \<Rightarrow> u32 \<Rightarrow>
    bool \<times> tpa_worker \<times> tcp_sock \<times> write_ctx" where
  "write_iov_loop E w t iov c off =
     (case write_round E w t iov c off of
        (None, w1, t1, c1) \<Rightarrow> (False, w1, t1, c1)
      | (Some (d, l), w1, t1, c1) \<Rightarrow>
          if off + l < iov_len iov then write_iov_loop E w1 t1 iov c1 (off + l)
          else (True, w1\<lparr>desc_mem := (desc_mem w1)(d := (desc_mem w1 d)\<lparr>desc_write_done := iov_write_done iov,
                  desc_base := iov_base iov, desc_param := iov_param iov\<rparr>)\<rparr>, t1, c1))"
  by pat_completeness auto
termination
  by (relation "measure (\<lambda>(E, w, t, iov, c, off). wc_nr_desc_free c - wc_nr_desc c)")
    (auto dest!: write_round_nr [OF sym])

declare write_iov_loop.simps [simp del]

definition write_one_iov :: "env \<Rightarrow> tpa_worker \<Rightarrow> tcp_sock \<Rightarrow> tpa_iovec \<Rightarrow> write_ctx \<Rightarrow> bool \<times> tpa_worker \<times> tcp_sock \<times> write_ctx" where
  "write_one_iov E w t iov c = (if iov_len iov = 0 then (True, w, t, c) else write_iov_loop E w t iov c 0)"

fun slowpath_loop :: "env \<Rightarrow> tpa_worker \<Rightarrow> tcp_sock \<Rightarrow> tpa_iovec list \<Rightarrow> write_ctx \<Rightarrow> bool \<times> tpa_worker \<times> tcp_sock \<times> write_ctx" where
  "slowpath_loop E w t [] c = (True, w, t, c)"
| "slowpath_loop E w t (iov # iovs) c =
     (case write_one_iov E w t iov c of
        (False, w1, t1, c1) \<Rightarrow> (False, w1, t1, c1)
      | (True, w1, t1, c1) \<Rightarrow> slowpath_loop E w1 t1 iovs c1)"

definition tsock_zwritev_slowpath :: "env \<Rightarrow> tpa_worker \<Rightarrow> tcp_sock \<Rightarrow> tpa_iovec list \<Rightarrow> write_ctx \<Rightarrow>
    bool \<times> tpa_worker \<times> tcp_sock \<times> write_ctx" where
  "tsock_zwritev_slowpath E w t iovs c =
     (case slowpath_loop E w t (drop (wc_nr_desc c) iovs) (c\<lparr>wc_nr_fallback := 0\<rparr>) of
        (False, w1, t1, c1) \<Rightarrow> (False, w1, t1, c1)
      | (True, w1, t1, c1) \<Rightarrow>
          (let w2 = w1\<lparr>nr_write_mbuf := nr_write_mbuf w1 + of_nat (wc_nr_fallback c1)\<rparr>;
               (w3, t2) = write_commit w2 t1 c1
           in (True, w3, t2, c1)))"

definition tsock_write_check :: "tcp_sock \<Rightarrow> errno option" where
  "tsock_write_check t =
     (if close_issued t then Some EBADF
      else if sk_err t \<noteq> None then sk_err t
      else if state t = TCP_STATE_ESTABLISHED \<or> state t = TCP_STATE_CLOSE_WAIT then None
      else if state t = TCP_STATE_SYN_SENT \<or> state t = TCP_STATE_SYN_RCVD then Some ENOTCONN
      else Some EPIPE)"

datatype fast_end = FastDone | FastSlow | FastFail

text \<open>The fast loop of \<open>tsock_zwritev\<close>, one descriptor for each vector.\<close>

fun zwritev_fast :: "env \<Rightarrow> tpa_worker \<Rightarrow> tcp_sock \<Rightarrow> tpa_iovec list \<Rightarrow> write_ctx \<Rightarrow>
    fast_end \<times> tpa_worker \<times> tcp_sock \<times> write_ctx" where
  "zwritev_fast E w t [] c = (FastDone, w, t, c)"
| "zwritev_fast E w t (iov # iovs) c =
     (if iov_phys iov = 0 \<or> iov_len iov = 0 \<or> iov_len iov > write_chunk_size (cfg E) then (FastSlow, w, t, c)
      else if wc_nr_desc c + 1 > wc_nr_desc_free c then (FastFail, w, t, c)
      else case tx_desc_alloc (desc_pool w) of
        (None, p) \<Rightarrow> (FastFail, w, t, c)
      | (Some d, p) \<Rightarrow>
          (let desc = (desc_mem w d)\<lparr>desc_addr := iov_base iov, desc_phys_addr := iov_phys iov, desc_len := iov_len iov,
                 desc_write_done := iov_write_done iov, desc_base := iov_base iov, desc_param := iov_param iov,
                 desc_flags := 0, desc_seq := data_seq_nxt t + wc_size c\<rparr>
           in zwritev_fast E (w\<lparr>desc_pool := p, desc_mem := (desc_mem w)(d := desc)\<rparr>) (txq_desc_put t (wc_nr_desc c) d) iovs
                (c\<lparr>wc_nr_desc := wc_nr_desc c + 1, wc_size := wc_size c + iov_len iov\<rparr>)))"

definition tsock_zwritev :: "env \<Rightarrow> tpa_worker \<Rightarrow> tcp_sock \<Rightarrow> tpa_iovec list \<Rightarrow> int \<times> tpa_worker \<times> tcp_sock" where
  "tsock_zwritev E w t iovs =
     (case tsock_write_check t of
        Some e \<Rightarrow> (-1, w\<lparr>wk_errno := Some e\<rparr>, t)
      | None \<Rightarrow>
          (let c0 = \<lparr>wc_nr_desc_free = unat (tcp_txq_free_count (txq t)), wc_nr_desc = 0, wc_size = 0, wc_nr_fallback = 0\<rparr>;
               failed = (\<lambda>w t c. let (w1, t1) = refire_out_event_if_needed (write_revoke w t c) t
                                  in (-1, w1\<lparr>wk_errno := Some EAGAIN\<rparr>, t1))
           in case zwritev_fast E w t iovs c0 of
                (FastDone, w1, t1, c) \<Rightarrow> (let (w2, t2) = write_commit w1 t1 c in (uint (wc_size c), w2, t2))
              | (FastFail, w1, t1, c) \<Rightarrow> failed w1 t1 c
              | (FastSlow, w1, t1, c) \<Rightarrow>
                  (case tsock_zwritev_slowpath E w1 t1 iovs c of
                     (True, w2, t2, c1) \<Rightarrow> (uint (wc_size c1), w2, t2)
                   | (False, w2, t2, c1) \<Rightarrow> failed w2 t2 c1)))"

text \<open>The size is a \<open>size_t\<close>, the vector's length has 32 bits and the result is an \<open>int\<close>.\<close>

definition tsock_write :: "env \<Rightarrow> tpa_worker \<Rightarrow> tcp_sock \<Rightarrow> u64 \<Rightarrow> u64 \<Rightarrow> int \<times> tpa_worker \<times> tcp_sock" where
  "tsock_write E w t buf sz =
     (let (r, w1, t1) = tsock_zwritev E w t
            [\<lparr>iov_base = buf, iov_phys = 0, iov_len = ucast sz, iov_param = 0, iov_write_done = None\<rparr>]
      in (sint (word_of_int r :: u32), w1, t1))"

section \<open>The output pass\<close>

definition tsock_init_net_hdr :: "env \<Rightarrow> tcp_sock \<Rightarrow> tcp_sock" where
  "tsock_init_net_hdr E t =
     (let (found, eth) = eth_lookup E (remote_ip t);
          t1 = (if found then t else t\<lparr>flags := flags t OR TSOCK_FLAG_MISSING_ARP\<rparr>);
          (hdr, len) = init_net_hdr eth (local_ip t1) (remote_ip t1)
      in t1\<lparr>net_hdr := hdr, net_hdr_len := len\<rparr>)"

definition xmit_syn :: "env \<Rightarrow> tpa_worker \<Rightarrow> tcp_sock \<Rightarrow> tpa_worker \<times> tcp_sock" where
  "xmit_syn E w t =
     (let seq = snd_isn t;
          t1 = tsock_init_net_hdr E
                 (t\<lparr>snd_recover := seq, snd_una := seq, snd_nxt := seq + 1, snd_ts := us_to_tcp_ts (ts_us w), init_ts_us := ts_us w,
                    rto := TCP_RTO_DEFAULT, data_seq_nxt := seq + 1\<rparr>);
          t2 = t1\<lparr>flags := flags t1 OR TSOCK_FLAG_SYN_NEEDED OR
                  (if state t1 = TCP_STATE_SYN_RCVD then TSOCK_FLAG_ACK_NEEDED else 0)\<rparr>;
          (ret, w1, t3) = xmit_flag_packet E w t2;
          w2 = (if ret = XmitErr ERR_DEV_TXQ_FULL then output_tsock_enqueue w1 t3 else w1);
          w3 = (if rto_shift t3 = 0 then wk_timer_start w2 t3 TimerRto (ts_us w2) (ucast (rto t3)) else w2)
      in (w3, t3))"

definition tsock_set_state :: "env \<Rightarrow> tpa_worker \<Rightarrow> tcp_sock \<Rightarrow> tcp_state \<Rightarrow> tpa_worker \<times> tcp_sock" where
  "tsock_set_state E w t s =
     (let t1 = t\<lparr>state := s\<rparr>
      in (if s = TCP_STATE_TIME_WAIT \<or> s = TCP_STATE_FIN_WAIT_2
          then wk_timer_start w t1 TimerWait (ts_us w) (ucast (time_wait (cfg E))) else w, t1))"

text \<open>The switch of \<open>tcp_close\<close>.\<close>

definition close_state :: "env \<Rightarrow> tpa_worker \<Rightarrow> tcp_sock \<Rightarrow> tpa_worker \<times> tcp_sock" where
  "close_state E w t =
     (case state t of
        TCP_STATE_LISTEN \<Rightarrow> tsock_set_state E w t TCP_STATE_CLOSED
      | TCP_STATE_SYN_SENT \<Rightarrow> tsock_set_state E w t TCP_STATE_CLOSED
      | TCP_STATE_SYN_RCVD \<Rightarrow>
          tsock_set_state E w (t\<lparr>closed_at_syn_rcvd := True, flags := flags t OR TSOCK_FLAG_FIN_PENDING\<rparr>) TCP_STATE_FIN_WAIT_1
      | TCP_STATE_ESTABLISHED \<Rightarrow>
          tsock_set_state E w (t\<lparr>flags := flags t OR TSOCK_FLAG_FIN_PENDING\<rparr>) TCP_STATE_FIN_WAIT_1
      | TCP_STATE_CLOSE_WAIT \<Rightarrow>
          tsock_set_state E w (t\<lparr>flags := flags t OR TSOCK_FLAG_FIN_PENDING\<rparr>) TCP_STATE_LAST_ACK
      | _ \<Rightarrow> (w, t))"

definition tcp_close :: "env \<Rightarrow> tpa_worker \<Rightarrow> tcp_sock \<Rightarrow> tcp_state \<times> tpa_worker \<times> tcp_sock" where
  "tcp_close E w t0 =
     (if flags t0 AND TSOCK_FLAG_CLOSE_PROCESSED \<noteq> 0 then (state t0, w, t0)
      else (let t = t0\<lparr>flags := flags t0 OR TSOCK_FLAG_CLOSE_PROCESSED\<rparr>;
                (w1, t1) = (if tcp_rxq_readable_count (rxq t) \<noteq> 0
                            then (let (w1, t1) = tsock_set_state E w t TCP_STATE_CLOSED;
                                      (r, w2, t2) = xmit_flag_packet E w1
                                        (t1\<lparr>flags := flags t1 OR TSOCK_FLAG_RST_NEEDED OR TSOCK_FLAG_ACK_NEEDED\<rparr>)
                                  in (w2, t2))
                            else close_state E w t)
            in if state t1 = TCP_STATE_CLOSED
               then (let (w2, t2) = tsock_free E w1 t1 in (TCP_STATE_CLOSED, w2, t2))
               else (state t1, w1, t1)))"

text \<open>The part of \<open>tcp_output_one\<close> after the data: the FIN once everything is sent, and a packet for
  flags that no data packet carried.\<close>

definition output_tail :: "env \<Rightarrow> tpa_worker \<Rightarrow> tcp_sock \<Rightarrow> tpa_worker \<times> tcp_sock" where
  "output_tail E w t =
     (let (w1, t1) =
        (if tcp_txq_to_send_pkts (txq t) > 0 then (output_tsock_enqueue w t, t)
         else if flags t AND TSOCK_FLAG_FIN_PENDING \<noteq> 0
         then (let t1 = t\<lparr>snd_nxt := data_seq_nxt t + 1,
                          flags := flags t OR (TSOCK_FLAG_FIN_NEEDED OR TSOCK_FLAG_ACK_NEEDED OR TSOCK_FLAG_FIN_SENT)\<rparr>
               in (if rto_shift t1 = 0 then wk_timer_start w t1 TimerRto (ts_us w) (ucast (rto t1)) else w, t1))
         else (w, t))
      in if tsock_flags_to_tcp_flags (flags t1) \<noteq> 0 then (let (r, w2, t2) = xmit_flag_packet E w1 t1 in (w2, t2))
         else (w1, t1))"

definition tcp_output_one :: "env \<Rightarrow> tpa_worker \<Rightarrow> tcp_sock \<Rightarrow> tpa_worker \<times> tcp_sock" where
  "tcp_output_one E w t =
     (if sid t < 0 then (w, t)
      else (let (st, w1, t1) = (if close_issued t then tcp_close E w t else (state t, w, t))
            in case st of
                 TCP_STATE_CLOSED \<Rightarrow> (w1, t1)
               | TCP_STATE_SYN_SENT \<Rightarrow> xmit_syn E w1 t1
               | TCP_STATE_SYN_RCVD \<Rightarrow> xmit_syn E w1 t1
               | _ \<Rightarrow> (let (w2, t2) = tcp_xmit_data E w1 t1 in output_tail E w2 t2)))"

definition sock_put :: "sock_ctrl \<Rightarrow> tcp_sock \<Rightarrow> sock_ctrl" where
  "sock_put sc t = sc\<lparr>sc_socks := (sc_socks sc)(sk_pos t := t)\<rparr>"

fun flush_ack_loop :: "env \<Rightarrow> tpa_worker \<Rightarrow> sock_ctrl \<Rightarrow> nat \<Rightarrow> tpa_worker \<times> sock_ctrl" where
  "flush_ack_loop E w sc 0 = (w, sc)"
| "flush_ack_loop E w sc (Suc k) =
     (case flex_fifo_peek (wk_delayed_ack w) of
        None \<Rightarrow> (w, sc)
      | Some n \<Rightarrow>
          (let t = sc_socks sc n
           in if sid t < 0 then flush_ack_loop E (w\<lparr>wk_delayed_ack := snd (flex_fifo_pop (wk_delayed_ack w))\<rparr>) sc k
              else if ucast (ts_us w) - last_ack_sent_ts t < delayed_ack (cfg E) then (w, sc)
              else (let (w1, t1) = (if flags t AND TSOCK_FLAG_ACK_NEEDED \<noteq> 0
                                    then (let (r, w1, t1) = xmit_flag_packet E w t in (w1, t1)) else (w, t))
                    in flush_ack_loop E (w1\<lparr>wk_delayed_ack := snd (flex_fifo_pop (wk_delayed_ack w1))\<rparr>) (sock_put sc t1) k)))"

definition tcp_flush_delayed_ack :: "env \<Rightarrow> tpa_worker \<Rightarrow> sock_ctrl \<Rightarrow> tpa_worker \<times> sock_ctrl" where
  "tcp_flush_delayed_ack E w sc = flush_ack_loop E w sc BATCH_SIZE"

fun output_loop :: "env \<Rightarrow> tpa_worker \<Rightarrow> sock_ctrl \<Rightarrow> nat list \<Rightarrow> tpa_worker \<times> sock_ctrl" where
  "output_loop E w sc [] = (w, sc)"
| "output_loop E w sc (n # ns) =
     (let (w1, t1) = tcp_output_one E w (sc_socks sc n) in output_loop E w1 (sock_put sc t1) ns)"

definition tcp_output :: "env \<Rightarrow> tpa_worker \<Rightarrow> sock_ctrl \<Rightarrow> nat \<times> tpa_worker \<times> sock_ctrl" where
  "tcp_output E w sc =
     (let (ns, w1) = output_tsock_dequeue w;
          (w2, sc1) = output_loop E w1 sc ns;
          (w3, sc2) = tcp_flush_delayed_ack E w2 sc1
      in (length ns, w3, sc2))"

end
