(* ===== verification/Tcp_Ack.thy ===== *)
theory Tcp_Ack
  imports Tcp_Output
begin

text \<open>
  The acknowledgement side of \<open>src/tcp/tcp_input.c\<close>: the round trip time, the release of
  acknowledged data, the congestion window, fast retransmission, selective acknowledgements and
  \<open>tcp_rcv_ack\<close> itself. In \<open>ack_sent_data\<close> the code would dereference a null pointer when more
  bytes are acknowledged than the send queue holds; the model stops there.
\<close>

section \<open>Round trip time\<close>

text \<open>The computation is in 32 bits; \<open>int\<close> values are the signed reading.\<close>

definition rtt_smooth :: "tcp_sock \<Rightarrow> int \<Rightarrow> tcp_sock" where
  "rtt_smooth t r =
     (if srtt t \<noteq> 0
      then (let d = word_of_int r - drop_bit 3 (srtt t);
                a = (if sint d < 0 then min (- sint d) TCP_RTT_MAX else sint d);
                v = word_of_int a - drop_bit 2 (rttvar t)
            in t\<lparr>srtt := srtt t + d, rttvar := rttvar t + v\<rparr>)
      else t\<lparr>srtt := push_bit 3 (word_of_int r), rttvar := push_bit 1 (word_of_int r)\<rparr>)"

definition tcp_rtt_update :: "env \<Rightarrow> tcp_sock \<Rightarrow> int \<Rightarrow> tcp_sock" where
  "tcp_rtt_update E t rtt0 =
     (let r = min rtt0 TCP_RTT_MAX;
          t1 = t\<lparr>rtt := word_of_int r\<rparr>;
          t2 = rtt_smooth t1 r;
          o1 = drop_bit 3 (srtt t2) + max (tcp_rto_min (cfg E)) (rttvar t2)
      in t2\<lparr>rto := min o1 TCP_RTO_MAX\<rparr>)"

section \<open>Acknowledged data\<close>

lemma peek_una_bound: "tcp_txq_peek_una q off = Some d \<Longrightarrow> unat off < unat (txq_write q - txq_una q)"
  by (auto simp: tcp_txq_peek_una_def word_less_nat_alt not_le split: if_splits)

lemma unat_suc_bound: "unat (x :: u16) < unat (y :: u16) \<Longrightarrow> unat (x + 1) = unat x + 1"
  using unsigned_less [of y, where ?'a = nat] by (subst unat_add_small) simp_all

function ack_loop :: "tpa_worker \<Rightarrow> tcp_sock \<Rightarrow> u16 \<Rightarrow> u32 \<Rightarrow> u32 \<Rightarrow> tpa_worker \<times> tcp_sock \<times> u16 \<times> u32" where
  "ack_loop w t nr acked rtt0 =
     (case tcp_txq_peek_una (txq t) nr of
        None \<Rightarrow> (w, t, nr, rtt0)
      | Some d \<Rightarrow>
          (let desc = desc_mem w d
           in if partial_ack t + acked < desc_len desc
              then (w, t\<lparr>partial_ack := partial_ack t + acked, snd_una := snd_una t + acked\<rparr>, nr, rtt0)
              else (let len = desc_len desc - partial_ack t;
                        acked1 = acked - len;
                        t1 = t\<lparr>snd_una := snd_una t + len, partial_ack := 0\<rparr>;
                        t2 = (if desc_flags desc AND TX_DESC_FLAG_SACKED \<noteq> 0
                              then t1\<lparr>sacked_bytes := sacked_bytes t1 - desc_len desc\<rparr> else t1);
                        rtt1 = (if rtt0 = 0 \<and> desc_flags desc AND TX_DESC_FLAG_RETRANS = 0
                                then ucast (ts_us w - desc_ts_us desc) else rtt0);
                        w1 = tx_desc_done w d
                    in if acked1 > 0 then ack_loop w1 t2 (nr + 1) acked1 rtt1 else (w1, t2, nr + 1, rtt1))))"
  by pat_completeness auto
termination
  by (relation "measure (\<lambda>(w, t, nr, acked, r). unat (txq_write (txq t) - txq_una (txq t)) - unat nr)")
    (auto dest!: peek_una_bound simp: unat_suc_bound)

declare ack_loop.simps [simp del]

definition ack_sent_data :: "tpa_worker \<Rightarrow> tcp_sock \<Rightarrow> u32 \<Rightarrow> u32 \<times> tpa_worker \<times> tcp_sock" where
  "ack_sent_data w t acked =
     (let (w1, t1, nr, r) = ack_loop w t 0 acked 0;
          q = txq t1;
          q1 = (if txq_nxt q - txq_una q < nr then q\<lparr>txq_nxt := txq_una q + nr\<rparr> else q);
          t2 = t1\<lparr>txq := tcp_txq_update_una q1 nr\<rparr>;
          (w2, t3) = (if tcp_txq_free_count (txq t2) \<noteq> 0 then tsock_event_add w1 t2 TPA_EVENT_OUT else (w1, t2))
      in (r, w2, t3))"

section \<open>The congestion window\<close>

definition set_cwnd :: "env \<Rightarrow> tcp_sock \<Rightarrow> u32 \<Rightarrow> tcp_sock" where
  "set_cwnd E t cwnd = t\<lparr>snd_cwnd := max (min cwnd (cwnd_max (cfg E))) (ucast (snd_mss t))\<rparr>"

definition update_cwnd :: "env \<Rightarrow> tpa_worker \<Rightarrow> tcp_sock \<Rightarrow> u32 \<Rightarrow> tcp_sock" where
  "update_cwnd E w t acked =
     (let t1 = t\<lparr>snd_cwnd_uncommited := snd_cwnd_uncommited t + acked\<rparr>
      in if ts_us w - snd_cwnd_ts_us t1 < ucast (drop_bit 3 (srtt t1)) then t1
         else (let t2 = (if snd_cwnd_uncommited t1 < snd_cwnd t1 then t1
                         else (let add_up = (if snd_cwnd t1 < snd_ssthresh t1 then snd_cwnd_uncommited t1
                                             else max 1 (snd_cwnd_uncommited t1 * ucast (snd_mss t1) div snd_cwnd t1))
                               in set_cwnd E t1 (snd_cwnd t1 + add_up)))
               in t2\<lparr>snd_cwnd_ts_us := ts_us w, snd_cwnd_uncommited := 0\<rparr>))"

definition leave_fast_retrans :: "env \<Rightarrow> tcp_sock \<Rightarrow> u32 \<Rightarrow> tcp_sock" where
  "leave_fast_retrans E t cwnd = (set_cwnd E t cwnd)\<lparr>retrans_stage := NONE, nr_dupack := 0\<rparr>"

text \<open>Entering fast retransmission on the third duplicate.\<close>

definition enter_fast_retrans :: "env \<Rightarrow> tpa_worker \<Rightarrow> tcp_sock \<Rightarrow> tpa_worker \<times> tcp_sock" where
  "enter_fast_retrans E w t =
     (let t1 = t\<lparr>snd_ssthresh := max (snd_cwnd t div 2) (2 * ucast (snd_mss t)), snd_recover := snd_nxt t,
                 snd_cwnd_orig := snd_cwnd t\<rparr>;
          t2 = (set_cwnd E t1 (snd_cwnd t1 + ucast (nr_dupack t1) * ucast (snd_mss t1)))\<lparr>retrans_stage := FAST_RETRANS\<rparr>;
          t3 = tcp_reset_retrans t2 (snd_una t2) (txq_una (txq t2));
          (w1, t4) = tcp_fast_retrans E w t3 (uint (snd_mss t3))
      in (w1, if ts_ok t4 then t4\<lparr>retrans_ts_val := us_to_tcp_ts (ts_us w1)\<rparr> else t4))"

text \<open>What happens during fast retransmission: inflation of the window on a duplicate, the next
  retransmission on a partial acknowledgement, leaving on a full one.\<close>

definition in_fast_retrans :: "env \<Rightarrow> tpa_worker \<Rightarrow> tcp_sock \<Rightarrow> packet \<Rightarrow> u32 \<Rightarrow> tpa_worker \<times> tcp_sock" where
  "in_fast_retrans E w t p acked =
     (if acked = 0
      then (let s = (if sack_ok t then sacked_bytes t else ucast (nr_dupack t) * ucast (snd_mss t))
            in (w, set_cwnd E t (snd_cwnd_orig t + min s (snd_cwnd_orig t))))
      else if seq_lt (pkt_ack p) (snd_recover t)
      then (if retrans_ts_val t \<noteq> 0 \<and> seq_lt (pkt_ts_ecr p) (retrans_ts_val t)
            then (w, leave_fast_retrans E t (snd_cwnd_orig t))
            else (let t1 = t\<lparr>retrans_ts_val := 0\<rparr>;
                      t2 = set_cwnd E t1 (max (snd_cwnd_orig t1) (snd_cwnd t1 - acked));
                      budget = (if sack_ok t2 then sint (min (sacked_bytes t2) (snd_ssthresh t2)) else uint (snd_mss t2));
                      (w1, t3) = tcp_fast_retrans E w t2 budget
                  in (wk_timer_start w1 t3 TimerRto (ts_us w1) (ucast (rto t3)), t3)))
      else (w, leave_fast_retrans E t (snd_ssthresh t)))"

definition handle_fast_retransmit :: "env \<Rightarrow> tpa_worker \<Rightarrow> tcp_sock \<Rightarrow> packet \<Rightarrow> u32 \<Rightarrow> tpa_worker \<times> tcp_sock" where
  "handle_fast_retransmit E w t p acked =
     (if nr_dupack t < 3 \<and> retrans_stage t \<noteq> FAST_RETRANS then (w, t)
      else (let (w1, t1) = (if retrans_stage t = NONE \<and> seq_gt (pkt_ack p) (snd_recover t)
                            then enter_fast_retrans E w t else (w, t))
            in if retrans_stage t1 \<noteq> FAST_RETRANS then (w1, t1) else in_fast_retrans E w1 t1 p acked))"

section \<open>Selective acknowledgements\<close>

text \<open>\<open>qsort\<close> with \<open>sack_block_cmp\<close> on at most three blocks: an insertion sort.\<close>

fun sack_insert :: "tcp_sack_block \<Rightarrow> tcp_sack_block list \<Rightarrow> tcp_sack_block list" where
  "sack_insert b [] = [b]"
| "sack_insert b (x # xs) = (if seq_gt (blk_start b) (blk_start x) then x # sack_insert b xs else b # x # xs)"

fun sack_intersect :: "tcp_sack_block list \<Rightarrow> u32 \<Rightarrow> bool" where
  "sack_intersect [] prev_end = False"
| "sack_intersect (b # bs) prev_end = (seq_lt (blk_start b) prev_end \<or> sack_intersect bs (blk_end b))"

definition sort_sack :: "tcp_sack_block list \<Rightarrow> err \<times> tcp_sack_block list" where
  "sort_sack blocks =
     (let bs = foldr sack_insert blocks []
      in (if bs \<noteq> [] \<and> sack_intersect (tl bs) (blk_end (hd bs)) then Some ERR_TCP_SACK_INTERSECT else None, bs))"

definition mark_desc_sacked :: "tpa_worker \<Rightarrow> tcp_sock \<Rightarrow> nat \<Rightarrow> tpa_worker \<times> tcp_sock" where
  "mark_desc_sacked w t d =
     (if desc_flags (desc_mem w d) AND TX_DESC_FLAG_SACKED \<noteq> 0 then (w, t)
      else (desc_mark w d TX_DESC_FLAG_SACKED, t\<lparr>sacked_bytes := sacked_bytes t + desc_len (desc_mem w d)\<rparr>))"

lemma mark_desc_sacked_txq: "txq (snd (mark_desc_sacked w t d)) = txq t"
  by (simp add: mark_desc_sacked_def)

lemma mark_desc_sacked_txqD: "mark_desc_sacked w t d = (w', t') \<Longrightarrow> txq t' = txq t"
  using mark_desc_sacked_txq [of w t d] by simp

text \<open>The inner loop for one block; \<open>desc_off\<close> goes on where the previous block stopped, one past the
  descriptor that ended it.\<close>

function sack_walk :: "tpa_worker \<Rightarrow> tcp_sock \<Rightarrow> tcp_sack_block \<Rightarrow> u16 \<Rightarrow> tpa_worker \<times> tcp_sock \<times> u16" where
  "sack_walk w t blk off =
     (case tcp_txq_peek_for_write (txq t) (txq_una (txq t)) off of
        None \<Rightarrow> (w, t, off + 1)
      | Some d \<Rightarrow>
          (let desc = desc_mem w d; e = desc_seq desc + desc_len desc
           in if seq_ge e (snd_nxt t) then (w, t, off + 1)
              else if seq_ge e (blk_end blk) then (w, t, off + 1)
              else case (if seq_ge (desc_seq desc) (blk_start blk) then mark_desc_sacked w t d else (w, t)) of
                (w1, t1) \<Rightarrow> sack_walk w1 t1 blk (off + 1)))"
  by pat_completeness auto
termination
  by (relation "measure (\<lambda>(w, t, blk, off). unat (txq_write (txq t) - txq_una (txq t)) - unat off)")
    (auto dest!: peek_for_write_bound mark_desc_sacked_txqD [OF sym] simp: unat_suc_bound split: if_splits)

declare sack_walk.simps [simp del]

fun sack_blocks_loop :: "tpa_worker \<Rightarrow> tcp_sock \<Rightarrow> tcp_sack_block list \<Rightarrow> u16 \<Rightarrow> tpa_worker \<times> tcp_sock" where
  "sack_blocks_loop w t [] off = (w, t)"
| "sack_blocks_loop w t (b # bs) off =
     (if seq_gt (blk_end b) (snd_nxt t) then sack_blocks_loop w t bs off
      else (let (w1, t1, off1) = sack_walk w t b off in sack_blocks_loop w1 t1 bs off1))"

definition tcp_rcv_sack :: "tpa_worker \<Rightarrow> tcp_sock \<Rightarrow> tcp_opts \<Rightarrow> tpa_worker \<times> tcp_sock" where
  "tcp_rcv_sack w t opts =
     (case sort_sack (opt_sack_blocks opts) of
        (Some e, bs) \<Rightarrow> (w, t)
      | (None, bs) \<Rightarrow> sack_blocks_loop w t bs 0)"

section \<open>Acknowledgements\<close>

definition tsock_established :: "env \<Rightarrow> tpa_worker \<Rightarrow> tcp_sock \<Rightarrow> packet \<Rightarrow> tpa_worker \<times> tcp_sock" where
  "tsock_established E w t p =
     (let t1 = t\<lparr>snd_una := pkt_ack p,
                 snd_wnd := (if state t = TCP_STATE_SYN_SENT then ucast (pkt_wnd p)
                             else push_bit (unat (snd_wscale t)) (ucast (pkt_wnd p))),
                 snd_wl1 := pkt_seq p, snd_wl2 := pkt_ack p, snd_cwnd := cwnd_init (cfg E), snd_cwnd_uncommited := 0,
                 snd_cwnd_ts_us := ts_us w\<rparr>;
          t2 = t1\<lparr>snd_ssthresh := min (2 ^ 20) (snd_wnd t1 * 64)\<rparr>;
          t3 = (tcp_rtt_update E t2 (sint (ucast (ts_us w - init_ts_us t2) :: u32)))\<lparr>rto_shift := 0\<rparr>;
          w1 = wk_timer_stop w t3 TimerRto;
          (w2, t4) = tsock_rearm_timer_keepalive E w1 t3 (ts_us w1);
          (w3, t5) = tsock_set_state E w2 t4 TCP_STATE_ESTABLISHED
      in tsock_event_add w3 t5 TPA_EVENT_OUT)"

text \<open>The count of duplicates.\<close>

definition count_dupack :: "tcp_sock \<Rightarrow> packet \<Rightarrow> tcp_sock" where
  "count_dupack t p =
     (if pkt_ack p = snd_una t
      then if pkt_len p = 0 \<and> ucast (pkt_wnd p) = drop_bit (unat (snd_wscale t)) (snd_wnd t) \<and> snd_nxt t \<noteq> snd_una t
           then t\<lparr>nr_dupack := nr_dupack t + 1\<rparr> else t
      else t\<lparr>nr_dupack := 0\<rparr>)"

text \<open>The acknowledgement of our FIN: the sequence number of the FIN is not counted as data and the
  state moves on.\<close>

definition ack_of_fin :: "tcp_sock \<Rightarrow> packet \<Rightarrow> bool" where
  "ack_of_fin t p \<longleftrightarrow> flags t AND TSOCK_FLAG_FIN_SENT \<noteq> 0 \<and> pkt_ack p = snd_nxt t"

definition rcv_ack_fin :: "env \<Rightarrow> tpa_worker \<Rightarrow> tcp_sock \<Rightarrow> tpa_worker \<times> tcp_sock" where
  "rcv_ack_fin E w t =
     (let t1 = t\<lparr>flags := flags t AND NOT TSOCK_FLAG_FIN_PENDING\<rparr>
      in case state t1 of
           TCP_STATE_FIN_WAIT_1 \<Rightarrow> tsock_set_state E w t1 TCP_STATE_FIN_WAIT_2
         | TCP_STATE_CLOSING \<Rightarrow> tsock_set_state E w t1 TCP_STATE_TIME_WAIT
         | TCP_STATE_LAST_ACK \<Rightarrow> tsock_set_state E w (t1\<lparr>flags := flags t1 OR TSOCK_FLAG_PUT\<rparr>) TCP_STATE_CLOSED
         | _ \<Rightarrow> (w, t1))"

text \<open>New data is acknowledged: the descriptors, the round trip time, the timer and the window.\<close>

definition rcv_ack_data :: "env \<Rightarrow> tpa_worker \<Rightarrow> tcp_sock \<Rightarrow> u32 \<Rightarrow> tpa_worker \<times> tcp_sock" where
  "rcv_ack_data E w t acked =
     (let (r, w1, t1) = ack_sent_data w t acked;
          t2 = (if r \<noteq> 0 then tcp_rtt_update E t1 (sint r) else t1);
          t3 = t2\<lparr>zero_wnd_probe_shift := 0, rto_shift := 0\<rparr>;
          w2 = tsock_rearm_timer_rto w1 t3 (ts_us w1)
      in (w2, update_cwnd E w2 t3 acked))"

text \<open>Where a retransmission stands after the acknowledgement.\<close>

definition rcv_ack_recover :: "env \<Rightarrow> tpa_worker \<Rightarrow> tcp_sock \<Rightarrow> packet \<Rightarrow> int \<Rightarrow> tpa_worker \<times> tcp_sock" where
  "rcv_ack_recover E w t p acked_len =
     (if retrans_stage t = NONE
      then (w, if acked_len > 0 then t\<lparr>snd_recover := snd_una t - 1\<rparr> else t)
      else if seq_ge (pkt_ack p) (snd_recover t) then (w, t\<lparr>retrans_stage := NONE\<rparr>)
      else if retrans_stage t = RTO then tcp_retrans E w t
      else (w, t))"

definition rcv_ack_wnd :: "tcp_sock \<Rightarrow> packet \<Rightarrow> tcp_sock" where
  "rcv_ack_wnd t p =
     (if seq_lt (snd_wl1 t) (pkt_seq p) \<or> pkt_seq p = snd_wl1 t \<and> seq_le (snd_wl2 t) (pkt_ack p)
      then t\<lparr>snd_wl1 := pkt_seq p, snd_wl2 := pkt_ack p, snd_wnd := push_bit (unat (snd_wscale t)) (ucast (pkt_wnd p))\<rparr>
      else t)"

text \<open>The part of \<open>tcp_rcv_ack\<close> for an acknowledgement inside the window of a synchronized
  connection.\<close>

definition rcv_ack_in_window :: "env \<Rightarrow> tpa_worker \<Rightarrow> tcp_sock \<Rightarrow> packet \<Rightarrow> tcp_opts \<Rightarrow> tpa_worker \<times> tcp_sock" where
  "rcv_ack_in_window E w t p opts =
     (let t1 = count_dupack t p;
          fin = ack_of_fin t1 p;
          acked_len = sint (pkt_ack p - snd_una t1) - (if closed_at_syn_rcvd t1 then 1 else 0) - (if fin then 1 else 0);
          (w2, t2) = (if fin then rcv_ack_fin E w t1 else (w, t1));
          (w3, t3) = (if acked_len > 0 then rcv_ack_data E w2 t2 (word_of_int acked_len) else (w2, t2));
          (w4, t4) = (if opt_sack_blocks opts \<noteq> [] then tcp_rcv_sack w3 t3 opts else (w3, t3));
          (w5, t5) = handle_fast_retransmit E w4 t4 p (word_of_int acked_len);
          (w6, t6) = rcv_ack_recover E w5 t5 p acked_len;
          w7 = (if snd_una t6 = snd_nxt t6 then wk_timer_stop w6 t6 TimerRto else w6)
      in (w7, rcv_ack_wnd t6 p))"

definition tcp_rcv_ack :: "env \<Rightarrow> tpa_worker \<Rightarrow> tcp_sock \<Rightarrow> packet \<Rightarrow> tcp_opts \<Rightarrow> err \<times> tpa_worker \<times> tcp_sock" where
  "tcp_rcv_ack E w t p opts =
     (if \<not> has_flag_ack p then (Some ERR_TCP_NO_ACK, w, t)
      else if state t \<in> {TCP_STATE_CLOSED, TCP_STATE_LISTEN, TCP_STATE_SYN_SENT} then (Some ERR_NOT_IMPLEMENTED, w, t)
      else if seq_lt (pkt_ack p) (snd_una t) then (None, w, t)
      else if seq_gt (pkt_ack p) (snd_nxt t) then (Some ERR_TCP_INVALID_ACK, w, tsock_set_ack_flag E t TSOCK_FLAG_ACK_NOW)
      else if state t = TCP_STATE_SYN_RCVD
      then (let (w1, t1) = tsock_established E w t p in (None, accept_tsock_enqueue w1 t1, t1))
      else (let (w1, t1) = rcv_ack_in_window E w t p opts in (None, w1, t1)))"

definition tcp_rcv_ack_fastpath :: "env \<Rightarrow> tpa_worker \<Rightarrow> tcp_sock \<Rightarrow> packet \<Rightarrow> tpa_worker \<times> tcp_sock" where
  "tcp_rcv_ack_fastpath E w t p =
     (let acked = pkt_ack p - snd_una t;
          (w1, t1) =
            (if sint acked > 0
             then (let (r, w1, t1) = ack_sent_data w t acked;
                       t2 = (if r \<noteq> 0 then tcp_rtt_update E t1 (sint r) else t1);
                       t3 = t2\<lparr>snd_recover := snd_una t2 - 1, nr_dupack := 0\<rparr>;
                       w2 = (if snd_una t3 = snd_nxt t3 then wk_timer_stop w1 t3 TimerRto
                             else tsock_rearm_timer_rto w1 t3 (ts_us w1))
                   in (w2, update_cwnd E w2 t3 acked))
             else (w, t))
      in (w1, t1\<lparr>snd_wl1 := pkt_seq p, snd_wl2 := pkt_ack p, snd_wnd := push_bit (unat (snd_wscale t1)) (ucast (pkt_wnd p))\<rparr>))"

end
