(* ===== verification/Tcp_Input.thy ===== *)
theory Tcp_Input
  imports Tcp_Ack
begin

text \<open>
  \<open>src/tcp/tcp_input.c\<close> above the handling of data and acknowledgements: the fast path, the
  negotiation of options, resets, passive opens, the state processing \<open>tcp_rcv_pkt\<close>, merging of
  received packets, and the input pass \<open>tcp_input\<close> over a receive queue of the device. A packet for
  a listening socket changes the array of sockets; the other handlers work on one socket.
  \<open>None\<close> is an abort, which only the creation of a socket can cause. \<open>expand\<close> says whether the
  array of sockets can grow for the \<open>n\<close>-th time.
\<close>

section \<open>The fast path\<close>

definition update_ts_recent :: "tpa_worker \<Rightarrow> tcp_sock \<Rightarrow> packet \<Rightarrow> tcp_sock" where
  "update_ts_recent w t p = t\<lparr>ts_recent := pkt_ts_val p, ts_recent_in_sec := now_in_sec w\<rparr>"

text \<open>The conditions under which the fast path is left before anything changes.\<close>

definition fastpath_refused :: "tcp_sock \<Rightarrow> packet \<Rightarrow> bool" where
  "fastpath_refused t p \<longleftrightarrow>
     pkt_seq p \<noteq> rcv_nxt t \<or> seq_lt (pkt_ack p) (snd_una t) \<or> seq_gt (pkt_ack p) (snd_nxt t) \<or>
     pkt_tcp_flags p AND NOT TCP_FLAG_PSH \<noteq> TCP_FLAG_ACK \<or> pkt_len p = 0 \<and> pkt_ack p = snd_una t \<or>
     retrans_stage t \<noteq> NONE \<or> rcv_wnd t = 0 \<or>
     unat (pkt_opt_len p) \<noteq> TCP_OPT_TS_SPACE \<or> pkt_flags p AND PKT_FLAG_HAS_TS_OPT = 0 \<or>
     seq_lt (pkt_ts_val p) (ts_recent t)"

text \<open>The result says whether the packet was consumed.\<close>

definition tcp_rcv_fastpath :: "env \<Rightarrow> tpa_worker \<Rightarrow> tcp_sock \<Rightarrow> packet \<Rightarrow> bool \<times> tpa_worker \<times> tcp_sock \<times> packet" where
  "tcp_rcv_fastpath E w t p =
     (if fastpath_refused t p then (False, w, t, p)
      else (let t1 = (if seq_le (pkt_seq p) (last_ack_sent t) then update_ts_recent w t p else t)
            in case tcp_rcv_data E w t1 p of
                 (Some e, w2, t2, p2) \<Rightarrow> (False, w2, t2, p2)
               | (None, w2, t2, p2) \<Rightarrow> (let (w3, t3) = tcp_rcv_ack_fastpath E w2 t2 p2 in (True, w3, t3, p2))))"

section \<open>Checks and negotiation\<close>

definition process_incoming_seq :: "tpa_worker \<Rightarrow> tcp_sock \<Rightarrow> packet \<Rightarrow> tcp_opts \<Rightarrow> err \<times> tcp_sock" where
  "process_incoming_seq w t p opts =
     (case validate_seq t p of
        Some e \<Rightarrow> (Some e, t)
      | None \<Rightarrow>
          if \<not> has_ts opts then (None, t)
          else if seq_lt (opt_ts_val opts) (ts_recent t) \<and> now_in_sec w - ts_recent_in_sec t < TCP_PAWS_IDLE_MAX \<and> \<not> has_flag_rst p
          then (Some ERR_TCP_INVALID_TS, t)
          else (None, if seq_le (pkt_seq p) (last_ack_sent t) \<and> \<not> has_flag_rst p then update_ts_recent w t p else t))"

definition process_tcp_opt_negotiation :: "env \<Rightarrow> tpa_worker \<Rightarrow> tcp_sock \<Rightarrow> packet \<Rightarrow> tcp_sock \<times> packet" where
  "process_tcp_opt_negotiation E w t p =
     (let (ret, opts, p1) = parse_tcp_opts p;
          ts = (ts_enabled t \<and> has_ts opts);
          mss = calc_snd_mss E t ts True (opt_mss opts);
          t1 = (if ts then (update_ts_recent w (t\<lparr>snd_mss := mss - of_nat TCP_OPT_TS_SPACE\<rparr>) p1)\<lparr>ts_ok := True\<rparr>
                else t\<lparr>snd_mss := mss\<rparr>);
          t2 = (if ws_enabled t1 \<and> has_wscale opts
                then t1\<lparr>snd_wscale := opt_wscale opts, rcv_wscale := TCP_WSCALE_DEFAULT, ws_ok := True\<rparr>
                else t1\<lparr>snd_wscale := 0, rcv_wscale := 0\<rparr>)
      in (t2\<lparr>sack_ok := sack_enabled t2 \<and> has_sack_perm opts\<rparr>, p1))"

definition syn_sent_to_established :: "env \<Rightarrow> tpa_worker \<Rightarrow> tcp_sock \<Rightarrow> packet \<Rightarrow> tpa_worker \<times> tcp_sock \<times> packet" where
  "syn_sent_to_established E w t p =
     (let (t1, p1) = process_tcp_opt_negotiation E w (t\<lparr>rcv_isn := pkt_seq p, rcv_nxt := pkt_seq p + 1\<rparr>) p;
          (w2, t2) = tsock_established E w t1 p1
      in (w2, tsock_set_ack_flag E t2 TSOCK_FLAG_ACK_NOW, p1))"

section \<open>Resets\<close>

text \<open>The switch over the state: the error for the application, whether the socket goes away at
  once, and the return code.\<close>

definition rst_effect :: "tcp_sock \<Rightarrow> errno option \<times> bool \<times> stats_code" where
  "rst_effect t =
     (case state t of
        TCP_STATE_SYN_SENT \<Rightarrow> (Some ECONNREFUSED, False, ERR_CONN_REFUSED)
      | TCP_STATE_SYN_RCVD \<Rightarrow>
          if passive_connection t then (sk_err t, True, WARN_RST_RECV) else (Some ECONNREFUSED, False, ERR_CONN_REFUSED)
      | TCP_STATE_ESTABLISHED \<Rightarrow> (Some ECONNRESET, False, WARN_RST_RECV)
      | TCP_STATE_FIN_WAIT_1 \<Rightarrow> (Some ECONNRESET, False, WARN_RST_RECV)
      | TCP_STATE_FIN_WAIT_2 \<Rightarrow> (Some ECONNRESET, False, WARN_RST_RECV)
      | TCP_STATE_CLOSE_WAIT \<Rightarrow> (Some ECONNRESET, False, WARN_RST_RECV)
      | TCP_STATE_TIME_WAIT \<Rightarrow> (sk_err t, False, WARN_GOT_RST_AT_TIME_WAIT)
      | _ \<Rightarrow> (sk_err t, False, WARN_RST_RECV))"

definition tcp_rcv_rst :: "env \<Rightarrow> tpa_worker \<Rightarrow> tcp_sock \<Rightarrow> err \<times> tpa_worker \<times> tcp_sock" where
  "tcp_rcv_rst E w t =
     (if state t = TCP_STATE_CLOSED then (Some WARN_RST_RECV, w, t)
      else (let (e, to_close, ret) = rst_effect t;
                t1 = t\<lparr>sk_err := e,
                       flags := (if state t \<in> {TCP_STATE_CLOSING, TCP_STATE_LAST_ACK, TCP_STATE_TIME_WAIT}
                                 then flags t OR TSOCK_FLAG_PUT else flags t)\<rparr>;
                (w2, t2) = (if close_issued t1 \<or> to_close then (w, t1\<lparr>flags := flags t1 OR TSOCK_FLAG_PUT\<rparr>)
                            else tsock_event_add w t1 TPA_EVENT_ERR);
                (w3, t3) = tsock_set_state E w2 t2 TCP_STATE_CLOSED
            in (Some ret, w3, t3)))"

section \<open>Passive opens\<close>

definition passive_tsock_init :: "env \<Rightarrow> tpa_worker \<Rightarrow> tcp_sock \<Rightarrow> packet \<Rightarrow> u64 \<Rightarrow> tpa_worker \<times> tcp_sock \<times> packet" where
  "passive_tsock_init E w t p data =
     (let (hdr, hlen, lip, rip) = init_net_hdr_from_pkt p;
          t1 = t\<lparr>net_hdr := hdr, net_hdr_len := hlen, local_ip := lip, remote_ip := rip,
                 local_port := pkt_dst_port p, remote_port := pkt_src_port p\<rparr>;
          (ret, w1) = wk_table_add E w (tsock_key t1) (sk_pos t1);
          w2 = w1\<lparr>nr_offload := nr_offload w1 + 1\<rparr>;
          (tsc, w3) = rte_rdtsc E w2;
          w4 = w3\<lparr>ts_us := TSC_TO_US E tsc\<rparr>;
          t2 = t1\<lparr>rcv_isn := pkt_seq p, rcv_nxt := pkt_seq p + 1, passive_connection := True, opts_data := data,
                  port_id := pkt_port_id p\<rparr>;
          (isn, w5) = isn_gen E w4 (remote_ip t2) (local_port t2) (remote_port t2);
          (t3, p1) = process_tcp_opt_negotiation E w5 (t2\<lparr>snd_isn := isn\<rparr>) p;
          (w6, t4) = tsock_set_state E w5 t3 TCP_STATE_SYN_RCVD
      in (w6, t4, p1))"

definition tsock_accept :: "env \<Rightarrow> (nat \<Rightarrow> bool) \<Rightarrow> tpa_worker \<Rightarrow> sock_ctrl \<Rightarrow> tcp_sock \<Rightarrow> packet \<Rightarrow>
    (err \<times> tpa_worker \<times> sock_ctrl \<times> packet) option" where
  "tsock_accept E expand w sc lt p =
     (case sock_create E (expand (unat (sc_nr_expand_times sc))) w sc None (pkt_flags p AND PKT_FLAG_IS_IPV6 \<noteq> 0) of
        None \<Rightarrow> None
      | Some (None, w1, sc1) \<Rightarrow> Some (Some ERR_TOO_MANY_SOCKS, w1, sc1, p)
      | Some (Some t, w1, sc1) \<Rightarrow>
          (let (w2, t2, p1) = passive_tsock_init E w1 t p (opts_data lt);
               (w3, t3) = xmit_syn E w2 t2
           in Some (None, w3, sock_put sc1 t3, p1)))"

definition tcp_rcv_pkt_at_listen :: "env \<Rightarrow> (nat \<Rightarrow> bool) \<Rightarrow> tpa_worker \<Rightarrow> sock_ctrl \<Rightarrow> tcp_sock \<Rightarrow> packet \<Rightarrow>
    (err \<times> tpa_worker \<times> sock_ctrl \<times> tcp_sock \<times> packet) option" where
  "tcp_rcv_pkt_at_listen E expand w sc t p =
     (if has_flag_rst p then Some (Some WARN_RST_RECV, w, sc, t, p)
      else if has_flag_ack p
      then (let (e, w1, t1) = xmit_rst_for_listen E w t p in Some (Some WARN_ACK_AT_LISTEN, w1, sc, t1, p))
      else if has_flag_syn p
      then (case tsock_accept E expand w sc t p of
              None \<Rightarrow> None | Some (e, w1, sc1, p1) \<Rightarrow> Some (e, w1, sc1, t, p1))
      else Some (Some WARN_INVLIAD_PKT_AT_LISTEN, w, sc, t, p))"

section \<open>State processing\<close>

definition tcp_rcv_pkt_at_syn_sent :: "env \<Rightarrow> tpa_worker \<Rightarrow> tcp_sock \<Rightarrow> packet \<Rightarrow> err \<times> tpa_worker \<times> tcp_sock \<times> packet" where
  "tcp_rcv_pkt_at_syn_sent E w t p =
     (if has_flag_ack p \<and> (seq_le (pkt_ack p) (snd_isn t) \<or> seq_gt (pkt_ack p) (snd_nxt t))
      then (let (r, w1, t1) = xmit_flag_packet_with_seq E w (t\<lparr>flags := flags t OR TSOCK_FLAG_RST_NEEDED\<rparr>) (pkt_ack p)
            in (Some WARN_HALF_OPEN_DETECTED, output_tsock_enqueue w1 t1, t1, p))
      else if has_flag_rst p
      then if has_flag_ack p then (let (e, w1, t1) = tcp_rcv_rst E w t in (e, w1, t1, p))
           else (Some ERR_RST_WITH_NO_ACK, w, t, p)
      else if \<not> has_flag_syn p then (Some ERR_NO_SYN_AND_RST, w, t, p)
      else if \<not> has_flag_ack p then (Some SIMULTANEOUS_CONNECT, w, t, p)
      else if seq_gt (pkt_ack p) (snd_isn t)
      then (let (w1, t1, p1) = syn_sent_to_established E w t p in (None, w1, t1, p1))
      else (Some ERR_INVALID_SYN_SENT_PROCESS, w, t, p))"

definition fin_state :: "env \<Rightarrow> tpa_worker \<Rightarrow> tcp_sock \<Rightarrow> tpa_worker \<times> tcp_sock" where
  "fin_state E w t =
     (case state t of
        TCP_STATE_SYN_RCVD \<Rightarrow> tsock_set_state E w t TCP_STATE_CLOSE_WAIT
      | TCP_STATE_ESTABLISHED \<Rightarrow> tsock_set_state E w t TCP_STATE_CLOSE_WAIT
      | TCP_STATE_FIN_WAIT_1 \<Rightarrow> tsock_set_state E w t TCP_STATE_CLOSING
      | TCP_STATE_FIN_WAIT_2 \<Rightarrow> tsock_set_state E w t TCP_STATE_TIME_WAIT
      | _ \<Rightarrow> (w, t))"

definition tcp_rcv_fin :: "env \<Rightarrow> tpa_worker \<Rightarrow> tcp_sock \<Rightarrow> packet \<Rightarrow> err \<times> tpa_worker \<times> tcp_sock" where
  "tcp_rcv_fin E w t p =
     (if \<not> has_flag_fin p then (None, w, t)
      else (let t1 = t\<lparr>flags := flags t OR TSOCK_FLAG_EOF\<rparr>
            in if state t1 \<in> {TCP_STATE_CLOSED, TCP_STATE_LISTEN, TCP_STATE_SYN_SENT} then (Some ERR_INVALID_STATE_FOR_FIN, w, t1)
               else (let (w2, t2) = tsock_event_add w t1 TPA_EVENT_IN;
                         (w3, t3) = fin_state E w2 t2
                     in (None, w3, tsock_set_ack_flag E t3 TSOCK_FLAG_ACK_NOW))))"

definition rcv_send_ack :: "env \<Rightarrow> tcp_sock \<Rightarrow> packet \<Rightarrow> tcp_sock" where
  "rcv_send_ack E t p =
     (if has_flag_rst p then t
      else tsock_set_ack_flag E (if pkt_len p \<noteq> 0 \<and> seq_lt (pkt_seq p) (rcv_nxt t) then tsock_reset_quickack t else t)
             TSOCK_FLAG_ACK_NOW)"

text \<open>The text and the FIN of a segment that passed the checks.\<close>

definition rcv_text_fin :: "env \<Rightarrow> tpa_worker \<Rightarrow> tcp_sock \<Rightarrow> packet \<Rightarrow> err \<times> tpa_worker \<times> tcp_sock \<times> packet" where
  "rcv_text_fin E w t p =
     (case (if state t \<in> {TCP_STATE_ESTABLISHED, TCP_STATE_FIN_WAIT_1, TCP_STATE_FIN_WAIT_2} then tcp_rcv_data E w t p
            else (if pkt_len p \<noteq> 0 then Some ERR_TCP_RCV_INVALID_STATE else None, w, t, p)) of
        (Some e, w1, t1, p1) \<Rightarrow> (Some e, w1, t1, p1)
      | (None, w1, t1, p1) \<Rightarrow> (let (e, w2, t2) = tcp_rcv_fin E w1 t1 p1 in (e, w2, t2, p1)))"

text \<open>The numbered steps of RFC 793 for a synchronized state.\<close>

definition rcv_synchronized :: "env \<Rightarrow> tpa_worker \<Rightarrow> tcp_sock \<Rightarrow> packet \<Rightarrow> err \<times> tpa_worker \<times> tcp_sock \<times> packet" where
  "rcv_synchronized E w0 t0 p0 =
     (let (w, t) = tsock_rearm_timer_keepalive E w0 t0 (ts_us w0);
          (perr, opts, p) = parse_tcp_opts p0
      in case process_incoming_seq w t p opts of
           (Some e, t1) \<Rightarrow> (Some e, w, rcv_send_ack E t1 p, p)
         | (None, t1) \<Rightarrow>
             if has_flag_rst p then (let (e, w2, t2) = tcp_rcv_rst E w t1 in (e, w2, t2, p))
             else if has_flag_syn p then (Some WARN_INVLIAD_SYN_RCVD, w, rcv_send_ack E t1 p, p)
             else case tcp_rcv_ack E w t1 p opts of
               (Some e, w2, t2) \<Rightarrow> (Some e, w2, t2, p)
             | (None, w2, t2) \<Rightarrow> if state t2 = TCP_STATE_CLOSED then (None, w2, t2, p) else rcv_text_fin E w2 t2 p)"

text \<open>\<open>tcp_rcv_pkt\<close> for a socket that does not listen.\<close>

definition tcp_rcv_pkt_conn :: "env \<Rightarrow> tpa_worker \<Rightarrow> tcp_sock \<Rightarrow> packet \<Rightarrow> err \<times> tpa_worker \<times> tcp_sock \<times> packet" where
  "tcp_rcv_pkt_conn E w t0 p =
     (let t = tsock_update_last_ts w t0 LAST_TS_RCV_PKT
      in if pkt_wid p \<noteq> wk_id w then (Some WARN_STALE_PKT_WORKER_MISMATCH, w, t, p)
         else (let (consumed, w1, t1, p1) = (if state t = TCP_STATE_ESTABLISHED then tcp_rcv_fastpath E w t p else (False, w, t, p))
               in if consumed then (let (w2, t2) = tsock_rearm_timer_keepalive E w1 t1 (ts_us w1) in (None, w2, t2, p1))
                  else if state t1 = TCP_STATE_CLOSED
                  then (if has_flag_rst p1 then (Some PKT_RECV_AFTER_CLOSE, w1, t1, p1)
                        else (let (r, w2, t2) = xmit_flag_packet E w1 (t1\<lparr>flags := flags t1 OR TSOCK_FLAG_RST_NEEDED\<rparr>)
                              in (Some PKT_RECV_AFTER_CLOSE, w2, t2, p1)))
                  else if state t1 = TCP_STATE_SYN_SENT then tcp_rcv_pkt_at_syn_sent E w1 t1 p1
                  else rcv_synchronized E w1 t1 p1))"

definition tcp_rcv_pkt :: "env \<Rightarrow> (nat \<Rightarrow> bool) \<Rightarrow> tpa_worker \<Rightarrow> sock_ctrl \<Rightarrow> tcp_sock \<Rightarrow> packet \<Rightarrow>
    (err \<times> tpa_worker \<times> sock_ctrl \<times> tcp_sock \<times> packet) option" where
  "tcp_rcv_pkt E expand w sc t p =
     (if state t = TCP_STATE_LISTEN
      then tcp_rcv_pkt_at_listen E expand w sc (tsock_update_last_ts w t LAST_TS_RCV_PKT) p
      else (let (e, w1, t1, p1) = tcp_rcv_pkt_conn E w t p in Some (e, w1, sc, t1, p1)))"

section \<open>The input pass\<close>

definition tcp_rcv_process :: "env \<Rightarrow> (nat \<Rightarrow> bool) \<Rightarrow> tpa_worker \<Rightarrow> sock_ctrl \<Rightarrow> tcp_sock \<Rightarrow> packet \<Rightarrow>
    (tpa_worker \<times> sock_ctrl \<times> tcp_sock) option" where
  "tcp_rcv_process E expand w sc t p =
     (case tcp_rcv_pkt E expand w sc t (p\<lparr>pkt_to_read := 0\<rparr>) of
        None \<Rightarrow> None
      | Some (e, w1, sc1, t1, p1) \<Rightarrow>
          (let w2 = (if e \<noteq> None \<or> pkt_len p1 = 0 then packet_free w1 p1 else w1);
               (w3, t3) = (if flags t1 AND TSOCK_FLAG_ACK_NOW \<noteq> 0 then (let (r, w3, t3) = xmit_flag_packet E w2 t1 in (w3, t3))
                           else (w2, t1))
           in Some (w3, sc1, t3\<lparr>rx_merge_head := None\<rparr>)))"

definition has_ts_opt_only :: "packet \<Rightarrow> bool" where
  "has_ts_opt_only p \<longleftrightarrow> unat (pkt_opt_len p) = TCP_OPT_TS_SPACE \<and> pkt_flags p AND PKT_FLAG_HAS_TS_OPT \<noteq> 0"

definition tcp_can_merge :: "env \<Rightarrow> packet \<Rightarrow> packet \<Rightarrow> bool" where
  "tcp_can_merge E head p \<longleftrightarrow>
     enable_rx_merge (cfg E) \<and> has_ts_opt_only p \<and> pkt_len head > 0 \<and> pkt_len p > 0 \<and>
     pkt_tcp_flags p AND NOT TCP_FLAG_PSH = TCP_FLAG_ACK \<and> pkt_ack head = pkt_ack p \<and>
     pkt_seq head + ucast (pkt_len head) = pkt_seq p \<and> pkt_ts_val head = pkt_ts_val p \<and> pkt_ts_ecr head = pkt_ts_ecr p \<and>
     unat (pkt_len head) + unat (seg_l5_len (hd (pkt_segs p))) < TSOCK_MAX_MERGE_SIZE"

definition tcp_merge :: "env \<Rightarrow> (nat \<Rightarrow> bool) \<Rightarrow> tpa_worker \<Rightarrow> sock_ctrl \<Rightarrow> tcp_sock \<Rightarrow> packet \<Rightarrow>
    (tpa_worker \<times> sock_ctrl \<times> tcp_sock) option" where
  "tcp_merge E expand w sc t p =
     (case rx_merge_head t of
        None \<Rightarrow> Some (w, sc, t\<lparr>rx_merge_head := Some p\<rparr>)
      | Some head \<Rightarrow>
          if pkt_seq head = rcv_nxt t \<and> tcp_can_merge E head p
          then Some (w, sc, tsock_set_ack_flag E (t\<lparr>rx_merge_head := Some (packet_chain head p)\<rparr>) TSOCK_FLAG_ACK_NOW)
          else (case tcp_rcv_process E expand w sc t head of
                  None \<Rightarrow> None | Some (w1, sc1, t1) \<Rightarrow> Some (w1, sc1, t1\<lparr>rx_merge_head := Some p\<rparr>)))"

text \<open>\<open>rte_ipv4_cksum\<close> and \<open>rte_ipv4_udptcp_cksum\<close> (or the IPv6 one) are DPDK's.\<close>

definition verify_csum :: "env \<Rightarrow> packet \<Rightarrow> err" where
  "verify_csum E p =
     (if pkt_flags p AND PKT_FLAG_IS_IPV6 \<noteq> 0 then if env_tcp_cksum E p \<noteq> 0 then Some ERR_BAD_CSUM_TCP else None
      else if env_ip4_cksum E p \<noteq> 0 then Some ERR_BAD_CSUM_IPV4
      else if env_tcp_cksum E p \<noteq> 0 then Some ERR_BAD_CSUM_TCP else None)"

definition queue_input_tsock :: "nat list \<Rightarrow> nat \<Rightarrow> nat list" where
  "queue_input_tsock ns n = (if ns \<noteq> [] \<and> last ns = n then ns else ns @ [n])"

text \<open>One packet of the device queue.\<close>

definition input_one :: "env \<Rightarrow> (nat \<Rightarrow> bool) \<Rightarrow> tpa_worker \<Rightarrow> sock_ctrl \<Rightarrow> nat list \<Rightarrow> packet \<Rightarrow>
    (tpa_worker \<times> sock_ctrl \<times> nat list) option" where
  "input_one E expand w sc ns p0 =
     (case parse_tcp_packet (verify_csum E) p0 of
        (Some e, p) \<Rightarrow> Some (packet_free w p, sc, ns)
      | (None, p) \<Rightarrow>
          (case tsock_lookup E w sc p of
             (Inl e, p1) \<Rightarrow> Some (packet_free w p1, sc, ns)
           | (Inr n, p1) \<Rightarrow>
               (let (r, p2) = parse_ts_opt_fast p1; ns1 = queue_input_tsock ns n; t = sc_socks sc n
                in case (if state t = TCP_STATE_LISTEN then tcp_rcv_process E expand w sc t p2 else tcp_merge E expand w sc t p2) of
                     None \<Rightarrow> None | Some (w1, sc1, t1) \<Rightarrow> Some (w1, sock_put sc1 t1, ns1))))"

fun input_loop :: "env \<Rightarrow> (nat \<Rightarrow> bool) \<Rightarrow> tpa_worker \<Rightarrow> sock_ctrl \<Rightarrow> nat list \<Rightarrow> packet list \<Rightarrow>
    (tpa_worker \<times> sock_ctrl \<times> nat list) option" where
  "input_loop E expand w sc ns [] = Some (w, sc, ns)"
| "input_loop E expand w sc ns (p # ps) =
     (case input_one E expand w sc ns p of None \<Rightarrow> None | Some (w1, sc1, ns1) \<Rightarrow> input_loop E expand w1 sc1 ns1 ps)"

text \<open>The second loop for one socket: what is left of the merge, the acknowledgement, and the
  release of a closed connection.\<close>

definition input_finish :: "env \<Rightarrow> (nat \<Rightarrow> bool) \<Rightarrow> tpa_worker \<Rightarrow> sock_ctrl \<Rightarrow> nat \<Rightarrow> (tpa_worker \<times> sock_ctrl) option" where
  "input_finish E expand w sc n =
     (case (case rx_merge_head (sc_socks sc n) of
              None \<Rightarrow> Some (w, sc, sc_socks sc n) | Some head \<Rightarrow> tcp_rcv_process E expand w sc (sc_socks sc n) head) of
        None \<Rightarrow> None
      | Some (w1, sc1, t1) \<Rightarrow>
          (let (w2, t2) =
             (if flags t1 AND TSOCK_FLAG_ACK_NEEDED = 0 then (w1, t1)
              else if flags t1 AND TSOCK_FLAG_ACK_NOW \<noteq> 0 then (let (r, w2, t2) = xmit_flag_packet E w1 t1 in (w2, t2))
              else (w1\<lparr>wk_delayed_ack := flex_fifo_push_if_not_exist (wk_delayed_ack w1) (sk_pos t1)\<rparr>, t1));
               (w3, t3) = (if flags t2 AND TSOCK_FLAG_PUT \<noteq> 0
                           then tsock_free E w2 (t2\<lparr>flags := flags t2 AND NOT TSOCK_FLAG_PUT\<rparr>) else (w2, t2))
           in Some (w3, sock_put sc1 t3)))"

fun input_finish_loop :: "env \<Rightarrow> (nat \<Rightarrow> bool) \<Rightarrow> tpa_worker \<Rightarrow> sock_ctrl \<Rightarrow> nat list \<Rightarrow> (tpa_worker \<times> sock_ctrl) option" where
  "input_finish_loop E expand w sc [] = Some (w, sc)"
| "input_finish_loop E expand w sc (n # ns) =
     (case input_finish E expand w sc n of None \<Rightarrow> None | Some (w1, sc1) \<Rightarrow> input_finish_loop E expand w1 sc1 ns)"

text \<open>The packets are taken out of the device queue before they are processed; nothing that the
  loop calls looks at that queue.\<close>

definition tcp_input :: "env \<Rightarrow> (nat \<Rightarrow> bool) \<Rightarrow> tpa_worker \<Rightarrow> sock_ctrl \<Rightarrow> u16 \<Rightarrow> (nat \<times> tpa_worker \<times> sock_ctrl) option" where
  "tcp_input E expand w sc port =
     (let q = dev_rxq (wk_dev w) port;
          nr = unat (min (dev_nr_rx_burst (wk_dev w) port) (drx_write q - drx_read q));
          ps = ring_slice DEV_RXQ_MASK (drx_pkts q) (drx_read q) nr;
          w1 = w\<lparr>wk_dev := (wk_dev w)\<lparr>dev_rxq := (dev_rxq (wk_dev w))(port := q\<lparr>drx_read := drx_read q + of_nat nr\<rparr>)\<rparr>\<rparr>
      in case input_loop E expand w1 sc [] ps of
           None \<Rightarrow> None
         | Some (w2, sc1, ns) \<Rightarrow>
             (case input_finish_loop E expand w2 sc1 ns of
                None \<Rightarrow> None | Some (w3, sc2) \<Rightarrow> Some (nr, w3, sc2)))"

end
