(* ===== verification/Tcp_Timeout.thy ===== *)
theory Tcp_Timeout
  imports Tcp_Input
begin

text \<open>
  \<open>src/tcp/tcp_timeout.c\<close>: the callbacks of the three timers of a socket.
\<close>

section \<open>The retransmission timer\<close>

definition desc_unmark :: "tpa_worker \<Rightarrow> nat \<Rightarrow> u32 \<Rightarrow> tpa_worker" where
  "desc_unmark w d f =
     w\<lparr>desc_mem := (desc_mem w)(d := (desc_mem w d)\<lparr>desc_flags := desc_flags (desc_mem w d) AND NOT f\<rparr>)\<rparr>"

function clear_sacked_loop :: "tpa_worker \<Rightarrow> nat tcp_txq \<Rightarrow> u16 \<Rightarrow> tpa_worker" where
  "clear_sacked_loop w q idx =
     (case tcp_txq_peek_for_write q (txq_una q) idx of
        None \<Rightarrow> w
      | Some d \<Rightarrow> clear_sacked_loop (desc_unmark w d TX_DESC_FLAG_SACKED) q (idx + 1))"
  by pat_completeness auto
termination
  by (relation "measure (\<lambda>(w, q, idx). unat (txq_write q - txq_una q) - unat idx)")
    (auto dest!: peek_for_write_bound simp: unat_suc_bound)

declare clear_sacked_loop.simps [simp del]

definition clear_sacked :: "tpa_worker \<Rightarrow> tcp_sock \<Rightarrow> tpa_worker \<times> tcp_sock" where
  "clear_sacked w t = (clear_sacked_loop w (txq t) 0, t\<lparr>sacked_bytes := 0\<rparr>)"

text \<open>Giving up: the connection is closed with \<open>ETIMEDOUT\<close>.\<close>

definition tsock_timed_out :: "env \<Rightarrow> tpa_worker \<Rightarrow> tcp_sock \<Rightarrow> bool \<Rightarrow> tpa_worker \<times> tcp_sock" where
  "tsock_timed_out E w t to_close =
     (let (w1, t1) = tsock_set_state E w (t\<lparr>sk_err := Some ETIMEDOUT\<rparr>) TCP_STATE_CLOSED
      in if close_issued t1 \<or> to_close then tsock_free E w1 t1 else tsock_event_add w1 t1 TPA_EVENT_ERR)"

definition tcp_timeout_rto :: "env \<Rightarrow> tpa_worker \<Rightarrow> tcp_sock \<Rightarrow> tpa_worker \<times> tcp_sock" where
  "tcp_timeout_rto E w t0 =
     (let t = t0\<lparr>rto_shift := rto_shift t0 + 1\<rparr>;
          syn = (state t = TCP_STATE_SYN_SENT \<or> state t = TCP_STATE_SYN_RCVD)
      in if ucast (rto_shift t) \<ge> (if syn then syn_retries (cfg E) else retries (cfg E))
         then tsock_timed_out E w t (state t = TCP_STATE_SYN_RCVD)
         else (let t1 = (case (if rto_shift t = 1 then tcp_txq_peek_una_before_nxt (txq t) 0 else None) of
                           None \<Rightarrow> t | Some d \<Rightarrow> t\<lparr>rto_start_ts := desc_ts_us (desc_mem w d)\<rparr>);
                   (w2, t2) = clear_sacked w t1;
                   t3 = t2\<lparr>retrans_stage := RTO, snd_recover := snd_nxt t2,
                           snd_ssthresh := max (snd_cwnd t2 div 2) (2 * ucast (snd_mss t2)), snd_cwnd := ucast (snd_mss t2)\<rparr>;
                   w3 = wk_timer_start w2 t3 TimerRto (ts_us w2) (ucast (min TCP_RTO_MAX (push_bit (unat (rto_shift t3)) (rto t3))));
                   t4 = tcp_reset_retrans t3 (if syn then snd_una t3 + 1 else snd_una t3) (txq_una (txq t3));
                   (w5, t5) = tcp_retrans E w3 t4
               in (output_tsock_enqueue w5 t5, t5)))"

section \<open>The other timers\<close>

definition tcp_timeout_wait :: "env \<Rightarrow> tpa_worker \<Rightarrow> tcp_sock \<Rightarrow> tpa_worker \<times> tcp_sock" where
  "tcp_timeout_wait E w t =
     (let (w1, t1) = tsock_set_state E w t TCP_STATE_CLOSED in tsock_free E w1 t1)"

definition tcp_timeout_keepalive :: "env \<Rightarrow> tpa_worker \<Rightarrow> tcp_sock \<Rightarrow> tpa_worker \<times> tcp_sock" where
  "tcp_timeout_keepalive E w t0 =
     (let t = t0\<lparr>keepalive_shift := keepalive_shift t0 + 1\<rparr>
      in if ucast (keepalive_shift t0) \<ge> retries (cfg E) then tsock_timed_out E w t False
         else if state t = TCP_STATE_ESTABLISHED
         then (let (r, w1, t1) = xmit_flag_packet_with_seq E w (t\<lparr>flags := flags t OR TSOCK_FLAG_ACK_NEEDED\<rparr>) (snd_una t - 1)
               in (wk_timer_start w1 t1 TimerKeepalive (ts_us w1) (ucast (keepalive (cfg E))), t1))
         else (w, t))"

definition tcp_timeout :: "env \<Rightarrow> timer_kind \<Rightarrow> tpa_worker \<Rightarrow> tcp_sock \<Rightarrow> tpa_worker \<times> tcp_sock" where
  "tcp_timeout E k w t =
     (if state t = TCP_STATE_CLOSED then (w, t)
      else (let (r, t1) = tsock_try_update_eth_hdr E t
            in case k of
                 TimerRto \<Rightarrow> tcp_timeout_rto E w t1
               | TimerWait \<Rightarrow> tcp_timeout_wait E w t1
               | TimerKeepalive \<Rightarrow> tcp_timeout_keepalive E w t1))"

end
