(* ===== verification/Sock_Api.thy ===== *)
theory Sock_Api
  imports Tcp_Timeout
begin

text \<open>
  The calls of the application: the rest of \<open>src/sock.c\<close> (connecting, listening, accepting, reading,
  writing, closing) and \<open>src/event.c\<close>. An address string is represented by what \<open>inet_pton\<close> makes of
  it. The calls work on the worker of the calling thread and the array of sockets; \<open>None\<close> is an
  abort in \<open>sock_create\<close>.
\<close>

section \<open>Addresses\<close>

definition tpa_ip_is_loopback :: "tpa_ip \<Rightarrow> bool" where
  "tpa_ip_is_loopback ip \<longleftrightarrow>
     (if tpa_ip_is_ipv4 ip then tpa_ip_get_ipv4 ip = 0x100007f else ip_hi ip = 0 \<and> ip_lo ip = 0x100000000000000)"

text \<open>\<open>inet_pton\<close> for IPv6 gives the 16 bytes of an address, for IPv4 a word.\<close>

definition tpa_ip_from_str :: "('s \<Rightarrow> tpa_ip option) \<Rightarrow> ('s \<Rightarrow> u32 option) \<Rightarrow> 's \<Rightarrow> tpa_ip option" where
  "tpa_ip_from_str pton6 pton4 str =
     (case pton6 str of Some ip \<Rightarrow> Some ip | None \<Rightarrow> map_option tpa_ip_set_ipv4 (pton4 str))"

text \<open>The address to use, or \<open>None\<close> for \<open>EINVAL\<close>; \<open>addr\<close> is the parsed string.\<close>

definition resolve_ip :: "env \<Rightarrow> tpa_ip option \<Rightarrow> bool \<Rightarrow> tpa_ip option" where
  "resolve_ip E addr listen_mode =
     (case addr of
        None \<Rightarrow> None
      | Some ip0 \<Rightarrow>
          (let ip = (if tpa_ip_is_loopback ip0
                     then if tpa_ip_is_ipv4 ip0 then tpa_ip_set_ipv4 (env_ip4 E) else env_ip6 E
                     else ip0)
           in if tpa_ip_is_ipv4 ip \<and> tpa_ip_get_ipv4 ip = 0
              then if listen_mode then Some (tpa_ip_set_ipv4 (env_ip4 E)) else None
              else Some ip))"

definition listen_ip_get :: "env \<Rightarrow> tpa_ip option option \<Rightarrow> tpa_ip option" where
  "listen_ip_get E addr =
     (case addr of
        None \<Rightarrow> Some \<lparr>ip_hi = 0, ip_lo = 0\<rparr>
      | Some a \<Rightarrow>
          (case resolve_ip E a True of
             None \<Rightarrow> None
           | Some ip \<Rightarrow>
               if (if tpa_ip_is_ipv4 ip then tpa_ip_get_ipv4 ip = env_ip4 E else tpa_ip_equal ip (env_ip6 E)) then Some ip else None))"

section \<open>Connecting and listening\<close>

definition set_errno :: "errno \<Rightarrow> tpa_worker \<Rightarrow> tpa_worker" where
  "set_errno e w = w\<lparr>wk_errno := Some e\<rparr>"

text \<open>The device picks a port for the connection.\<close>

definition tsock_pick_port :: "tpa_worker \<Rightarrow> tcp_sock \<Rightarrow> tpa_worker \<times> tcp_sock" where
  "tsock_pick_port w t = (let (p, d) = dev_port_id_get (wk_dev w) in (w\<lparr>wk_dev := d\<rparr>, t\<lparr>port_id := p\<rparr>))"

definition tpa_connect_to :: "env \<Rightarrow> bool \<Rightarrow> tpa_worker \<Rightarrow> sock_ctrl \<Rightarrow> tpa_ip option \<Rightarrow> u16 \<Rightarrow> tpa_sock_opts option \<Rightarrow>
    (int \<times> tpa_worker \<times> sock_ctrl) option" where
  "tpa_connect_to E expand w sc server port opts =
     (case resolve_ip E server False of
        None \<Rightarrow> Some (-1, set_errno EINVAL w, sc)
      | Some rip \<Rightarrow>
          if env_ip4 E = 0 \<and> tpa_ip_is_ipv4 rip \<or> is_ip6_any (env_ip6 E) \<and> \<not> tpa_ip_is_ipv4 rip \<or> port = 0
          then Some (-1, set_errno EINVAL w, sc)
          else (case sock_create E expand w sc opts (\<not> tpa_ip_is_ipv4 rip) of
                  None \<Rightarrow> None
                | Some (None, w1, sc1) \<Rightarrow> Some (-1, w1, sc1)
                | Some (Some t, w1, sc1) \<Rightarrow>
                    (let (r, w2, t2) = tsock_bind E w1 t rip port
                     in if r < 0 then (let (w3, t3) = tsock_free E w2 t2 in Some (-1, w3, sock_put sc1 t3))
                        else (let (r3, w3, t3) = tcp_connect E w2 t2
                              in if r3 < 0
                                 then (let w4 = snd (tsock_unbind E w3 t3); (w5, t5) = tsock_free E w4 t3
                                       in Some (-1, w5, sock_put sc1 t5))
                                 else (let (w4, t4) = tsock_pick_port w3 t3 in Some (sid t4, w4, sock_put sc1 t4))))))"

definition tpa_listen_on :: "env \<Rightarrow> bool \<Rightarrow> tpa_worker \<Rightarrow> sock_ctrl \<Rightarrow> tpa_ip option option \<Rightarrow> u16 \<Rightarrow> tpa_sock_opts option \<Rightarrow>
    (int \<times> tpa_worker \<times> sock_ctrl) option" where
  "tpa_listen_on E expand w sc addr port opts =
     (case listen_ip_get E addr of
        None \<Rightarrow> Some (-1, set_errno EINVAL w, sc)
      | Some lip \<Rightarrow>
          if port = 0 then Some (-1, set_errno EINVAL w, sc)
          else (let (r, w1) = port_alloc E w port
                in if r = 0 then Some (-1, set_errno EADDRINUSE w1, sc)
                   else (case sock_create E expand w1 sc opts (\<not> tpa_ip_is_ipv4 lip) of
                           None \<Rightarrow> None
                         | Some (None, w2, sc2) \<Rightarrow> Some (-1, snd (port_free (set_errno ENFILE w2) port), sc2)
                         | Some (Some t0, w2, sc2) \<Rightarrow>
                             (let t = t0\<lparr>local_port := port, local_ip := lip, remote_ip := \<lparr>ip_hi = 0, ip_lo = 0\<rparr>,
                                         state := TCP_STATE_LISTEN, listen_sock := True\<rparr>;
                                  w3 = snd (add_listen_sock E w2 t);
                                  w4 = w3\<lparr>nr_offload := nr_offload w3 + 1\<rparr>
                              in if \<not> env_offload E (nr_offload w3)
                                 then (let (w5, t5) = tsock_free E w4 t in Some (-1, set_errno EBUSY w5, sock_put sc2 t5))
                                 else (let (w5, t5) = tsock_pick_port w4 t in Some (sid t5, w5, sock_put sc2 t5))))))"

text \<open>\<open>tpa_accept_burst\<close>: the ids handed out; a socket that is no longer open is skipped. A round of
  the loop takes one node out of the queue, so the number of nodes bounds the rounds.\<close>

fun accept_loop :: "sock_ctrl \<Rightarrow> nat flex_fifo \<Rightarrow> nat \<Rightarrow> nat \<Rightarrow> int list \<times> nat flex_fifo" where
  "accept_loop sc ff 0 fuel = ([], ff)"
| "accept_loop sc ff (Suc k) 0 = ([], ff)"
| "accept_loop sc ff (Suc k) (Suc fuel) =
     (case flex_fifo_pop ff of
        (None, ff1) \<Rightarrow> ([], ff1)
      | (Some n, ff1) \<Rightarrow>
          (let t = sc_socks sc n
           in if sid t < 0 \<or> state t \<noteq> TCP_STATE_ESTABLISHED \<and> state t \<noteq> TCP_STATE_CLOSE_WAIT
              then accept_loop sc ff1 (Suc k) fuel
              else (let (ids, ff2) = accept_loop sc ff1 k fuel in (sid t # ids, ff2))))"

definition tpa_accept_burst :: "tpa_worker \<Rightarrow> sock_ctrl \<Rightarrow> nat \<Rightarrow> int list \<times> tpa_worker" where
  "tpa_accept_burst w sc nr_sid =
     (let (ids, ff) = accept_loop sc (wk_accept w) nr_sid (length (ff_items (wk_accept w)) + 1) in (ids, w\<lparr>wk_accept := ff\<rparr>))"

section \<open>Reading, writing and closing\<close>

definition tpa_zreadv :: "tpa_worker \<Rightarrow> sock_ctrl \<Rightarrow> int \<Rightarrow> nat \<Rightarrow> int \<times> read_iov list \<times> tpa_worker \<times> sock_ctrl" where
  "tpa_zreadv w sc s nr_iov =
     (case tsock_get_by_sid sc s of
        None \<Rightarrow> (-1, [], set_errno EINVAL w, sc)
      | Some t \<Rightarrow>
          (let (r, iovs, w1, t1) = tsock_zreadv w (tsock_update_last_ts w t LAST_TS_READ) nr_iov in (r, iovs, w1, sock_put sc t1)))"

definition tpa_write :: "env \<Rightarrow> tpa_worker \<Rightarrow> sock_ctrl \<Rightarrow> int \<Rightarrow> u64 \<Rightarrow> u64 \<Rightarrow> int \<times> tpa_worker \<times> sock_ctrl" where
  "tpa_write E w sc s buf sz =
     (case tsock_get_by_sid sc s of
        None \<Rightarrow> (-1, set_errno EPIPE w, sc)
      | Some t \<Rightarrow>
          if sz = 0 then (0, w, sc)
          else (let (r, w1, t1) = tsock_write E w (tsock_update_last_ts w t LAST_TS_WRITE) buf sz in (r, w1, sock_put sc t1)))"

text \<open>\<open>nr_iov\<close> is an \<open>int\<close>; the array has at least as many vectors.\<close>

definition tpa_zwritev :: "env \<Rightarrow> tpa_worker \<Rightarrow> sock_ctrl \<Rightarrow> int \<Rightarrow> tpa_iovec list \<Rightarrow> int \<Rightarrow> int \<times> tpa_worker \<times> sock_ctrl" where
  "tpa_zwritev E w sc s iovs nr_iov =
     (case tsock_get_by_sid sc s of
        None \<Rightarrow> (-1, set_errno EINVAL w, sc)
      | Some t \<Rightarrow>
          if nr_iov = 0 then (0, w, sc)
          else if nr_iov < 0 then (-1, set_errno EINVAL w, sc)
          else (let (r, w1, t1) = tsock_zwritev E w (tsock_update_last_ts w t LAST_TS_WRITE) (take (nat nr_iov) iovs)
                in (r, w1, sock_put sc t1)))"

definition tpa_close :: "tpa_worker \<Rightarrow> sock_ctrl \<Rightarrow> int \<Rightarrow> tpa_worker \<times> sock_ctrl" where
  "tpa_close w sc s =
     (case tsock_get_by_sid sc s of
        None \<Rightarrow> (set_errno EINVAL w, sc)
      | Some t \<Rightarrow>
          if close_issued t then (w, sc)
          else (let t1 = t\<lparr>close_issued := True\<rparr> in (output_tsock_enqueue w t1, sock_put sc t1)))"

record tpa_sock_info =
  info_local_ip :: tpa_ip
  info_remote_ip :: tpa_ip
  info_local_port :: u16
  info_remote_port :: u16
  info_data :: u64

definition tpa_sock_info_get :: "tpa_worker \<Rightarrow> sock_ctrl \<Rightarrow> int \<Rightarrow> tpa_sock_info option \<times> tpa_worker" where
  "tpa_sock_info_get w sc s =
     (case tsock_get_by_sid sc s of
        None \<Rightarrow> (None, set_errno EINVAL w)
      | Some t \<Rightarrow>
          (Some \<lparr>info_local_ip = local_ip t, info_remote_ip = remote_ip t, info_local_port = local_port t,
                 info_remote_port = remote_port t, info_data = opts_data t\<rparr>, w))"

section \<open>Events\<close>

definition TPA_EVENT_CTRL_DEL :: int where "TPA_EVENT_CTRL_DEL = 2"

record tpa_event =
  ev_events :: u32
  ev_data :: u64

definition tpa_event_ctrl :: "tpa_worker \<Rightarrow> sock_ctrl \<Rightarrow> int \<Rightarrow> int \<Rightarrow> tpa_event \<Rightarrow> int \<times> tpa_worker \<times> sock_ctrl" where
  "tpa_event_ctrl w sc s op ev =
     (case tsock_get_by_sid sc s of
        None \<Rightarrow> (-1, set_errno EINVAL w, sc)
      | Some t \<Rightarrow>
          (let (w1, t1) =
             (if op = TPA_EVENT_CTRL_DEL then (w, t\<lparr>interested_events := 0\<rparr>)
              else (let t1 = t\<lparr>event_data := ev_data ev, interested_events := ev_events ev OR TPA_EVENT_HUP OR TPA_EVENT_ERR\<rparr>
                    in if event_events t1 \<noteq> 0 then tsock_event_add w t1 (event_events t1) else (w, t1)))
           in (0, w1, sock_put sc t1)))"

fun event_poll_loop :: "sock_ctrl \<Rightarrow> nat flex_fifo \<Rightarrow> nat \<Rightarrow> nat \<Rightarrow> tpa_event list \<times> nat flex_fifo \<times> sock_ctrl" where
  "event_poll_loop sc ff 0 fuel = ([], ff, sc)"
| "event_poll_loop sc ff (Suc k) 0 = ([], ff, sc)"
| "event_poll_loop sc ff (Suc k) (Suc fuel) =
     (case flex_fifo_pop ff of
        (None, ff1) \<Rightarrow> ([], ff1, sc)
      | (Some n, ff1) \<Rightarrow>
          (let t = sc_socks sc n
           in if close_issued t \<or> sid t < 0 then event_poll_loop sc ff1 (Suc k) fuel
              else (let ev = event_events t AND interested_events t;
                        sc1 = sock_put sc (t\<lparr>event_events := event_events t AND NOT ev\<rparr>)
                    in if ev = 0 then event_poll_loop sc1 ff1 (Suc k) fuel
                       else (let (evs, ff2, sc2) = event_poll_loop sc1 ff1 k fuel
                             in (\<lparr>ev_events = ev, ev_data = event_data t\<rparr> # evs, ff2, sc2)))))"

definition tpa_event_poll :: "tpa_worker \<Rightarrow> sock_ctrl \<Rightarrow> nat \<Rightarrow> tpa_event list \<times> tpa_worker \<times> sock_ctrl" where
  "tpa_event_poll w sc mx =
     (let (evs, ff, sc1) = event_poll_loop sc (event_queue w) mx (length (ff_items (event_queue w)) + 1)
      in (evs, w\<lparr>event_queue := ff, cycles_last_poll := cycles_start w\<rparr>, sc1))"

end
