(* ===== verification/Worker.thy ===== *)
theory Worker
  imports Sock_Api
begin

text \<open>
  The loop of a worker, \<open>src/worker.c\<close>, and the packets that come back from the neighbour thread
  (\<open>neigh_flush\<close> of \<open>src/neigh.c\<close>). The state is the worker and the array of sockets. Everything a
  connection does in this library is one of the passes of \<open>tpa_worker_run\<close> or a call of the
  application. \<open>None\<close> stands for an abort in the creation of a socket or a timer pass that does not
  return. The packet fuzzer of test builds is left out.
\<close>

section \<open>Packets whose neighbour was found\<close>

fun neigh_flush_loop :: "env \<Rightarrow> tpa_worker \<Rightarrow> sock_ctrl \<Rightarrow> nat \<Rightarrow> nat \<Rightarrow> nat \<times> tpa_worker \<times> sock_ctrl" where
  "neigh_flush_loop E w sc i 0 = (i, w, sc)"
| "neigh_flush_loop E w sc i (Suc k) =
     (case neigh_flush_queue w of
        [] \<Rightarrow> (i, w, sc)
      | (stale, x) # xs \<Rightarrow>
          (let w1 = w\<lparr>neigh_flush_queue := xs\<rparr>
           in if stale then neigh_flush_loop E w1 sc (i + 1) k
              else (let (ret, w2) = wk_txq_enqueue E w1 0 x
                    in neigh_flush_loop E w2 (sock_put sc (flush_tcp_packet w2 (sc_socks sc (tx_tsock x)))) (i + 1) k)))"

definition neigh_flush :: "env \<Rightarrow> tpa_worker \<Rightarrow> sock_ctrl \<Rightarrow> nat \<times> tpa_worker \<times> sock_ctrl" where
  "neigh_flush E w sc = neigh_flush_loop E w sc 0 BATCH_SIZE"

definition flush_neigh_queue :: "env \<Rightarrow> tpa_worker \<Rightarrow> sock_ctrl \<Rightarrow> nat \<times> tpa_worker \<times> sock_ctrl" where
  "flush_neigh_queue E w sc = (if neigh_flush_queue w = [] then (0, w, sc) else neigh_flush E w sc)"

section \<open>The passes\<close>

type_synonym tpa_world = "tpa_worker \<times> sock_ctrl"

definition world_timers :: "tpa_world \<Rightarrow> timer_id timer_ctrl" where
  "world_timers s = wk_timers (fst s)"

definition world_put_timers :: "timer_id timer_ctrl \<Rightarrow> tpa_world \<Rightarrow> tpa_world" where
  "world_put_timers tc s = ((fst s)\<lparr>wk_timers := tc\<rparr>, snd s)"

text \<open>The callback that \<open>timer_init\<close> stored in the timer.\<close>

definition timer_callback :: "env \<Rightarrow> timer_id \<Rightarrow> tpa_world \<Rightarrow> tpa_world" where
  "timer_callback E i s =
     (case i of
        SockTimer n k \<Rightarrow> (let (w, t) = tcp_timeout E k (fst s) (sc_socks (snd s) n) in (w, sock_put (snd s) t))
      | BlockTimer b \<Rightarrow> (port_block_timeout (fst s) b, snd s))"

fun input_ports_loop :: "env \<Rightarrow> (nat \<Rightarrow> bool) \<Rightarrow> tpa_worker \<Rightarrow> sock_ctrl \<Rightarrow> nat list \<Rightarrow> nat \<Rightarrow> (nat \<times> tpa_worker \<times> sock_ctrl) option" where
  "input_ports_loop E expand w sc [] nr = Some (nr, w, sc)"
| "input_ports_loop E expand w sc (i # is) nr =
     (let w1 = w\<lparr>wk_dev := dev_port_rxq_recv (env_rx_burst E) (measure_latency (cfg E)) (wk_dev w) (of_nat i)\<rparr>
      in case tcp_input E expand w1 sc (of_nat i) of
           None \<Rightarrow> None | Some (n, w2, sc2) \<Rightarrow> input_ports_loop E expand w2 sc2 is (nr + n))"

definition tcp_input_process :: "env \<Rightarrow> (nat \<Rightarrow> bool) \<Rightarrow> tpa_worker \<Rightarrow> sock_ctrl \<Rightarrow> (nat \<times> tpa_worker \<times> sock_ctrl) option" where
  "tcp_input_process E expand w sc = input_ports_loop E expand w sc [0..<unat (dev_nr_port (wk_dev w))] 0"

definition tcp_output_process :: "env \<Rightarrow> tpa_worker \<Rightarrow> sock_ctrl \<Rightarrow> nat \<times> tpa_worker \<times> sock_ctrl" where
  "tcp_output_process E w sc =
     (let (nr, w1, sc1) = tcp_output E w sc in (nr, w1\<lparr>wk_dev := dev_txq_flush (env_tx_burst E) (wk_dev w1)\<rparr>, sc1))"

fun drop_ooo_list :: "tpa_worker \<Rightarrow> sock_ctrl \<Rightarrow> (sock_key \<times> nat) list \<Rightarrow> tpa_worker \<times> sock_ctrl" where
  "drop_ooo_list w sc [] = (w, sc)"
| "drop_ooo_list w sc ((k, n) # es) =
     (let (w1, t1) = tsock_drop_ooo_mbufs w (sc_socks sc n) in drop_ooo_list w1 (sock_put sc t1) es)"

definition do_drop_ooo_mbufs :: "tpa_worker \<Rightarrow> sock_ctrl \<Rightarrow> tpa_worker \<times> sock_ctrl" where
  "do_drop_ooo_mbufs w sc =
     fold (\<lambda>i (w, sc). drop_ooo_list w sc (wk_sock_table w i)) [0..<SOCK_TABLE_SIZE] (w, sc)"

definition drop_ooo_mbufs :: "env \<Rightarrow> tpa_worker \<Rightarrow> sock_ctrl \<Rightarrow> tpa_worker \<times> sock_ctrl" where
  "drop_ooo_mbufs E w sc = (if too_many_used_mbufs E w then do_drop_ooo_mbufs w sc else (w, sc))"

definition tpa_worker_run :: "env \<Rightarrow> (nat \<Rightarrow> bool) \<Rightarrow> tpa_worker \<Rightarrow> sock_ctrl \<Rightarrow> (tpa_worker \<times> sock_ctrl) option" where
  "tpa_worker_run E expand w0 sc0 =
     (let w = cycles_update_begin E w0;
          (b1, w1, sc1) = flush_neigh_queue E w sc0
      in case timer_process world_timers world_put_timers (timer_callback E) (w1, sc1) (ts_us w1) 0 of
           None \<Rightarrow> None
         | Some ((w2, sc2), b2) \<Rightarrow>
             (case tcp_input_process E expand w2 sc2 of
                None \<Rightarrow> None
              | Some (b3, w3, sc3) \<Rightarrow>
                  (let (b4, w4, sc4) = tcp_output_process E w3 sc3;
                       (w5, sc5) = drop_ooo_mbufs E w4 sc4
                   in Some (cycles_update_end E w5 (b1 + b2 + b3 + b4 \<noteq> 0), sc5))))"

end
