(* ===== verification/Rate.thy ===== *)
theory Rate
  imports Tcp_Timeout
begin

text \<open>
  How fast a connection sends and how long it waits: the estimate of the round trip time against
  its specification in plain integers (RFC 6298, scaled by 8 and 4), and the bounds of the
  congestion window.
\<close>

section \<open>The round trip time\<close>

definition rtt_ok :: "tcp_sock \<Rightarrow> bool" where
  "rtt_ok t \<longleftrightarrow> uint (srtt t) \<le> 8 * TCP_RTT_MAX \<and> uint (rttvar t) \<le> 4 * TCP_RTT_MAX"

text \<open>The reference: the scaled estimate and variation after a measurement \<open>m\<close>.\<close>

definition srtt_spec :: "int \<Rightarrow> int \<Rightarrow> int" where
  "srtt_spec s m = (if s = 0 then 8 * m else s - s div 8 + m)"

definition rttvar_spec :: "int \<Rightarrow> int \<Rightarrow> int \<Rightarrow> int" where
  "rttvar_spec s v m = (if s = 0 then 2 * m else v - v div 4 + \<bar>m - s div 8\<bar>)"

lemma uint_drop_bit_u32: "uint (drop_bit k (x :: u32)) = uint x div 2 ^ k"
proof -
  have "uint x < 2 ^ 32" using unsigned_less [of x, where ?'a = int] by simp
  then have "uint (drop_bit k x) = drop_bit k (uint x)" by (simp add: unsigned_drop_bit_eq take_bit_int_eq_self)
  then show ?thesis by (simp add: drop_bit_eq_div)
qed

lemma div_4_8_le: "0 \<le> (x :: int) \<Longrightarrow> 0 \<le> x div 4 \<and> x div 4 \<le> x \<and> 0 \<le> x div 8 \<and> x div 8 \<le> x"
proof -
  assume x: "0 \<le> x"
  have "x = 4 * (x div 4) + x mod 4" "0 \<le> x mod 4" "x = 8 * (x div 8) + x mod 8" "0 \<le> x mod 8" by simp_all
  moreover have "0 \<le> x div 4" "0 \<le> x div 8" using x by (simp_all add: pos_imp_zdiv_nonneg_iff)
  ultimately show ?thesis by linarith
qed

lemma sub_div_le: "0 < (n :: int) \<Longrightarrow> x \<le> n * k \<Longrightarrow> x - x div n \<le> (n - 1) * k"
proof -
  assume n: "0 < n" and x: "x \<le> n * k"
  have "x div n \<le> k" using n x by (metis nonzero_mult_div_cancel_left order_less_imp_not_eq2 zdiv_mono1)
  show ?thesis
  proof (cases "x div n = k")
    case True
    then show ?thesis using x by (simp add: algebra_simps)
  next
    case False
    then have "x div n + 1 \<le> k" using \<open>x div n \<le> k\<close> by simp
    then have "(n - 1) * (x div n + 1) \<le> (n - 1) * k" using n by (intro mult_left_mono) simp_all
    then have "n * (x div n) + n - x div n - 1 \<le> (n - 1) * k" by (simp add: algebra_simps)
    moreover have "x = n * (x div n) + x mod n" "x mod n < n" using n by simp_all
    ultimately show ?thesis by linarith
  qed
qed

lemma tcp_rtt_update_sel:
  "srtt (tcp_rtt_update E t r) = srtt (rtt_smooth (t\<lparr>rtt := word_of_int (min r TCP_RTT_MAX)\<rparr>) (min r TCP_RTT_MAX))"
  "rttvar (tcp_rtt_update E t r) = rttvar (rtt_smooth (t\<lparr>rtt := word_of_int (min r TCP_RTT_MAX)\<rparr>) (min r TCP_RTT_MAX))"
  "rto (tcp_rtt_update E t r) = min (drop_bit 3 (srtt (tcp_rtt_update E t r)) + max (tcp_rto_min (cfg E)) (rttvar (tcp_rtt_update E t r))) TCP_RTO_MAX"
  by (simp_all add: tcp_rtt_update_def Let_def)

lemma rtt_smooth_sel:
  "srtt t = 0 \<Longrightarrow> srtt (rtt_smooth t r) = push_bit 3 (word_of_int r)"
  "srtt t = 0 \<Longrightarrow> rttvar (rtt_smooth t r) = push_bit 1 (word_of_int r)"
  "srtt t \<noteq> 0 \<Longrightarrow> srtt (rtt_smooth t r) = srtt t + (word_of_int r - drop_bit 3 (srtt t))"
  "srtt t \<noteq> 0 \<Longrightarrow> d = word_of_int r - drop_bit 3 (srtt t) \<Longrightarrow>
     rttvar (rtt_smooth t r) =
       rttvar t + (word_of_int (if sint d < 0 then min (- sint d) TCP_RTT_MAX else sint d) - drop_bit 2 (rttvar t))"
  unfolding rtt_smooth_def Let_def by (erule ssubst | simp only: if_P if_not_P | simp (no_asm_use))+

lemma rtt_fields:
  fixes r :: int
  assumes "rtt_ok t" "0 \<le> r"
  defines "m \<equiv> min r TCP_RTT_MAX"
  shows "uint (srtt (tcp_rtt_update E t r)) = srtt_spec (uint (srtt t)) m"
    "uint (rttvar (tcp_rtt_update E t r)) = rttvar_spec (uint (srtt t)) (uint (rttvar t)) m"
proof -
  let ?s = "uint (srtt t)" and ?v = "uint (rttvar t)"
  have s: "0 \<le> ?s" "?s \<le> 3200000" and v: "0 \<le> ?v" "?v \<le> 1600000"
    using assms(1) by (simp_all add: rtt_ok_def TCP_RTT_MAX_def)
  have m: "0 \<le> m" "m \<le> 400000" using assms(2) by (simp_all add: m_def TCP_RTT_MAX_def)
  have s8: "0 \<le> ?s div 8" "?s div 8 \<le> 400000" using s by (simp_all add: pos_imp_zdiv_nonneg_iff)
  have z: "srtt t = 0 \<longleftrightarrow> ?s = 0" by (simp add: unsigned_eq_0_iff)
  define d :: u32 where "d = word_of_int m - drop_bit 3 (srtt t)"
  have d: "d = word_of_int (m - ?s div 8)"
    by (simp add: d_def wi_hom_sub [symmetric] uint_drop_bit_u32 [of 3 "srtt t", simplified, symmetric])
  have sd: "sint d = m - ?s div 8" unfolding d using m s8 by (intro sint_word_of_int_small) simp_all
  define a where "a = (if sint d < 0 then min (- sint d) TCP_RTT_MAX else sint d)"
  have a: "a = \<bar>m - ?s div 8\<bar>" using sd m s8 by (simp add: a_def TCP_RTT_MAX_def abs_if)
  have e: "srtt (tcp_rtt_update E t r) = (if srtt t \<noteq> 0 then srtt t + d else push_bit 3 (word_of_int m))"
    "rttvar (tcp_rtt_update E t r) =
       (if srtt t \<noteq> 0 then rttvar t + (word_of_int a - drop_bit 2 (rttvar t)) else push_bit 1 (word_of_int m))"
    unfolding tcp_rtt_update_sel m_def [symmetric] a_def by (simp_all add: rtt_smooth_sel d_def)
  have w1: "srtt t + d = word_of_int (?s - ?s div 8 + m)"
    unfolding d by (simp add: wi_hom_add [symmetric] wi_hom_sub [symmetric])
  have w2: "rttvar t + (word_of_int a - drop_bit 2 (rttvar t)) = word_of_int (?v - ?v div 4 + a)"
    by (simp add: wi_hom_add [symmetric] wi_hom_sub [symmetric] uint_drop_bit_u32 [of 2 "rttvar t", simplified, symmetric])
  have w3: "push_bit 3 (word_of_int m :: u32) = word_of_int (8 * m)" "push_bit 1 (word_of_int m :: u32) = word_of_int (2 * m)"
    by (simp_all add: push_bit_eq_mult wi_hom_mult [symmetric])
  have "\<bar>m - ?s div 8\<bar> \<le> 400000" using m s8 by (simp add: abs_le_iff)
  then have b: "0 \<le> ?s - ?s div 8 + m" "?s - ?s div 8 + m < 2 ^ 32" "0 \<le> ?v - ?v div 4 + a" "?v - ?v div 4 + a < 2 ^ 32"
    using s v m a div_4_8_le [OF s(1)] div_4_8_le [OF v(1)] by auto
  show "uint (srtt (tcp_rtt_update E t r)) = srtt_spec ?s m"
    unfolding e z w1 w3 srtt_spec_def using uint_word_of_int_u32 [OF b(1,2)] uint_word_of_int_u32 [of "8 * m"] m by simp
  show "uint (rttvar (tcp_rtt_update E t r)) = rttvar_spec ?s ?v m"
    unfolding e z w2 w3 rttvar_spec_def a [symmetric]
    using uint_word_of_int_u32 [OF b(3,4)] uint_word_of_int_u32 [of "2 * m"] m by simp
qed

lemma rtt_spec_bounds:
  assumes "0 \<le> s" "s \<le> 8 * TCP_RTT_MAX" "0 \<le> v" "v \<le> 4 * TCP_RTT_MAX" "0 \<le> m" "m \<le> TCP_RTT_MAX"
  shows "0 \<le> srtt_spec s m" "srtt_spec s m \<le> 8 * TCP_RTT_MAX" "0 \<le> rttvar_spec s v m" "rttvar_spec s v m \<le> 4 * TCP_RTT_MAX"
proof -
  have s: "s \<le> 3200000" "v \<le> 1600000" "m \<le> 400000" using assms by (simp_all add: TCP_RTT_MAX_def)
  have "s - s div 8 \<le> 2800000" using sub_div_le [of 8 s 400000] s(1) by simp
  moreover have "v - v div 4 \<le> 1200000" using sub_div_le [of 4 v 400000] s(2) by simp
  moreover have "s div 8 \<le> 400000" using zdiv_mono1 [OF s(1), of 8] by simp
  moreover have "\<bar>m - s div 8\<bar> \<le> 400000"
    using \<open>s div 8 \<le> 400000\<close> assms(5) s(3) div_4_8_le [OF assms(1)] by (simp add: abs_le_iff)
  ultimately show "0 \<le> srtt_spec s m" "srtt_spec s m \<le> 8 * TCP_RTT_MAX" "0 \<le> rttvar_spec s v m" "rttvar_spec s v m \<le> 4 * TCP_RTT_MAX"
    using assms s div_4_8_le [OF assms(1)] div_4_8_le [OF assms(3)]
    by (auto simp: srtt_spec_def rttvar_spec_def TCP_RTT_MAX_def)
qed

text \<open>C36: \<open>tcp_rtt_update\<close>, computed in wrapping 32-bit arithmetic, is the estimator of RFC 6298 in integers:
  the smoothed time and its variation follow the reference for every measurement, they stay inside
  their bounds, and the retransmission timeout is the one of the RFC, between the configured
  minimum and \<open>TCP_RTO_MAX\<close>.\<close>

theorem tcp_rtt_update_is_rfc6298:
  assumes "rtt_ok t" "0 \<le> r" "tcp_rto_min (cfg E) \<le> TCP_RTO_MAX"
  shows "let m = min r TCP_RTT_MAX; t' = tcp_rtt_update E t r
    in rtt_ok t' \<and> uint (srtt t') = srtt_spec (uint (srtt t)) m \<and>
       uint (rttvar t') = rttvar_spec (uint (srtt t)) (uint (rttvar t)) m \<and>
       uint (rto t') = min (uint (srtt t') div 8 + max (uint (tcp_rto_min (cfg E))) (uint (rttvar t'))) (uint TCP_RTO_MAX) \<and>
       tcp_rto_min (cfg E) \<le> rto t' \<and> rto t' \<le> TCP_RTO_MAX"
proof -
  define t' where "t' = tcp_rtt_update E t r"
  define m where "m = min r TCP_RTT_MAX"
  note f = rtt_fields [OF assms(1,2), of E, folded t'_def m_def]
  have m: "0 \<le> m" "m \<le> TCP_RTT_MAX" using assms(2) by (simp_all add: m_def TCP_RTT_MAX_def)
  note b = rtt_spec_bounds [of "uint (srtt t)" "uint (rttvar t)" m]
  have ok: "rtt_ok t'" using b f m assms(1) by (simp add: rtt_ok_def)
  define o1 where "o1 = drop_bit 3 (srtt t') + max (tcp_rto_min (cfg E)) (rttvar t')"
  have r: "rto t' = min o1 TCP_RTO_MAX"
    unfolding o1_def t'_def by (rule tcp_rtt_update_sel)
  have mx: "uint (max x y) = max (uint x) (uint y)" "uint (min x y) = min (uint x) (uint y)" for x y :: u32
    by (simp_all add: max_def min_def word_le_def)
  have "uint (tcp_rto_min (cfg E)) \<le> 120000000" using assms(3) by (simp add: word_le_def TCP_RTO_MAX_def)
  then have "uint (drop_bit 3 (srtt t')) + uint (max (tcp_rto_min (cfg E)) (rttvar t')) < 2 ^ 32"
    using ok div_4_8_le [of "uint (srtt t')"] by (simp add: mx uint_drop_bit_u32 rtt_ok_def TCP_RTT_MAX_def max_def)
  then have o1: "uint o1 = uint (srtt t') div 8 + max (uint (tcp_rto_min (cfg E))) (uint (rttvar t'))"
    unfolding o1_def using div_4_8_le [of "uint (srtt t')"]
    by (subst uint_word_ariths) (simp add: mx uint_drop_bit_u32 le_max_iff_disj)
  have "tcp_rto_min (cfg E) \<le> o1" using o1 div_4_8_le [of "uint (srtt t')"] by (simp add: word_le_def max_def)
  then show ?thesis using ok f o1 r assms(3) unfolding Let_def t'_def [symmetric] m_def [symmetric] by (simp add: mx)
qed

text \<open>A socket with an estimate of 1 ms and a variation of 0.5 ms measures 3 ms.\<close>

definition rtt_example :: tcp_sock where
  "rtt_example = (tsock_zero 0 0)\<lparr>srtt := 8000, rttvar := 2000\<rparr>"

theorem tcp_rtt_update_is_rfc6298_witness:
  "let t' = tcp_rtt_update env_example rtt_example 3000
   in uint (srtt t') = 10000 \<and> uint (rttvar t') = 3500 \<and> rto t' \<le> TCP_RTO_MAX"
proof -
  have h: "rtt_ok rtt_example" "tcp_rto_min (cfg env_example) \<le> TCP_RTO_MAX" by code_simp+
  have e: "srtt_spec (uint (srtt rtt_example)) (min 3000 TCP_RTT_MAX) = 10000"
    "rttvar_spec (uint (srtt rtt_example)) (uint (rttvar rtt_example)) (min 3000 TCP_RTT_MAX) = 3500" by code_simp+
  show ?thesis using tcp_rtt_update_is_rfc6298 [of rtt_example 3000 env_example, OF h(1) _ h(2)] unfolding Let_def e by simp
qed

end
