(* ===== verification/Snd_Queue.thy ===== *)
theory Snd_Queue
  imports Tcp_Timeout
begin

text \<open>
  The send side of a connection as a stream of addresses. A descriptor of the send queue stands
  for a run of memory and a run of sequence numbers; the queue is a chain of such runs without
  gaps. \<open>A\<close> lists the physical address of every byte the application has written since the start
  of the connection, byte \<open>x\<close> has the sequence number \<open>b + x\<close>, and the queue holds the bytes from
  position \<open>P\<close> on. The lemmas follow the loops of \<open>tcp_output.c\<close> that build packets from it.
\<close>

section \<open>Runs of addresses\<close>

definition seg_addrs :: "u64 \<Rightarrow> nat \<Rightarrow> u64 list" where
  "seg_addrs a n = map (\<lambda>k. a + of_nat k) [0..<n]"

lemma length_seg_addrs [simp]: "length (seg_addrs a n) = n"
  by (simp add: seg_addrs_def)

lemma seg_addrs_0 [simp]: "seg_addrs a 0 = []"
  by (simp add: seg_addrs_def)

lemma seg_addrs_slice: "i + n \<le> m \<Longrightarrow> take n (drop i (seg_addrs a m)) = seg_addrs (a + of_nat i) n"
  by (rule nth_equalityI) (auto simp: seg_addrs_def algebra_simps)

definition tx_addrs :: "tx_pkt \<Rightarrow> u64 list" where
  "tx_addrs x = concat (map (\<lambda>(a, l). seg_addrs a (unat l)) (tx_segs x))"

section \<open>The chain\<close>

text \<open>What a descriptor says of the stream: sequence number, physical address and length.\<close>

type_synonym snd_seg = "u32 \<times> u64 \<times> nat"

definition dcore :: "tx_desc \<Rightarrow> snd_seg" where
  "dcore d = (desc_seq d, desc_phys_addr d, unat (desc_len d))"

definition seg_len :: "snd_seg \<Rightarrow> nat" where "seg_len s = snd (snd s)"

definition seg_run :: "snd_seg \<Rightarrow> u64 list" where "seg_run s = seg_addrs (fst (snd s)) (seg_len s)"

lemma length_seg_run [simp]: "length (seg_run s) = seg_len s"
  by (simp add: seg_run_def)

fun chain :: "u32 \<Rightarrow> nat \<Rightarrow> snd_seg list \<Rightarrow> bool" where
  "chain b x [] \<longleftrightarrow> True"
| "chain b x (s # ss) \<longleftrightarrow> fst s = b + of_nat x \<and> 0 < seg_len s \<and> chain b (x + seg_len s) ss"

definition pos :: "nat \<Rightarrow> snd_seg list \<Rightarrow> nat \<Rightarrow> nat" where
  "pos P ss k = P + sum_list (map seg_len (take k ss))"

lemma pos_0 [simp]: "pos P ss 0 = P"
  by (simp add: pos_def)

lemma pos_Suc: "k < length ss \<Longrightarrow> pos P ss (Suc k) = pos P ss k + seg_len (ss ! k)"
  by (simp add: pos_def take_Suc_conv_app_nth)

lemma pos_Cons: "pos P (s # ss) (Suc k) = pos (P + seg_len s) ss k"
  by (simp add: pos_def)

lemma pos_mono: "i \<le> k \<Longrightarrow> pos P ss i \<le> pos P ss k"
proof -
  assume "i \<le> k"
  then have "take k ss = take i ss @ take (k - i) (drop i ss)" by (metis le_add_diff_inverse take_add)
  then show ?thesis by (simp add: pos_def)
qed

lemma pos_drop: "pos (pos P ss n) (drop n ss) k = pos P ss (n + k)"
  by (simp add: pos_def take_add)

lemma chain_append: "chain b x (ss @ us) \<longleftrightarrow> chain b x ss \<and> chain b (pos x ss (length ss)) us"
  by (induction ss arbitrary: x) (simp_all add: pos_def add.assoc)

lemma chain_drop: "chain b x ss \<Longrightarrow> chain b (pos x ss n) (drop n ss)"
proof (cases "n \<le> length ss")
  case True
  assume "chain b x ss"
  then have "chain b x (take n ss @ drop n ss)" by simp
  then show ?thesis using True by (simp only: chain_append) (simp add: pos_def min_absorb2)
qed simp

lemma chain_nth: "chain b x ss \<Longrightarrow> k < length ss \<Longrightarrow> fst (ss ! k) = b + of_nat (pos x ss k) \<and> 0 < seg_len (ss ! k)"
proof (induction ss arbitrary: x k)
  case (Cons s ss)
  then show ?case by (cases k) (auto simp: pos_Cons)
qed simp

text \<open>The bytes of the queue and a part of one descriptor.\<close>

definition runs :: "snd_seg list \<Rightarrow> u64 list" where "runs ss = concat (map seg_run ss)"

lemma length_runs: "length (runs ss) + P = pos P ss (length ss)"
  by (induction ss arbitrary: P) (simp_all add: runs_def pos_Cons add.commute add.left_commute pos_def)

lemma runs_take: "length (runs (take k ss)) + P = pos P ss k"
  using length_runs [of "take k ss" P] by (simp add: pos_def take_min_length)

lemma runs_nth:
  assumes "k < length ss" "i + n \<le> seg_len (ss ! k)"
  shows "take n (drop (length (runs (take k ss)) + i) (runs ss)) = seg_addrs (fst (snd (ss ! k)) + of_nat i) n"
proof -
  have "ss = take k ss @ ss ! k # drop (Suc k) ss" using assms(1) by (simp add: id_take_nth_drop)
  then have "runs ss = runs (take k ss) @ seg_run (ss ! k) @ runs (drop (Suc k) ss)"
    by (metis append.assoc concat.simps(2) concat_append list.simps(9) map_append runs_def)
  then have "take n (drop (length (runs (take k ss)) + i) (runs ss)) =
      take n (drop i (seg_run (ss ! k) @ runs (drop (Suc k) ss)))" by simp
  also have "\<dots> = take n (drop i (seg_run (ss ! k)))" using assms(2) by simp
  finally show ?thesis using assms(2) by (simp add: seg_run_def seg_addrs_slice)
qed

section \<open>The send queue holds the stream from a position on\<close>

definition snd_q :: "tpa_worker \<Rightarrow> tcp_sock \<Rightarrow> snd_seg list" where
  "snd_q w t = map (dcore \<circ> desc_mem w) (txq_items (txq t))"

lemma length_snd_q [simp]: "length (snd_q w t) = txq_used (txq t)"
  by (simp add: snd_q_def)

definition sq_ok :: "u32 \<Rightarrow> nat \<Rightarrow> u64 list \<Rightarrow> tpa_worker \<Rightarrow> tcp_sock \<Rightarrow> bool" where
  "sq_ok b P A w t \<longleftrightarrow> txq_wf (txq t) \<and> chain b P (snd_q w t) \<and> P \<le> length A \<and> runs (snd_q w t) = drop P A \<and>
     length A < P + 2 ^ 30"

definition stream_run :: "u64 list \<Rightarrow> nat \<Rightarrow> nat \<Rightarrow> u64 list" where "stream_run A x n = take n (drop x A)"

lemma stream_run_0 [simp]: "stream_run A x 0 = []"
  by (simp add: stream_run_def)

lemma stream_run_append: "stream_run A x n @ stream_run A (x + n) m = stream_run A x (n + m)"
  by (simp add: stream_run_def take_add add.commute [of x n])

lemma sq_ok_end: "sq_ok b P A w t \<Longrightarrow> pos P (snd_q w t) (txq_used (txq t)) = length A"
  using length_runs [of "snd_q w t" P] by (auto simp: sq_ok_def)

lemma sq_ok_pos_le: "sq_ok b P A w t \<Longrightarrow> pos P (snd_q w t) k \<le> length A"
  using sq_ok_end [of b P A w t] pos_mono [of k "txq_used (txq t)" P "snd_q w t"]
  by (cases "k \<le> txq_used (txq t)") (auto simp: pos_def)

lemma sq_ok_slice:
  assumes "sq_ok b P A w t" "k < txq_used (txq t)" "pos P (snd_q w t) k \<le> x" "x + n \<le> pos P (snd_q w t) (Suc k)"
  shows "stream_run A x n = seg_addrs (fst (snd (snd_q w t ! k)) + of_nat (x - pos P (snd_q w t) k)) n"
proof -
  let ?q = "snd_q w t"
  have p: "length (runs (take k ?q)) + P = pos P ?q k" by (rule runs_take)
  have "stream_run A x n = take n (drop (x - P) (runs ?q))"
    using assms(1,3) p by (simp add: stream_run_def sq_ok_def)
  also have "x - P = length (runs (take k ?q)) + (x - pos P ?q k)" using assms(3) p by simp
  finally show ?thesis using runs_nth [of k ?q "x - pos P ?q k" n] assms(2-4) by (simp add: pos_Suc)
qed

section \<open>Where a transmission stands\<close>

definition at_pos :: "nat \<Rightarrow> snd_seg list \<Rightarrow> nat \<Rightarrow> nat \<Rightarrow> bool" where
  "at_pos P ss x k \<longleftrightarrow> k \<le> length ss \<and> pos P ss k \<le> x \<and> (k < length ss \<longrightarrow> x < pos P ss (Suc k))"

definition ctx_at :: "u32 \<Rightarrow> nat \<Rightarrow> tpa_worker \<Rightarrow> tcp_sock \<Rightarrow> xmit_ctx \<Rightarrow> nat \<Rightarrow> nat \<Rightarrow> bool" where
  "ctx_at b P w t c x k \<longleftrightarrow> unat (xc_desc_base c - txq_una (txq t)) + unat (xc_desc_off c) = k \<and>
     xc_seq c = b + of_nat x \<and> at_pos P (snd_q w t) x k"

lemma ctx_at_peek:
  assumes "txq_wf (txq t)" "ctx_at b P w t c x k"
  shows "tcp_txq_peek_for_write (txq t) (xc_desc_base c) (xc_desc_off c) =
    (if k < txq_used (txq t) then Some (txq_items (txq t) ! k) else None)"
  using assms by (subst tcp_txq_peek_for_write_nth) (auto simp: ctx_at_def at_pos_def)

lemma ctx_at_next:
  assumes "txq_wf (txq t)" "ctx_at b P w t c x k" "k < txq_used (txq t)" "chain b P (snd_q w t)"
    "xc_desc_off c' = xc_desc_off c + 1" "xc_desc_base c' = xc_desc_base c" "xc_seq c' = b + of_nat (pos P (snd_q w t) (Suc k))"
  shows "ctx_at b P w t c' (pos P (snd_q w t) (Suc k)) (Suc k)"
proof -
  have "unat (xc_desc_off c) < txq_used (txq t)" using assms(2,3) by (auto simp: ctx_at_def)
  then have "unat (xc_desc_off c + 1) = unat (xc_desc_off c) + 1"
    by (intro unat_suc_bound [of _ "txq_write (txq t) - txq_una (txq t)"]) (simp add: txq_used_def)
  moreover have "Suc k < length (snd_q w t) \<Longrightarrow> pos P (snd_q w t) (Suc k) < pos P (snd_q w t) (Suc (Suc k))"
    using chain_nth [OF assms(4), of "Suc k"] by (simp add: pos_Suc [of "Suc k"])
  ultimately show ?thesis using assms(2,3,5-7) by (auto simp: ctx_at_def at_pos_def)
qed

definition sacked :: "tpa_worker \<Rightarrow> nat \<Rightarrow> bool" where
  "sacked w d \<longleftrightarrow> desc_flags (desc_mem w d) AND TX_DESC_FLAG_SACKED \<noteq> 0"

lemma snd_q_nth: "k < txq_used (txq t) \<Longrightarrow> snd_q w t ! k = dcore (desc_mem w (txq_items (txq t) ! k))"
  by (simp add: snd_q_def)

lemma desc_end_pos:
  assumes "chain b P (snd_q w t)" "k < txq_used (txq t)" "d = txq_items (txq t) ! k"
  shows "desc_seq (desc_mem w d) + desc_len (desc_mem w d) = b + of_nat (pos P (snd_q w t) (Suc k))"
    "desc_seq (desc_mem w d) = b + of_nat (pos P (snd_q w t) k)"
    "unat (desc_len (desc_mem w d)) = seg_len (snd_q w t ! k)" "0 < seg_len (snd_q w t ! k)"
proof -
  have c: "snd_q w t ! k = dcore (desc_mem w d)" using assms by (simp add: snd_q_nth)
  show l: "unat (desc_len (desc_mem w d)) = seg_len (snd_q w t ! k)" by (simp add: c dcore_def seg_len_def)
  show s: "desc_seq (desc_mem w d) = b + of_nat (pos P (snd_q w t) k)"
    using chain_nth [OF assms(1), of k] assms(2) by (simp add: c dcore_def)
  show "0 < seg_len (snd_q w t ! k)" using chain_nth [OF assms(1), of k] assms(2) by simp
  have "desc_len (desc_mem w d) = of_nat (seg_len (snd_q w t ! k))" by (simp flip: l)
  then show "desc_seq (desc_mem w d) + desc_len (desc_mem w d) = b + of_nat (pos P (snd_q w t) (Suc k))"
    using s assms(2) by (simp add: pos_Suc)
qed

text \<open>Skipping what the peer has reported moves to the end of a reported descriptor or not at all.\<close>

lemma skip_sacked_at:
  assumes "txq_wf (txq t)" "chain b P (snd_q w t)" "ctx_at b P w t c x k" "skip_sacked w t c = (r, c')"
  obtains x' k' where "ctx_at b P w t c' x' k'" "k \<le> k'" "x \<le> x'"
    "x' = x \<and> k' = k \<or> (\<exists>i. k \<le> i \<and> k' = Suc i \<and> i < txq_used (txq t) \<and> sacked w (txq_items (txq t) ! i) \<and> x' = pos P (snd_q w t) (Suc i))"
    "r = (if k' < txq_used (txq t) then Some (txq_items (txq t) ! k') else None)"
    "xc_seq_max c' = xc_seq_max c" "xc_budget c' = xc_budget c" "xc_desc_base c' = xc_desc_base c"
  using assms
proof (induction w t c arbitrary: x k thesis rule: skip_sacked.induct)
  case (1 w t c)
  note pk = ctx_at_peek [OF 1(3,5)]
  show ?case
  proof (cases "k < txq_used (txq t) \<and> sacked w (txq_items (txq t) ! k)")
    case False
    then have "skip_sacked w t c = (if k < txq_used (txq t) then Some (txq_items (txq t) ! k) else None, c)"
      by (subst skip_sacked.simps) (auto simp: pk sacked_def)
    then show ?thesis using 1(2) [of x k] 1(5,6) by auto
  next
    case True
    let ?d = "txq_items (txq t) ! k"
    let ?c = "c\<lparr>xc_desc_off := xc_desc_off c + 1, xc_seq := desc_seq (desc_mem w ?d) + desc_len (desc_mem w ?d)\<rparr>"
    have pk1: "tcp_txq_peek_for_write (txq t) (xc_desc_base c) (xc_desc_off c) = Some ?d" using pk True by simp
    have sk: "\<not> desc_flags (desc_mem w ?d) AND TX_DESC_FLAG_SACKED = 0" using True by (simp add: sacked_def)
    have st: "skip_sacked w t ?c = (r, c')"
      using 1(6) by (subst (asm) skip_sacked.simps) (use pk1 sk in simp)
    have at: "ctx_at b P w t ?c (pos P (snd_q w t) (Suc k)) (Suc k)"
      using True desc_end_pos [OF 1(4)] by (intro ctx_at_next [OF 1(3,5) _ 1(4)]) auto
    have le: "x \<le> pos P (snd_q w t) (Suc k)" using 1(5) True by (auto simp: ctx_at_def at_pos_def)
    show ?thesis
    proof (rule 1(1) [OF pk1 sk _ 1(3,4) at st])
      fix x' k'
      assume a: "ctx_at b P w t c' x' k'" "Suc k \<le> k'" "pos P (snd_q w t) (Suc k) \<le> x'"
        "x' = pos P (snd_q w t) (Suc k) \<and> k' = Suc k \<or> (\<exists>i. Suc k \<le> i \<and> k' = Suc i \<and> i < txq_used (txq t) \<and>
            sacked w (txq_items (txq t) ! i) \<and> x' = pos P (snd_q w t) (Suc i))"
        "r = (if k' < txq_used (txq t) then Some (txq_items (txq t) ! k') else None)"
        "xc_seq_max c' = xc_seq_max ?c" "xc_budget c' = xc_budget ?c" "xc_desc_base c' = xc_desc_base ?c"
      show thesis
      proof (rule 1(2) [OF a(1)])
        show "x' = x \<and> k' = k \<or> (\<exists>i. k \<le> i \<and> k' = Suc i \<and> i < txq_used (txq t) \<and> sacked w (txq_items (txq t) ! i) \<and>
            x' = pos P (snd_q w t) (Suc i))"
          using a(4) True Suc_leD by blast
      qed (use a le in auto)
    qed
  qed
qed

section \<open>Filling a packet\<close>

definition desc_same :: "tx_desc \<Rightarrow> tx_desc \<Rightarrow> bool" where
  "desc_same d d' \<longleftrightarrow> (\<exists>f u. d' = d\<lparr>desc_flags := f, desc_ts_us := u\<rparr> \<and>
     f AND TX_DESC_FLAG_SACKED = desc_flags d AND TX_DESC_FLAG_SACKED \<and>
     f AND TX_DESC_FLAG_MEM_FROM_MBUF = desc_flags d AND TX_DESC_FLAG_MEM_FROM_MBUF)"

definition mem_same :: "tpa_worker \<Rightarrow> tpa_worker \<Rightarrow> bool" where
  "mem_same w w' \<longleftrightarrow> (\<forall>d. desc_same (desc_mem w d) (desc_mem w' d)) \<and> desc_pool w' = desc_pool w \<and>
     done_calls w' = done_calls w \<and> copies w' = copies w"

lemma desc_same_refl [simp]: "desc_same d d"
  unfolding desc_same_def by (intro exI [of _ "desc_flags d"] exI [of _ "desc_ts_us d"]) simp

lemma desc_same_trans: "desc_same d e \<Longrightarrow> desc_same e f \<Longrightarrow> desc_same d f"
  unfolding desc_same_def by (elim exE conjE) (simp, blast)

lemma desc_same_dcore: "desc_same d e \<Longrightarrow> dcore e = dcore d"
  by (auto simp: desc_same_def dcore_def)

lemma desc_same_flags: "desc_same d e \<Longrightarrow> desc_flags e AND TX_DESC_FLAG_SACKED = desc_flags d AND TX_DESC_FLAG_SACKED"
  by (auto simp: desc_same_def)

lemma mem_same_refl [simp]: "mem_same w w"
  by (simp add: mem_same_def)

lemma mem_same_trans: "mem_same w w1 \<Longrightarrow> mem_same w1 w2 \<Longrightarrow> mem_same w w2"
  unfolding mem_same_def by (auto intro: desc_same_trans)

lemma mem_same_dcore: "mem_same w w' \<Longrightarrow> dcore (desc_mem w' d) = dcore (desc_mem w d)"
  by (simp add: mem_same_def desc_same_dcore)

lemma mem_same_snd_q: "mem_same w w' \<Longrightarrow> txq t' = txq t \<Longrightarrow> snd_q w' t' = snd_q w t"
  by (simp add: snd_q_def mem_same_dcore)

lemma mem_same_sacked: "mem_same w w' \<Longrightarrow> sacked w' d = sacked w d"
  using desc_same_flags [of "desc_mem w d" "desc_mem w' d"] by (simp add: mem_same_def sacked_def)

lemma mem_same_sq_ok: "mem_same w w' \<Longrightarrow> txq t' = txq t \<Longrightarrow> sq_ok b P A w' t' = sq_ok b P A w t"
  by (simp add: sq_ok_def mem_same_snd_q)

lemma mem_same_ctx_at: "mem_same w w' \<Longrightarrow> txq t' = txq t \<Longrightarrow> ctx_at b P w' t' c x k = ctx_at b P w t c x k"
  by (simp add: ctx_at_def mem_same_snd_q)

lemma seq_pos_nat:
  assumes "\<bar>int x - int y\<bar> < 2 ^ 31"
  shows "seq_lt (b + of_nat x) (b + of_nat y) \<longleftrightarrow> x < y" "seq_le (b + of_nat x) (b + of_nat y) \<longleftrightarrow> x \<le> y"
    "seq_gt (b + of_nat x) (b + of_nat y) \<longleftrightarrow> x > y" "seq_ge (b + of_nat x) (b + of_nat y) \<longleftrightarrow> x \<ge> y"
  using seq_pos [OF assms, of b] by simp_all

lemma of_nat_diff_u32: "y \<le> x \<Longrightarrow> b + of_nat x - (b + of_nat y) = (of_nat (x - y) :: u32)"
  by (simp add: of_nat_diff)

text \<open>How much is taken from a descriptor: not more than it has, than the budget, and than the
  limit of the sequence numbers.\<close>

lemma xmit_take_at:
  assumes "xc_seq c = b + of_nat x" "xc_seq_max c = b + of_nat M" "desc_seq desc = b + of_nat p"
    "p \<le> x" "x < p + unat (desc_len desc)" "x \<le> M" "M < x + 2 ^ 30 + 1" "unat (desc_len desc) < 2 ^ 30"
    "0 < B" "B < 2 ^ 31"
  obtains n B' where "xmit_take c desc B = (of_nat n, B')" "x + n \<le> p + unat (desc_len desc)" "x + n \<le> M" "int n \<le> B"
    "B' \<le> B - int n"
proof -
  define L where "L = unat (desc_len desc)"
  have off: "xc_seq c - desc_seq desc = of_nat (x - p)" using assms(1,3,4) by (simp add: of_nat_diff)
  have "desc_len desc = of_nat L" by (simp add: L_def)
  then have rem: "desc_len desc - (xc_seq c - desc_seq desc) = of_nat (L - (x - p))"
    using assms(5) off by (simp add: L_def of_nat_diff less_imp_le)
  define n where "n = min (L - (x - p)) (nat B)"
  have nb: "n \<le> L - (x - p)" "int n \<le> B" "n < 2 ^ 30" using assms(8,9) by (auto simp: n_def L_def)
  have u: "unat (of_nat (L - (x - p)) :: u32) = L - (x - p)" "unat (word_of_int B :: u32) = nat B"
    using assms(8-10) by (auto simp: L_def unat_of_nat_small unsigned_of_int take_bit_int_eq_self)
  have mn: "min (of_nat (L - (x - p))) (word_of_int B) = (of_nat n :: u32)"
    by (rule word_eq_of_nat) (simp add: unat_min u n_def)
  have "xc_seq c + of_nat n = b + of_nat (x + n)" using assms(1) by simp
  moreover have "\<bar>int (x + n) - int M\<bar> < 2 ^ 31" using nb(3) assms(6,7) by simp
  ultimately have gt: "seq_gt (xc_seq c + of_nat n) (xc_seq_max c) \<longleftrightarrow> M < x + n"
    unfolding assms(2) by (simp only: seq_pos_nat)
  show thesis
  proof (cases "M < x + n")
    case True
    have "xmit_take c desc B = (of_nat (M - x), 0)"
      using True gt rem mn assms(1,2,6) by (simp add: xmit_take_def Let_def of_nat_diff)
    then show ?thesis using True nb(1,2) assms(4-6) by (intro that [of "M - x" 0]) (auto simp: L_def)
  next
    case False
    have "sint (of_nat n :: u32) = int n" using nb(3) sint_word_of_int_small [of "int n"] by simp
    then have "xmit_take c desc B = (of_nat n, B - int n)"
      using False gt rem mn by (simp add: xmit_take_def Let_def)
    then show ?thesis using False nb(1,2) assms(4-6) by (intro that) (auto simp: L_def)
  qed
qed

text \<open>One or more rounds of the loop have moved the transmission from \<open>x\<close> to \<open>x'\<close> and put the
  addresses in between at the end of the packet.\<close>

definition filled :: "u32 \<Rightarrow> nat \<Rightarrow> u64 list \<Rightarrow> nat \<Rightarrow> tcp_sock \<Rightarrow> int \<Rightarrow> tpa_worker \<times> xmit_ctx \<times> tx_pkt \<times> u32 \<Rightarrow> nat \<Rightarrow> nat \<Rightarrow>
    tpa_worker \<times> xmit_ctx \<times> tx_pkt \<times> u32 \<Rightarrow> nat \<Rightarrow> nat \<Rightarrow> bool" where
  "filled b P A M t B s x k s' x' k' = (case (s, s') of ((w, c, p, sz), (w', c', p', sz')) \<Rightarrow>
     mem_same w w' \<and> wk_dev w' = wk_dev w \<and> neigh_waiting w' = neigh_waiting w \<and> ts_us w' = ts_us w \<and>
     x \<le> x' \<and> x' \<le> M \<and> (x' = x \<or> x' \<le> length A) \<and> k \<le> k' \<and> int (x' - x) \<le> B \<and>
     tx_addrs p' = tx_addrs p @ stream_run A x (x' - x) \<and> sz' = sz + of_nat (x' - x) \<and>
     sum_list (map snd (tx_segs p')) = sum_list (map snd (tx_segs p)) + of_nat (x' - x) \<and>
     xc_seq_max c' = xc_seq_max c \<and> xc_budget c' = xc_budget c \<and> xc_desc_base c' = xc_desc_base c \<and> ctx_at b P w t c' x' k')"

lemma filled_refl: "ctx_at b P w t c x k \<Longrightarrow> x \<le> M \<Longrightarrow> 0 \<le> B \<Longrightarrow> filled b P A M t B (w, c, p, sz) x k (w, c, p, sz) x k"
  by (simp add: filled_def)

lemma filled_trans:
  assumes "filled b P A M t B s x k s1 x1 k1" "filled b P A M t B1 s1 x1 k1 s2 x2 k2" "B1 \<le> B - int (x1 - x)"
  shows "filled b P A M t B s x k s2 x2 k2"
proof -
  obtain w c p sz w1 c1 p1 sz1 w2 c2 p2 sz2 where s: "s = (w, c, p, sz)" "s1 = (w1, c1, p1, sz1)" "s2 = (w2, c2, p2, sz2)"
    by (metis prod_cases4)
  note f = assms(1) [unfolded s filled_def prod.case] and g = assms(2) [unfolded s filled_def prod.case]
  have le: "x \<le> x1" "x1 \<le> x2" using f g by simp_all
  then have d: "x2 - x = (x1 - x) + (x2 - x1)" by simp
  have m: "mem_same w w2" using f g mem_same_trans by blast
  have c: "ctx_at b P w t c2 x2 k2" using f g mem_same_ctx_at by blast
  have a: "stream_run A x (x2 - x) = stream_run A x (x1 - x) @ stream_run A x1 (x2 - x1)"
    using stream_run_append [of A x "x1 - x" "x2 - x1"] le by simp
  have w: "(of_nat (x2 - x) :: u32) = of_nat (x1 - x) + of_nat (x2 - x1)" by (simp only: d of_nat_add)
  have i: "int (x2 - x) \<le> B" using f g assms(3) d by linarith
  have h: "x2 = x \<or> x2 \<le> length A" using f g by auto
  show ?thesis unfolding s filled_def prod.case a w using f g m c i h by simp
qed

lemma tx_addrs_snoc: "tx_addrs (p\<lparr>tx_segs := tx_segs p @ [(a, l)]\<rparr>) = tx_addrs p @ seg_addrs a (unat l)"
  by (simp add: tx_addrs_def)

lemma tx_addrs_retransmit: "tx_addrs (p\<lparr>tx_retransmit := r\<rparr>) = tx_addrs p"
  by (simp add: tx_addrs_def)

lemma desc_same_mark: "desc_same d (d\<lparr>desc_flags := desc_flags d OR TX_DESC_FLAG_RETRANS\<rparr>)"
  unfolding desc_same_def
  by (intro exI [of _ "desc_flags d OR TX_DESC_FLAG_RETRANS"] exI [of _ "desc_ts_us d"])
    (simp add: tx_desc_flag_defs bit.conj_disj_distrib2)

lemma desc_same_ts: "desc_same d (d\<lparr>desc_ts_us := u\<rparr>)"
  unfolding desc_same_def by (intro exI [of _ "desc_flags d"] exI [of _ u]) simp

lemma mem_same_mark: "mem_same w (desc_mark w d TX_DESC_FLAG_RETRANS)"
  by (simp add: mem_same_def desc_mark_def desc_same_mark)

lemma packet_alloc_frame:
  assumes "packet_alloc E w = (r, w')"
  shows "mem_same w w'" "wk_dev w' = wk_dev w" "neigh_waiting w' = neigh_waiting w" "ts_us w' = ts_us w" "desc_mem w' = desc_mem w"
  using assms by (auto simp: packet_alloc_def Let_def mem_same_def split: if_splits)

text \<open>The worker, context, packet and size after a round, whether the loop is left or not.\<close>

fun round_st :: "xmit_out + (tpa_worker \<times> xmit_ctx \<times> nat \<times> tx_pkt \<times> int \<times> u32) \<Rightarrow> tpa_worker \<times> xmit_ctx \<times> tx_pkt \<times> u32" where
  "round_st (Inl (e, w, c, p, sz)) = (w, c, p, sz)"
| "round_st (Inr (w, c, d, p, budget, sz)) = (w, c, p, sz)"

lemma xmit_round_at:
  assumes sq: "sq_ok b P A w t" and at: "ctx_at b P w t c x k" and k: "k < txq_used (txq t)"
    and d: "d = txq_items (txq t) ! k" and M: "xc_seq_max c = b + of_nat M" "x \<le> M" "M \<le> length A + 1"
    and B: "0 < B" "B < 2 ^ 31" and nf: "\<not> sacked w d" and r: "xmit_round E w t c d p B sz = r"
  obtains x' k' where "filled b P A M t B (w, c, p, sz) x k (round_st r) x' k'"
    "\<And>w' c' d' p' B' sz'. r = Inr (w', c', d', p', B', sz') \<Longrightarrow>
       k' < txq_used (txq t) \<and> d' = txq_items (txq t) ! k' \<and> B' \<le> B - int (x' - x)"
proof -
  let ?q = "snd_q w t"
  have wf: "txq_wf (txq t)" and ch: "chain b P ?q" using sq by (simp_all add: sq_ok_def)
  define re where "re = seq_lt (xc_seq c) (snd_nxt t)"
  define w1 where "w1 = (if re then desc_mark w d TX_DESC_FLAG_RETRANS else w)"
  define p1 where "p1 = (if re then p\<lparr>tx_retransmit := True\<rparr> else p)"
  define desc where "desc = desc_mem w1 d"
  have m1: "mem_same w w1" by (simp add: w1_def mem_same_mark)
  have f1: "wk_dev w1 = wk_dev w" "neigh_waiting w1 = neigh_waiting w" "ts_us w1 = ts_us w"
    by (simp_all add: w1_def desc_mark_def)
  have p1: "tx_addrs p1 = tx_addrs p" "tx_segs p1 = tx_segs p" by (simp_all add: p1_def tx_addrs_def)
  have ns: "desc_flags desc AND TX_DESC_FLAG_SACKED = 0" using nf mem_same_sacked [OF m1, of d] by (simp add: sacked_def desc_def)
  have dc: "?q ! k = dcore desc" using k d mem_same_dcore [OF m1] by (simp add: desc_def snd_q_nth)
  have e: "desc_seq desc = b + of_nat (pos P ?q k)" "unat (desc_len desc) = seg_len (?q ! k)"
    using chain_nth [OF ch, of k] k by (simp_all add: dc dcore_def seg_len_def)
  obtain a w2 where al: "packet_alloc E w1 = (a, w2)" by fastforce
  note f2 = packet_alloc_frame [OF al]
  show thesis
  proof (cases a)
    case None
    have "r = Inl (Some ERR_PKT_ALLOC_FAIL, w2, c, p1, sz)"
      using r ns al None by (simp add: xmit_round_def Let_def re_def [symmetric] w1_def [symmetric] p1_def [symmetric] desc_def [symmetric])
    then show ?thesis
      using that [of x k] at M(2) B(1) f1 f2 p1 mem_same_trans [OF m1 f2(1)] by (simp add: filled_def)
  next
    case (Some bf)
    have xb: "pos P ?q k \<le> x" "x < pos P ?q (Suc k)" using at k by (auto simp: ctx_at_def at_pos_def)
    have pS: "pos P ?q (Suc k) = pos P ?q k + unat (desc_len desc)" using k e(2) by (simp add: pos_Suc)
    have le: "pos P ?q (Suc k) \<le> length A" "P \<le> pos P ?q k" "length A < P + 2 ^ 30"
      using sq_ok_pos_le [OF sq] sq by (simp_all add: pos_def sq_ok_def)
    obtain n B' where tk: "xmit_take c desc B = (of_nat n, B')" "x + n \<le> pos P ?q (Suc k)" "x + n \<le> M" "int n \<le> B" "B' \<le> B - int n"
      by (rule xmit_take_at [of c b x M desc "pos P ?q k" B]) (use at M xb le pS B e(1) in \<open>auto simp: ctx_at_def\<close>)
    define off where "off = xc_seq c - desc_seq desc"
    have off: "off = of_nat (x - pos P ?q k)" using at e(1) xb by (simp add: off_def ctx_at_def of_nat_diff)
    have n: "n < 2 ^ 30" "x - pos P ?q k < 2 ^ 30" using tk(2) xb le by simp_all
    define whole where "whole = (off + of_nat n = desc_len desc)"
    have wh: "whole \<longleftrightarrow> x + n = pos P ?q (Suc k)"
    proof -
      have "off + of_nat n = (of_nat (x - pos P ?q k + n) :: u32)" by (simp add: off)
      then have "unat (off + of_nat n) = x - pos P ?q k + n" using n by (simp only:) (rule unat_of_nat_small; simp)
      then have "whole \<longleftrightarrow> x - pos P ?q k + n = unat (desc_len desc)" by (simp add: whole_def word_unat_eq_iff)
      then show ?thesis using xb pS by auto
    qed
    define w3 where "w3 = (if whole then w2\<lparr>desc_mem := (desc_mem w2)(d := desc\<lparr>desc_ts_us := ts_us w2\<rparr>)\<rparr> else w2)"
    define c1 where "c1 = c\<lparr>xc_seq := xc_seq c + of_nat n, xc_desc_off := xc_desc_off c + (if whole then 1 else 0)\<rparr>"
    define k' where "k' = (if whole then Suc k else k)"
    define p2 where "p2 = p1\<lparr>tx_segs := tx_segs p1 @ [(desc_phys_addr desc + ucast off, of_nat n)]\<rparr>"
    have at1: "ctx_at b P w t c1 (x + n) k'"
    proof (cases whole)
      case True
      then have eq: "pos P ?q (Suc k) = x + n" using wh by simp
      have "ctx_at b P w t c1 (pos P ?q (Suc k)) (Suc k)"
        by (rule ctx_at_next [OF wf at k ch]) (use True at in \<open>simp_all add: c1_def eq ctx_at_def [of b P w t c]\<close>)
      then show ?thesis using True by (simp add: eq k'_def)
    next
      case False
      then have "x + n < pos P ?q (Suc k)" using wh tk(2) by simp
      then show ?thesis using at k False by (auto simp: k'_def c1_def ctx_at_def at_pos_def)
    qed
    have m3: "mem_same w w3"
    proof -
      have "mem_same w1 w3" using f2(1,5) by (simp add: w3_def mem_same_def desc_def desc_same_ts)
      then show ?thesis using m1 mem_same_trans by blast
    qed
    have f3: "wk_dev w3 = wk_dev w" "neigh_waiting w3 = neigh_waiting w" "ts_us w3 = ts_us w" using f1 f2 by (simp_all add: w3_def)
    have "seg_addrs (desc_phys_addr desc + ucast off) n = stream_run A x n"
      using sq_ok_slice [OF sq k xb(1) tk(2)] n(2) by (simp add: dc dcore_def off ucast_of_nat_small)
    then have p2: "tx_addrs p2 = tx_addrs p @ stream_run A x n"
      using n(1) by (simp add: p2_def tx_addrs_snoc unat_of_nat_small p1(1))
    have fl: "filled b P A M t B (w, c, p, sz) x k (w3, c1, p2, sz + of_nat n) (x + n) k'"
      using m3 f3 tk p2 at1 le(1) by (simp add: filled_def c1_def k'_def) (simp add: p2_def p1)
    define nx where "nx = (if whole then tcp_txq_peek_for_write (txq t) (xc_desc_base c1) (xc_desc_off c1) else Some d)"
    have nx: "nx = (if k' < txq_used (txq t) then Some (txq_items (txq t) ! k') else None)"
      using ctx_at_peek [OF wf at1] k d by (auto simp: nx_def k'_def)
    have re: "r = (if length (tx_segs p2) + 1 \<ge> unat (pkt_max_chain (cfg E)) then Inl (None, w3, c1, p2, sz + of_nat n)
        else case nx of None \<Rightarrow> Inl (None, w3, c1, p2, sz + of_nat n) | Some d1 \<Rightarrow> Inr (w3, c1, d1, p2, B', sz + of_nat n))"
      unfolding r [symmetric] xmit_round_def Let_def
        re_def [symmetric] w1_def [symmetric] p1_def [symmetric] desc_def [symmetric] al Some tk(1) prod.case option.case
        off_def [symmetric] whole_def [symmetric] w3_def [symmetric] c1_def [symmetric] nx_def [symmetric] p2_def [symmetric]
      by (simp add: ns)
    show ?thesis
    proof (rule that [of "x + n" k'])
      show "filled b P A M t B (w, c, p, sz) x k (round_st r) (x + n) k'" using fl by (auto simp: re split: option.split)
    qed (use nx tk(5) in \<open>auto simp: re split: if_splits option.splits\<close>)
  qed
qed

lemma filled_ts: "filled b P A M t B (w, c, p, sz) x k (w', c', p', sz') x' k' \<Longrightarrow> mem_same w w'"
  by (simp add: filled_def)

lemma filled_budget: "filled b P A M t B s x k s' x' k' \<Longrightarrow> int (x' - x) \<le> B"
  unfolding filled_def by (auto split: prod.splits simp del: of_nat_diff)

text \<open>The whole loop.\<close>

lemma xmit_fill_at:
  assumes "sq_ok b P A w t" "ctx_at b P w t c x k" "k < txq_used (txq t)" "d = txq_items (txq t) ! k"
    "xc_seq_max c = b + of_nat M" "x \<le> M" "M \<le> length A + 1" "B < 2 ^ 31"
    "xmit_fill E w t c d p B sz = (e, w', c', p', sz')"
  shows "\<exists>x' k'. filled b P A M t (max 0 B) (w, c, p, sz) x k (w', c', p', sz') x' k'"
  using assms
proof (induction E w t c d p B sz arbitrary: x k rule: xmit_fill.induct)
  case (1 E w t c d p B sz)
  show ?case
  proof (cases "B \<le> 0 \<or> sacked w d")
    case True
    have "\<exists>w1 p1. (w', c', p', sz') = (w1, c, p1, sz) \<and> mem_same w w1 \<and> wk_dev w1 = wk_dev w \<and> neigh_waiting w1 = neigh_waiting w \<and>
        ts_us w1 = ts_us w \<and> tx_addrs p1 = tx_addrs p \<and> tx_segs p1 = tx_segs p"
    proof (cases "B \<le> 0")
      case True
      then show ?thesis using "1.prems"(9) by (subst (asm) xmit_fill.simps) auto
    next
      case False
      define re where "re = seq_lt (xc_seq c) (snd_nxt t)"
      define w1 where "w1 = (if re then desc_mark w d TX_DESC_FLAG_RETRANS else w)"
      have m: "mem_same w w1" by (simp add: w1_def mem_same_mark)
      have "sacked w1 d" using True False mem_same_sacked [OF m] by simp
      then have "xmit_round E w t c d p B sz = Inl (None, w1, c, if re then p\<lparr>tx_retransmit := True\<rparr> else p, sz)"
        by (simp add: xmit_round_def Let_def re_def [symmetric] w1_def [symmetric] sacked_def)
      then have "(w', c', p', sz') = (w1, c, if re then p\<lparr>tx_retransmit := True\<rparr> else p, sz)"
        using "1.prems"(9) False by (subst (asm) xmit_fill.simps) auto
      then show ?thesis using m by (auto simp: w1_def desc_mark_def tx_addrs_def)
    qed
    then show ?thesis using "1.prems"(2,6) by (intro exI [of _ x] exI [of _ k]) (auto simp: filled_def)
  next
    case False
    then have B: "0 < B" "\<not> sacked w d" by auto
    define r where "r = xmit_round E w t c d p B sz"
    obtain x1 k1 where f: "filled b P A M t B (w, c, p, sz) x k (round_st r) x1 k1"
      "\<And>w1 c1 d1 p1 B1 sz1. r = Inr (w1, c1, d1, p1, B1, sz1) \<Longrightarrow>
         k1 < txq_used (txq t) \<and> d1 = txq_items (txq t) ! k1 \<and> B1 \<le> B - int (x1 - x)"
      by (rule xmit_round_at [OF "1.prems"(1-7) B(1) "1.prems"(8) B(2) r_def [symmetric]]) blast
    show ?thesis
    proof (cases r)
      case (Inl out)
      then have "out = (e, w', c', p', sz')" using "1.prems"(9) B(1) by (subst (asm) xmit_fill.simps) (simp add: r_def)
      then show ?thesis using f(1) Inl B(1) by auto
    next
      case (Inr s1)
      obtain w1 c1 d1 p1 B1 sz1 where s1: "s1 = (w1, c1, d1, p1, B1, sz1)" by (metis prod_cases6)
      have fl: "xmit_fill E w1 t c1 d1 p1 B1 sz1 = (e, w', c', p', sz')"
        using "1.prems"(9) B(1) Inr s1 by (subst (asm) xmit_fill.simps) (simp add: r_def)
      note g = f(1) [unfolded Inr s1 round_st.simps] and h = f(2) [OF Inr [unfolded s1]]
      have m: "mem_same w w1" by (rule filled_ts [OF g])
      have "\<exists>x' k'. filled b P A M t (max 0 B1) (w1, c1, p1, sz1) x1 k1 (w', c', p', sz') x' k'"
      proof (rule "1.IH" [OF _ Inr [unfolded r_def s1]])
        show "ctx_at b P w1 t c1 x1 k1" using g mem_same_ctx_at [OF m] by (simp add: filled_def)
      qed (use B g h "1.prems" fl mem_same_sq_ok [OF m] in \<open>auto simp: filled_def\<close>)
      then obtain x' k' where "filled b P A M t (max 0 B1) (w1, c1, p1, sz1) x1 k1 (w', c', p', sz') x' k'" by blast
      moreover have "max 0 B1 \<le> max 0 B - int (x1 - x)" using h B(1) filled_budget [OF g] by (simp add: max_def)
      ultimately have "filled b P A M t (max 0 B) (w, c, p, sz) x k (w', c', p', sz') x' k'"
        using filled_trans g B(1) by (metis max.absorb4)
      then show ?thesis by blast
    qed
  qed
qed

section \<open>Sending packets\<close>

text \<open>What the worker hands over to the device queues and to the queue for unknown neighbours.\<close>

definition adds :: "('a \<Rightarrow> bool) \<Rightarrow> 'a list \<Rightarrow> 'a list \<Rightarrow> bool" where
  "adds Q xs ys \<longleftrightarrow> (\<exists>zs. ys = xs @ zs \<and> (\<forall>z\<in>set zs. Q z))"

lemma adds_refl [simp]: "adds Q xs xs"
  by (simp add: adds_def)

lemma adds_snoc: "Q x \<Longrightarrow> adds Q xs (xs @ [x])"
  by (simp add: adds_def)

lemma adds_trans: "adds Q xs ys \<Longrightarrow> adds Q ys zs \<Longrightarrow> adds Q xs zs"
  by (auto simp: adds_def)

lemma adds_mono: "adds Q xs ys \<Longrightarrow> (\<And>x. Q x \<Longrightarrow> R x) \<Longrightarrow> adds R xs ys"
  by (auto simp: adds_def)

definition emits :: "(tx_pkt \<Rightarrow> bool) \<Rightarrow> tpa_worker \<Rightarrow> tpa_worker \<Rightarrow> bool" where
  "emits Q w w' \<longleftrightarrow> (\<forall>port. adds Q (dev_accepted (wk_dev w) port) (dev_accepted (wk_dev w') port)) \<and>
     adds Q (neigh_waiting w) (neigh_waiting w')"

lemma emits_same: "wk_dev w' = wk_dev w \<Longrightarrow> neigh_waiting w' = neigh_waiting w \<Longrightarrow> emits Q w w'"
  by (simp add: emits_def)

lemma emits_refl [simp]: "emits Q w w"
  by (simp add: emits_def)

lemma emits_trans: "emits Q w w1 \<Longrightarrow> emits Q w1 w2 \<Longrightarrow> emits Q w w2"
  unfolding emits_def using adds_trans by blast

lemma emits_mono: "emits Q w w' \<Longrightarrow> (\<And>x. Q x \<Longrightarrow> R x) \<Longrightarrow> emits R w w'"
  unfolding emits_def using adds_mono by blast

lemma dev_enqueue_accepted:
  "dev_port_txq_enqueue tx_burst d p x = (None, d') \<Longrightarrow> dev_accepted d' q = dev_accepted d q @ (if q = p then [x] else [])"
  "dev_port_txq_enqueue tx_burst d p x = (Some e, d') \<Longrightarrow> d' = d"
  by (auto simp: dev_port_txq_enqueue_def Let_def dev_port_txq_flush_accepted split: if_splits)
    (auto simp: dev_accepted_def)

lemma wk_txq_enqueue_emits:
  assumes "wk_txq_enqueue E w port x = (e, w')" "Q x"
  shows "emits Q w w'" "mem_same w w'" "ts_us w' = ts_us w"
proof -
  obtain d where d: "dev_port_txq_enqueue (env_tx_burst E) (wk_dev w) port x = (e, d)" "w' = w\<lparr>wk_dev := d\<rparr>"
    using assms(1) by (auto simp: wk_txq_enqueue_def split: prod.splits)
  show "emits Q w w'"
    using dev_enqueue_accepted [of "env_tx_burst E" "wk_dev w" port x] d assms(2)
    by (cases e) (auto simp: emits_def adds_snoc)
  show "mem_same w w'" "ts_us w' = ts_us w" by (simp_all add: d mem_same_def)
qed

text \<open>A packet carries bytes of the stream at its sequence number, or none.\<close>

definition carries :: "u32 \<Rightarrow> u64 list \<Rightarrow> nat \<Rightarrow> nat \<Rightarrow> tx_pkt \<Rightarrow> bool" where
  "carries b A lo hi x \<longleftrightarrow> tx_segs x = [] \<and> tx_len x = 0 \<or>
     (\<exists>p. tx_seq x = b + of_nat p \<and> lo \<le> p \<and> p + unat (tx_len x) \<le> min hi (length A) \<and> 0 < tx_len x \<and>
          tx_addrs x = stream_run A p (unat (tx_len x)))"

text \<open>The part of a socket that the send side rests on and that sending a packet leaves alone.\<close>

definition tx_view :: "tcp_sock \<Rightarrow> nat \<times> nat tcp_txq \<times> u32 \<times> u32 \<times> u32 \<times> u32 \<times> u32 \<times> u16 \<times> retrans_stage \<times> u32 \<times> u16 \<times> tcp_state" where
  "tx_view t = (sk_pos t, txq t, data_seq_nxt t, snd_una t, snd_nxt t, partial_ack t, retrans_seq t, retrans_desc_base t,
     retrans_stage t, snd_recover t, snd_mss t, state t)"

lemma prepend_sock_view: "tx_view (prepend_sock t fl) = tx_view t" "port_id (prepend_sock t fl) = port_id t"
  "tso_enabled (prepend_sock t fl) = tso_enabled t"
  by (simp_all add: prepend_sock_def Let_def tx_view_def)

lemma prepend_tcp_hdr_frame:
  assumes "prepend_tcp_hdr E w t x0 seq fl = (e, t', x)"
  shows "tx_view t' = tx_view t \<and> tso_enabled t' = tso_enabled t \<and> port_id t' = port_id t"
    "e = None \<Longrightarrow> tx_segs x = tx_segs x0 \<and> tx_seq x = seq \<and> tx_len x = ucast (tx_pkt_len x0)"
proof -
  obtain ol os where c: "calc_tcp_opt_len t fl = (ol, os)" by fastforce
  let ?c = "unat (net_hdr_len t) + TCP_HDR_SIZE + ol > env_headroom E"
  have v: "tx_view (t2\<lparr>packet_id := i\<rparr>) = tx_view t2" for t2 i by (simp add: tx_view_def)
  show "tx_view t' = tx_view t \<and> tso_enabled t' = tso_enabled t \<and> port_id t' = port_id t"
    using assms unfolding prepend_tcp_hdr_def Let_def c prod.case
    by (cases ?c) (auto simp: v prepend_sock_view)
  show "e = None \<Longrightarrow> tx_segs x = tx_segs x0 \<and> tx_seq x = seq \<and> tx_len x = ucast (tx_pkt_len x0)"
    using assms unfolding prepend_tcp_hdr_def Let_def c prod.case
    by (cases ?c) (auto simp: mbuf_set_offload_def tx_pkt_len_def)
qed

lemma tsock_snd_mss_bound: "unat (tsock_snd_mss t) < 65536"
proof -
  have "unat (ucast (snd_mss t) :: u32) = unat (snd_mss t)" by (rule unat_ucast_small) (simp add: unsigned_less [where ?'a = nat, THEN less_trans])
  then show ?thesis using unsigned_less [of "snd_mss t", where ?'a = nat] by (simp add: tsock_snd_mss_def MAX_HDR_LEN_def)
qed

definition unsacked_from :: "tpa_worker \<Rightarrow> tcp_sock \<Rightarrow> nat \<Rightarrow> bool" where
  "unsacked_from w t k \<longleftrightarrow> (\<forall>i. k \<le> i \<and> i < txq_used (txq t) \<longrightarrow> \<not> sacked w (txq_items (txq t) ! i))"

definition sacked_below :: "nat \<Rightarrow> nat \<Rightarrow> tpa_worker \<Rightarrow> tcp_sock \<Rightarrow> bool" where
  "sacked_below P M w t \<longleftrightarrow>
     (\<forall>i < txq_used (txq t). sacked w (txq_items (txq t) ! i) \<longrightarrow> pos P (snd_q w t) (Suc i) \<le> M)"

text \<open>A transmission from position \<open>x\<close>: the transmission stands at \<open>x'\<close> afterwards, not beyond the
  limit \<open>M\<close>, and the packets that went out carry bytes in between.\<close>

definition xmitted :: "u32 \<Rightarrow> nat \<Rightarrow> u64 list \<Rightarrow> nat \<Rightarrow> tpa_worker \<Rightarrow> tcp_sock \<Rightarrow> xmit_ctx \<Rightarrow> nat \<Rightarrow> nat \<Rightarrow>
    tpa_worker \<Rightarrow> tcp_sock \<Rightarrow> xmit_ctx \<Rightarrow> nat \<Rightarrow> nat \<Rightarrow> bool" where
  "xmitted b P A M w t c x k w' t' c' x' k' \<longleftrightarrow>
     mem_same w w' \<and> emits (carries b A x x') w w' \<and> ts_us w' = ts_us w \<and>
     tx_view t' = tx_view t \<and> tso_enabled t' = tso_enabled t \<and> port_id t' = port_id t \<and>
     x \<le> x' \<and> x' \<le> M \<and> k \<le> k' \<and> xc_seq_max c' = xc_seq_max c \<and> xc_desc_base c' = xc_desc_base c \<and> ctx_at b P w t c' x' k'"

lemma carries_mono: "carries b A lo hi x \<Longrightarrow> lo' \<le> lo \<Longrightarrow> hi \<le> hi' \<Longrightarrow> carries b A lo' hi' x"
  unfolding carries_def by (meson min.mono order.refl order_trans)

lemma tx_view_txq: "tx_view t' = tx_view t \<Longrightarrow> txq t' = txq t"
  by (simp add: tx_view_def)

lemma xmitted_trans:
  assumes "xmitted b P A M w t c x k w1 t1 c1 x1 k1" "xmitted b P A M w1 t1 c1 x1 k1 w2 t2 c2 x2 k2"
  shows "xmitted b P A M w t c x k w2 t2 c2 x2 k2"
proof -
  note f = assms(1) [unfolded xmitted_def] and g = assms(2) [unfolded xmitted_def]
  have "emits (carries b A x x2) w1 w2" "emits (carries b A x x2) w w1" using g f by (blast intro: emits_mono carries_mono)+
  then have e: "emits (carries b A x x2) w w2" using emits_trans by blast
  have m: "mem_same w w2" using f g mem_same_trans by blast
  have q: "txq t1 = txq t" using f tx_view_txq by blast
  have "ctx_at b P w t c2 x2 k2" using mem_same_ctx_at [of w w1 t1 t] q f g by blast
  then show ?thesis using f g e m by (simp add: xmitted_def)
qed

lemma mem_same_unsacked: "mem_same w w' \<Longrightarrow> txq t' = txq t \<Longrightarrow> unsacked_from w' t' k = unsacked_from w t k"
  by (simp add: unsacked_from_def mem_same_sacked)

lemma mem_same_sacked_below: "mem_same w w' \<Longrightarrow> txq t' = txq t \<Longrightarrow> sacked_below P M w' t' = sacked_below P M w t"
  by (simp add: sacked_below_def mem_same_sacked mem_same_snd_q)

lemma unsacked_from_mono: "unsacked_from w t k \<Longrightarrow> k \<le> k' \<Longrightarrow> unsacked_from w t k'"
  by (simp add: unsacked_from_def)

text \<open>Packets without data.\<close>

definition no_data :: "tx_pkt \<Rightarrow> bool" where "no_data x \<longleftrightarrow> tx_segs x = [] \<and> tx_len x = 0"

lemma no_data_carries: "no_data x \<Longrightarrow> carries b A lo hi x"
  by (simp add: no_data_def carries_def)

lemma neigh_wait_enqueue_emits:
  assumes "neigh_wait_enqueue E w x = (e, w')" "Q x"
  shows "emits Q w w'" "mem_same w w'" "ts_us w' = ts_us w"
  using assms by (auto simp: neigh_wait_enqueue_def Let_def emits_def adds_snoc mem_same_def split: if_splits)

lemma flag_packet_sent_view: "tx_view (flag_packet_sent w t fl) = tx_view t"
  by (simp add: flag_packet_sent_def Let_def tx_view_def tsock_update_last_ts_def)

lemma tx_view_flags: "tx_view (t\<lparr>flags := f\<rparr>) = tx_view t"
  by (simp add: tx_view_def)

lemma xmit_flag_packet_with_seq_frame:
  assumes "xmit_flag_packet_with_seq E w t seq = (r, w', t')"
  shows "emits no_data w w' \<and> mem_same w w' \<and> ts_us w' = ts_us w \<and> tx_view t' = tx_view t"
proof (cases "net_hdr_len t = 0")
  case True
  then show ?thesis using assms by (auto simp: xmit_flag_packet_with_seq_def tx_view_flags)
next
  case hdr: False
  obtain a w1 where al: "packet_alloc E w = (a, w1)" by fastforce
  note fa = packet_alloc_frame [OF al]
  have e1: "emits no_data w w1" using fa by (intro emits_same)
  show ?thesis
  proof (cases a)
    case None
    then show ?thesis using assms hdr al fa e1 by (auto simp: xmit_flag_packet_with_seq_def)
  next
    case (Some bf)
    define fl where "fl = tsock_flags_to_tcp_flags (flags t)"
    obtain e t1 x where pr: "prepend_tcp_hdr E w1 t tx_pkt_empty seq fl = (e, t1, x)" by (metis prod_cases3)
    note pf = prepend_tcp_hdr_frame [OF pr]
    show ?thesis
    proof (cases e)
      case (Some c)
      then show ?thesis using assms hdr al \<open>a = Some bf\<close> pr fa e1 pf
        by (auto simp: xmit_flag_packet_with_seq_def Let_def fl_def flag_packet_sent_view)
    next
      case None
      have nd: "no_data x" using pf(2) [OF None] by (simp add: no_data_def tx_pkt_empty_def tx_pkt_len_def)
      define missing where "missing = (flags t1 AND TSOCK_FLAG_MISSING_ARP \<noteq> 0)"
      define t2 where "t2 = (if missing then t1\<lparr>flags := flags t1 AND NOT TSOCK_FLAG_MISSING_ARP\<rparr> else t1)"
      obtain e2 w2 where en: "(if missing then neigh_wait_enqueue E w1 x else wk_txq_enqueue E w1 (port_id t2) x) = (e2, w2)" by fastforce
      have "emits no_data w1 w2" "mem_same w1 w2" "ts_us w2 = ts_us w1"
        using en neigh_wait_enqueue_emits [where Q = no_data, OF _ nd] wk_txq_enqueue_emits [where Q = no_data, OF _ nd]
        by (metis (full_types))+
      then have "emits no_data w w2" "mem_same w w2" "ts_us w2 = ts_us w"
        using e1 fa emits_trans mem_same_trans by (blast, blast, simp)
      moreover have "tx_view t2 = tx_view t" using pf(1) by (simp add: t2_def tx_view_flags)
      moreover have "xmit_flag_packet_with_seq E w t seq =
          (case e2 of Some c \<Rightarrow> (XmitErr c, w2, t2) | None \<Rightarrow> (XmitOk, w2, flag_packet_sent w2 t2 fl))"
        unfolding xmit_flag_packet_with_seq_def al Some Let_def fl_def [symmetric] pr None option.case prod.case
          missing_def [symmetric] t2_def [symmetric] en using hdr by simp
      ultimately show ?thesis using assms by (auto simp: flag_packet_sent_view split: option.splits)
    qed
  qed
qed

end
