(* ===== verification/Snd_Xmit.thy ===== *)
theory Snd_Xmit
  imports Snd_Queue
begin

text \<open>
  Transmission and retransmission of the send queue: every packet carries the bytes of the stream
  at its sequence number, and new data stays inside the window.
\<close>

section \<open>One packet\<close>

lemma xmit_one_packet_at:
  assumes sq: "sq_ok b P A w t" and at: "ctx_at b P w t c0 x k" and M: "xc_seq_max c0 = b + of_nat M" "x \<le> M" "M \<le> length A + 1"
    and bud: "0 < xc_budget c0" "xc_budget c0 < 2 ^ 31" and sk: "sacked_below P M w t"
    and r: "xmit_one_packet E w t c0 = (r, w', t', c')"
  obtains x' k' where "xmitted b P A M w t c0 x k w' t' c' x' k'"
    "\<And>n. r = Inr n \<Longrightarrow> 0 < sint n \<Longrightarrow> 0 \<le> xc_budget c' \<and> xc_budget c' \<le> xc_budget c0"
    "unsacked_from w t k \<Longrightarrow> int (x' - x) \<le> xc_budget c0"
    "\<And>n. unsacked_from w t k \<Longrightarrow> r = Inr n \<Longrightarrow> 0 < sint n \<Longrightarrow> xc_budget c' = xc_budget c0 - int (x' - x)"
proof -
  have wf: "txq_wf (txq t)" and ch: "chain b P (snd_q w t)" using sq by (simp_all add: sq_ok_def)
  obtain d0 c where s: "skip_sacked w t c0 = (d0, c)" by fastforce
  obtain x1 k1 where k1: "ctx_at b P w t c x1 k1" "k \<le> k1" "x \<le> x1"
    "x1 = x \<and> k1 = k \<or> (\<exists>i. k \<le> i \<and> k1 = Suc i \<and> i < txq_used (txq t) \<and> sacked w (txq_items (txq t) ! i) \<and> x1 = pos P (snd_q w t) (Suc i))"
    "d0 = (if k1 < txq_used (txq t) then Some (txq_items (txq t) ! k1) else None)"
    "xc_seq_max c = xc_seq_max c0" "xc_budget c = xc_budget c0" "xc_desc_base c = xc_desc_base c0"
    by (rule skip_sacked_at [OF wf ch at s]) blast
  have x1M: "x1 \<le> M" using k1(4) sk M(2) by (auto simp: sacked_below_def)
  have ns: "unsacked_from w t k \<Longrightarrow> x1 = x" using k1(4) by (auto simp: unsacked_from_def)
  note res = that
  have stay: thesis if "r = Inr 0 \<or> (\<exists>e. r = Inl e)" "w' = w1" "t' = t" "c' = c" "mem_same w w1" "wk_dev w1 = wk_dev w"
      "neigh_waiting w1 = neigh_waiting w" "ts_us w1 = ts_us w" for w1
  proof (rule res [of x1 k1])
    show "xmitted b P A M w t c0 x k w' t' c' x1 k1"
      using that k1 x1M by (auto simp: xmitted_def intro: emits_same)
  qed (use that ns bud in auto)
  show thesis
  proof (cases "k1 < txq_used (txq t)")
    case False
    then have "xmit_one_packet E w t c0 = (Inr 0, w, t, c)" using s k1(5) by (simp add: xmit_one_packet_def)
    then show ?thesis using stay [of w] r by auto
  next
    case True
    define d where "d = txq_items (txq t) ! k1"
    have d0: "d0 = Some d" using True k1(5) by (simp add: d_def)
    obtain a w1 where al: "packet_alloc E w = (a, w1)" by fastforce
    note fa = packet_alloc_frame [OF al]
    show ?thesis
    proof (cases a)
      case None
      then have "xmit_one_packet E w t c0 = (Inl ERR_PKT_ALLOC_FAIL, w1, t, c)"
        using s d0 al by (simp add: xmit_one_packet_def)
      then show ?thesis using stay [of w1] r fa by auto
    next
      case (Some bf)
      define B where "B = uint (min (word_of_int (xc_budget c)) (tsock_snd_mss t))"
      have B: "0 \<le> B" "B \<le> xc_budget c0" "B < 65536"
      proof -
        have u: "uint (word_of_int (xc_budget c) :: u32) = xc_budget c0" using bud k1(7) by (simp add: uint_word_of_int_u32)
        have "uint (tsock_snd_mss t) < 65536" using tsock_snd_mss_bound [of t] by (metis uint_nat of_nat_less_iff of_nat_numeral)
        then show "0 \<le> B" "B \<le> xc_budget c0" "B < 65536" using u by (auto simp: B_def min_def word_le_def)
      qed
      obtain e w2 c1 xp sz where fl: "xmit_fill E w1 t c d tx_pkt_empty B 0 = (e, w2, c1, xp, sz)" by (metis prod_cases5)
      have "\<exists>x' k'. filled b P A M t (max 0 B) (w1, c, tx_pkt_empty, 0) x1 k1 (w2, c1, xp, sz) x' k'"
        by (rule xmit_fill_at [OF _ _ True d_def _ x1M M(3) _ fl])
          (use sq k1 M B fa mem_same_sq_ok [OF fa(1)] mem_same_ctx_at [OF fa(1)] in auto)
      then obtain x' k' where f: "filled b P A M t B (w1, c, tx_pkt_empty, 0) x1 k1 (w2, c1, xp, sz) x' k'" using B by auto
      have xx: "x1 \<le> x'" "x' \<le> M" "int (x' - x1) \<le> B" "k1 \<le> k'" using f filled_budget [OF f] by (simp_all add: filled_def)
      have n: "x' - x1 < 65536" using xx(3) B(3) by simp
      have sz: "sz = of_nat (x' - x1)" "unat sz = x' - x1" using f n by (simp_all add: filled_def unat_of_nat_small del: of_nat_diff)
      have m2: "mem_same w w2" and e2: "wk_dev w2 = wk_dev w" "neigh_waiting w2 = neigh_waiting w" "ts_us w2 = ts_us w"
        using f fa mem_same_trans [OF fa(1), of w2] by (simp_all add: filled_def)
      have c1: "ctx_at b P w t c1 x' k'" "xc_seq_max c1 = xc_seq_max c0" "xc_budget c1 = xc_budget c0" "xc_desc_base c1 = xc_desc_base c0"
        using f k1 mem_same_ctx_at [OF fa(1), of t t] by (simp_all add: filled_def)
      have moved: "xmitted b P A M w t c0 x k w3 t3 c3 x' k'"
        if "mem_same w2 w3" "emits (carries b A x x') w2 w3" "ts_us w3 = ts_us w2" "tx_view t3 = tx_view t"
          "tso_enabled t3 = tso_enabled t" "port_id t3 = port_id t" "xc_seq c3 = xc_seq c1" "xc_desc_off c3 = xc_desc_off c1"
          "xc_desc_base c3 = xc_desc_base c1" "xc_seq_max c3 = xc_seq_max c1" for w3 t3 c3
        using that m2 e2 c1 xx k1(2,3) mem_same_trans [of w w2 w3] emits_trans [of _ w w2 w3]
        by (auto simp: xmitted_def ctx_at_def intro: emits_same)
      have lim: "unsacked_from w t k \<Longrightarrow> int (x' - x) \<le> xc_budget c0" using ns xx B by auto
      show ?thesis
      proof (cases "sz = 0")
        case True
        then have "xmit_one_packet E w t c0 = (case e of Some code \<Rightarrow> Inl code | None \<Rightarrow> Inr 0, w2, t, c1)"
          using s d0 al Some fl by (simp add: xmit_one_packet_def B_def)
        then show ?thesis using r by (intro res [OF moved]) (auto simp: lim split: option.splits)
      next
        case False
        obtain e1 t1 x1p where pr: "prepend_tcp_hdr E w2 t xp (xc_seq c1 - sz) TCP_FLAG_ACK = (e1, t1, x1p)" by (metis prod_cases3)
        note pf = prepend_tcp_hdr_frame [OF pr]
        show ?thesis
        proof (cases e1)
          case (Some code)
          then have "xmit_one_packet E w t c0 = (Inl code, w2, t1, c1)"
            using s d0 al \<open>a = Some bf\<close> fl False pr by (simp add: xmit_one_packet_def B_def)
          then show ?thesis using r pf by (intro res [OF moved]) (auto simp: lim)
        next
          case None
          obtain e3 w3 where en: "wk_txq_enqueue E w2 (port_id t1) x1p = (e3, w3)" by fastforce
          have "carries b A x x' x1p"
          proof -
            have pl: "tx_pkt_len xp = of_nat (x' - x1)" using f by (simp add: filled_def tx_pkt_len_def tx_pkt_empty_def del: of_nat_diff)
            have "unat (tx_len x1p) = x' - x1"
              using pf(2) [OF None] n by (simp add: pl ucast_of_nat_small unat_of_nat_small del: of_nat_diff)
            moreover have "tx_seq x1p = b + of_nat x1"
              using pf(2) [OF None] c1(1) xx(1) by (simp add: sz(1) ctx_at_def of_nat_diff)
            moreover have "tx_addrs x1p = stream_run A x1 (x' - x1)"
              using pf(2) [OF None] f by (simp add: filled_def tx_addrs_def tx_pkt_empty_def)
            moreover have "x' \<noteq> x1" using False sz by auto
            ultimately show ?thesis using f xx k1(3)
              by (auto simp: carries_def filled_def word_less_nat_alt intro!: exI [of _ x1])
          qed
          note ef = wk_txq_enqueue_emits [where Q = "carries b A x x'", OF en this]
          show ?thesis
          proof (cases e3)
            case (Some code)
            then have "xmit_one_packet E w t c0 = (Inl code, w3, t1, c1)"
              using s d0 al \<open>a = Some bf\<close> fl False pr None en by (simp add: xmit_one_packet_def B_def)
            then show ?thesis using r pf(1) ef by (intro res [OF moved]) (auto simp: lim)
          next
            case None
            define c2 where "c2 = c1\<lparr>xc_budget := sint (word_of_int (xc_budget c1) - sz)\<rparr>"
            have "xmit_one_packet E w t c0 = (Inr sz, w3, t1\<lparr>flags := flags t1 AND NOT TSOCK_FLAG_TCP_FLAGS_MASK\<rparr>, c2)"
              using s d0 al \<open>a = Some bf\<close> fl False pr \<open>e1 = None\<close> en None by (simp add: xmit_one_packet_def B_def c2_def)
            then have rr: "r = Inr sz" "w' = w3" "t' = t1\<lparr>flags := flags t1 AND NOT TSOCK_FLAG_TCP_FLAGS_MASK\<rparr>" "c' = c2"
              using r by simp_all
            have "word_of_int (xc_budget c1) - sz = (word_of_int (xc_budget c0 - int (x' - x1)) :: u32)"
              by (simp add: c1(3) sz(1) del: of_nat_diff)
            moreover have "sint (word_of_int (xc_budget c0 - int (x' - x1)) :: u32) = xc_budget c0 - int (x' - x1)"
              using bud B xx(3) by (intro sint_word_of_int_small) linarith+
            moreover have "xc_budget c2 = sint (word_of_int (xc_budget c1) - sz)" by (simp add: c2_def)
            ultimately have bd: "xc_budget c2 = xc_budget c0 - int (x' - x1)" by (simp only:)
            show ?thesis
            proof (rule res [OF moved])
              show "tx_view t' = tx_view t" "tso_enabled t' = tso_enabled t" "port_id t' = port_id t"
                using pf(1) by (simp_all add: rr tx_view_def)
            qed (use rr ef bd lim ns B xx in \<open>auto simp: c2_def\<close>)
          qed
        qed
      qed
    qed
  qed
qed

section \<open>A burst of packets\<close>

lemma xmitted_refl: "ctx_at b P w t c x k \<Longrightarrow> x \<le> M \<Longrightarrow> xmitted b P A M w t c x k w t c x k"
  by (simp add: xmitted_def)

lemma xmit_loop_at:
  assumes "sq_ok b P A w t" "ctx_at b P w t c x k" "xc_seq_max c = b + of_nat M" "x \<le> M" "M \<le> length A + 1"
    "xc_budget c < 2 ^ 31" "sacked_below P M w t" "xmit_loop E w t c n sz = (sz', w', t', c')"
  shows "\<exists>x' k'. xmitted b P A M w t c x k w' t' c' x' k' \<and> (unsacked_from w t k \<longrightarrow> int (x' - x) \<le> max 0 (xc_budget c))"
  using assms
proof (induction n arbitrary: w t c x k sz)
  case 0
  then show ?case using xmitted_refl by fastforce
next
  case (Suc n)
  show ?case
  proof (cases "xc_budget c \<le> 0")
    case True
    then have "w' = w" "t' = t" "c' = c" using Suc.prems(8) by simp_all
    then show ?thesis using xmitted_refl [OF Suc.prems(2,4)] by (intro exI [of _ x] exI [of _ k]) simp
  next
    case False
    then have bud: "0 < xc_budget c" by simp
    obtain r w1 t1 c1 where o: "xmit_one_packet E w t c = (r, w1, t1, c1)" by (metis prod_cases4)
    obtain x1 k1 where m: "xmitted b P A M w t c x k w1 t1 c1 x1 k1"
      "\<And>n. r = Inr n \<Longrightarrow> 0 < sint n \<Longrightarrow> 0 \<le> xc_budget c1 \<and> xc_budget c1 \<le> xc_budget c"
      "unsacked_from w t k \<Longrightarrow> int (x1 - x) \<le> xc_budget c"
      "\<And>n. unsacked_from w t k \<Longrightarrow> r = Inr n \<Longrightarrow> 0 < sint n \<Longrightarrow> xc_budget c1 = xc_budget c - int (x1 - x)"
      by (rule xmit_one_packet_at [OF Suc.prems(1-5) bud Suc.prems(6,7) o]) blast
    show ?thesis
    proof (cases "\<exists>n. r = Inr n \<and> 0 < sint n")
      case False
      then have "w' = w1" "t' = t1" "c' = c1"
        using Suc.prems(8) o bud by (auto split: sum.splits if_splits)
      then show ?thesis using m(1,3) bud by (intro exI [of _ x1] exI [of _ k1]) simp
    next
      case True
      then obtain v where v: "r = Inr v" "0 < sint v" by blast
      have l: "xmit_loop E w1 t1 c1 n (sz + sint v) = (sz', w', t', c')" using Suc.prems(8) o bud v by simp
      note mm = m(1) [unfolded xmitted_def]
      have q: "txq t1 = txq t" and ms: "mem_same w w1" using mm tx_view_txq by blast+
      have "\<exists>x' k'. xmitted b P A M w1 t1 c1 x1 k1 w' t' c' x' k' \<and> (unsacked_from w1 t1 k1 \<longrightarrow> int (x' - x1) \<le> max 0 (xc_budget c1))"
        by (rule Suc.IH [OF _ _ _ _ Suc.prems(5) _ _ l])
          (use mm Suc.prems m(2) v mem_same_sq_ok [OF ms q] mem_same_ctx_at [OF ms q] mem_same_sacked_below [OF ms q] in auto)
      then obtain x' k' where x': "xmitted b P A M w1 t1 c1 x1 k1 w' t' c' x' k'"
        "unsacked_from w1 t1 k1 \<longrightarrow> int (x' - x1) \<le> max 0 (xc_budget c1)" by blast
      have "int (x' - x) \<le> max 0 (xc_budget c)" if u: "unsacked_from w t k"
      proof -
        have "unsacked_from w1 t1 k1" using u mm mem_same_unsacked [OF ms q] unsacked_from_mono by blast
        moreover have "x \<le> x1" "x1 \<le> x'" using mm x'(1) by (simp_all add: xmitted_def)
        ultimately show ?thesis using x'(2) m(2-4) u v by (fastforce simp: max_def)
      qed
      then show ?thesis using xmitted_trans [OF m(1) x'(1)] by blast
    qed
  qed
qed

lemma do_tcp_xmit_data_at:
  assumes "sq_ok b P A w t" "ctx_at b P w t c x k" "xc_seq_max c = b + of_nat M" "x \<le> M" "M \<le> length A + 1"
    "xc_budget c < 2 ^ 31" "sacked_below P M w t" "do_tcp_xmit_data E w t c = (sz, w', t', c')"
  obtains x' k' where "xmitted b P A M w t c x k w' t' c' x' k'" "unsacked_from w t k \<Longrightarrow> int (x' - x) \<le> max 0 (xc_budget c)"
proof -
  define fuel where "fuel = nat (min (dev_port_txq_free_count (wk_dev w) (port_id t)) (int BATCH_SIZE))"
  obtain sz1 w1 t1 c1 where l: "xmit_loop E w t c fuel 0 = (sz1, w1, t1, c1)" by (metis prod_cases4)
  from xmit_loop_at [OF assms(1-7) l] obtain x' k' where m: "xmitted b P A M w t c x k w1 t1 c1 x' k'"
    "unsacked_from w t k \<longrightarrow> int (x' - x) \<le> max 0 (xc_budget c)" by blast
  have "c' = c1 \<and> mem_same w1 w' \<and> wk_dev w' = wk_dev w1 \<and> neigh_waiting w' = neigh_waiting w1 \<and> ts_us w' = ts_us w1 \<and>
      tx_view t' = tx_view t1 \<and> tso_enabled t' = tso_enabled t1 \<and> port_id t' = port_id t1"
    using assms(8) l
    by (auto simp: do_tcp_xmit_data_def fuel_def [symmetric] Let_def mem_same_def tx_view_def tsock_update_last_ts_def
        tsock_rearm_timer_rto_def wk_timer_start_def split: if_splits)
  moreover from this have "emits (carries b A x x') w1 w'" by (intro emits_same) simp_all
  ultimately have "xmitted b P A M w t c x k w' t' c' x' k'"
    using m(1) mem_same_trans emits_trans by (auto simp: xmitted_def)
  then show thesis using that m(2) by blast
qed

section \<open>The send side of a synchronized connection\<close>

text \<open>The application has written the bytes at the addresses \<open>A\<close>; the peer has acknowledged the
  first \<open>U\<close> of them and the first \<open>X\<close> have been sent. The queue starts at position \<open>P\<close>, at most one
  descriptor before \<open>U\<close>.\<close>

definition snd_inv :: "u32 \<Rightarrow> u64 list \<Rightarrow> nat \<Rightarrow> nat \<Rightarrow> nat \<Rightarrow> tpa_worker \<Rightarrow> tcp_sock \<Rightarrow> bool" where
  "snd_inv b A P U X w t \<longleftrightarrow> sq_ok b P A w t \<and> data_seq_nxt t = b + of_nat (length A) \<and>
     snd_una t = b + of_nat U \<and> snd_nxt t = b + of_nat X \<and> partial_ack t = of_nat (U - P) \<and>
     at_pos P (snd_q w t) U 0 \<and> at_pos P (snd_q w t) X (txq_inflight (txq t)) \<and> U \<le> X \<and> X \<le> length A \<and> sacked_below P X w t"

definition snd_view :: "tcp_sock \<Rightarrow> nat tcp_txq \<times> u32 \<times> u32 \<times> u32 \<times> u32" where
  "snd_view t = (txq t, data_seq_nxt t, snd_una t, snd_nxt t, partial_ack t)"

lemma tx_view_snd_view: "tx_view t' = tx_view t \<Longrightarrow> snd_view t' = snd_view t"
  by (simp add: tx_view_def snd_view_def)

lemma snd_inv_frame:
  assumes "mem_same w w'" "snd_view t' = snd_view t"
  shows "snd_inv b A P U X w' t' = snd_inv b A P U X w t"
proof -
  have q: "txq t' = txq t" using assms(2) by (simp add: snd_view_def)
  show ?thesis
    using assms(2) mem_same_sq_ok [OF assms(1) q] mem_same_snd_q [OF assms(1) q] mem_same_sacked_below [OF assms(1) q]
    by (simp add: snd_inv_def snd_view_def)
qed

lemma snd_inv_bounds:
  assumes "snd_inv b A P U X w t"
  shows "P \<le> U" "U \<le> X" "X \<le> length A" "length A < P + 2 ^ 30" "txq_wf (txq t)"
  using assms by (auto simp: snd_inv_def sq_ok_def at_pos_def)

text \<open>Nothing that is still to be sent has been reported by the peer.\<close>

lemma snd_inv_unsacked:
  assumes "snd_inv b A P U X w t"
  shows "unsacked_from w t (txq_inflight (txq t))"
  unfolding unsacked_from_def
proof (intro allI impI notI)
  fix i
  assume i: "txq_inflight (txq t) \<le> i \<and> i < txq_used (txq t)" and s: "sacked w (txq_items (txq t) ! i)"
  have "pos P (snd_q w t) (Suc i) \<le> X" using assms i s by (simp add: snd_inv_def sacked_below_def)
  moreover have "X < pos P (snd_q w t) (Suc (txq_inflight (txq t)))" using assms i by (auto simp: snd_inv_def at_pos_def)
  moreover have "pos P (snd_q w t) (Suc (txq_inflight (txq t))) \<le> pos P (snd_q w t) (Suc i)" using i by (intro pos_mono) simp
  ultimately show False by simp
qed

lemma window_budget:
  assumes "X - U < 2 ^ 30" "U \<le> X"
  shows "max 0 (sint (wnd - (b + of_nat X - (b + of_nat U)) :: u32)) \<le> max 0 (int (unat wnd) - int (X - U))"
proof -
  have range: "0 \<le> u \<Longrightarrow> 0 \<le> n \<Longrightarrow> n < 2 ^ 30 \<Longrightarrow> u < 2 ^ 32 \<Longrightarrow> - (2 ^ 31) \<le> u - n \<and> u - n < 2 ^ 32" for u n :: int by simp
  have "wnd - (b + of_nat X - (b + of_nat U)) = (word_of_int (int (unat wnd) - int (X - U)) :: u32)"
    using assms(2) by (simp add: of_nat_diff)
  moreover have "sint (word_of_int v :: u32) \<le> max 0 v" if "- (2 ^ 31) \<le> v" "v < 2 ^ 32" for v :: int
  proof (cases "v < 2 ^ 31")
    case True
    then show ?thesis using that by (simp add: sint_word_of_int_small)
  next
    case False
    have "word_of_int v = (word_of_int (v - 2 ^ 32) :: u32)" by (simp add: word_of_int_eq_iff take_bit_eq_mod mod_diff_eq [symmetric])
    moreover have "sint (word_of_int (v - 2 ^ 32) :: u32) = v - 2 ^ 32" using False that by (intro sint_word_of_int_small) simp_all
    ultimately have "sint (word_of_int v :: u32) = v - 2 ^ 32" by (simp only:)
    then show ?thesis using that False by simp
  qed
  moreover have "int (X - U) < 2 ^ 30" "int (unat wnd) < 2 ^ 32"
    using assms(1) unsigned_less [of wnd, where ?'a = int] by simp_all
  then have "- (2 ^ 31) \<le> int (unat wnd) - int (X - U)" "int (unat wnd) - int (X - U) < 2 ^ 32"
    using range [of "int (unat wnd)" "int (X - U)"] by simp_all
  ultimately show ?thesis by (metis max.bounded_iff max.cobounded1)
qed

lemma budget_lim: "int (x' - x) \<le> max 0 (int n - int (x - u)) \<Longrightarrow> u \<le> x \<Longrightarrow> x \<le> x' \<Longrightarrow> x' \<le> max x (u + n)"
  by (auto simp: max_def split: if_splits)

lemma tcp_xmit_data_inv:
  assumes inv: "snd_inv b A P U X w t" and r: "tcp_xmit_data E w t = (w', t')"
  obtains X' where "X \<le> X'" "snd_inv b A P U X' w' t'" "emits (carries b A X X') w w'"
    "X' \<le> max X (U + unat (min (snd_wnd t) (snd_cwnd t)))" "mem_same w w'"
    "tx_view (t'\<lparr>txq := txq t, snd_nxt := snd_nxt t\<rparr>) = tx_view t" "txq_una (txq t') = txq_una (txq t)"
    "txq_items (txq t') = txq_items (txq t)"
proof (cases "min (snd_wnd t) (snd_cwnd t) = 0")
  case True
  then have z: "tcp_zero_wnd_probe E w t = (w', t')" using r by (simp add: tcp_xmit_data_def)
  have "emits no_data w w' \<and> mem_same w w' \<and> tx_view t' = tx_view t"
  proof (cases "ts_us w - last_ts_in_us E t LAST_TS_SND_PKT < ucast (push_bit (unat (zero_wnd_probe_shift t)) (rto t))")
    case False
    define t1 where "t1 = t\<lparr>flags := flags t OR TSOCK_FLAG_ACK_NEEDED\<rparr>"
    obtain rr w2 t2 where x: "xmit_flag_packet_with_seq E w t1 (snd_una t1 - 1) = (rr, w2, t2)" by (metis prod_cases3)
    have "w' = w2" "tx_view t' = tx_view t2"
      using z x False by (auto simp: tcp_zero_wnd_probe_def t1_def [symmetric] Let_def tx_view_def)
    then show ?thesis using xmit_flag_packet_with_seq_frame [OF x] by (simp add: t1_def tx_view_flags)
  qed (use z in \<open>auto simp: tcp_zero_wnd_probe_def\<close>)
  then show ?thesis using that [of X] inv snd_inv_frame [of w w' t' t] tx_view_snd_view [of t' t] emits_mono no_data_carries
    by (auto simp: tx_view_def)
next
  case False
  define wnd where "wnd = min (snd_wnd t) (snd_cwnd t)"
  define c where "c = \<lparr>xc_seq = snd_nxt t, xc_seq_max = data_seq_nxt t, xc_budget = sint (wnd - (snd_nxt t - snd_una t)),
    xc_desc_off = 0, xc_desc_base = txq_nxt (txq t)\<rparr>"
  obtain sz w1 t1 c1 where d: "do_tcp_xmit_data E w t c = (sz, w1, t1, c1)" by (metis prod_cases4)
  note i = inv [unfolded snd_inv_def] and bd = snd_inv_bounds [OF inv]
  have at: "ctx_at b P w t c X (txq_inflight (txq t))" using i by (simp add: ctx_at_def c_def txq_inflight_def)
  have bud: "xc_budget c < 2 ^ 31" using sint_lt [of "wnd - (snd_nxt t - snd_una t)"] by (simp add: c_def)
  have sb: "sacked_below P (length A) w t" using i bd by (auto simp: sacked_below_def)
  obtain X' k' where m: "xmitted b P A (length A) w t c X (txq_inflight (txq t)) w1 t1 c1 X' k'"
    "unsacked_from w t (txq_inflight (txq t)) \<Longrightarrow> int (X' - X) \<le> max 0 (xc_budget c)"
    by (rule do_tcp_xmit_data_at [OF _ at _ _ _ bud sb d]) (use i bd in \<open>auto simp: c_def\<close>)
  note mm = m(1) [unfolded xmitted_def]
  have q: "txq t1 = txq t" and ms: "mem_same w w1" using mm tx_view_txq by blast+
  have lim: "X' \<le> max X (U + unat wnd)"
  proof -
    have bc: "xc_budget c = sint (wnd - (b + of_nat X - (b + of_nat U)))" unfolding c_def using i by simp
    have "X - U < 2 ^ 30" using bd by linarith
    then have "int (X' - X) \<le> max 0 (int (unat wnd) - int (X - U))"
      by (rule order_trans [OF m(2) [OF snd_inv_unsacked [OF inv], unfolded bc] window_budget [OF _ bd(2)]])
    then show ?thesis using mm bd(2) by (intro budget_lim) simp_all
  qed
  have X': "X \<le> X'" "X' \<le> length A" "txq_inflight (txq t) \<le> k'" "ctx_at b P w t c1 X' k'" using mm by simp_all
  have nx: "snd_nxt t1 = snd_nxt t" "snd_view t1 = snd_view t" using mm by (simp_all add: tx_view_def snd_view_def)
  have vw: "tx_view (t1\<lparr>txq := txq t, snd_nxt := snd_nxt t\<rparr>) = tx_view t" using mm by (simp add: tx_view_def)
  show ?thesis
  proof (cases "xc_seq c1 = snd_nxt t1")
    case True
    have "X' = X"
    proof -
      have "(b + word_of_int (int X') :: u32) = b + word_of_int (int X)" using True X'(4) nx i by (simp add: ctx_at_def)
      moreover have "\<bar>int X' - int X\<bar> < 2 ^ 31" using X'(1,2) bd by simp
      ultimately show ?thesis using word_of_int_inj_pos by force
    qed
    moreover have "w' = w1" "t' = t1" using r False d True by (simp_all add: tcp_xmit_data_def wnd_def [symmetric] c_def [symmetric] Let_def)
    ultimately show ?thesis using that [of X] inv snd_inv_frame [OF ms nx(2)] mm vw q by auto
  next
    case ne: False
    define t2 where "t2 = t1\<lparr>snd_nxt := xc_seq c1, txq := tcp_txq_update_nxt (txq t1) (xc_desc_off c1)\<rparr>"
    have "w' = w1" "t' = t2"
      using r False d ne by (simp_all add: tcp_xmit_data_def wnd_def [symmetric] c_def [symmetric] Let_def t2_def)
    moreover have "snd_inv b A P U X' w1 t2"
    proof -
      have off: "txq_inflight (txq t) + unat (xc_desc_off c1) = k'" "k' \<le> txq_used (txq t)"
        using X'(4) mm by (simp_all add: ctx_at_def at_pos_def c_def txq_inflight_def)
      have u: "txq_wf (txq t2)" "txq_items (txq t2) = txq_items (txq t)" "txq_inflight (txq t2) = k'"
        using tcp_txq_update_nxt_inflight [of "txq t" "xc_desc_off c1"] bd(5) off by (auto simp: t2_def q)
      have us: "txq_used (txq t2) = txq_used (txq t)" using u(2) by (metis length_txq_items)
      have sq: "snd_q w1 t2 = snd_q w t" using u(2) mem_same_dcore [OF ms] by (simp add: snd_q_def)
      have "sacked_below P X' w1 t2" using i X'(1) u(2) us sq mem_same_sacked [OF ms] by (force simp: sacked_below_def)
      then show ?thesis
        using i X' nx(2) u sq by (auto simp: snd_inv_def sq_ok_def t2_def snd_view_def ctx_at_def)
    qed
    moreover have "tx_view (t2\<lparr>txq := txq t, snd_nxt := snd_nxt t\<rparr>) = tx_view t" using vw by (simp add: t2_def tx_view_def)
    ultimately show ?thesis using that [of X'] X' lim mm ms q by (auto simp: wnd_def t2_def tcp_txq_update_nxt_def txq_items_def txq_used_def)
  qed
qed

section \<open>Retransmission\<close>

text \<open>Where the next retransmission starts: at a descriptor of the queue, or at data that has been
  acknowledged in the meantime.\<close>

definition retr_from :: "u32 \<Rightarrow> nat \<Rightarrow> nat \<Rightarrow> tpa_worker \<Rightarrow> tcp_sock \<Rightarrow> nat \<Rightarrow> bool" where
  "retr_from b P X w t R \<longleftrightarrow> retrans_seq t = b + of_nat R \<and> R \<le> X \<and>
     at_pos P (snd_q w t) R (unat (retrans_desc_base t - txq_una (txq t)))"

definition retr_at :: "u32 \<Rightarrow> nat \<Rightarrow> nat \<Rightarrow> nat \<Rightarrow> tpa_worker \<Rightarrow> tcp_sock \<Rightarrow> bool" where
  "retr_at b P U X w t \<longleftrightarrow> (\<exists>R. retrans_seq t = b + of_nat R \<and> (R < U \<and> U < R + 2 ^ 31 \<or> U \<le> R \<and> retr_from b P X w t R))"

definition retr_same :: "tcp_sock \<Rightarrow> tcp_sock \<Rightarrow> bool" where
  "retr_same t t' \<longleftrightarrow> tx_view (t'\<lparr>retrans_seq := retrans_seq t, retrans_desc_base := retrans_desc_base t\<rparr>) = tx_view t"

lemma retr_same_view: "retr_same t t' \<Longrightarrow> snd_view t' = snd_view t"
  by (simp add: retr_same_def tx_view_def snd_view_def)

lemma retr_same_trans: "retr_same t t1 \<Longrightarrow> retr_same t1 t2 \<Longrightarrow> retr_same t t2"
  by (simp add: retr_same_def tx_view_def)

lemma retr_same_tx_view: "tx_view t' = tx_view t \<Longrightarrow> retr_same t t'"
  by (simp add: retr_same_def tx_view_def)

lemma reset_retrans_at:
  assumes "snd_inv b A P U X w t"
  shows "retr_from b P X w (tcp_reset_retrans t (snd_una t) (txq_una (txq t))) U"
    "retr_same t (tcp_reset_retrans t (snd_una t) (txq_una (txq t)))"
  using assms by (auto simp: retr_from_def retr_same_def tcp_reset_retrans_def snd_inv_def snd_q_def tx_view_def)

lemma do_tcp_retrans_inv:
  assumes inv: "snd_inv b A P U X w t" and at: "retr_from b P X w t R" "U \<le> R" and bud: "budget < 2 ^ 31"
    and r: "do_tcp_retrans E w t budget = (sz, w', t')"
  shows "emits (carries b A U X) w w' \<and> mem_same w w' \<and> retr_same t t' \<and> (\<exists>R'. U \<le> R' \<and> retr_from b P X w' t' R')"
proof -
  define c where "c = \<lparr>xc_seq = retrans_seq t, xc_seq_max = snd_nxt t, xc_budget = budget, xc_desc_off = 0, xc_desc_base = retrans_desc_base t\<rparr>"
  obtain sz1 w1 t1 c1 where d: "do_tcp_xmit_data E w t c = (sz1, w1, t1, c1)" by (metis prod_cases4)
  define k where "k = unat (retrans_desc_base t - txq_una (txq t))"
  note i = inv [unfolded snd_inv_def] and bd = snd_inv_bounds [OF inv]
  have a: "ctx_at b P w t c R k" using at by (simp add: ctx_at_def c_def k_def retr_from_def)
  obtain R' k' where m: "xmitted b P A X w t c R k w1 t1 c1 R' k'"
    by (rule do_tcp_xmit_data_at [OF _ a _ _ _ _ _ d]) (use i bd at bud in \<open>auto simp: c_def retr_from_def\<close>)
  note mm = m [unfolded xmitted_def]
  have q: "txq t1 = txq t" and ms: "mem_same w w1" using mm tx_view_txq by blast+
  have res: "w' = w1" "t' = t1\<lparr>retrans_seq := xc_seq c1, retrans_desc_base := xc_desc_base c1 + xc_desc_off c1\<rparr>"
    using r d by (simp_all add: do_tcp_retrans_def c_def [symmetric])
  have "emits (carries b A U X) w w1" using mm at(2) by (blast intro: emits_mono carries_mono)
  moreover have "retr_same t t'" using mm by (simp add: res retr_same_def tx_view_def)
  moreover have "retr_from b P X w' t' R'"
  proof -
    have k': "k + unat (xc_desc_off c1) = k'" "k' \<le> txq_used (txq t)" "xc_desc_base c1 = retrans_desc_base t"
      using mm by (auto simp: ctx_at_def at_pos_def c_def k_def)
    then have "unat (retrans_desc_base t + of_nat (unat (xc_desc_off c1)) - txq_una (txq t)) = k'"
      using txq_wfD(3,5) [OF bd(5)] by (subst word_add_diff_of_nat) (simp_all add: k_def)
    then have "unat (retrans_desc_base t' - txq_una (txq t')) = k'" by (simp add: res q k'(3))
    moreover have "snd_q w' t' = snd_q w t" using mem_same_snd_q [OF ms q] by (simp add: res snd_q_def)
    ultimately show ?thesis using mm by (simp add: retr_from_def res ctx_at_def)
  qed
  moreover have "U \<le> R'" using mm at(2) by simp
  ultimately show ?thesis using ms res(1) by blast
qed

lemma regulate_retrans_at:
  assumes inv: "snd_inv b A P U X w t" and at: "retr_at b P U X w t"
  obtains R where "retr_from b P X w (regulate_retrans t) R" "U \<le> R" "retr_same t (regulate_retrans t)"
proof -
  from at obtain R where R: "retrans_seq t = b + of_nat R" "R < U \<and> U < R + 2 ^ 31 \<or> U \<le> R \<and> retr_from b P X w t R"
    by (auto simp: retr_at_def)
  have u: "snd_una t = b + of_nat U" using inv by (simp add: snd_inv_def)
  have "\<bar>int R - int U\<bar> < 2 ^ 31" using R(2) snd_inv_bounds [OF inv] by (auto simp: retr_from_def)
  then have lt: "seq_lt (retrans_seq t) (snd_una t) \<longleftrightarrow> R < U" unfolding R(1) u by (rule seq_pos_nat)
  show thesis
  proof (cases "R < U")
    case True
    then show ?thesis using that [of U] reset_retrans_at [OF inv] lt by (simp add: regulate_retrans_def)
  next
    case False
    then show ?thesis using that [of R] R(2) lt by (auto simp: regulate_retrans_def retr_same_tx_view)
  qed
qed

definition resent :: "u32 \<Rightarrow> u64 list \<Rightarrow> nat \<Rightarrow> nat \<Rightarrow> nat \<Rightarrow> tpa_worker \<Rightarrow> tcp_sock \<Rightarrow> tpa_worker \<Rightarrow> tcp_sock \<Rightarrow> bool" where
  "resent b A P U X w t w' t' \<longleftrightarrow> emits (carries b A U X) w w' \<and> mem_same w w' \<and> retr_same t t' \<and>
     (\<exists>R. U \<le> R \<and> retr_from b P X w' t' R)"

lemma resent_inv: "resent b A P U X w t w' t' \<Longrightarrow> snd_inv b A P U X w t \<Longrightarrow> snd_inv b A P U X w' t' \<and> retr_at b P U X w' t'"
  using snd_inv_frame retr_same_view by (auto simp: resent_def retr_at_def retr_from_def)

lemma retr_same_snd_inv: "retr_same t t' \<Longrightarrow> snd_inv b A P U X w t' = snd_inv b A P U X w t"
  by (rule snd_inv_frame [OF mem_same_refl retr_same_view])

lemma tcp_retrans_inv:
  assumes inv: "snd_inv b A P U X w t" and at: "retr_at b P U X w t" and r: "tcp_retrans E w t = (w', t')"
  shows "resent b A P U X w t w' t'"
proof -
  obtain R where R: "retr_from b P X w (regulate_retrans t) R" "U \<le> R" "retr_same t (regulate_retrans t)"
    by (rule regulate_retrans_at [OF inv at])
  have "snd_inv b A P U X w (regulate_retrans t)" using inv retr_same_snd_inv [OF R(3)] by simp
  from do_tcp_retrans_inv [OF this R(1,2)] show ?thesis
    using r retr_same_trans [OF R(3)] sint_lt [where ?'a = 32]
    by (fastforce simp: tcp_retrans_def Let_def resent_def split: prod.splits)
qed

lemma tcp_fast_retrans_inv:
  assumes inv: "snd_inv b A P U X w t" and at: "retr_at b P U X w t" and r: "tcp_fast_retrans E w t budget = (w', t')"
  shows "resent b A P U X w t w' t'"
proof -
  obtain R where R: "retr_from b P X w (regulate_retrans t) R" "U \<le> R" "retr_same t (regulate_retrans t)"
    by (rule regulate_retrans_at [OF inv at])
  have i: "snd_inv b A P U X w (regulate_retrans t)" using inv retr_same_snd_inv [OF R(3)] by simp
  have m: "uint (snd_mss v) < 2 ^ 31" for v using unsigned_less [of "snd_mss v", where ?'a = int] by simp
  from do_tcp_retrans_inv [OF i R(1,2)] show ?thesis
    using r retr_same_trans [OF R(3)] sint_lt [where ?'a = 32] m
    by (fastforce simp: tcp_fast_retrans_def Let_def resent_def split: prod.splits if_splits)
qed

end
