(* ===== verification/Snd_Ack.thy ===== *)
theory Snd_Ack
  imports Snd_Xmit
begin

text \<open>
  Acknowledgements: the descriptors whose data is acknowledged completely leave the queue, go back
  to the pool and their callbacks run, and everything else stays as it is.
\<close>

section \<open>The loop over acknowledged descriptors\<close>

lemma ack_loop_at:
  assumes "txq_wf (txq t)" "chain b P (snd_q w t)" "at_pos P (snd_q w t) U (unat nr)"
    "snd_una t = b + of_nat U" "partial_ack t = of_nat (U - pos P (snd_q w t) (unat nr))"
    "acked = of_nat a" "0 < a" "U + a \<le> pos P (snd_q w t) (txq_used (txq t))" "pos P (snd_q w t) (txq_used (txq t)) < P + 2 ^ 30"
    "ack_loop w t nr acked r0 = (w', t', nr', r')"
  shows "unat nr \<le> unat nr' \<and> at_pos P (snd_q w t) (U + a) (unat nr') \<and>
    w' = fold (\<lambda>d w. tx_desc_done w d) (take (unat nr' - unat nr) (drop (unat nr) (txq_items (txq t)))) w \<and>
    (\<exists>sb. t' = t\<lparr>snd_una := b + of_nat (U + a), partial_ack := of_nat (U + a - pos P (snd_q w t) (unat nr')), sacked_bytes := sb\<rparr>)"
  using assms
proof (induction w t nr acked r0 arbitrary: U a rule: ack_loop.induct)
  case (1 w t nr acked r0)
  let ?q = "snd_q w t" and ?n = "unat nr"
  have n: "?n < txq_used (txq t)"
  proof (rule ccontr)
    assume "\<not> ?n < txq_used (txq t)"
    then have "pos P ?q (txq_used (txq t)) \<le> pos P ?q ?n" by (intro pos_mono) simp
    then show False using "1.prems"(3,7,8) by (simp add: at_pos_def)
  qed
  define d where "d = txq_items (txq t) ! ?n"
  have pk: "tcp_txq_peek_una (txq t) nr = Some d" using tcp_txq_peek_una_nth [OF "1.prems"(1)] n by (simp add: d_def)
  note e = desc_end_pos [OF "1.prems"(2) n d_def]
  define L where "L = seg_len (?q ! ?n)"
  have pS: "pos P ?q (Suc ?n) = pos P ?q ?n + L" using n by (simp add: pos_Suc L_def)
  have U: "pos P ?q ?n \<le> U" "U < pos P ?q ?n + L" using "1.prems"(3) n pS by (auto simp: at_pos_def)
  have Pn: "P \<le> pos P ?q ?n" "pos P ?q (Suc ?n) \<le> pos P ?q (txq_used (txq t))" using n by (simp add: pos_def, intro pos_mono) simp
  define i where "i = U - pos P ?q ?n"
  have ib: "i < L" "L < 2 ^ 30" "a < 2 ^ 30" using U Pn pS "1.prems"(8,9) by (auto simp: i_def)
  have len: "desc_len (desc_mem w d) = of_nat L" "unat (desc_len (desc_mem w d)) = L" using e(3) by (auto simp: L_def word_eq_of_nat)
  have pa: "partial_ack t = of_nat i" using "1.prems"(5) by (simp add: i_def)
  have lt: "partial_ack t + acked < desc_len (desc_mem w d) \<longleftrightarrow> i + a < L"
  proof -
    have "unat (of_nat (i + a) :: u32) = i + a" using ib by (intro unat_of_nat_small) simp
    then show ?thesis unfolding pa "1.prems"(6) word_less_nat_alt len(2) by simp
  qed
  show ?case
  proof (cases "i + a < L")
    case True
    have at: "at_pos P ?q (U + a) ?n" using "1.prems"(3) n True pS U by (auto simp: at_pos_def i_def)
    have "ack_loop w t nr acked r0 = (w, t\<lparr>partial_ack := partial_ack t + acked, snd_una := snd_una t + acked\<rparr>, nr, r0)"
      by (subst ack_loop.simps) (simp add: pk Let_def lt True)
    moreover have "of_nat i + of_nat a = (of_nat (U + a - pos P ?q ?n) :: u32)" using U by (simp add: i_def of_nat_diff)
    ultimately show ?thesis using "1.prems"(4,6,10) at pa by (auto simp: ac_simps intro!: exI [of _ "sacked_bytes t"])
  next
    case False
    define t1 where "t1 = t\<lparr>snd_una := snd_una t + (desc_len (desc_mem w d) - partial_ack t), partial_ack := 0\<rparr>"
    define t2 where "t2 = (if desc_flags (desc_mem w d) AND TX_DESC_FLAG_SACKED \<noteq> 0
      then t1\<lparr>sacked_bytes := sacked_bytes t1 - desc_len (desc_mem w d)\<rparr> else t1)"
    define w1 where "w1 = tx_desc_done w d"
    define a1 where "a1 = a - (L - i)"
    define r1 where "r1 = (if r0 = 0 \<and> desc_flags (desc_mem w d) AND TX_DESC_FLAG_RETRANS = 0
      then ucast (ts_us w - desc_ts_us (desc_mem w d)) else r0)"
    have ac: "acked - (desc_len (desc_mem w d) - partial_ack t) = of_nat a1"
      using False ib "1.prems"(6) by (simp add: len(1) pa a1_def of_nat_diff)
    have a1: "unat (of_nat a1 :: u32) = a1" using ib by (intro unat_of_nat_small) (simp add: a1_def)
    have pos1: "acked - (desc_len (desc_mem w d) - partial_ack t) > 0 \<longleftrightarrow> 0 < a1" unfolding ac word_less_nat_alt a1 by simp
    have un: "snd_una t2 = b + of_nat (pos P ?q (Suc ?n))" "partial_ack t2 = 0" "txq t2 = txq t"
      using "1.prems"(4) U by (auto simp: t2_def t1_def len(1) pa pS i_def of_nat_diff)
    have t2: "\<exists>sb. t2 = t\<lparr>snd_una := b + of_nat (pos P ?q (Suc ?n)), partial_ack := 0, sacked_bytes := sb\<rparr>"
      using "1.prems"(4) U by (intro exI [of _ "sacked_bytes t2"]) (auto simp: t2_def t1_def len(1) pa pS i_def of_nat_diff)
    have nr1: "unat (nr + 1) = Suc ?n"
      using unat_suc_bound [of nr "txq_write (txq t) - txq_una (txq t)"] n by (simp add: txq_used_def)
    have sq: "snd_q w1 t2 = ?q" by (simp add: snd_q_def w1_def un)
    have dr: "drop ?n (txq_items (txq t)) = d # drop (Suc ?n) (txq_items (txq t))" using n by (simp add: d_def Cons_nth_drop_Suc)
    have at1: "at_pos P ?q (pos P ?q (Suc ?n)) (Suc ?n)"
      using n chain_nth [OF "1.prems"(2), of "Suc ?n"] by (auto simp: at_pos_def pos_Suc [of "Suc ?n"])
    have ua: "U + a = pos P ?q (Suc ?n) + a1" using False U pS by (simp add: a1_def i_def)
    have st: "ack_loop w t nr acked r0 = (if 0 < a1 then ack_loop w1 t2 (nr + 1) (of_nat a1) r1 else (w1, t2, nr + 1, r1))"
      by (subst ack_loop.simps)
        (simp add: pk Let_def lt False pos1 [simplified ac] ac t1_def [symmetric] w1_def [symmetric] r1_def [symmetric],
         auto simp: t2_def)
    show ?thesis
    proof (cases "0 < a1")
      case True
      have rec: "ack_loop w1 t2 (nr + 1) (of_nat a1) r1 = (w', t', nr', r')" using "1.prems"(10) st True by simp
      have "unat (nr + 1) \<le> unat nr' \<and> at_pos P (snd_q w1 t2) (pos P ?q (Suc ?n) + a1) (unat nr') \<and>
        w' = fold (\<lambda>d w. tx_desc_done w d) (take (unat nr' - unat (nr + 1)) (drop (unat (nr + 1)) (txq_items (txq t2)))) w1 \<and>
        (\<exists>sb. t' = t2\<lparr>snd_una := b + of_nat (pos P ?q (Suc ?n) + a1),
           partial_ack := of_nat (pos P ?q (Suc ?n) + a1 - pos P (snd_q w1 t2) (unat nr')), sacked_bytes := sb\<rparr>)"
        by (rule "1.IH" [OF pk refl _ refl refl t1_def t2_def r1_def w1_def, unfolded ac])
          (use "1.prems" un sq nr1 at1 ua True rec lt False pos1 [unfolded ac] in \<open>auto simp: Let_def\<close>)
      then have ih: "Suc ?n \<le> unat nr'" "at_pos P ?q (U + a) (unat nr')"
        "w' = fold (\<lambda>d w. tx_desc_done w d) (take (unat nr' - Suc ?n) (drop (Suc ?n) (txq_items (txq t)))) w1"
        "\<exists>sb. t' = t2\<lparr>snd_una := b + of_nat (U + a), partial_ack := of_nat (U + a - pos P ?q (unat nr')), sacked_bytes := sb\<rparr>"
        unfolding sq un nr1 ua by blast+
      have "unat nr' - ?n = Suc (unat nr' - Suc ?n)" using ih(1) by simp
      then have "take (unat nr' - ?n) (drop ?n (txq_items (txq t))) = d # take (unat nr' - Suc ?n) (drop (Suc ?n) (txq_items (txq t)))"
        unfolding dr by (simp only: take_Suc_Cons)
      then show ?thesis using ih t2 by (auto simp: w1_def)
    next
      case zero: False
      then have "w' = w1" "t' = t2" "nr' = nr + 1" using "1.prems"(10) st by simp_all
      moreover have "take (unat (nr + 1) - ?n) (drop ?n (txq_items (txq t))) = [d]" unfolding dr nr1 by simp
      ultimately show ?thesis using zero ua at1 nr1 t2 by (auto simp: w1_def)
    qed
  qed
qed

section \<open>What leaves the queue\<close>

definition pool_ok :: "tpa_worker \<Rightarrow> tcp_sock \<Rightarrow> bool" where
  "pool_ok w t \<longleftrightarrow> pool_wf (desc_pool w) \<and> distinct (pool_free (desc_pool w) @ txq_items (txq t)) \<and>
     length (pool_free (desc_pool w)) + txq_used (txq t) \<le> unat (pool_nr_desc (desc_pool w))"

lemma tsock_event_add_view: "tx_view (snd (tsock_event_add w t ev)) = tx_view t"
  by (simp add: tsock_event_add_def Let_def tx_view_def)

lemma tsock_event_add_frame:
  "tsock_event_add w t ev = (w', t') \<Longrightarrow>
   tx_view t' = tx_view t \<and> desc_mem w' = desc_mem w \<and> desc_pool w' = desc_pool w \<and> done_calls w' = done_calls w \<and>
   wk_dev w' = wk_dev w \<and> neigh_waiting w' = neigh_waiting w \<and> nr_dupack t' = nr_dupack t \<and> copies w' = copies w"
  by (auto simp: tsock_event_add_def Let_def tx_view_def split: if_splits)

lemma tx_desc_done_fold_dev:
  "wk_dev (fold (\<lambda>d w. tx_desc_done w d) ds w) = wk_dev w"
  "neigh_waiting (fold (\<lambda>d w. tx_desc_done w d) ds w) = neigh_waiting w"
  "copies (fold (\<lambda>d w. tx_desc_done w d) ds w) = copies w"
proof -
  have "wk_dev (tx_desc_done w d) = wk_dev w" "neigh_waiting (tx_desc_done w d) = neigh_waiting w" "copies (tx_desc_done w d) = copies w" for w d
    by (simp_all add: tx_desc_done_def Let_def split: option.splits)
  then show "wk_dev (fold (\<lambda>d w. tx_desc_done w d) ds w) = wk_dev w"
    "neigh_waiting (fold (\<lambda>d w. tx_desc_done w d) ds w) = neigh_waiting w"
    "copies (fold (\<lambda>d w. tx_desc_done w d) ds w) = copies w"
    by (induction ds arbitrary: w) simp_all
qed

lemma tx_desc_done_fold_nr:
  "pool_nr_desc (desc_pool (fold (\<lambda>d w. tx_desc_done w d) ds w)) = pool_nr_desc (desc_pool w)"
  by (induction ds arbitrary: w) (simp_all add: tx_desc_free_def)

text \<open>The first \<open>n\<close> descriptors are done: they are off the queue and back in the pool.\<close>

definition acked_off :: "nat \<Rightarrow> tpa_worker \<Rightarrow> tcp_sock \<Rightarrow> tpa_worker \<Rightarrow> tcp_sock \<Rightarrow> bool" where
  "acked_off n w t w' t' \<longleftrightarrow> desc_mem w' = desc_mem w \<and> wk_dev w' = wk_dev w \<and> neigh_waiting w' = neigh_waiting w \<and>
     txq_items (txq t') = drop n (txq_items (txq t)) \<and> txq_una (txq t') = txq_una (txq t) + of_nat n \<and>
     pool_free (desc_pool w') = pool_free (desc_pool w) @ take n (txq_items (txq t)) \<and> pool_ok w' t' \<and>
     done_calls w' = done_calls w @ concat (map (\<lambda>d. desc_calls (desc_mem w d)) (take n (txq_items (txq t)))) \<and>
     tx_view (t'\<lparr>txq := txq t, snd_una := snd_una t, partial_ack := partial_ack t\<rparr>) = tx_view t \<and> nr_dupack t' = nr_dupack t \<and>
     copies w' = copies w"

lemma ack_sent_data_inv:
  assumes inv: "snd_inv b A P U X w t" and pool: "pool_ok w t" and a: "0 < a" "U + a \<le> X"
    and r: "ack_sent_data w t (of_nat a) = (r, w', t')"
  obtains n where "n \<le> txq_inflight (txq t)" "at_pos P (snd_q w t) (U + a) n" "acked_off n w t w' t'"
    "snd_inv b A (pos P (snd_q w t) n) (U + a) X w' t'"
proof -
  let ?q = "snd_q w t" and ?items = "txq_items (txq t)"
  note i = inv [unfolded snd_inv_def] and bd = snd_inv_bounds [OF inv]
  have e: "pos P ?q (txq_used (txq t)) = length A" using i sq_ok_end by blast
  obtain w1 t1 nr r1 where l: "ack_loop w t 0 (of_nat a) 0 = (w1, t1, nr, r1)" by (metis prod_cases4)
  define n where "n = unat nr"
  have "at_pos P ?q (U + a) n \<and> w1 = fold (\<lambda>d w. tx_desc_done w d) (take n ?items) w \<and>
    (\<exists>sb. t1 = t\<lparr>snd_una := b + of_nat (U + a), partial_ack := of_nat (U + a - pos P ?q n), sacked_bytes := sb\<rparr>)"
    using ack_loop_at [OF bd(5) _ _ _ _ refl a(1) _ _ l, of b P U] i bd a e by (simp add: n_def sq_ok_def)
  then obtain sb where al: "at_pos P ?q (U + a) n" "w1 = fold (\<lambda>d w. tx_desc_done w d) (take n ?items) w"
    "t1 = t\<lparr>snd_una := b + of_nat (U + a), partial_ack := of_nat (U + a - pos P ?q n), sacked_bytes := sb\<rparr>" by blast
  have n: "n \<le> txq_inflight (txq t)"
  proof (rule ccontr)
    assume "\<not> n \<le> txq_inflight (txq t)"
    then have "pos P ?q (Suc (txq_inflight (txq t))) \<le> pos P ?q n" "txq_inflight (txq t) < txq_used (txq t)"
      using al(1) by (auto simp: at_pos_def intro: pos_mono)
    then show False using i al(1) a by (auto simp: at_pos_def)
  qed
  have nu: "n \<le> txq_used (txq t)" using n txq_wfD(4) [OF bd(5)] by simp
  have q1: "\<not> txq_nxt (txq t1) - txq_una (txq t1) < nr" using n by (simp add: al(3) word_less_nat_alt n_def txq_inflight_def)
  define t2 where "t2 = t1\<lparr>txq := tcp_txq_update_una (txq t1) nr\<rparr>"
  note u = tcp_txq_update_una_drop [of "txq t" nr, OF bd(5) n [unfolded n_def]]
  have t2q: "txq_wf (txq t2)" "txq_items (txq t2) = drop n ?items" "txq_inflight (txq t2) = txq_inflight (txq t) - n"
    "txq_una (txq t2) = txq_una (txq t) + of_nat n"
    using u by (simp_all add: t2_def al(3) n_def) (simp add: tcp_txq_update_una_def)
  obtain w3 t3 where ev: "(if tcp_txq_free_count (txq t2) \<noteq> 0 then tsock_event_add w1 t2 TPA_EVENT_OUT else (w1, t2)) = (w3, t3)" by fastforce
  have "ack_sent_data w t (of_nat a) = (r1, w3, t3)"
    unfolding ack_sent_data_def Let_def l prod.case if_not_P [OF q1] t2_def [symmetric] ev ..
  then have res: "w' = w3" "t' = t3" using r by simp_all
  have fr: "tx_view t3 = tx_view t2 \<and> desc_mem w3 = desc_mem w1 \<and> desc_pool w3 = desc_pool w1 \<and> done_calls w3 = done_calls w1 \<and>
    wk_dev w3 = wk_dev w1 \<and> neigh_waiting w3 = neigh_waiting w1 \<and> nr_dupack t3 = nr_dupack t2 \<and> copies w3 = copies w1"
    using ev tsock_event_add_frame [of w1 t2 TPA_EVENT_OUT w3 t3] by (auto split: if_splits)
  have q3: "txq t3 = txq t2" using fr by (simp add: tx_view_def)
  have m1: "desc_mem w1 = desc_mem w" "done_calls w1 = done_calls w @ concat (map (\<lambda>d. desc_calls (desc_mem w d)) (take n ?items))"
    "wk_dev w1 = wk_dev w" "neigh_waiting w1 = neigh_waiting w" "copies w1 = copies w"
    unfolding al(2) by (simp_all add: tx_desc_done_fold tx_desc_done_fold_dev)
  have pl: "pool_wf (desc_pool w1)" "pool_free (desc_pool w1) = pool_free (desc_pool w) @ take n ?items"
    "pool_nr_desc (desc_pool w1) = pool_nr_desc (desc_pool w)"
    using tx_desc_done_pool [of w "take n ?items"] pool nu unfolding al(2) pool_ok_def by (simp_all add: tx_desc_done_fold_nr)
  have pf: "pool_free (desc_pool w1) @ drop n ?items = pool_free (desc_pool w) @ ?items" unfolding pl(2) by simp
  have pk: "pool_ok w' t'"
  proof -
    have "txq_used (txq t') = txq_used (txq t) - n" using t2q(2) by (metis length_drop length_txq_items q3 res(2))
    then show ?thesis using pool pl pf nu t2q(2) fr
      by (simp add: pool_ok_def res q3 del: distinct_append append_take_drop_id)
  qed
  have off: "acked_off n w t w' t'"
    using fr m1 t2q pl pk by (simp add: acked_off_def res q3) (simp add: tx_view_def t2_def al(3))
  define P' where "P' = pos P ?q n"
  have sq': "snd_q w' t' = drop n ?q" using fr m1 t2q by (simp add: snd_q_def res q3 drop_map)
  have dA: "runs (drop n ?q) = drop P' A"
  proof -
    have "runs ?q = runs (take n ?q) @ runs (drop n ?q)" by (metis append_take_drop_id concat_append map_append runs_def)
    then have "runs (drop n ?q) = drop (length (runs (take n ?q))) (runs ?q)" by simp
    then have "runs (drop n ?q) = drop (length (runs (take n ?q))) (drop P A)" using i by (simp only: sq_ok_def)
    then show ?thesis using runs_take [of n ?q P] by (simp add: P'_def)
  qed
  have "snd_inv b A P' (U + a) X w' t'"
  proof -
    have p: "P \<le> P'" "P' \<le> length A" using sq_ok_pos_le [of b P A w t n] i by (simp_all add: P'_def pos_def)
    have ch: "chain b P' (drop n ?q)" using chain_drop i by (auto simp: sq_ok_def P'_def)
    have used': "txq_used (txq t') = txq_used (txq t) - n" using t2q(2) by (metis length_drop length_txq_items q3 res(2))
    have f': "txq_wf (txq t')" "txq_items (txq t') = drop n ?items" "desc_mem w' = desc_mem w" using t2q fr m1 by (simp_all add: res q3)
    have "sq_ok b P' A w' t'" using p ch dA f'(1) i by (auto simp: sq_ok_def sq')
    moreover have "at_pos P' (drop n ?q) (U + a) 0" using al(1) pos_drop [of P ?q n "Suc 0"] by (auto simp: at_pos_def P'_def)
    moreover have "at_pos P' (drop n ?q) X (txq_inflight (txq t) - n)"
      using i n pos_drop [of P ?q n "txq_inflight (txq t) - n"] pos_drop [of P ?q n "Suc (txq_inflight (txq t) - n)"]
      by (auto simp: at_pos_def P'_def Suc_diff_le)
    moreover have "sacked_below P' X w' t'"
      using i nu pos_drop [of P ?q n]
      by (auto simp: sacked_below_def sq' P'_def used' f' sacked_def less_diff_conv add.commute)
    moreover have "data_seq_nxt t' = data_seq_nxt t" "snd_nxt t' = snd_nxt t" "snd_una t' = b + of_nat (U + a)"
      "partial_ack t' = of_nat (U + a - P')" "txq_inflight (txq t') = txq_inflight (txq t) - n"
      using fr t2q(3) by (simp_all add: res q3 tx_view_def t2_def al(3) P'_def)
    ultimately show ?thesis using i a by (simp add: snd_inv_def sq')
  qed
  then show thesis using that n al(1) off by (simp add: P'_def)
qed

section \<open>Selective acknowledgements\<close>

definition flagged :: "tpa_worker \<Rightarrow> tpa_worker \<Rightarrow> bool" where
  "flagged w w' \<longleftrightarrow> (\<exists>f. w' = w\<lparr>desc_mem := (\<lambda>d. (desc_mem w d)\<lparr>desc_flags := f d\<rparr>)\<rparr>)"

lemma flagged_refl [simp]: "flagged w w"
  unfolding flagged_def by (intro exI [of _ "\<lambda>d. desc_flags (desc_mem w d)"]) simp

lemma flagged_trans: "flagged w w1 \<Longrightarrow> flagged w1 w2 \<Longrightarrow> flagged w w2"
  by (auto simp: flagged_def)

lemma flagged_snd_q: "flagged w w' \<Longrightarrow> txq t' = txq t \<Longrightarrow> snd_q w' t' = snd_q w t"
  by (auto simp: flagged_def snd_q_def dcore_def)

lemma flagged_mark: "flagged w (desc_mark w d f)"
  unfolding flagged_def desc_mark_def
  by (intro exI [of _ "(\<lambda>e. desc_flags (desc_mem w e))(d := desc_flags (desc_mem w d) OR f)"]) (simp add: fun_eq_iff)

lemma sacked_mark: "sacked (desc_mark w d TX_DESC_FLAG_SACKED) e \<longleftrightarrow> e = d \<or> sacked w e"
  by (auto simp: sacked_def desc_mark_def tx_desc_flag_defs bit.conj_disj_distrib2)

lemma mark_desc_sacked_frame:
  assumes "mark_desc_sacked w t d = (w', t')"
  shows "flagged w w' \<and> (\<exists>sb. t' = t\<lparr>sacked_bytes := sb\<rparr>) \<and> (\<forall>e. sacked w' e \<longleftrightarrow> e = d \<or> sacked w e)"
proof (cases "sacked w d")
  case True
  then have "w' = w" "t' = t" using assms by (auto simp: mark_desc_sacked_def sacked_def)
  then show ?thesis using True by (auto intro: exI [of _ "sacked_bytes t"])
next
  case False
  then have "w' = desc_mark w d TX_DESC_FLAG_SACKED" "\<exists>sb. t' = t\<lparr>sacked_bytes := sb\<rparr>"
    using assms by (auto simp: mark_desc_sacked_def sacked_def)
  then show ?thesis by (simp add: flagged_mark sacked_mark)
qed

text \<open>Only descriptors that end before what has been sent are marked.\<close>

lemma sack_walk_inv:
  assumes "sq_ok b P A w t" "distinct (txq_items (txq t))" "sacked_below P X w t" "snd_nxt t = b + of_nat X" "P \<le> X" "X \<le> length A"
    "sack_walk w t blk off = (w', t', off')"
  shows "flagged w w' \<and> (\<exists>sb. t' = t\<lparr>sacked_bytes := sb\<rparr>) \<and> sacked_below P X w' t'"
  using assms
proof (induction w t blk off rule: sack_walk.induct)
  case (1 w t blk off)
  have wf: "txq_wf (txq t)" and ch: "chain b P (snd_q w t)" using "1.prems"(1) by (simp_all add: sq_ok_def)
  have triv: ?case if "w' = w" "t' = t" using that "1.prems"(3) by (auto intro: exI [of _ "sacked_bytes t"])
  have pk: "tcp_txq_peek_for_write (txq t) (txq_una (txq t)) off = (if unat off < txq_used (txq t) then Some (txq_items (txq t) ! unat off) else None)"
    using tcp_txq_peek_for_write_nth [OF wf, of "txq_una (txq t)" off] by simp
  show ?case
  proof (cases "unat off < txq_used (txq t)")
    case False
    then have "sack_walk w t blk off = (w, t, off + 1)" using pk by (subst sack_walk.simps) simp
    then have "w' = w" "t' = t" using "1.prems"(7) by simp_all
    then show ?thesis by (rule triv)
  next
    case True
    define d where "d = txq_items (txq t) ! unat off"
    define e where "e = desc_seq (desc_mem w d) + desc_len (desc_mem w d)"
    have e: "e = b + of_nat (pos P (snd_q w t) (Suc (unat off)))" using desc_end_pos(1) [OF ch True d_def] by (simp add: e_def)
    have pb: "P \<le> pos P (snd_q w t) (Suc (unat off))" "pos P (snd_q w t) (Suc (unat off)) \<le> length A" "length A < P + 2 ^ 30"
      using sq_ok_pos_le [OF "1.prems"(1)] "1.prems"(1) by (simp_all add: pos_def sq_ok_def)
    have "\<bar>int (pos P (snd_q w t) (Suc (unat off))) - int X\<bar> < 2 ^ 31" using pb "1.prems"(5,6) by simp
    then have ge: "seq_ge e (snd_nxt t) \<longleftrightarrow> pos P (snd_q w t) (Suc (unat off)) \<ge> X" unfolding e "1.prems"(4) by (rule seq_pos_nat)
    show ?thesis
    proof (cases "seq_ge e (snd_nxt t) \<or> seq_ge e (blk_end blk)")
      case stop: True
      then have "sack_walk w t blk off = (w, t, off + 1)"
        using pk True by (subst sack_walk.simps) (auto simp: Let_def d_def [symmetric] e_def [symmetric])
      then have "w' = w" "t' = t" using "1.prems"(7) by simp_all
    then show ?thesis by (rule triv)
    next
      case False
      obtain w1 t1 where m: "(if seq_ge (desc_seq (desc_mem w d)) (blk_start blk) then mark_desc_sacked w t d else (w, t)) = (w1, t1)" by fastforce
      have f: "flagged w w1 \<and> (\<exists>sb. t1 = t\<lparr>sacked_bytes := sb\<rparr>) \<and> (\<forall>v. sacked w1 v \<longrightarrow> v = d \<or> sacked w v)"
        using m mark_desc_sacked_frame [of w t d w1 t1] by (auto split: if_splits intro: exI [of _ "sacked_bytes t"])
      then have q: "txq t1 = txq t" "snd_nxt t1 = snd_nxt t" by auto
      have sq: "snd_q w1 t1 = snd_q w t" using f flagged_snd_q q by blast
      have st: "sack_walk w1 t1 blk (off + 1) = (w', t', off')"
        using "1.prems"(7) pk True False m by (subst (asm) sack_walk.simps) (simp add: Let_def d_def [symmetric] e_def [symmetric])
      have sb: "sacked_below P X w1 t1"
        unfolding sacked_below_def
      proof (intro allI impI)
        fix i
        assume i: "i < txq_used (txq t1)" "sacked w1 (txq_items (txq t1) ! i)"
        then consider "txq_items (txq t) ! i = d" | "sacked w (txq_items (txq t) ! i)" using f q by auto
        then show "pos P (snd_q w1 t1) (Suc i) \<le> X"
        proof cases
          case 1
          then have "i = unat off" using "1.prems"(2) i(1) True q by (simp add: d_def nth_eq_iff_index_eq)
          then show ?thesis using False ge sq by simp
        next
          case 2
          then show ?thesis using "1.prems"(3) i(1) q sq by (simp add: sacked_below_def)
        qed
      qed
      have "flagged w1 w' \<and> (\<exists>sb. t' = t1\<lparr>sacked_bytes := sb\<rparr>) \<and> sacked_below P X w' t'"
        by (rule "1.IH" [OF _ refl refl _ _ m [symmetric]])
          (use "1.prems" q sq st sb pk True False in \<open>auto simp: sq_ok_def d_def e_def\<close>)
      then show ?thesis using f flagged_trans by auto
    qed
  qed
qed

lemma sack_blocks_loop_inv:
  assumes "sq_ok b P A w t" "distinct (txq_items (txq t))" "sacked_below P X w t" "snd_nxt t = b + of_nat X" "P \<le> X" "X \<le> length A"
    "sack_blocks_loop w t bs off = (w', t')"
  shows "flagged w w' \<and> (\<exists>sb. t' = t\<lparr>sacked_bytes := sb\<rparr>) \<and> sacked_below P X w' t'"
  using assms
proof (induction bs arbitrary: w t off)
  case Nil
  then show ?case by (auto intro: exI [of _ "sacked_bytes t"])
next
  case (Cons blk bs)
  show ?case
  proof (cases "seq_gt (blk_end blk) (snd_nxt t)")
    case True
    then have st: "sack_blocks_loop w t bs off = (w', t')" using Cons.prems(7) by simp
    show ?thesis by (rule Cons.IH [OF Cons.prems(1-6) st])
  next
    case False
    obtain w1 t1 off1 where s: "sack_walk w t blk off = (w1, t1, off1)" by (metis prod_cases3)
    have st: "sack_blocks_loop w1 t1 bs off1 = (w', t')" using Cons.prems(7) s False by simp
    have f: "flagged w w1 \<and> (\<exists>sb. t1 = t\<lparr>sacked_bytes := sb\<rparr>) \<and> sacked_below P X w1 t1"
      by (rule sack_walk_inv [OF Cons.prems(1-6) s])
    then have q: "txq t1 = txq t" "snd_nxt t1 = snd_nxt t" by auto
    have sq: "snd_q w1 t1 = snd_q w t" using f flagged_snd_q q by blast
    have "flagged w1 w' \<and> (\<exists>sb. t' = t1\<lparr>sacked_bytes := sb\<rparr>) \<and> sacked_below P X w' t'"
      by (rule Cons.IH [OF _ _ _ _ _ _ st]) (use Cons.prems q sq f in \<open>auto simp: sq_ok_def\<close>)
    then show ?thesis using f flagged_trans by auto
  qed
qed

lemma tcp_rcv_sack_inv:
  assumes inv: "snd_inv b A P U X w t" and pool: "pool_ok w t" and r: "tcp_rcv_sack w t opts = (w', t')"
  shows "snd_inv b A P U X w' t' \<and> pool_ok w' t' \<and> flagged w w' \<and> (\<exists>sb. t' = t\<lparr>sacked_bytes := sb\<rparr>)"
proof -
  note i = inv [unfolded snd_inv_def] and bd = snd_inv_bounds [OF inv]
  have d: "distinct (txq_items (txq t))" using pool by (simp add: pool_ok_def)
  have f: "flagged w w' \<and> (\<exists>sb. t' = t\<lparr>sacked_bytes := sb\<rparr>) \<and> sacked_below P X w' t'"
  proof (cases "sort_sack (opt_sack_blocks opts)")
    case (Pair e bs)
    show ?thesis
    proof (cases e)
      case None
      have "sack_blocks_loop w t bs 0 = (w', t')" using r Pair None by (simp add: tcp_rcv_sack_def)
      then show ?thesis using i bd d by (intro sack_blocks_loop_inv [where b = b and A = A and off = 0 and bs = bs]) simp_all
    next
      case (Some c)
      then have "w' = w" "t' = t" using r Pair by (simp_all add: tcp_rcv_sack_def)
      then show ?thesis using i by (auto intro: exI [of _ "sacked_bytes t"])
    qed
  qed
  then have sq: "snd_q w' t' = snd_q w t" using flagged_snd_q [of w w' t' t] by auto
  have "pool_ok w' t'" using pool f by (auto simp: pool_ok_def flagged_def)
  moreover have "snd_inv b A P U X w' t'" using i f sq by (auto simp: snd_inv_def sq_ok_def)
  ultimately show ?thesis using f by blast
qed

end
