(* ===== verification/Snd_Recover.thy ===== *)
theory Snd_Recover
  imports Snd_Ack
begin

text \<open>
  Loss recovery: duplicate acknowledgements, fast retransmission, the retransmission timer, and the
  whole treatment of an acknowledgement that is inside the window.
\<close>

section \<open>Steps that leave the send side alone\<close>

lemma set_cwnd_view: "tx_view (set_cwnd E t c) = tx_view t" "nr_dupack (set_cwnd E t c) = nr_dupack t"
  by (simp_all add: set_cwnd_def tx_view_def)

lemma rtt_smooth_view: "tx_view (rtt_smooth t r) = tx_view t" "nr_dupack (rtt_smooth t r) = nr_dupack t"
  unfolding rtt_smooth_def Let_def by (cases "srtt t = 0"; simp add: tx_view_def)+

lemma tcp_rtt_update_view: "tx_view (tcp_rtt_update E t r) = tx_view t" "nr_dupack (tcp_rtt_update E t r) = nr_dupack t"
proof -
  have v: "tx_view (t\<lparr>rto := x\<rparr>) = tx_view t" "tx_view (t\<lparr>rtt := y\<rparr>) = tx_view t" for t :: tcp_sock and x y
    by (simp_all add: tx_view_def)
  show "tx_view (tcp_rtt_update E t r) = tx_view t" "nr_dupack (tcp_rtt_update E t r) = nr_dupack t"
    by (simp_all add: tcp_rtt_update_def Let_def v rtt_smooth_view)
qed

lemma update_cwnd_view: "tx_view (update_cwnd E w t a) = tx_view t" "nr_dupack (update_cwnd E w t a) = nr_dupack t"
proof -
  have v: "tx_view (t\<lparr>snd_cwnd_uncommited := x\<rparr>) = tx_view t" "tx_view (t\<lparr>snd_cwnd_ts_us := y\<rparr>) = tx_view t"
    for t :: tcp_sock and x y by (simp_all add: tx_view_def)
  show "tx_view (update_cwnd E w t a) = tx_view t" "nr_dupack (update_cwnd E w t a) = nr_dupack t"
    unfolding update_cwnd_def Let_def by (simp_all add: v set_cwnd_view)
qed

lemma count_dupack_view: "tx_view (count_dupack t p) = tx_view t"
  by (simp add: count_dupack_def tx_view_def)

lemma rcv_ack_wnd_view: "tx_view (rcv_ack_wnd t p) = tx_view t"
  by (simp add: rcv_ack_wnd_def tx_view_def)

text \<open>A step that changes neither the send side of the socket nor the descriptors.\<close>

definition still :: "tpa_worker \<Rightarrow> tpa_worker \<Rightarrow> bool" where
  "still w w' \<longleftrightarrow> mem_same w w' \<and> wk_dev w' = wk_dev w \<and> neigh_waiting w' = neigh_waiting w"

lemma still_refl [simp]: "still w w"
  by (simp add: still_def)

lemma still_timer [simp]: "still w (wk_timer_start w t k now e)" "still w (wk_timer_stop w t k)" "still w (tsock_rearm_timer_rto w t now)"
  "still w (output_tsock_enqueue w t)"
  by (simp_all add: still_def mem_same_def wk_timer_start_def wk_timer_stop_def tsock_rearm_timer_rto_def output_tsock_enqueue_def)

lemma still_emits: "still w w' \<Longrightarrow> emits Q w w'"
  by (simp add: still_def emits_same)

lemma still_trans: "still w w1 \<Longrightarrow> still w1 w2 \<Longrightarrow> still w w2"
  using mem_same_trans by (auto simp: still_def)

lemma pool_ok_frame: "mem_same w w' \<Longrightarrow> txq t' = txq t \<Longrightarrow> pool_ok w' t' = pool_ok w t"
  by (simp add: pool_ok_def mem_same_def)

text \<open>The callbacks that the descriptors owe stay the same.\<close>

definition calls_same :: "tpa_worker \<Rightarrow> tpa_worker \<Rightarrow> bool" where
  "calls_same w w' \<longleftrightarrow> (\<forall>d. desc_calls (desc_mem w' d) = desc_calls (desc_mem w d))"

lemma calls_same_mem: "desc_mem w' = desc_mem w \<Longrightarrow> calls_same w w'"
  by (simp add: calls_same_def)

lemma calls_same_trans: "calls_same w w1 \<Longrightarrow> calls_same w1 w2 \<Longrightarrow> calls_same w w2"
  by (simp add: calls_same_def)

lemma desc_same_calls: "desc_same d e \<Longrightarrow> desc_calls e = desc_calls d"
  by (auto simp: desc_same_def desc_calls_def split: option.splits)

lemma mem_same_calls: "mem_same w w' \<Longrightarrow> calls_same w w'"
  using desc_same_calls by (auto simp: mem_same_def calls_same_def)

lemma flagged_calls: "flagged w w' \<Longrightarrow> calls_same w w'"
  by (auto simp: flagged_def calls_same_def desc_calls_def split: option.splits)

section \<open>Where recovery stands\<close>

definition recov :: "u32 \<Rightarrow> nat \<Rightarrow> nat \<Rightarrow> nat \<Rightarrow> tpa_worker \<Rightarrow> tcp_sock \<Rightarrow> nat \<Rightarrow> nat \<Rightarrow> bool" where
  "recov b P U X w t V R \<longleftrightarrow> snd_recover t = b + of_nat V \<and> V \<le> X \<and> X < V + 2 ^ 30 \<and>
     retrans_seq t = b + of_nat R \<and> V < R + 2 ^ 31 \<and> (U \<le> R \<longrightarrow> retr_from b P X w t R)"

text \<open>While an acknowledgement is treated, the data up to \<open>U\<close> is acknowledged but the recovery may
  not have been ended yet.\<close>

definition snd_mid :: "u32 \<Rightarrow> u64 list \<Rightarrow> nat \<Rightarrow> nat \<Rightarrow> nat \<Rightarrow> tpa_worker \<Rightarrow> tcp_sock \<Rightarrow> bool" where
  "snd_mid b A P U X w t \<longleftrightarrow> snd_inv b A P U X w t \<and> pool_ok w t \<and>
     (retrans_stage t \<noteq> NONE \<longrightarrow> (\<exists>V R. recov b P U X w t V R))"

definition snd_ok :: "u32 \<Rightarrow> u64 list \<Rightarrow> nat \<Rightarrow> nat \<Rightarrow> nat \<Rightarrow> tpa_worker \<Rightarrow> tcp_sock \<Rightarrow> bool" where
  "snd_ok b A P U X w t \<longleftrightarrow> snd_inv b A P U X w t \<and> pool_ok w t \<and>
     (retrans_stage t \<noteq> NONE \<longrightarrow> (\<exists>V R. recov b P U X w t V R \<and> U \<le> V))"

lemma snd_ok_mid: "snd_ok b A P U X w t \<Longrightarrow> snd_mid b A P U X w t"
  by (auto simp: snd_ok_def snd_mid_def)

lemma recov_frame:
  assumes "mem_same w w'" "tx_view t' = tx_view t"
  shows "recov b P U X w' t' V R = recov b P U X w t V R"
  using assms mem_same_snd_q [OF assms(1), of t' t] by (simp add: recov_def retr_from_def tx_view_def)

lemma nat_close: "u \<le> x \<Longrightarrow> x < v + 2 ^ 30 \<Longrightarrow> v \<le> x \<Longrightarrow> x < u + 2 ^ 30 \<Longrightarrow> \<bar>int u - int v\<bar> < 2 ^ 31"
  by (simp add: abs_less_iff)

lemma snd_mid_frame:
  assumes "mem_same w w'" "tx_view t' = tx_view t"
  shows "snd_mid b A P U X w' t' = snd_mid b A P U X w t"
  using snd_inv_frame [OF assms(1) tx_view_snd_view [OF assms(2)]] pool_ok_frame [OF assms(1), of t' t] recov_frame [OF assms] assms(2)
  by (simp add: snd_mid_def tx_view_def)

lemma snd_ok_frame:
  assumes "mem_same w w'" "tx_view t' = tx_view t"
  shows "snd_ok b A P U X w' t' = snd_ok b A P U X w t"
  using snd_inv_frame [OF assms(1) tx_view_snd_view [OF assms(2)]] pool_ok_frame [OF assms(1), of t' t] recov_frame [OF assms] assms(2)
  by (simp add: snd_ok_def tx_view_def)

lemma recov_retr_at:
  assumes "recov b P U X w t V R" "U \<le> V"
  shows "retr_at b P U X w t"
  using assms by (auto simp: recov_def retr_at_def intro!: exI [of _ R])

text \<open>After a retransmission.\<close>

lemma resent_recov:
  assumes r: "resent b A P U X w t w' t'" and i: "snd_inv b A P U X w t" and p: "pool_ok w t"
    and V: "snd_recover t = b + of_nat V" "V \<le> X" "X < V + 2 ^ 30"
  shows "snd_inv b A P U X w' t' \<and> pool_ok w' t' \<and> (\<exists>R. recov b P U X w' t' V R)"
proof -
  obtain R where R: "U \<le> R" "retr_from b P X w' t' R" using r by (auto simp: resent_def)
  have s: "txq t' = txq t" "snd_recover t' = snd_recover t" "mem_same w w'" using r by (auto simp: resent_def retr_same_def tx_view_def)
  have "P \<le> U" "X \<le> length A" "length A < P + 2 ^ 30" using snd_inv_bounds [OF i] by simp_all
  then have "V < R + 2 ^ 31" using V R(1) by simp
  then have "recov b P U X w' t' V R" using R V s by (simp add: recov_def) (simp add: retr_from_def)
  then show ?thesis using resent_inv [OF r i] p pool_ok_frame [OF s(3,1)] by blast
qed

section \<open>Fast retransmission\<close>

lemma still_mid: "still w w' \<Longrightarrow> tx_view t' = tx_view t \<Longrightarrow> snd_mid b A P U X w' t' = snd_mid b A P U X w t"
  by (simp add: still_def snd_mid_frame)

lemma leave_mid:
  assumes "snd_mid b A P U X w t" "snd_view t' = snd_view t" "retrans_stage t' = NONE"
  shows "snd_mid b A P U X w t'"
  using assms snd_inv_frame [OF mem_same_refl assms(2)] pool_ok_frame [OF mem_same_refl, of t' t]
  by (simp add: snd_mid_def snd_view_def)

lemma leave_fast_retrans_mid:
  "snd_mid b A P U X w t \<Longrightarrow> snd_mid b A P U X w (leave_fast_retrans E t c)"
  by (rule leave_mid) (simp_all add: leave_fast_retrans_def set_cwnd_def snd_view_def)

definition calm :: "tpa_worker \<Rightarrow> tcp_sock \<Rightarrow> tpa_worker \<Rightarrow> tcp_sock \<Rightarrow> bool" where
  "calm w t w' t' \<longleftrightarrow> mem_same w w' \<and> txq t' = txq t"

lemma calm_trans: "calm w t w1 t1 \<Longrightarrow> calm w1 t1 w2 t2 \<Longrightarrow> calm w t w2 t2"
  using mem_same_trans by (auto simp: calm_def)

lemma resent_calm: "resent b A P U X w t w' t' \<Longrightarrow> calm w t w' t'"
  by (simp add: resent_def retr_same_def tx_view_def calm_def)

lemma calm_view: "tx_view t1 = tx_view t \<Longrightarrow> calm w t1 w' t' = calm w t w' t'"
  by (simp add: tx_view_def calm_def)

lemma enter_fast_retrans_mid:
  assumes i: "snd_inv b A P U X w t" and p: "pool_ok w t" and r: "enter_fast_retrans E w t = (w', t')"
  shows "snd_mid b A P U X w' t' \<and> emits (carries b A U X) w w' \<and> calm w t w' t'"
proof -
  define t1 where "t1 = t\<lparr>snd_ssthresh := max (snd_cwnd t div 2) (2 * ucast (snd_mss t)), snd_recover := snd_nxt t, snd_cwnd_orig := snd_cwnd t\<rparr>"
  define t2 where "t2 = (set_cwnd E t1 (snd_cwnd t1 + ucast (nr_dupack t1) * ucast (snd_mss t1)))\<lparr>retrans_stage := FAST_RETRANS\<rparr>"
  define t3 where "t3 = tcp_reset_retrans t2 (snd_una t2) (txq_una (txq t2))"
  obtain w1 t4 where f: "tcp_fast_retrans E w t3 (uint (snd_mss t3)) = (w1, t4)" by fastforce
  have res: "w' = w1" "t' = (if ts_ok t4 then t4\<lparr>retrans_ts_val := us_to_tcp_ts (ts_us w1)\<rparr> else t4)"
    using r unfolding enter_fast_retrans_def Let_def t1_def [symmetric] t2_def [symmetric] t3_def [symmetric] f prod.case by simp_all
  have v2: "snd_view t2 = snd_view t" "snd_recover t2 = snd_nxt t" by (simp_all add: t2_def t1_def set_cwnd_def snd_view_def)
  have i2: "snd_inv b A P U X w t2" using i snd_inv_frame [OF mem_same_refl v2(1)] by simp
  note rs = reset_retrans_at [OF i2, folded t3_def]
  have i3: "snd_inv b A P U X w t3" using i2 retr_same_snd_inv [OF rs(2)] by simp
  have q: "txq t3 = txq t" "snd_recover t3 = b + of_nat X" using rs(2) v2 i by (simp_all add: retr_same_def tx_view_def snd_view_def snd_inv_def)
  have "retr_at b P U X w t3" using rs(1) by (auto simp: retr_at_def retr_from_def)
  from tcp_fast_retrans_inv [OF i3 this f] have rr: "resent b A P U X w t3 w1 t4" .
  have bd: "X < X + 2 ^ 30" by simp
  from resent_recov [OF rr i3 _ q(2) order_refl bd] p have m: "snd_inv b A P U X w1 t4 \<and> pool_ok w1 t4 \<and> (\<exists>R. recov b P U X w1 t4 X R)"
    using pool_ok_frame [OF mem_same_refl q(1)] by simp
  have "tx_view t' = tx_view t4" by (simp add: res tx_view_def)
  then have "snd_mid b A P U X w1 t' = snd_mid b A P U X w1 t4" by (rule snd_mid_frame [OF mem_same_refl])
  moreover have "calm w t w1 t'" using resent_calm [OF rr] q(1) res(2) by (simp add: calm_def)
  ultimately show ?thesis using m rr res(1) by (auto simp: snd_mid_def resent_def)
qed

lemma in_fast_retrans_mid:
  assumes m: "snd_mid b A P U X w t" and st: "retrans_stage t = FAST_RETRANS" and a: "pkt_ack p = b + of_nat U"
    and r: "in_fast_retrans E w t p acked = (w', t')"
  shows "snd_mid b A P U X w' t' \<and> emits (carries b A U X) w w' \<and> calm w t w' t'"
proof -
  have i: "snd_inv b A P U X w t" "pool_ok w t" using m by (simp_all add: snd_mid_def)
  obtain V R where V: "recov b P U X w t V R" using m st by (auto simp: snd_mid_def)
  note bd = snd_inv_bounds [OF i(1)]
  have "\<bar>int U - int V\<bar> < 2 ^ 31" using bd V by (intro nat_close [of U X V]) (simp_all add: recov_def)
  then have lt: "seq_lt (pkt_ack p) (snd_recover t) \<longleftrightarrow> U < V" using V a seq_pos_nat(1) by (simp add: recov_def)
  show ?thesis
  proof (cases "acked \<noteq> 0 \<and> U < V \<and> \<not> (retrans_ts_val t \<noteq> 0 \<and> seq_lt (pkt_ts_ecr p) (retrans_ts_val t))")
    case False
    have "\<exists>c. in_fast_retrans E w t p acked = (w, set_cwnd E t c) \<or> in_fast_retrans E w t p acked = (w, leave_fast_retrans E t c)"
    proof (cases "acked = 0")
      case True
      then show ?thesis unfolding in_fast_retrans_def Let_def by auto
    next
      case ne: False
      then show ?thesis using False unfolding in_fast_retrans_def lt by (cases "U < V") auto
    qed
    then consider c where "(w', t') = (w, set_cwnd E t c)" | c where "(w', t') = (w, leave_fast_retrans E t c)" using r by auto
    then show ?thesis
    proof cases
      case 1
      then show ?thesis using m snd_mid_frame [OF mem_same_refl set_cwnd_view(1)] by (simp add: calm_def set_cwnd_def)
    next
      case 2
      then show ?thesis using leave_fast_retrans_mid [OF m] by (simp add: calm_def leave_fast_retrans_def set_cwnd_def)
    qed
  next
    case True
    define t1 where "t1 = t\<lparr>retrans_ts_val := 0\<rparr>"
    define t2 where "t2 = set_cwnd E t1 (max (snd_cwnd_orig t1) (snd_cwnd t1 - acked))"
    define bud where "bud = (if sack_ok t2 then sint (min (sacked_bytes t2) (snd_ssthresh t2)) else uint (snd_mss t2))"
    obtain w1 t3 where f: "tcp_fast_retrans E w t2 bud = (w1, t3)" by fastforce
    have res: "w' = wk_timer_start w1 t3 TimerRto (ts_us w1) (ucast (rto t3))" "t' = t3"
      using r True
      unfolding in_fast_retrans_def lt Let_def t1_def [symmetric] t2_def [symmetric] bud_def [symmetric] f prod.case by auto
    have v: "tx_view t2 = tx_view t" by (simp add: t2_def t1_def set_cwnd_def tx_view_def)
    have i2: "snd_inv b A P U X w t2" "pool_ok w t2" "recov b P U X w t2 V R"
      using i V snd_inv_frame [OF mem_same_refl tx_view_snd_view [OF v]] pool_ok_frame [OF mem_same_refl tx_view_txq [OF v]]
        recov_frame [OF mem_same_refl v] by simp_all
    have rr: "resent b A P U X w t2 w1 t3"
      using tcp_fast_retrans_inv [OF i2(1) recov_retr_at [OF i2(3)] f] True by simp
    from resent_recov [OF rr i2(1,2), of V] i2(3) have "snd_inv b A P U X w1 t3 \<and> pool_ok w1 t3 \<and> (\<exists>R. recov b P U X w1 t3 V R)"
      by (simp add: recov_def)
    then have "snd_mid b A P U X w1 t3" by (auto simp: snd_mid_def)
    then have "snd_mid b A P U X w' t'" using still_mid [of w1 w' t' t3] res by simp
    moreover have "emits (carries b A U X) w w'"
      using rr still_emits [of w1 w'] res emits_trans by (auto simp: resent_def)
    moreover have "calm w t w' t'"
      using resent_calm [OF rr] tx_view_txq [OF v] still_timer(1) [of w1 t3 TimerRto "ts_us w1" "ucast (rto t3)"] mem_same_trans [of w w1]
      by (simp add: calm_def still_def res)
    ultimately show ?thesis by simp
  qed
qed

lemma handle_fast_retransmit_mid:
  assumes m: "snd_mid b A P U X w t" and a: "pkt_ack p = b + of_nat U" and r: "handle_fast_retransmit E w t p acked = (w', t')"
  shows "snd_mid b A P U X w' t' \<and> emits (carries b A U X) w w' \<and> calm w t w' t'"
proof (cases "nr_dupack t < 3 \<and> retrans_stage t \<noteq> FAST_RETRANS")
  case True
  then show ?thesis using r m by (simp add: handle_fast_retransmit_def calm_def)
next
  case False
  obtain w1 t1 where e: "(if retrans_stage t = NONE \<and> seq_gt (pkt_ack p) (snd_recover t) then enter_fast_retrans E w t else (w, t)) = (w1, t1)"
    by fastforce
  have m1: "snd_mid b A P U X w1 t1 \<and> emits (carries b A U X) w w1 \<and> calm w t w1 t1"
    using e m enter_fast_retrans_mid [of b A P U X w t E w1 t1] by (auto simp: snd_mid_def calm_def split: if_splits)
  show ?thesis
  proof (cases "retrans_stage t1 = FAST_RETRANS")
    case True
    then have "in_fast_retrans E w1 t1 p acked = (w', t')" using r False e by (auto simp: handle_fast_retransmit_def)
    then show ?thesis using in_fast_retrans_mid [OF _ True a] m1 emits_trans calm_trans by blast
  next
    case ne: False
    then show ?thesis using r False e m1 by (auto simp: handle_fast_retransmit_def)
  qed
qed

lemma rcv_ack_recover_ok:
  assumes m: "snd_mid b A P U X w t" and a: "pkt_ack p = b + of_nat U" and r: "rcv_ack_recover E w t p l = (w', t')"
  shows "snd_ok b A P U X w' t' \<and> emits (carries b A U X) w w' \<and> calm w t w' t'"
proof (cases "retrans_stage t = NONE")
  case True
  have "snd_mid b A P U X w t'" "retrans_stage t' = NONE" "w' = w"
    using r True leave_mid [OF m, of t'] by (auto simp: rcv_ack_recover_def snd_view_def split: if_splits)
  moreover have "txq t' = txq t" using r True by (auto simp: rcv_ack_recover_def split: if_splits)
  ultimately show ?thesis by (simp add: snd_mid_def snd_ok_def calm_def)
next
  case False
  obtain V R where V: "recov b P U X w t V R" using m False by (auto simp: snd_mid_def)
  have i: "snd_inv b A P U X w t" "pool_ok w t" using m by (simp_all add: snd_mid_def)
  note bd = snd_inv_bounds [OF i(1)]
  have "\<bar>int U - int V\<bar> < 2 ^ 31" using bd V by (intro nat_close [of U X V]) (simp_all add: recov_def)
  then have ge: "seq_ge (pkt_ack p) (snd_recover t) \<longleftrightarrow> V \<le> U" using V a seq_pos_nat(4) by (simp add: recov_def)
  show ?thesis
  proof (cases "V \<le> U")
    case True
    then have "w' = w" "t' = t\<lparr>retrans_stage := NONE\<rparr>" using r False ge by (simp_all add: rcv_ack_recover_def)
    then show ?thesis using leave_mid [OF m, of t'] by (simp add: snd_mid_def snd_ok_def snd_view_def calm_def)
  next
    case lt: False
    show ?thesis
    proof (cases "retrans_stage t = RTO")
      case True
      then have "tcp_retrans E w t = (w', t')" using r ge lt by (simp add: rcv_ack_recover_def)
      from tcp_retrans_inv [OF i(1) recov_retr_at [OF V] this] lt have rr: "resent b A P U X w t w' t'" by simp
      from resent_recov [OF rr i, of V] V have "snd_inv b A P U X w' t' \<and> pool_ok w' t' \<and> (\<exists>R. recov b P U X w' t' V R)"
        by (simp add: recov_def)
      moreover from this lt have "\<exists>V R. recov b P U X w' t' V R \<and> U \<le> V" by (meson nat_le_linear)
      ultimately show ?thesis using rr resent_calm [OF rr] by (simp add: snd_ok_def resent_def)
    next
      case ne: False
      then have "w' = w" "t' = t" using r False ge lt by (simp_all add: rcv_ack_recover_def)
      moreover from V lt have "\<exists>V R. recov b P U X w t V R \<and> U \<le> V" by (meson nat_le_linear)
      ultimately show ?thesis using i by (simp add: snd_ok_def calm_def)
    qed
  qed
qed

section \<open>Acknowledgements inside the window\<close>

lemma ack_in_window:
  assumes inv: "snd_inv b A P U X w t" and a: "\<not> seq_lt ack (snd_una t)" "\<not> seq_gt ack (snd_nxt t)"
  obtains n where "ack = b + of_nat (U + n)" "U + n \<le> X" "sint (ack - snd_una t) = int n"
proof -
  have u: "snd_una t = b + of_nat U" "snd_nxt t = b + of_nat X" using inv by (simp_all add: snd_inv_def)
  note bd = snd_inv_bounds [OF inv]
  define n where "n = nat (sint (ack - snd_una t))"
  have s: "sint (ack - snd_una t) = int n" using a(1) by (simp add: n_def seq_lt_def)
  have "ack - snd_una t = word_of_int (sint (ack - snd_una t))" by simp
  then have "ack - snd_una t = of_nat n" unfolding s by simp
  then have ack: "ack = b + of_nat (U + n)" using u(1) by (simp add: diff_eq_eq add.commute add.left_commute)
  have n: "int n < 2 ^ 31" using s sint_lt [of "ack - snd_una t"] by simp
  have "ack - snd_nxt t = word_of_int (int n - int (X - U))" using ack u(2) bd(2) by (simp add: of_nat_diff)
  moreover have "X - U < 2 ^ 30" using bd by linarith
  then have "sint (word_of_int (int n - int (X - U)) :: u32) = int n - int (X - U)"
    using n by (intro sint_word_of_int_small) simp_all
  ultimately have "sint (ack - snd_nxt t) = int n - int (X - U)" by (simp only:)
  then have "n \<le> X - U" using a(2) by (simp add: seq_gt_def)
  then show thesis using that ack s bd(2) by simp
qed

lemma recov_acked:
  assumes r: "recov b P U X w t V R" and o: "acked_off n w t w' t'" and at: "at_pos P (snd_q w t) U' n" and le: "U \<le> U'"
    and wf: "txq_wf (txq t)"
  shows "recov b (pos P (snd_q w t) n) U' X w' t' V R"
proof -
  let ?q = "snd_q w t"
  have f: "snd_recover t' = snd_recover t" "retrans_seq t' = retrans_seq t" "retrans_desc_base t' = retrans_desc_base t"
    "txq_una (txq t') = txq_una (txq t) + of_nat n" "snd_q w' t' = drop n ?q"
    using o by (auto simp: acked_off_def tx_view_def snd_q_def drop_map)
  have "retr_from b (pos P ?q n) X w' t' R" if "U' \<le> R"
  proof -
    have rf: "retr_from b P X w t R" using r le that by (simp add: recov_def)
    define j where "j = unat (retrans_desc_base t - txq_una (txq t))"
    have j: "at_pos P ?q R j" using rf by (simp add: retr_from_def j_def)
    have nj: "n \<le> j"
    proof (rule ccontr)
      assume "\<not> n \<le> j"
      then have "pos P ?q (Suc j) \<le> pos P ?q n" "j < length ?q" using at by (auto simp: at_pos_def intro: pos_mono)
      then show False using j at that by (auto simp: at_pos_def)
    qed
    have "unat (retrans_desc_base t - (txq_una (txq t) + of_nat n)) = j - n"
      using nj by (subst word_diff_add_of_nat) (simp_all add: j_def)
    moreover have "at_pos (pos P ?q n) (drop n ?q) R (j - n)"
      using j nj pos_drop [of P ?q n "j - n"] pos_drop [of P ?q n "Suc (j - n)"] by (auto simp: at_pos_def Suc_diff_le)
    ultimately show ?thesis using rf by (simp add: retr_from_def f)
  qed
  then show ?thesis using r by (simp add: recov_def f)
qed

lemma rcv_ack_data_mid:
  assumes m: "snd_mid b A P U X w t" and a: "0 < a" "U + a \<le> X" and r: "rcv_ack_data E w t (of_nat a) = (w', t')"
  obtains n where "at_pos P (snd_q w t) (U + a) n" "acked_off n w t w' t'" "snd_mid b A (pos P (snd_q w t) n) (U + a) X w' t'"
proof -
  have i: "snd_inv b A P U X w t" "pool_ok w t" using m by (simp_all add: snd_mid_def)
  obtain rt w1 t1 where k: "ack_sent_data w t (of_nat a) = (rt, w1, t1)" by (metis prod_cases3)
  obtain n where n: "n \<le> txq_inflight (txq t)" "at_pos P (snd_q w t) (U + a) n" "acked_off n w t w1 t1"
    "snd_inv b A (pos P (snd_q w t) n) (U + a) X w1 t1" by (rule ack_sent_data_inv [OF i a k])
  define t3 where "t3 = (if rt \<noteq> 0 then tcp_rtt_update E t1 (sint rt) else t1)\<lparr>zero_wnd_probe_shift := 0, rto_shift := 0\<rparr>"
  have res: "w' = tsock_rearm_timer_rto w1 t3 (ts_us w1)" "t' = update_cwnd E w' t3 (of_nat a)"
    using r unfolding rcv_ack_data_def Let_def k prod.case t3_def [symmetric] by auto
  have v: "tx_view t' = tx_view t1" "nr_dupack t' = nr_dupack t1"
  proof -
    have "tx_view (t\<lparr>zero_wnd_probe_shift := x, rto_shift := y\<rparr>) = tx_view t" for t :: tcp_sock and x y by (simp add: tx_view_def)
    then show "tx_view t' = tx_view t1" "nr_dupack t' = nr_dupack t1"
      by (simp_all add: res(2) update_cwnd_view t3_def tcp_rtt_update_view)
  qed
  have st: "still w1 w'" by (simp add: res)
  have p1: "pool_ok w1 t1" using n(3) by (simp add: acked_off_def)
  have "\<exists>V R. recov b (pos P (snd_q w t) n) (U + a) X w1 t1 V R" if "retrans_stage t1 \<noteq> NONE"
  proof -
    have "retrans_stage t \<noteq> NONE" using that n(3) by (simp add: acked_off_def tx_view_def)
    then obtain V R where "recov b P U X w t V R" using m by (auto simp: snd_mid_def)
    from recov_acked [OF this n(3,2) le_add1 snd_inv_bounds(5) [OF i(1)]] show ?thesis by blast
  qed
  then have "snd_mid b A (pos P (snd_q w t) n) (U + a) X w1 t1" using n(4) p1 by (simp add: snd_mid_def)
  then have "snd_mid b A (pos P (snd_q w t) n) (U + a) X w' t'" using still_mid [OF st v(1)] by simp
  moreover have "acked_off n w t w' t'"
  proof -
    have "pool_ok w' t'" using p1 pool_ok_frame [of w1 w' t' t1] st tx_view_txq [OF v(1)] by (simp add: still_def)
    moreover have "desc_mem w' = desc_mem w1" "desc_pool w' = desc_pool w1" "done_calls w' = done_calls w1"
      "wk_dev w' = wk_dev w1" "neigh_waiting w' = neigh_waiting w1" "copies w' = copies w1"
      by (simp_all add: res(1) tsock_rearm_timer_rto_def wk_timer_start_def)
    ultimately show ?thesis using n(3) v by (simp add: acked_off_def) (simp add: tx_view_def)
  qed
  ultimately show thesis using that n(2) by blast
qed

lemma acked_off_refl: "pool_ok w t \<Longrightarrow> acked_off 0 w t w t"
  by (simp add: acked_off_def)

text \<open>The whole treatment of an acknowledgement of data. With \<open>n\<close> descriptors acknowledged completely,
  they are the ones that leave the queue.\<close>

lemma flagged_emits: "flagged w w' \<Longrightarrow> emits Q w w'"
  by (auto simp: flagged_def intro!: emits_same)

lemma rcv_ack_in_window_ok:
  assumes ok: "snd_ok b A P U X w t" and ack: "\<not> seq_lt (pkt_ack p) (snd_una t)" "\<not> seq_gt (pkt_ack p) (snd_nxt t)"
    and fin: "flags t AND TSOCK_FLAG_FIN_SENT = 0" "\<not> closed_at_syn_rcvd t"
    and r: "rcv_ack_in_window E w t p opts = (w', t')"
  obtains n U' where "U \<le> U'" "U' \<le> X" "pkt_ack p = b + of_nat U'" "at_pos P (snd_q w t) U' n"
    "snd_ok b A (pos P (snd_q w t) n) U' X w' t'" "emits (carries b A U' X) w w'"
    "txq_items (txq t') = drop n (txq_items (txq t))"
    "pool_free (desc_pool w') = pool_free (desc_pool w) @ take n (txq_items (txq t))"
    "done_calls w' = done_calls w @ concat (map (\<lambda>d. desc_calls (desc_mem w d)) (take n (txq_items (txq t))))" "calls_same w w'" "copies w' = copies w"
proof -
  define t1 where "t1 = count_dupack t p"
  have v1: "tx_view t1 = tx_view t" by (simp add: t1_def count_dupack_view)
  have nf: "\<not> ack_of_fin t1 p" "closed_at_syn_rcvd t1 = closed_at_syn_rcvd t"
    using fin by (simp_all add: ack_of_fin_def t1_def count_dupack_def)
  have m1: "snd_mid b A P U X w t1" using snd_ok_mid [OF ok] snd_mid_frame [OF mem_same_refl v1] by simp
  have inv: "snd_inv b A P U X w t" using ok by (simp add: snd_ok_def)
  have q1: "txq t1 = txq t" "snd_q w t1 = snd_q w t" "snd_una t1 = snd_una t" using v1 by (simp_all add: tx_view_def snd_q_def)
  obtain a where a: "pkt_ack p = b + of_nat (U + a)" "U + a \<le> X" "sint (pkt_ack p - snd_una t) = int a"
    by (rule ack_in_window [OF inv ack])
  obtain w3 t3 where d: "(if int a > 0 then rcv_ack_data E w t1 (word_of_int (int a)) else (w, t1)) = (w3, t3)" by fastforce
  obtain n where n: "at_pos P (snd_q w t) (U + a) n" "acked_off n w t1 w3 t3" "snd_mid b A (pos P (snd_q w t) n) (U + a) X w3 t3"
  proof (cases "0 < a")
    case True
    then have "rcv_ack_data E w t1 (of_nat a) = (w3, t3)" using d by simp
    then show ?thesis using that rcv_ack_data_mid [OF m1 True a(2)] q1 by metis
  next
    case False
    then have e: "w3 = w" "t3 = t1" "a = 0" using d by simp_all
    have "acked_off 0 w t1 w t1" using m1 by (intro acked_off_refl) (simp add: snd_mid_def)
    moreover have "at_pos P (snd_q w t) U 0" using inv by (simp add: snd_inv_def)
    ultimately show ?thesis using that [of 0] m1 by (simp add: e)
  qed
  let ?P = "pos P (snd_q w t) n"
  obtain w4 t4 where s: "(if opt_sack_blocks opts \<noteq> [] then tcp_rcv_sack w3 t3 opts else (w3, t3)) = (w4, t4)" by fastforce
  have m4: "snd_mid b A ?P (U + a) X w4 t4 \<and> flagged w3 w4 \<and> txq t4 = txq t3"
  proof (cases "opt_sack_blocks opts \<noteq> []")
    case True
    have f: "snd_inv b A ?P (U + a) X w4 t4 \<and> pool_ok w4 t4 \<and> flagged w3 w4 \<and> (\<exists>sb. t4 = t3\<lparr>sacked_bytes := sb\<rparr>)"
      using tcp_rcv_sack_inv [of b A ?P "U + a" X w3 t3 opts w4 t4] n(3) s True by (simp add: snd_mid_def)
    then have "recov b ?P (U + a) X w4 t4 V R = recov b ?P (U + a) X w3 t3 V R" for V R
      using flagged_snd_q [of w3 w4 t4 t3] by (auto simp: recov_def retr_from_def)
    then show ?thesis using f n(3) by (auto simp: snd_mid_def)
  qed (use s n(3) in simp)
  obtain w5 t5 where h: "handle_fast_retransmit E w4 t4 p (word_of_int (int a)) = (w5, t5)" by fastforce
  have m5: "snd_mid b A ?P (U + a) X w5 t5 \<and> emits (carries b A (U + a) X) w4 w5 \<and> calm w4 t4 w5 t5"
    using handle_fast_retransmit_mid [OF _ a(1) h] m4 by blast
  obtain w6 t6 where rc: "rcv_ack_recover E w5 t5 p (int a) = (w6, t6)" by fastforce
  have m6: "snd_ok b A ?P (U + a) X w6 t6 \<and> emits (carries b A (U + a) X) w5 w6 \<and> calm w5 t5 w6 t6"
    using rcv_ack_recover_ok [OF _ a(1) rc] m5 by blast
  define w7 where "w7 = (if snd_una t6 = snd_nxt t6 then wk_timer_stop w6 t6 TimerRto else w6)"
  have len: "sint (pkt_ack p - snd_una t1) - (if closed_at_syn_rcvd t1 then 1 else 0) - (if ack_of_fin t1 p then 1 else 0) = int a"
    using nf fin q1(3) a(3) by simp
  have res: "w' = w7" "t' = rcv_ack_wnd t6 p"
    using r unfolding rcv_ack_in_window_def Let_def t1_def [symmetric] len
    unfolding if_not_P [OF nf(1)] prod.case d s h rc w7_def [symmetric] by simp_all
  have st: "still w6 w7" by (simp add: w7_def)
  have "snd_ok b A ?P (U + a) X w' t'" using m6 snd_ok_frame [of w6 w7 t' t6] st by (simp add: res rcv_ack_wnd_view still_def)
  moreover have "emits (carries b A (U + a) X) w w'"
  proof -
    have "emits (carries b A (U + a) X) w w3" using n(2) by (intro emits_same) (simp_all add: acked_off_def)
    then show ?thesis using m4 m5 m6 flagged_emits [of w3 w4] still_emits [OF st] res(1) by (meson emits_trans)
  qed
  moreover have "calls_same w w'"
    using calls_same_mem [of w3 w] flagged_calls [of w3 w4] mem_same_calls [of w4 w5] mem_same_calls [of w5 w6] mem_same_calls [of w6 w7] n(2) m4 m5 m6 st
    by (simp add: acked_off_def calm_def still_def calls_same_def res)
  moreover have "txq t' = txq t3" "desc_pool w' = desc_pool w3" "done_calls w' = done_calls w3" "copies w' = copies w3"
    using m4 m5 m6 st by (auto simp: calm_def still_def mem_same_def flagged_def res rcv_ack_wnd_def)
  ultimately show thesis using that [of "U + a" n] a(1,2) n(1,2) by (simp add: acked_off_def q1(1))
qed

lemma rearm_memory: "desc_mem (tsock_rearm_timer_rto w t now) = desc_mem w" "desc_pool (tsock_rearm_timer_rto w t now) = desc_pool w"
  "done_calls (tsock_rearm_timer_rto w t now) = done_calls w" "desc_mem (wk_timer_stop w t k) = desc_mem w"
  "desc_pool (wk_timer_stop w t k) = desc_pool w" "done_calls (wk_timer_stop w t k) = done_calls w"
  by (simp_all add: tsock_rearm_timer_rto_def wk_timer_start_def wk_timer_stop_def)

text \<open>Outside recovery the invariant does not mention the recovery point.\<close>

lemma snd_ok_none:
  assumes "snd_view t' = snd_view t" "retrans_stage t' = NONE" "mem_same w w'"
  shows "snd_ok b A P U X w' t' \<longleftrightarrow> snd_inv b A P U X w t \<and> pool_ok w t"
  using assms snd_inv_frame [OF assms(3,1)] pool_ok_frame [OF assms(3), of t' t] by (simp add: snd_ok_def snd_view_def)

lemma tcp_rcv_ack_fastpath_ok:
  assumes ok: "snd_ok b A P U X w t" and ack: "\<not> seq_lt (pkt_ack p) (snd_una t)" "\<not> seq_gt (pkt_ack p) (snd_nxt t)"
    and st: "retrans_stage t = NONE" and r: "tcp_rcv_ack_fastpath E w t p = (w', t')"
  obtains n U' where "U \<le> U'" "U' \<le> X" "pkt_ack p = b + of_nat U'" "at_pos P (snd_q w t) U' n"
    "snd_ok b A (pos P (snd_q w t) n) U' X w' t'" "emits Q w w'"
    "txq_items (txq t') = drop n (txq_items (txq t))"
    "pool_free (desc_pool w') = pool_free (desc_pool w) @ take n (txq_items (txq t))"
    "done_calls w' = done_calls w @ concat (map (\<lambda>d. desc_calls (desc_mem w d)) (take n (txq_items (txq t))))" "calls_same w w'" "copies w' = copies w"
proof -
  have inv: "snd_inv b A P U X w t" "pool_ok w t" using ok by (simp_all add: snd_ok_def)
  obtain a where a: "pkt_ack p = b + of_nat (U + a)" "U + a \<le> X" "sint (pkt_ack p - snd_una t) = int a"
    by (rule ack_in_window [OF inv(1) ack])
  have aw: "pkt_ack p - snd_una t = of_nat a" using a(1) inv(1) by (simp add: snd_inv_def)
  define wnd where "wnd = (\<lambda>t1 :: tcp_sock. t1\<lparr>snd_wl1 := pkt_seq p, snd_wl2 := pkt_ack p, snd_wnd := push_bit (unat (snd_wscale t1)) (ucast (pkt_wnd p))\<rparr>)"
  have wv: "tx_view (wnd x) = tx_view x" for x by (simp add: wnd_def tx_view_def)
  show thesis
  proof (cases "0 < a")
    case False
    then have e: "w' = w" "t' = wnd t" "a = 0" using r a(3) by (simp_all add: tcp_rcv_ack_fastpath_def Let_def wnd_def)
    have "snd_ok b A P U X w t'" using ok snd_ok_frame [OF mem_same_refl wv] e(2) by simp
    moreover have "at_pos P (snd_q w t) U 0" using inv(1) by (simp add: snd_inv_def)
    ultimately show thesis using that [of U 0] a(1,2) e by (simp add: wnd_def calls_same_def)
  next
    case True
    obtain rt w1 t1 where k: "ack_sent_data w t (of_nat a) = (rt, w1, t1)" by (metis prod_cases3)
    obtain n where n: "at_pos P (snd_q w t) (U + a) n" "acked_off n w t w1 t1"
      "snd_inv b A (pos P (snd_q w t) n) (U + a) X w1 t1" by (rule ack_sent_data_inv [OF inv True a(2) k])
    define t2 where "t2 = (if rt \<noteq> 0 then tcp_rtt_update E t1 (sint rt) else t1)"
    define t3 where "t3 = t2\<lparr>snd_recover := snd_una t2 - 1, nr_dupack := 0\<rparr>"
    define w2 where "w2 = (if snd_una t3 = snd_nxt t3 then wk_timer_stop w1 t3 TimerRto else tsock_rearm_timer_rto w1 t3 (ts_us w1))"
    have "0 < sint (pkt_ack p - snd_una t)" using True a(3) by simp
    then have res: "w' = w2" "t' = wnd (update_cwnd E w2 t3 (of_nat a))"
      using r unfolding tcp_rcv_ack_fastpath_def Let_def if_P [OF \<open>0 < sint _\<close>] unfolding aw k prod.case
        t2_def [symmetric] t3_def [symmetric] w2_def [symmetric] by (auto simp: wnd_def)
    have "tx_view t2 = tx_view t1" by (simp add: t2_def tcp_rtt_update_view)
    then have "snd_view t3 = snd_view t1" "retrans_stage t3 = retrans_stage t1" by (simp_all add: t3_def tx_view_def snd_view_def)
    moreover have "tx_view t' = tx_view t3" by (simp add: res wv update_cwnd_view)
    moreover have "retrans_stage t1 = NONE" using n(2) st by (simp add: acked_off_def tx_view_def)
    ultimately have v: "snd_view t' = snd_view t1" "retrans_stage t' = NONE" by (simp_all add: tx_view_def snd_view_def)
    have sw: "still w1 w2" by (simp add: w2_def)
    have "snd_ok b A (pos P (snd_q w t) n) (U + a) X w' t'"
      using snd_ok_none [OF v, of w1 w'] n sw by (simp add: res still_def acked_off_def)
    moreover have "emits Q w w1" using n(2) by (intro emits_same) (simp_all add: acked_off_def)
    moreover have "calls_same w w'" using n(2) mem_same_calls [of w1 w2] sw by (simp add: acked_off_def still_def calls_same_def res)
    moreover have "txq t' = txq t1" using v(1) by (simp add: snd_view_def)
    moreover have "desc_pool w' = desc_pool w1" "done_calls w' = done_calls w1" "copies w' = copies w1" using sw by (simp_all add: still_def mem_same_def res)
    ultimately show thesis using that [of "U + a" n] a(1,2) n(1,2) emits_trans [OF _ still_emits [OF sw]] by (simp add: acked_off_def res)
  qed
qed

section \<open>The retransmission timer\<close>

lemma unmark_frame:
  "flagged w (desc_unmark w d TX_DESC_FLAG_SACKED) \<and> (sacked (desc_unmark w d TX_DESC_FLAG_SACKED) e \<longrightarrow> sacked w e)"
proof
  show "flagged w (desc_unmark w d TX_DESC_FLAG_SACKED)"
    unfolding flagged_def desc_unmark_def
    by (intro exI [of _ "(\<lambda>e. desc_flags (desc_mem w e))(d := desc_flags (desc_mem w d) AND NOT TX_DESC_FLAG_SACKED)"])
      (simp add: fun_eq_iff)
  show "sacked (desc_unmark w d TX_DESC_FLAG_SACKED) e \<longrightarrow> sacked w e"
    by (auto simp: sacked_def desc_unmark_def and.assoc)
qed

lemma clear_sacked_loop_frame:
  "flagged w (clear_sacked_loop w q idx) \<and> (\<forall>e. sacked (clear_sacked_loop w q idx) e \<longrightarrow> sacked w e)"
proof (induction w q idx rule: clear_sacked_loop.induct)
  case (1 w q idx)
  show ?case
  proof (cases "tcp_txq_peek_for_write q (txq_una q) idx")
    case None
    then show ?thesis by (subst (1 2) clear_sacked_loop.simps) simp
  next
    case (Some d)
    then show ?thesis using "1.IH" [OF Some] unmark_frame flagged_trans by (subst (1 2) clear_sacked_loop.simps) (simp, blast)
  qed
qed

lemma flagged_snd_inv:
  assumes "flagged w w'" "\<forall>e. sacked w' e \<longrightarrow> sacked w e" "snd_view t' = snd_view t" "snd_inv b A P U X w t"
  shows "snd_inv b A P U X w' t'"
  using assms flagged_snd_q [OF assms(1), of t' t] by (simp add: snd_inv_def sq_ok_def sacked_below_def snd_view_def)

text \<open>A timeout that does not give up retransmits from the first byte that is not acknowledged.\<close>

lemma tcp_timeout_rto_ok:
  assumes ok: "snd_ok b A P U X w t" and st: "state t \<noteq> TCP_STATE_SYN_SENT" "state t \<noteq> TCP_STATE_SYN_RCVD"
    and more: "ucast (rto_shift t + 1) < retries (cfg E)" and r: "tcp_timeout_rto E w t = (w', t')"
  shows "snd_ok b A P U X w' t' \<and> emits (carries b A U X) w w' \<and> retrans_stage t' = RTO \<and> snd_recover t' = snd_nxt t \<and>
    txq t' = txq t \<and> done_calls w' = done_calls w \<and> desc_pool w' = desc_pool w \<and> calls_same w w' \<and> copies w' = copies w"
proof -
  define t0 where "t0 = t\<lparr>rto_shift := rto_shift t + 1\<rparr>"
  define t1 where "t1 = (case (if rto_shift t0 = 1 then tcp_txq_peek_una_before_nxt (txq t0) 0 else None) of
                           None \<Rightarrow> t0 | Some d \<Rightarrow> t0\<lparr>rto_start_ts := desc_ts_us (desc_mem w d)\<rparr>)"
  define w2 where "w2 = clear_sacked_loop w (txq t1) 0"
  define t2 where "t2 = t1\<lparr>sacked_bytes := 0\<rparr>"
  define t3 where "t3 = t2\<lparr>retrans_stage := RTO, snd_recover := snd_nxt t2,
     snd_ssthresh := max (snd_cwnd t2 div 2) (2 * ucast (snd_mss t2)), snd_cwnd := ucast (snd_mss t2)\<rparr>"
  define w3 where "w3 = wk_timer_start w2 t3 TimerRto (ts_us w2) (ucast (min TCP_RTO_MAX (push_bit (unat (rto_shift t3)) (rto t3))))"
  define t4 where "t4 = tcp_reset_retrans t3 (snd_una t3) (txq_una (txq t3))"
  obtain w5 t5 where k: "tcp_retrans E w3 t4 = (w5, t5)" by fastforce
  have s0: "state t0 = state t" by (simp add: t0_def)
  have go: "\<not> retries (cfg E) \<le> ucast (rto_shift t0)" using more by (simp add: t0_def not_le)
  have ns: "(state t0 = TCP_STATE_SYN_SENT \<or> state t0 = TCP_STATE_SYN_RCVD) = False" using st s0 by simp
  have res: "w' = output_tsock_enqueue w5 t5" "t' = t5"
    using r unfolding tcp_timeout_rto_def Let_def t0_def [symmetric] ns if_False if_not_P [OF go] t1_def [symmetric] clear_sacked_def prod.case
      w2_def [symmetric] t2_def [symmetric] t3_def [symmetric] w3_def [symmetric] t4_def [symmetric] k prod.inject by (elim conjE, simp)+
  have inv: "snd_inv b A P U X w t" "pool_ok w t" using ok by (simp_all add: snd_ok_def)
  have v: "snd_view t3 = snd_view t" "snd_recover t3 = snd_nxt t" "retrans_stage t3 = RTO"
    by (auto simp: t3_def t2_def t1_def t0_def snd_view_def split: option.splits)
  have f: "flagged w w2 \<and> (\<forall>e. sacked w2 e \<longrightarrow> sacked w e)" unfolding w2_def by (rule clear_sacked_loop_frame)
  have "snd_inv b A P U X w2 t3" using flagged_snd_inv [OF _ _ v(1) inv(1)] f by blast
  moreover have s3: "still w2 w3" by (simp add: w3_def)
  ultimately have i3: "snd_inv b A P U X w3 t3" using snd_inv_frame [of w2 w3 t3 t3] by (simp add: still_def)
  have "pool_ok w2 t3" using inv(2) f v(1) by (auto simp: pool_ok_def flagged_def snd_view_def)
  then have p3: "pool_ok w3 t3" using pool_ok_frame [of w2 w3 t3 t3] s3 by (simp add: still_def)
  note rs = reset_retrans_at [OF i3, folded t4_def]
  have i4: "snd_inv b A P U X w3 t4" "pool_ok w3 t4"
    using i3 p3 retr_same_snd_inv [OF rs(2)] pool_ok_frame [OF mem_same_refl, of t4 t3] rs(2) by (simp_all add: retr_same_def tx_view_def)
  have "retr_at b P U X w3 t4" using rs(1) by (auto simp: retr_at_def retr_from_def)
  from tcp_retrans_inv [OF i4(1) this k] have rr: "resent b A P U X w3 t4 w5 t5" .
  have rc: "snd_recover t4 = b + of_nat X" "retrans_stage t4 = RTO" using rs(2) v inv(1) by (simp_all add: retr_same_def tx_view_def snd_inv_def)
  have "snd_inv b A P U X w5 t5 \<and> pool_ok w5 t5 \<and> (\<exists>R. recov b P U X w5 t5 X R)"
    by (rule resent_recov [OF rr i4 rc(1)]) simp_all
  moreover have "U \<le> X" using inv(1) by (simp add: snd_inv_def)
  ultimately have "snd_ok b A P U X w5 t5" by (auto simp: snd_ok_def)
  moreover have "retrans_stage t5 = RTO" "snd_recover t5 = snd_nxt t"
    using rr rc inv(1) by (simp_all add: resent_def retr_same_def tx_view_def snd_inv_def)
  moreover have "emits (carries b A U X) w w5"
  proof -
    have "emits (carries b A U X) w w2" using f flagged_emits by blast
    then show ?thesis using still_emits [OF s3] rr emits_trans by (meson resent_def)
  qed
  moreover have "txq t5 = txq t" using rr rs(2) v(1) by (simp add: resent_def retr_same_def tx_view_def snd_view_def)
  moreover have "done_calls w' = done_calls w" "desc_pool w' = desc_pool w" "copies w' = copies w"
    using f s3 rr still_timer(4) [of w5 t5] by (auto simp: flagged_def still_def resent_def mem_same_def res(1))
  moreover have "calls_same w w'"
    using f flagged_calls [of w w2] mem_same_calls [of w2 w3] mem_same_calls [of w3 w5] mem_same_calls [of w5 w'] s3 rr still_timer(4) [of w5 t5]
    by (simp add: calls_same_def still_def resent_def res)
  moreover have "still w5 w'" by (simp add: res)
  ultimately show ?thesis using res(2) snd_ok_frame [of w5 w' t' t5] still_emits [of w5 w'] emits_trans by (auto simp: still_def)
qed

section \<open>New data\<close>

lemma tcp_xmit_data_ok:
  assumes ok: "snd_ok b A P U X w t" and r: "tcp_xmit_data E w t = (w', t')"
  obtains X' where "X \<le> X'" "snd_ok b A P U X' w' t'" "emits (carries b A X X') w w'"
    "X' \<le> max X (U + unat (min (snd_wnd t) (snd_cwnd t)))" "mem_same w w'" "txq_items (txq t') = txq_items (txq t)"
proof -
  have inv: "snd_inv b A P U X w t" "pool_ok w t" using ok by (simp_all add: snd_ok_def)
  obtain X' where x: "X \<le> X'" "snd_inv b A P U X' w' t'" "emits (carries b A X X') w w'"
    "X' \<le> max X (U + unat (min (snd_wnd t) (snd_cwnd t)))" "mem_same w w'"
    "tx_view (t'\<lparr>txq := txq t, snd_nxt := snd_nxt t\<rparr>) = tx_view t" "txq_una (txq t') = txq_una (txq t)"
    "txq_items (txq t') = txq_items (txq t)"
    by (rule tcp_xmit_data_inv [OF inv(1) r])
  have q: "snd_q w' t' = snd_q w t" using x(8) mem_same_dcore [OF x(5)] by (simp add: snd_q_def)
  have used: "txq_used (txq t') = txq_used (txq t)" using x(8) by (metis length_txq_items)
  have f: "retrans_stage t' = retrans_stage t" "snd_recover t' = snd_recover t" "retrans_seq t' = retrans_seq t"
    "retrans_desc_base t' = retrans_desc_base t" using x(6) by (simp_all add: tx_view_def)
  have "recov b P U X' w' t' V R" if "recov b P U X w t V R" "U \<le> V" for V R
    using that x(1,7) snd_inv_bounds [OF x(2)] q f by (auto simp: recov_def retr_from_def)
  then have "snd_ok b A P U X' w' t'" using ok x(2,5,8) used f(1) by (auto simp: snd_ok_def pool_ok_def mem_same_def)
  then show thesis using that x by blast
qed

end
