(* ===== verification/Snd_Write.thy ===== *)
theory Snd_Write
  imports Snd_Recover
begin

text \<open>
  Writing: \<open>tsock_zwritev\<close> of \<open>src/tcp/tcp_output.c\<close>. The fast loop is shown to be the slow path
  taken early, a write that fails leaves no trace in the queue and in the pool of descriptors, and a
  write that succeeds appends the bytes of its vectors to the stream.
\<close>

section \<open>The fast loop\<close>

text \<open>What \<open>tsock_zwritev\<close> does when every vector goes through \<open>write_one_iov\<close>.\<close>

definition zwritev_start :: "tcp_sock \<Rightarrow> write_ctx" where
  "zwritev_start t = \<lparr>wc_nr_desc_free = unat (tcp_txq_free_count (txq t)), wc_nr_desc = 0, wc_size = 0, wc_nr_fallback = 0\<rparr>"

definition zwritev_failed :: "tpa_worker \<Rightarrow> tcp_sock \<Rightarrow> write_ctx \<Rightarrow> int \<times> tpa_worker \<times> tcp_sock" where
  "zwritev_failed w t c = (let (w1, t1) = refire_out_event_if_needed (write_revoke w t c) t in (-1, w1\<lparr>wk_errno := Some EAGAIN\<rparr>, t1))"

definition zwritev_by_slowpath :: "env \<Rightarrow> tpa_worker \<Rightarrow> tcp_sock \<Rightarrow> tpa_iovec list \<Rightarrow> int \<times> tpa_worker \<times> tcp_sock" where
  "zwritev_by_slowpath E w t iovs =
     (case slowpath_loop E w t iovs (zwritev_start t) of
        (False, w1, t1, c) \<Rightarrow> zwritev_failed w1 t1 c
      | (True, w1, t1, c) \<Rightarrow>
          (let (w2, t2) = write_commit (w1\<lparr>nr_write_mbuf := nr_write_mbuf w1 + of_nat (wc_nr_fallback c)\<rparr>) t1 c
           in (uint (wc_size c), w2, t2)))"

lemma write_one_iov_fast:
  assumes "iov_phys iov \<noteq> 0" "iov_len iov \<noteq> 0" "\<not> iov_len iov > write_chunk_size (cfg E)"
  shows "write_one_iov E w t iov c =
    (if wc_nr_desc c + 1 > wc_nr_desc_free c then (False, w, t, c)
     else case tx_desc_alloc (desc_pool w) of
        (None, p) \<Rightarrow> (False, w, t, c)
      | (Some d, p) \<Rightarrow>
          (True, w\<lparr>desc_pool := p, desc_mem := (desc_mem w)(d := (desc_mem w d)\<lparr>desc_addr := iov_base iov, desc_phys_addr := iov_phys iov,
             desc_len := iov_len iov, desc_write_done := iov_write_done iov, desc_base := iov_base iov, desc_param := iov_param iov,
             desc_flags := 0, desc_seq := data_seq_nxt t + wc_size c\<rparr>)\<rparr>, txq_desc_put t (wc_nr_desc c) d,
           c\<lparr>wc_nr_desc := wc_nr_desc c + 1, wc_size := wc_size c + iov_len iov\<rparr>))"
proof -
  have m: "min (iov_len iov) (write_chunk_size (cfg E)) = iov_len iov" using assms(3) by (simp add: min_def not_less)
  have l: "write_one_iov E w t iov c =
     (case write_round E w t iov c 0 of
        (None, w1, t1, c1) \<Rightarrow> (False, w1, t1, c1)
      | (Some (d, l), w1, t1, c1) \<Rightarrow>
          if 0 + l < iov_len iov then write_iov_loop E w1 t1 iov c1 (0 + l)
          else (True, w1\<lparr>desc_mem := (desc_mem w1)(d := (desc_mem w1 d)\<lparr>desc_write_done := iov_write_done iov,
                  desc_base := iov_base iov, desc_param := iov_param iov\<rparr>)\<rparr>, t1, c1))"
    unfolding write_one_iov_def if_not_P [OF assms(2)] by (rule write_iov_loop.simps)
  show ?thesis
  proof (cases "wc_nr_desc c + 1 > wc_nr_desc_free c")
    case True
    then show ?thesis unfolding l by (simp add: write_round_def)
  next
    case False
    obtain x p where a: "tx_desc_alloc (desc_pool w) = (x, p)" by fastforce
    show ?thesis
    proof (cases x)
      case None
      then show ?thesis using False a unfolding l by (simp add: write_round_def)
    next
      case (Some d)
      have r: "(x :: tx_desc)\<lparr>desc_addr := a1, desc_phys_addr := a2, desc_len := a3, desc_flags := f, desc_seq := q,
          desc_write_done := g, desc_base := a4, desc_param := a5\<rparr> =
        x\<lparr>desc_addr := a1, desc_phys_addr := a2, desc_len := a3, desc_write_done := g, desc_base := a4, desc_param := a5,
          desc_flags := f, desc_seq := q\<rparr>" for x a1 a2 a3 f q g a4 a5
        by (rule tx_desc.equality) simp_all
      show ?thesis using False a assms(1) m Some unfolding l by (simp add: write_round_def Let_def) (subst r, simp)
    qed
  qed
qed

lemma zwritev_fast_slowpath:
  assumes "zwritev_fast E w t iovs c = (e, w1, t1, c1)"
  shows "wc_nr_fallback c1 = wc_nr_fallback c \<and> wc_nr_desc c \<le> wc_nr_desc c1 \<and>
    slowpath_loop E w t iovs c =
      (case e of FastDone \<Rightarrow> (True, w1, t1, c1) | FastFail \<Rightarrow> (False, w1, t1, c1)
       | FastSlow \<Rightarrow> slowpath_loop E w1 t1 (drop (wc_nr_desc c1 - wc_nr_desc c) iovs) c1)"
  using assms
proof (induction E w t iovs c rule: zwritev_fast.induct)
  case (1 E w t c)
  then show ?case by auto
next
  case (2 E w t iov iovs c)
  show ?case
  proof (cases "iov_phys iov = 0 \<or> iov_len iov = 0 \<or> iov_len iov > write_chunk_size (cfg E)")
    case True
    then show ?thesis using "2.prems" by auto
  next
    case False
    then have f: "iov_phys iov \<noteq> 0" "iov_len iov \<noteq> 0" "\<not> iov_len iov > write_chunk_size (cfg E)" by auto
    note one = write_one_iov_fast [OF f, of w t c]
    show ?thesis
    proof (cases "wc_nr_desc c + 1 > wc_nr_desc_free c")
      case True
      then show ?thesis using "2.prems" f one by auto
    next
      case room: False
      show ?thesis
      proof (cases "tx_desc_alloc (desc_pool w)")
        case (Pair x p)
        show ?thesis
        proof (cases x)
          case None
          then show ?thesis using "2.prems" f one room Pair by auto
        next
          case (Some d)
          define c2 where "c2 = c\<lparr>wc_nr_desc := wc_nr_desc c + 1, wc_size := wc_size c + iov_len iov\<rparr>"
          define w2 where "w2 = w\<lparr>desc_pool := p, desc_mem := (desc_mem w)(d := (desc_mem w d)\<lparr>desc_addr := iov_base iov,
             desc_phys_addr := iov_phys iov, desc_len := iov_len iov, desc_write_done := iov_write_done iov, desc_base := iov_base iov,
             desc_param := iov_param iov, desc_flags := 0, desc_seq := data_seq_nxt t + wc_size c\<rparr>)\<rparr>"
          have z: "zwritev_fast E w2 (txq_desc_put t (wc_nr_desc c) d) iovs c2 = (e, w1, t1, c1)"
            using "2.prems" f room Pair Some by (simp add: Let_def w2_def c2_def)
          have ih: "wc_nr_fallback c1 = wc_nr_fallback c2 \<and> wc_nr_desc c2 \<le> wc_nr_desc c1 \<and>
            slowpath_loop E w2 (txq_desc_put t (wc_nr_desc c) d) iovs c2 =
              (case e of FastDone \<Rightarrow> (True, w1, t1, c1) | FastFail \<Rightarrow> (False, w1, t1, c1)
               | FastSlow \<Rightarrow> slowpath_loop E w1 t1 (drop (wc_nr_desc c1 - wc_nr_desc c2) iovs) c1)"
            by (rule "2.IH" [OF False room Pair [symmetric] Some refl, folded w2_def c2_def, OF z])
          have "slowpath_loop E w t (iov # iovs) c = slowpath_loop E w2 (txq_desc_put t (wc_nr_desc c) d) iovs c2"
            using one room Pair Some by (simp add: w2_def c2_def)
          moreover have "drop (wc_nr_desc c1 - wc_nr_desc c) (iov # iovs) = drop (wc_nr_desc c1 - wc_nr_desc c2) iovs"
            using ih by (simp add: c2_def Suc_diff_le [symmetric] drop_Cons')
          moreover have "wc_nr_fallback c2 = wc_nr_fallback c" "wc_nr_desc c \<le> wc_nr_desc c2" by (simp_all add: c2_def)
          ultimately show ?thesis using ih by (cases e) (simp_all del: slowpath_loop.simps)
        qed
      qed
    qed
  qed
qed

lemma tsock_zwritev_by_slowpath:
  "tsock_write_check t = None \<Longrightarrow> tsock_zwritev E w t iovs = zwritev_by_slowpath E w t iovs"
proof -
  assume ck: "tsock_write_check t = None"
  obtain e w1 t1 c1 where z: "zwritev_fast E w t iovs (zwritev_start t) = (e, w1, t1, c1)" by (metis prod_cases4)
  have s: "wc_nr_fallback c1 = 0" "slowpath_loop E w t iovs (zwritev_start t) =
      (case e of FastDone \<Rightarrow> (True, w1, t1, c1) | FastFail \<Rightarrow> (False, w1, t1, c1)
       | FastSlow \<Rightarrow> slowpath_loop E w1 t1 (drop (wc_nr_desc c1) iovs) c1)"
    using zwritev_fast_slowpath [OF z] by (cases e; simp add: zwritev_start_def)+
  have c1: "c1\<lparr>wc_nr_fallback := 0\<rparr> = c1" using s(1) by simp
  have "tsock_zwritev E w t iovs =
    (case e of
       FastDone \<Rightarrow> (let (w2, t2) = write_commit w1 t1 c1 in (uint (wc_size c1), w2, t2))
     | FastFail \<Rightarrow> zwritev_failed w1 t1 c1
     | FastSlow \<Rightarrow> (case tsock_zwritev_slowpath E w1 t1 iovs c1 of
                     (True, w2, t2, c2) \<Rightarrow> (uint (wc_size c2), w2, t2)
                   | (False, w2, t2, c2) \<Rightarrow> zwritev_failed w2 t2 c2))"
    unfolding tsock_zwritev_def ck option.case Let_def zwritev_start_def [symmetric] z prod.case zwritev_failed_def
    by (cases e) simp_all
  moreover obtain r w2 t2 c2 where l: "slowpath_loop E w1 t1 (drop (wc_nr_desc c1) iovs) c1 = (r, w2, t2, c2)" by (metis prod_cases4)
  ultimately show ?thesis
    unfolding zwritev_by_slowpath_def s(2) tsock_zwritev_slowpath_def c1 l
    by (cases e; cases r) (simp_all add: s(1) Let_def case_prod_unfold)
qed

text \<open>C37: The fast loop of \<open>tsock_zwritev\<close>, which fills a descriptor for each vector, with its
  fallback in the middle of the vectors, does exactly what sending every vector through
  \<open>write_one_iov\<close> would do: same result, same worker, same socket, on every path.\<close>

theorem zwritev_fast_loop_is_slowpath:
  "tsock_zwritev E w t iovs =
     (case tsock_write_check t of Some e \<Rightarrow> (-1, w\<lparr>wk_errno := Some e\<rparr>, t) | None \<Rightarrow> zwritev_by_slowpath E w t iovs)"
  using tsock_zwritev_by_slowpath [of t E w iovs] by (cases "tsock_write_check t") (simp_all add: tsock_zwritev_def)

section \<open>A write in progress\<close>

text \<open>A vector without a physical address is copied, piece by piece, into buffers \<open>bl\<close>, given by
  number and length.\<close>

fun buf_copies :: "env \<Rightarrow> u64 \<Rightarrow> (nat \<times> u32) list \<Rightarrow> (u64 \<times> u64 \<times> u32) list" where
  "buf_copies E a [] = []"
| "buf_copies E a ((b, l) # bl) = (env_buf_addr E b, a, l) # buf_copies E (a + ucast l) bl"

definition buf_addrs :: "env \<Rightarrow> (nat \<times> u32) list \<Rightarrow> u64 list" where
  "buf_addrs E bl = concat (map (\<lambda>(b, l). seg_addrs (env_buf_iova E b) (unat l)) bl)"

definition buf_len :: "(nat \<times> u32) list \<Rightarrow> nat" where
  "buf_len bl = sum_list (map (\<lambda>(b, l). unat l) bl)"

text \<open>The first \<open>n\<close> bytes of a vector stand in the stream as \<open>B\<close>, after the copies \<open>cps\<close>.\<close>

definition laid :: "env \<Rightarrow> tpa_iovec \<Rightarrow> nat \<Rightarrow> u64 list \<Rightarrow> (u64 \<times> u64 \<times> u32) list \<Rightarrow> bool" where
  "laid E v n B cps \<longleftrightarrow>
     (if iov_phys v \<noteq> 0 then B = seg_addrs (iov_phys v) n \<and> cps = []
      else \<exists>bl. B = buf_addrs E bl \<and> cps = buf_copies E (iov_base v) bl \<and> buf_len bl = n)"

fun laid_all :: "env \<Rightarrow> tpa_iovec list \<Rightarrow> u64 list \<Rightarrow> (u64 \<times> u64 \<times> u32) list \<Rightarrow> bool" where
  "laid_all E [] B cps \<longleftrightarrow> B = [] \<and> cps = []"
| "laid_all E (v # vs) B cps \<longleftrightarrow>
     (\<exists>B1 B2 c1 c2. B = B1 @ B2 \<and> cps = c1 @ c2 \<and> laid E v (unat (iov_len v)) B1 c1 \<and> laid_all E vs B2 c2)"

text \<open>The callback of a vector that is not empty.\<close>

definition iov_calls :: "tpa_iovec \<Rightarrow> (nat \<times> u64 \<times> u64) list" where
  "iov_calls v = (if iov_len v = 0 then [] else
     case iov_write_done v of None \<Rightarrow> [] | Some f \<Rightarrow> [(f, iov_base v, iov_param v)])"

lemma seg_addrs_add: "seg_addrs a (n + m) = seg_addrs a n @ seg_addrs (a + of_nat n) m"
  unfolding seg_addrs_def map_upt_add_offset by (simp add: add.assoc)

lemma length_buf_addrs: "length (buf_addrs E bl) = buf_len bl"
  by (induction bl) (auto simp: buf_addrs_def buf_len_def)

lemma laid_length: "laid E v n B cps \<Longrightarrow> length B = n"
  by (auto simp: laid_def length_buf_addrs split: if_splits)

lemma laid_all_length: "laid_all E vs B cps \<Longrightarrow> length B = sum_list (map (\<lambda>v. unat (iov_len v)) vs)"
  by (induction vs arbitrary: B cps) (auto dest: laid_length)

lemma buf_copies_append:
  "buf_copies E a (xs @ [(b, l)]) = buf_copies E a xs @ [(env_buf_addr E b, a + of_nat (buf_len xs), l)]"
  by (induction E a xs rule: buf_copies.induct) (simp_all add: buf_len_def of_nat_unat add.assoc)

text \<open>\<open>ds\<close> are the descriptors taken so far; they hold \<open>B\<close> and owe the callbacks \<open>fs\<close>.\<close>

definition writing :: "u32 \<Rightarrow> nat \<Rightarrow> tpa_worker \<Rightarrow> tcp_sock \<Rightarrow> tpa_worker \<Rightarrow> tcp_sock \<Rightarrow> write_ctx \<Rightarrow> nat list \<Rightarrow> u64 list \<Rightarrow>
    (nat \<times> u64 \<times> u64) list \<Rightarrow> (u64 \<times> u64 \<times> u32) list \<Rightarrow> bool" where
  "writing b n w0 t0 w t c ds B fs cps \<longleftrightarrow>
     t = t0\<lparr>txq := (txq t0)\<lparr>txq_descs := ring_write (txq_mask (txq t0)) (txq_descs (txq t0)) (txq_write (txq t0)) ds\<rparr>\<rparr> \<and>
     length ds = wc_nr_desc c \<and> wc_nr_desc c \<le> wc_nr_desc_free c \<and> wc_nr_desc_free c = unat (tcp_txq_free_count (txq t0)) \<and>
     pool_free (desc_pool w0) = pool_free (desc_pool w) @ rev ds \<and> pool_wf (desc_pool w) \<and>
     pool_nr_desc (desc_pool w) = pool_nr_desc (desc_pool w0) \<and> (\<forall>d. d \<notin> set ds \<longrightarrow> desc_mem w d = desc_mem w0 d) \<and>
     wk_dev w = wk_dev w0 \<and> neigh_waiting w = neigh_waiting w0 \<and> done_calls w = done_calls w0 \<and> copies w = copies w0 @ cps \<and>
     chain b n (map (dcore \<circ> desc_mem w) ds) \<and> runs (map (dcore \<circ> desc_mem w) ds) = B \<and> wc_size c = of_nat (length B) \<and>
     concat (map (desc_calls \<circ> desc_mem w) ds) = fs \<and> (\<forall>d\<in>set ds. \<not> sacked w d)"

text \<open>The send queue of the worker and socket at the start of the write.\<close>

definition can_write :: "u32 \<Rightarrow> nat \<Rightarrow> tpa_worker \<Rightarrow> tcp_sock \<Rightarrow> bool" where
  "can_write b n w t \<longleftrightarrow> txq_wf (txq t) \<and> pool_ok w t \<and> data_seq_nxt t = b + of_nat n"

lemma can_write_start: "can_write b n w t \<Longrightarrow> writing b n w t w t (zwritev_start t) [] [] [] []"
  by (simp add: can_write_def writing_def zwritev_start_def pool_ok_def runs_def)

lemma ring_write_snoc:
  "ring_write m buf s (xs @ [x]) = (ring_write m buf s xs)[slot m (s + of_nat (length xs)) := x]"
  by (induction xs arbitrary: buf s) (simp_all add: add.assoc)

text \<open>One more descriptor.\<close>

lemma writing_snoc:
  assumes wr: "writing b n w0 t0 w t c ds B fs cps" and ok: "can_write b n w0 t0"
    and room: "wc_nr_desc c < wc_nr_desc_free c" and al: "tx_desc_alloc (desc_pool w) = (Some d, p)"
    and w': "desc_pool w' = p" "desc_mem w' = (desc_mem w)(d := e)" "wk_dev w' = wk_dev w" "neigh_waiting w' = neigh_waiting w"
      "done_calls w' = done_calls w" "copies w' = copies w @ cp"
    and e: "desc_seq e = data_seq_nxt t + wc_size c" "0 < desc_len e" "desc_flags e AND TX_DESC_FLAG_SACKED = 0"
    and c': "wc_nr_desc c' = wc_nr_desc c + 1" "wc_nr_desc_free c' = wc_nr_desc_free c" "wc_size c' = wc_size c + desc_len e"
  shows "writing b n w0 t0 w' (txq_desc_put t (wc_nr_desc c) d) c' (ds @ [d])
    (B @ seg_addrs (desc_phys_addr e) (unat (desc_len e))) (fs @ desc_calls e) (cps @ cp) \<and> d \<notin> set ds"
proof -
  note r = wr [unfolded writing_def]
  have ne: "pool_free (desc_pool w) \<noteq> []" using al r tx_desc_alloc_empty [of "desc_pool w"] by (auto simp: tx_desc_alloc_def split: if_splits)
  obtain q where q: "tx_desc_alloc (desc_pool w) = (Some (last (pool_free (desc_pool w))), q)" "pool_wf q"
    "pool_free q = butlast (pool_free (desc_pool w))" "pool_nr_desc q = pool_nr_desc (desc_pool w)"
    using tx_desc_alloc_pop [of "desc_pool w"] r ne by blast
  have d: "d = last (pool_free (desc_pool w))" "p = q" using q(1) al by simp_all
  then have pf: "pool_free (desc_pool w) = pool_free p @ [d]" using q(3) ne by simp
  have dist: "distinct (pool_free (desc_pool w0))" using ok by (simp add: can_write_def pool_ok_def)
  then have nd: "d \<notin> set ds" using r pf by auto
  have sq: "data_seq_nxt t = b + of_nat n" using r ok by (simp add: can_write_def)
  have at: "pos n (map (dcore \<circ> desc_mem w) ds) (wc_nr_desc c) = n + length B"
    using length_runs [of "map (dcore \<circ> desc_mem w) ds" n] r by simp
  have m: "map (dcore \<circ> desc_mem w') (ds @ [d]) = map (dcore \<circ> desc_mem w) ds @ [dcore e]"
    using nd by (simp add: w'(2))
  have "0 < unat (desc_len e)" using e(2) by (simp add: word_less_nat_alt)
  then have ch: "chain b n (map (dcore \<circ> desc_mem w') (ds @ [d]))"
    unfolding m chain_append using r e(1) sq at by (simp add: dcore_def seg_len_def add.assoc)
  have rn: "runs (map (dcore \<circ> desc_mem w') (ds @ [d])) = B @ seg_addrs (desc_phys_addr e) (unat (desc_len e))"
    unfolding m using r by (simp add: runs_def seg_run_def dcore_def seg_len_def)
  have sk: "\<forall>x\<in>set (ds @ [d]). \<not> sacked w' x" using r w'(2) e(3) nd by (auto simp: sacked_def)
  have "map (desc_calls \<circ> desc_mem w') (ds @ [d]) = map (desc_calls \<circ> desc_mem w) ds @ [desc_calls e]"
    using nd by (simp add: w'(2))
  then have cl: "concat (map (desc_calls \<circ> desc_mem w') (ds @ [d])) = fs @ desc_calls e"
    using r by (simp only: concat_append) simp
  have "wc_size c' = of_nat (length (B @ seg_addrs (desc_phys_addr e) (unat (desc_len e))))" using c'(3) r by simp
  moreover have "txq_desc_put t (wc_nr_desc c) d = t0\<lparr>txq := (txq t0)\<lparr>txq_descs :=
      ring_write (txq_mask (txq t0)) (txq_descs (txq t0)) (txq_write (txq t0)) (ds @ [d])\<rparr>\<rparr>"
    using r by (simp add: txq_desc_put_def ring_write_snoc)
  moreover have "length (ds @ [d]) = wc_nr_desc c'" "wc_nr_desc c' \<le> wc_nr_desc_free c'"
    "wc_nr_desc_free c' = unat (tcp_txq_free_count (txq t0))" using r room c' by simp_all
  moreover have "pool_free (desc_pool w0) = pool_free (desc_pool w') @ rev (ds @ [d])" "pool_wf (desc_pool w')"
    "pool_nr_desc (desc_pool w') = pool_nr_desc (desc_pool w0)" using r pf q(2,4) d(2) w'(1) by simp_all
  moreover have "\<forall>x. x \<notin> set (ds @ [d]) \<longrightarrow> desc_mem w' x = desc_mem w0 x" using r w'(2) by simp
  moreover have "wk_dev w' = wk_dev w0" "neigh_waiting w' = neigh_waiting w0" "done_calls w' = done_calls w0"
    "copies w' = copies w0 @ cps @ cp" using r w'(3-6) by simp_all
  ultimately show ?thesis unfolding writing_def using ch rn sk cl nd by - (intro conjI; assumption)
qed

text \<open>The descriptor that goes back at once when there is no buffer for the data.\<close>

lemma alloc_then_free:
  assumes "pool_wf p" "tx_desc_alloc p = (Some d, q)"
  shows "pool_wf (tx_desc_free q d)" "pool_free (tx_desc_free q d) = pool_free p" "pool_nr_desc (tx_desc_free q d) = pool_nr_desc p"
proof -
  have ne: "pool_free p \<noteq> []" using assms tx_desc_alloc_empty [of p] by (auto simp: tx_desc_alloc_def split: if_splits)
  obtain q' where q': "tx_desc_alloc p = (Some (last (pool_free p)), q')" "pool_wf q'" "pool_free q' = butlast (pool_free p)"
    "pool_nr_desc q' = pool_nr_desc p" using tx_desc_alloc_pop [OF assms(1) ne] by blast
  have q: "d = last (pool_free p)" "q = q'" using assms(2) q'(1) by simp_all
  have "length (pool_free q) < unat (pool_nr_desc q)"
    using pool_wf_off [OF assms(1)] assms(1) ne q q'(3,4) by (auto simp: pool_wf_def) (metis One_nat_def diff_less length_greater_0_conv less_le_trans zero_less_one)
  from tx_desc_free_push [OF _ this, of d] show "pool_wf (tx_desc_free q d)" "pool_free (tx_desc_free q d) = pool_free p"
    "pool_nr_desc (tx_desc_free q d) = pool_nr_desc p" using q q' ne by simp_all
qed

lemma writing_same:
  assumes "writing b n w0 t0 w t c ds B fs cps" "pool_free (desc_pool w') = pool_free (desc_pool w)" "pool_wf (desc_pool w')"
    "pool_nr_desc (desc_pool w') = pool_nr_desc (desc_pool w)" "desc_mem w' = desc_mem w" "wk_dev w' = wk_dev w"
    "neigh_waiting w' = neigh_waiting w" "done_calls w' = done_calls w" "copies w' = copies w"
  shows "writing b n w0 t0 w' t c ds B fs cps"
  using assms unfolding writing_def sacked_def by (elim conjE) (intro conjI; simp)

text \<open>The buffer of one round.\<close>

lemma write_fallback_frame:
  assumes "write_fallback E w iov off len = (r, w')"
  shows "desc_mem w' = desc_mem w" "desc_pool w' = desc_pool w" "wk_dev w' = wk_dev w" "neigh_waiting w' = neigh_waiting w"
    "done_calls w' = done_calls w"
    "copies w' = copies w @ (case r of None \<Rightarrow> [] | Some (a, pa, l, b) \<Rightarrow> [(a, iov_base iov + ucast off, l)])"
    "r = Some (a, pa, l, b) \<Longrightarrow> a = env_buf_addr E b \<and> pa = env_buf_iova E b \<and> l = min len (env_tailroom E)"
  using assms by (auto simp: write_fallback_def packet_alloc_def Let_def split: if_splits)

lemma write_round_ok:
  assumes wr: "writing b n w0 t0 w t c ds B fs cps" and ok: "can_write b n w0 t0"
    and pos: "0 < write_chunk_size (cfg E)" "0 < env_tailroom E" and off: "off < iov_len v" and ld: "laid E v (unat off) Bv cv"
    and r: "write_round E w t v c off = (s, w', t', c')"
  shows "case s of
      None \<Rightarrow> writing b n w0 t0 w' t' c' ds B fs cps
    | Some (d, l) \<Rightarrow> 0 < l \<and> unat off + unat l \<le> unat (iov_len v) \<and> desc_calls (desc_mem w' d) = [] \<and>
        (\<exists>B' cp. writing b n w0 t0 w' t' c' (ds @ [d]) (B @ B') fs (cps @ cp) \<and> d \<notin> set ds \<and>
                 laid E v (unat off + unat l) (Bv @ B') (cv @ cp))"
proof (cases "wc_nr_desc c + 1 > wc_nr_desc_free c")
  case True
  then have "s = None" "w' = w" "t' = t" "c' = c" using r by (simp_all add: write_round_def)
  then show ?thesis using wr by simp
next
  case room: False
  obtain x p where al: "tx_desc_alloc (desc_pool w) = (x, p)" by fastforce
  show ?thesis
  proof (cases x)
    case None
    then have "s = None" "w' = w" "t' = t" "c' = c" using r room al by (simp_all add: write_round_def)
    then show ?thesis using wr by simp
  next
    case (Some d)
    have al': "tx_desc_alloc (desc_pool w) = (Some d, p)" using al Some by simp
    define w1 where "w1 = w\<lparr>desc_pool := p\<rparr>"
    define len where "len = min (iov_len v - off) (write_chunk_size (cfg E))"
    have lb: "0 < len" "unat off + unat len \<le> unat (iov_len v)"
    proof -
      have d: "unat (iov_len v - off) = unat (iov_len v) - unat off" using off by (intro unat_sub) simp
      moreover have "unat off < unat (iov_len v)" using off by (simp add: word_less_nat_alt)
      moreover have "unat len \<le> unat (iov_len v - off)" by (simp add: len_def word_le_nat_alt [symmetric])
      ultimately show "unat off + unat len \<le> unat (iov_len v)" by simp
      have "0 < unat (iov_len v - off)" using d \<open>unat off < _\<close> by simp
      then show "0 < len" using pos(1) by (simp add: len_def word_less_nat_alt min_def)
    qed
    have put: "case s of None \<Rightarrow> False | Some (e, l') \<Rightarrow> e = d \<and> l' = l \<and> 0 < l \<and> desc_calls (desc_mem w' d) = [] \<and>
        writing b n w0 t0 w' t' c' (ds @ [d]) (B @ seg_addrs pa (unat l)) fs (cps @ cp) \<and> d \<notin> set ds"
      if m: "(if iov_phys v \<noteq> 0 then (Some (iov_base v + ucast off, iov_phys v + ucast off, len, None), w1)
              else case write_fallback E w1 v off len of
                 (None, w2) \<Rightarrow> (None, w2\<lparr>desc_pool := tx_desc_free (desc_pool w2) d\<rparr>)
               | (Some (a, pa, l, b), w2) \<Rightarrow> (Some (a, pa, l, Some b), w2)) = (Some (a, pa, l, bf), w2)"
        and w2: "desc_mem w2 = desc_mem w" "desc_pool w2 = p" "wk_dev w2 = wk_dev w" "neigh_waiting w2 = neigh_waiting w"
          "done_calls w2 = done_calls w" "copies w2 = copies w @ cp" and l: "0 < l" for a pa l bf w2 cp
    proof -
      define e where "e = (desc_mem w2 d)\<lparr>desc_addr := a, desc_phys_addr := pa, desc_len := l, desc_write_done := None,
        desc_base := 0, desc_param := 0, desc_flags := (if bf = None then 0 else TX_DESC_FLAG_MEM_FROM_MBUF),
        desc_seq := data_seq_nxt t + wc_size c, desc_pkt := (if bf = None then desc_pkt (desc_mem w2 d) else bf)\<rparr>"
      have rr: "s = Some (d, l)" "w' = w2\<lparr>desc_mem := (desc_mem w2)(d := e)\<rparr>" "t' = txq_desc_put t (wc_nr_desc c) d"
        "c' = c\<lparr>wc_size := wc_size c + l, wc_nr_desc := wc_nr_desc c + 1, wc_nr_fallback := wc_nr_fallback c + (if bf = None then 0 else 1)\<rparr>"
        using r unfolding write_round_def Let_def if_not_P [OF room] al' prod.case option.case w1_def [symmetric] len_def [symmetric] m e_def
        by (elim Pair_inject; simp)+
      have "desc_flags e AND TX_DESC_FLAG_SACKED = 0" by (simp add: e_def tx_desc_flag_defs)
      then have "writing b n w0 t0 w' (txq_desc_put t (wc_nr_desc c) d) c' (ds @ [d])
          (B @ seg_addrs (desc_phys_addr e) (unat (desc_len e))) (fs @ desc_calls e) (cps @ cp) \<and> d \<notin> set ds"
        by (intro writing_snoc [OF wr ok _ al']) (use room l w2 in \<open>simp_all add: rr e_def\<close>)
      moreover have "desc_phys_addr e = pa" "desc_len e = l" "desc_calls e = []" "desc_mem w' d = e"
        by (simp_all add: e_def desc_calls_def rr(2))
      ultimately show ?thesis using l by (simp add: rr(1,3))
    qed
    show ?thesis
    proof (cases "iov_phys v \<noteq> 0")
      case True
      have "case s of None \<Rightarrow> False | Some (e, l') \<Rightarrow> e = d \<and> l' = len \<and> 0 < len \<and> desc_calls (desc_mem w' d) = [] \<and>
        writing b n w0 t0 w' t' c' (ds @ [d]) (B @ seg_addrs (iov_phys v + ucast off) (unat len)) fs (cps @ []) \<and> d \<notin> set ds"
        by (rule put [of "iov_base v + ucast off" _ _ None w1]) (use True lb in \<open>simp_all add: w1_def\<close>)
      moreover have "laid E v (unat off + unat len) (Bv @ seg_addrs (iov_phys v + ucast off) (unat len)) (cv @ [])"
        using ld True seg_addrs_add [of "iov_phys v" "unat off" "unat len"] by (simp add: laid_def)
      ultimately show ?thesis using lb
        by (cases s) (auto intro!: exI [of _ "seg_addrs (iov_phys v + ucast off) (unat len)"] exI [of _ "[] :: (u64 \<times> u64 \<times> u32) list"])
    next
      case False
      obtain y w2 where fb: "write_fallback E w1 v off len = (y, w2)" by fastforce
      note fr = write_fallback_frame [OF fb]
      show ?thesis
      proof (cases y)
        case None
        have "s = None" "w' = w2\<lparr>desc_pool := tx_desc_free (desc_pool w2) d\<rparr>" "t' = t" "c' = c"
          using r False room al' fb None by (simp_all add: write_round_def Let_def w1_def len_def)
        moreover have "writing b n w0 t0 (w2\<lparr>desc_pool := tx_desc_free (desc_pool w2) d\<rparr>) t c ds B fs cps"
          by (rule writing_same [OF wr])
            (use wr alloc_then_free [OF _ al'] fr(1-6) None in \<open>simp_all add: writing_def w1_def\<close>)
        ultimately show ?thesis by simp
      next
        case (Some z)
        obtain a pa l bf where z: "z = (a, pa, l, bf)" by (metis prod_cases4)
        have f: "a = env_buf_addr E bf" "pa = env_buf_iova E bf" "l = min len (env_tailroom E)" using fr(7) Some z by blast+
        have l: "0 < l" "unat l \<le> unat len" using lb pos(2) f(3) by (simp_all add: word_less_nat_alt word_le_nat_alt min_def)
        have "case s of None \<Rightarrow> False | Some (e, l') \<Rightarrow> e = d \<and> l' = l \<and> 0 < l \<and> desc_calls (desc_mem w' d) = [] \<and>
          writing b n w0 t0 w' t' c' (ds @ [d]) (B @ seg_addrs pa (unat l)) fs (cps @ [(a, iov_base v + ucast off, l)]) \<and> d \<notin> set ds"
          by (rule put [of a _ _ "Some bf" w2]) (use False l fr(1-6) Some z fb in \<open>simp_all add: w1_def\<close>)
        moreover have "laid E v (unat off + unat l) (Bv @ seg_addrs pa (unat l)) (cv @ [(a, iov_base v + ucast off, l)])"
        proof -
          obtain bl where "Bv = buf_addrs E bl" "cv = buf_copies E (iov_base v) bl" "buf_len bl = unat off"
            using ld False by (auto simp: laid_def)
          then show ?thesis using False f(1,2)
            by (auto simp: laid_def buf_copies_append buf_addrs_def buf_len_def intro!: exI [of _ "bl @ [(bf, l)]"])
        qed
        ultimately show ?thesis using l lb by (cases s) auto
      qed
    qed
  qed
qed

text \<open>The last descriptor of a vector gets the callback.\<close>

lemma writing_calls:
  assumes wr: "writing b n w0 t0 w t c (ds @ [d]) B fs cps" and d: "desc_calls (desc_mem w d) = []" "d \<notin> set ds"
    and w': "w' = w\<lparr>desc_mem := (desc_mem w)(d := (desc_mem w d)\<lparr>desc_write_done := f, desc_base := a, desc_param := p\<rparr>)\<rparr>"
  shows "writing b n w0 t0 w' t c (ds @ [d]) B (fs @ (case f of None \<Rightarrow> [] | Some g \<Rightarrow> [(g, a, p)])) cps"
proof -
  note r = wr [unfolded writing_def]
  have "map (dcore \<circ> desc_mem w') (ds @ [d]) = map (dcore \<circ> desc_mem w) (ds @ [d])" using d(2) by (auto simp: w' dcore_def)
  moreover have "concat (map (desc_calls \<circ> desc_mem w') (ds @ [d])) = fs @ (case f of None \<Rightarrow> [] | Some g \<Rightarrow> [(g, a, p)])"
  proof -
    have m: "map (desc_calls \<circ> desc_mem w') ds = map (desc_calls \<circ> desc_mem w) ds" using d(2) by (auto simp: w')
    have c: "concat (map (desc_calls \<circ> desc_mem w) ds) = fs" using r d(1) by simp
    have "concat (map (desc_calls \<circ> desc_mem w') (ds @ [d])) = concat (map (desc_calls \<circ> desc_mem w') ds) @ desc_calls (desc_mem w' d)" by simp
    then show ?thesis unfolding m c by (simp add: w' desc_calls_def split: option.splits)
  qed
  moreover have "\<forall>e\<in>set (ds @ [d]). \<not> sacked w' e" using r by (auto simp: w' sacked_def)
  moreover have "\<forall>e. e \<notin> set (ds @ [d]) \<longrightarrow> desc_mem w' e = desc_mem w0 e" using r by (simp add: w')
  moreover have "desc_pool w' = desc_pool w" "wk_dev w' = wk_dev w" "neigh_waiting w' = neigh_waiting w"
    "done_calls w' = done_calls w" "copies w' = copies w" by (simp_all add: w')
  ultimately show ?thesis using r unfolding writing_def by (elim conjE) (intro conjI; simp only:)
qed

lemma write_iov_loop_ok:
  assumes "writing b n w0 t0 w t c ds B fs cps" "can_write b n w0 t0" "0 < write_chunk_size (cfg E)" "0 < env_tailroom E"
    "off < iov_len v" "laid E v (unat off) Bv cv" "write_iov_loop E w t v c off = (r, w', t', c')"
  shows "\<exists>ds' B' fs' cp. writing b n w0 t0 w' t' c' (ds @ ds') (B @ B') (fs @ fs') (cps @ cp) \<and>
    (r \<longrightarrow> fs' = iov_calls v \<and> laid E v (unat (iov_len v)) (Bv @ B') (cv @ cp))"
  using assms
proof (induction E w t v c off arbitrary: ds B cps Bv cv rule: write_iov_loop.induct)
  case (1 E w t v c off)
  obtain s w1 t1 c1 where rd: "write_round E w t v c off = (s, w1, t1, c1)" by (metis prod_cases4)
  note ro = write_round_ok [OF "1.prems"(1-6) rd]
  show ?case
  proof (cases s)
    case None
    then have "r = False" "w' = w1" "t' = t1" "c' = c1" using "1.prems"(7) rd by (simp_all add: write_iov_loop.simps [of E w t v c off])
    moreover have "writing b n w0 t0 w1 t1 c1 (ds @ []) (B @ []) (fs @ []) (cps @ [])" using ro None by simp
    ultimately show ?thesis by blast
  next
    case (Some dl)
    obtain d l where dl: "dl = (d, l)" by fastforce
    obtain B1 cp1 where o: "0 < l" "unat off + unat l \<le> unat (iov_len v)" "desc_calls (desc_mem w1 d) = []" "d \<notin> set ds"
      "writing b n w0 t0 w1 t1 c1 (ds @ [d]) (B @ B1) fs (cps @ cp1)" "laid E v (unat off + unat l) (Bv @ B1) (cv @ cp1)"
      using ro Some dl by auto
    have u: "unat (off + l) = unat off + unat l"
      using le_less_trans [OF o(2) unsigned_less [of "iov_len v"]] by (simp add: unat_word_ariths(1))
    show ?thesis
    proof (cases "off + l < iov_len v")
      case True
      have lp: "write_iov_loop E w1 t1 v c1 (off + l) = (r, w', t', c')"
        using "1.prems"(7) rd Some dl True by (simp add: write_iov_loop.simps [of E w t v c off])
      have ld: "laid E v (unat (off + l)) (Bv @ B1) (cv @ cp1)" using o(6) u by simp
      from "1.IH" [OF rd [symmetric] Some dl [symmetric] refl refl True o(5) "1.prems"(2-4) True ld lp]
      obtain ds' B' fs' cp where "writing b n w0 t0 w' t' c' ((ds @ [d]) @ ds') ((B @ B1) @ B') (fs @ fs') ((cps @ cp1) @ cp)"
        "r \<longrightarrow> fs' = iov_calls v \<and> laid E v (unat (iov_len v)) ((Bv @ B1) @ B') ((cv @ cp1) @ cp)"
        by blast
      then show ?thesis by (metis append.assoc)
    next
      case False
      then have e: "unat off + unat l = unat (iov_len v)" using o(2) u by (simp add: word_less_nat_alt)
      have ne: "iov_len v \<noteq> 0" using "1.prems"(5) by auto
      have "r = True" "w' = w1\<lparr>desc_mem := (desc_mem w1)(d := (desc_mem w1 d)\<lparr>desc_write_done := iov_write_done v,
          desc_base := iov_base v, desc_param := iov_param v\<rparr>)\<rparr>" "t' = t1" "c' = c1"
        using "1.prems"(7) rd Some dl False by (simp_all add: write_iov_loop.simps [of E w t v c off])
      moreover from this have "writing b n w0 t0 w' t' c' (ds @ [d]) (B @ B1) (fs @ iov_calls v) (cps @ cp1)"
        using writing_calls [OF o(5,3,4)] ne by (simp add: iov_calls_def)
      ultimately show ?thesis using o(6) e by auto
    qed
  qed
qed

lemma slowpath_loop_ok:
  assumes "writing b n w0 t0 w t c ds B fs cps" "can_write b n w0 t0" "0 < write_chunk_size (cfg E)" "0 < env_tailroom E"
    "slowpath_loop E w t vs c = (r, w', t', c')"
  shows "\<exists>ds' B' fs' cp. writing b n w0 t0 w' t' c' (ds @ ds') (B @ B') (fs @ fs') (cps @ cp) \<and>
    (r \<longrightarrow> fs' = concat (map iov_calls vs) \<and> laid_all E vs B' cp)"
  using assms
proof (induction vs arbitrary: w t c ds B fs cps)
  case Nil
  then have "writing b n w0 t0 w' t' c' (ds @ []) (B @ []) (fs @ []) (cps @ [])" by simp
  then show ?case by fastforce
next
  case (Cons v vs)
  obtain r1 w1 t1 c1 where one: "write_one_iov E w t v c = (r1, w1, t1, c1)" by (metis prod_cases4)
  have "\<exists>ds' B' fs' cp. writing b n w0 t0 w1 t1 c1 (ds @ ds') (B @ B') (fs @ fs') (cps @ cp) \<and>
    (r1 \<longrightarrow> fs' = iov_calls v \<and> laid E v (unat (iov_len v)) B' cp)"
  proof (cases "iov_len v = 0")
    case True
    then have "writing b n w0 t0 w1 t1 c1 (ds @ []) (B @ []) (fs @ []) (cps @ [])" using one Cons.prems(1) by (simp add: write_one_iov_def)
    moreover have "laid E v 0 [] []" by (auto simp: laid_def buf_addrs_def buf_len_def intro!: exI [of _ "[]"])
    ultimately show ?thesis using True by (metis iov_calls_def unat_0)
  next
    case False
    have "laid E v (unat (0 :: u32)) [] []" by (auto simp: laid_def buf_addrs_def buf_len_def intro!: exI [of _ "[]"])
    moreover have "0 < iov_len v" using False by (simp add: word_greater_zero_iff)
    ultimately show ?thesis using write_iov_loop_ok [OF Cons.prems(1-4), of 0 v "[]" "[]" r1 w1 t1 c1] one False
      by (simp add: write_one_iov_def)
  qed
  then obtain ds1 B1 fs1 cp1 where o: "writing b n w0 t0 w1 t1 c1 (ds @ ds1) (B @ B1) (fs @ fs1) (cps @ cp1)"
    "r1 \<longrightarrow> fs1 = iov_calls v \<and> laid E v (unat (iov_len v)) B1 cp1" by blast
  show ?case
  proof (cases r1)
    case False
    then have "r = False" "w' = w1" "t' = t1" "c' = c1" using Cons.prems(5) one by simp_all
    then show ?thesis using o(1) by blast
  next
    case True
    then have "slowpath_loop E w1 t1 vs c1 = (r, w', t', c')" using Cons.prems(5) one by simp
    from Cons.IH [OF o(1) Cons.prems(2-4) this]
    obtain ds2 B2 fs2 cp2 where "writing b n w0 t0 w' t' c' ((ds @ ds1) @ ds2) ((B @ B1) @ B2) ((fs @ fs1) @ fs2) ((cps @ cp1) @ cp2)"
      "r \<longrightarrow> fs2 = concat (map iov_calls vs) \<and> laid_all E vs B2 cp2" by blast
    then have "writing b n w0 t0 w' t' c' (ds @ ds1 @ ds2) (B @ B1 @ B2) (fs @ fs1 @ fs2) (cps @ cp1 @ cp2) \<and>
      (r \<longrightarrow> fs1 @ fs2 = concat (map iov_calls (v # vs)) \<and> laid_all E (v # vs) (B1 @ B2) (cp1 @ cp2))"
      using o(2) True by auto
    then show ?thesis by blast
  qed
qed

section \<open>The end of a write\<close>

lemma pos_append: "k \<le> length ss \<Longrightarrow> pos P (ss @ us) k = pos P ss k"
  by (simp add: pos_def)

lemma at_pos_append:
  assumes "at_pos P ss x k" "x \<le> pos P ss (length ss)" "\<forall>u\<in>set us. 0 < seg_len u"
  shows "at_pos P (ss @ us) x k"
proof (cases "k < length ss")
  case True
  then show ?thesis using assms(1) by (simp add: at_pos_def pos_append)
next
  case False
  then have k: "k = length ss" "x = pos P ss (length ss)" using assms(1,2) by (auto simp: at_pos_def)
  show ?thesis
  proof (cases us)
    case Nil
    then show ?thesis using k by (simp add: at_pos_def)
  next
    case (Cons u vs)
    have "pos P (ss @ us) (Suc k) = pos P ss k + seg_len u" using k Cons by (simp add: pos_def)
    then show ?thesis using k assms(3) Cons by (simp add: at_pos_def pos_append)
  qed
qed

lemma chain_seg_len: "chain b x ss \<Longrightarrow> \<forall>s\<in>set ss. 0 < seg_len s"
  by (induction ss arbitrary: x) auto

text \<open>New descriptors at the end of the queue; with none of them, a step that only rewrites cells of
  the ring that are not in use.\<close>

lemma snd_ok_append:
  assumes ok: "snd_ok b A P U X w t"
    and q: "txq_wf (txq t')" "txq_items (txq t') = txq_items (txq t) @ ds" "txq_una (txq t') = txq_una (txq t)"
      "txq_inflight (txq t') = txq_inflight (txq t)"
    and f: "tx_view (t'\<lparr>txq := txq t, data_seq_nxt := data_seq_nxt t\<rparr>) = tx_view t"
    and mem: "\<forall>d\<in>set (txq_items (txq t)). desc_mem w' d = desc_mem w d"
    and new: "chain b (length A) (map (dcore \<circ> desc_mem w') ds)" "runs (map (dcore \<circ> desc_mem w') ds) = B" "\<forall>d\<in>set ds. \<not> sacked w' d"
    and sq: "data_seq_nxt t' = b + of_nat (length (A @ B))" and len: "length (A @ B) < P + 2 ^ 30" and pool: "pool_ok w' t'"
  shows "snd_ok b (A @ B) P U X w' t'"
proof -
  let ?q = "snd_q w t" and ?us = "map (dcore \<circ> desc_mem w') ds"
  have inv: "snd_inv b A P U X w t" using ok by (simp add: snd_ok_def)
  note i = inv [unfolded snd_inv_def] and bd = snd_inv_bounds [OF inv]
  have q': "snd_q w' t' = ?q @ ?us" using mem q(2) by (simp add: snd_q_def)
  have used: "txq_used (txq t') = txq_used (txq t) + length ds" using arg_cong [OF q(2), of length] by simp
  have e: "pos P ?q (length ?q) = length A" using i sq_ok_end [of b P A w t] by simp
  have g: "snd_una t' = snd_una t" "snd_nxt t' = snd_nxt t" "partial_ack t' = partial_ack t" "retrans_seq t' = retrans_seq t"
    "retrans_desc_base t' = retrans_desc_base t" "retrans_stage t' = retrans_stage t" "snd_recover t' = snd_recover t"
    using f by (simp_all add: tx_view_def)
  have ap: "at_pos P (?q @ ?us) x k" if "at_pos P ?q x k" "x \<le> X" for x k
    using at_pos_append [OF that(1) _ chain_seg_len [OF new(1)]] that(2) bd(3) e by simp
  have "sq_ok b P (A @ B) w' t'"
    using i q(1) q' new(1,2) len e bd by (auto simp: sq_ok_def chain_append runs_def)
  moreover have "sacked_below P X w' t'"
    unfolding sacked_below_def
  proof (intro allI impI)
    fix k
    assume k: "k < txq_used (txq t')" "sacked w' (txq_items (txq t') ! k)"
    have old: "k < txq_used (txq t)"
    proof (rule ccontr)
      assume "\<not> k < txq_used (txq t)"
      then have "txq_items (txq t') ! k \<in> set ds" using k(1) used q(2) by (auto simp: nth_append)
      then show False using new(3) k(2) by blast
    qed
    then have it: "txq_items (txq t') ! k = txq_items (txq t) ! k" "txq_items (txq t) ! k \<in> set (txq_items (txq t))"
      using q(2) by (simp_all add: nth_append)
    then have "sacked w (txq_items (txq t) ! k)" using k(2) mem by (simp add: sacked_def)
    then show "pos P (snd_q w' t') (Suc k) \<le> X" using i old q' by (simp add: sacked_below_def pos_append)
  qed
  ultimately have "snd_inv b (A @ B) P U X w' t'"
    using i bd q(4) ap [of U 0] ap [of X "txq_inflight (txq t)"] sq g q' by (simp add: snd_inv_def)
  moreover have "recov b P U X w' t' V R" if "recov b P U X w t V R" for V R
    using that ap [of R] g q' q(3) by (auto simp: recov_def retr_from_def)
  ultimately show ?thesis using ok pool g(6) by (auto simp: snd_ok_def)
qed

lemma desc_revoke_frame [simp]:
  "desc_mem (desc_revoke w d) = desc_mem w" "wk_dev (desc_revoke w d) = wk_dev w" "neigh_waiting (desc_revoke w d) = neigh_waiting w"
  "done_calls (desc_revoke w d) = done_calls w" "copies (desc_revoke w d) = copies w" "desc_pool (desc_revoke w d) = tx_desc_free (desc_pool w) d"
  by (simp_all add: desc_revoke_def Let_def)

lemma revoke_fold:
  assumes "pool_wf (desc_pool w)" "length (pool_free (desc_pool w)) + length ds \<le> unat (pool_nr_desc (desc_pool w))"
  defines "w' \<equiv> fold (\<lambda>d w. desc_revoke w d) ds w"
  shows "desc_mem w' = desc_mem w \<and> wk_dev w' = wk_dev w \<and> neigh_waiting w' = neigh_waiting w \<and> done_calls w' = done_calls w \<and>
    pool_wf (desc_pool w') \<and> pool_free (desc_pool w') = pool_free (desc_pool w) @ ds \<and>
    pool_nr_desc (desc_pool w') = pool_nr_desc (desc_pool w) \<and> copies w' = copies w"
  using assms(1,2) unfolding w'_def
proof (induction ds arbitrary: w)
  case (Cons d ds)
  have room: "length (pool_free (desc_pool w)) < unat (pool_nr_desc (desc_pool w))" using Cons.prems by simp
  note p = tx_desc_free_push [OF Cons.prems(1) room, of d]
  show ?case using Cons.IH [of "desc_revoke w d"] Cons.prems p by simp
qed simp

lemma writing_txq:
  assumes wr: "writing b n w0 t0 w t c ds B fs cps" and ok: "can_write b n w0 t0"
  shows "txq_wf (txq t)" "txq_items (txq t) = txq_items (txq t0)" "length ds \<le> length (txq_descs (txq t0)) - txq_used (txq t0)"
    "\<And>i. i < length ds \<Longrightarrow> txq_desc_at t i = ds ! i"
proof -
  note r = wr [unfolded writing_def]
  have wf: "txq_wf (txq t0)" using ok by (simp add: can_write_def)
  note wfd = txq_wfD [OF wf]
  show fit: "length ds \<le> length (txq_descs (txq t0)) - txq_used (txq t0)" using r tcp_txq_free_count_eq [OF wf] by simp
  have w: "txq_una (txq t0) + of_nat (txq_used (txq t0)) = txq_write (txq t0)" by (simp add: txq_used_def)
  show "txq_wf (txq t)" using wf r by (simp add: txq_wf_def txq_used_def txq_inflight_def)
  have room: "txq_used (txq t0) + length ds \<le> length (txq_descs (txq t0))" using fit wfd(3) by simp
  let ?buf = "ring_write (txq_mask (txq t0)) (txq_descs (txq t0)) (txq_write (txq t0)) ds"
  have x: "ring_slice (txq_mask (txq t0)) ?buf (txq_una (txq t0)) (txq_used (txq t0) + length ds) = txq_items (txq t0) @ ds"
    using ring_write_extends [OF wfd(1) room, of "txq_una (txq t0)"] w by (simp add: txq_items_def)
  have "ring_slice (txq_mask (txq t0)) ?buf (txq_una (txq t0)) (txq_used (txq t0)) =
      take (txq_used (txq t0)) (ring_slice (txq_mask (txq t0)) ?buf (txq_una (txq t0)) (txq_used (txq t0) + length ds))"
    by (rule ring_slice_take) simp
  then have "ring_slice (txq_mask (txq t0)) ?buf (txq_una (txq t0)) (txq_used (txq t0)) = txq_items (txq t0)" unfolding x by simp
  then show "txq_items (txq t) = txq_items (txq t0)" using r by (simp add: txq_items_def txq_used_def)
  show "txq_desc_at t i = ds ! i" if "i < length ds" for i
    using ring_write_nth [OF wfd(1), of ds i] that room r by (simp add: txq_desc_at_def)
qed

text \<open>What a write promises. A failed one changes neither the queue nor the set of free descriptors; a
  successful one appends its bytes and the callbacks of its vectors.\<close>

definition write_failed :: "tpa_worker \<Rightarrow> tcp_sock \<Rightarrow> tpa_worker \<Rightarrow> tcp_sock \<Rightarrow> bool" where
  "write_failed w t w' t' \<longleftrightarrow> txq_items (txq t') = txq_items (txq t) \<and>
     mset (pool_free (desc_pool w')) = mset (pool_free (desc_pool w)) \<and> data_seq_nxt t' = data_seq_nxt t \<and>
     (\<forall>d\<in>set (txq_items (txq t)). desc_mem w' d = desc_mem w d) \<and> (\<exists>cps. copies w' = copies w @ cps)"

definition write_done :: "env \<Rightarrow> tpa_worker \<Rightarrow> tcp_sock \<Rightarrow> tpa_iovec list \<Rightarrow> u64 list \<Rightarrow> tpa_worker \<Rightarrow> tcp_sock \<Rightarrow> bool" where
  "write_done E w t iovs B w' t' \<longleftrightarrow>
     (\<exists>ds cps. txq_items (txq t') = txq_items (txq t) @ ds \<and> pool_free (desc_pool w) = pool_free (desc_pool w') @ rev ds \<and>
        runs (map (dcore \<circ> desc_mem w') ds) = B \<and> laid_all E iovs B cps \<and> copies w' = copies w @ cps \<and>
        concat (map (desc_calls \<circ> desc_mem w') ds) = concat (map iov_calls iovs) \<and>
        (\<forall>d\<in>set (txq_items (txq t)). desc_mem w' d = desc_mem w d))"

lemma output_enqueue_frame [simp]:
  "desc_mem (output_tsock_enqueue w t) = desc_mem w" "desc_pool (output_tsock_enqueue w t) = desc_pool w"
  "wk_dev (output_tsock_enqueue w t) = wk_dev w" "neigh_waiting (output_tsock_enqueue w t) = neigh_waiting w"
  "done_calls (output_tsock_enqueue w t) = done_calls w" "copies (output_tsock_enqueue w t) = copies w"
  by (simp_all add: output_tsock_enqueue_def)

lemma zwritev_failed_ok:
  assumes ok: "snd_ok b A P U X w0 t0" and wr: "writing b (length A) w0 t0 w t c ds B fs cps"
    and cw: "can_write b (length A) w0 t0" and r: "zwritev_failed w t c = (r, w', t')"
  shows "r = -1 \<and> snd_ok b A P U X w' t' \<and> emits Q w0 w' \<and> done_calls w' = done_calls w0 \<and> write_failed w0 t0 w' t'"
proof -
  note wd = wr [unfolded writing_def] and q = writing_txq [OF wr cw]
  define w1 where "w1 = write_revoke w t c"
  obtain w2 t2 where rf: "refire_out_event_if_needed w1 t = (w2, t2)" by fastforce
  have res: "r = -1" "w' = w2\<lparr>wk_errno := Some EAGAIN\<rparr>" "t' = t2" using r rf by (simp_all add: zwritev_failed_def w1_def [symmetric])
  have "w1 = fold (\<lambda>d w. desc_revoke w d) (map (txq_desc_at t) [0..<length ds]) w"
    using wd by (simp add: w1_def write_revoke_def fold_map comp_def)
  moreover have "map (txq_desc_at t) [0..<length ds] = ds" using q(4) by (intro nth_equalityI) simp_all
  ultimately have w1: "w1 = fold (\<lambda>d w. desc_revoke w d) ds w" by simp
  have p0: "distinct (pool_free (desc_pool w0) @ txq_items (txq t0))"
    "length (pool_free (desc_pool w0)) + txq_used (txq t0) \<le> unat (pool_nr_desc (desc_pool w0))" "pool_wf (desc_pool w0)"
    using cw by (simp_all add: can_write_def pool_ok_def)
  have pf: "pool_free (desc_pool w0) = pool_free (desc_pool w) @ rev ds" using wd by simp
  have rv: "desc_mem w1 = desc_mem w \<and> wk_dev w1 = wk_dev w \<and> neigh_waiting w1 = neigh_waiting w \<and> done_calls w1 = done_calls w \<and>
    pool_wf (desc_pool w1) \<and> pool_free (desc_pool w1) = pool_free (desc_pool w) @ ds \<and>
    pool_nr_desc (desc_pool w1) = pool_nr_desc (desc_pool w) \<and> copies w1 = copies w"
    unfolding w1 using wd p0(2) pf by (intro revoke_fold) simp_all
  have e: "tx_view t2 = tx_view t \<and> desc_mem w2 = desc_mem w1 \<and> desc_pool w2 = desc_pool w1 \<and> done_calls w2 = done_calls w1 \<and>
    wk_dev w2 = wk_dev w1 \<and> neigh_waiting w2 = neigh_waiting w1 \<and> copies w2 = copies w1"
    using rf tsock_event_add_frame [of w1 t TPA_EVENT_OUT w2 t2] by (auto simp: refire_out_event_if_needed_def split: if_splits)
  have tv: "tx_view (t'\<lparr>txq := txq t0, data_seq_nxt := data_seq_nxt t0\<rparr>) = tx_view t0" "txq t' = txq t" "data_seq_nxt t' = data_seq_nxt t0"
    using e wd by (auto simp: res(3) tx_view_def)
  have inv: "snd_inv b A P U X w0 t0" using ok by (simp add: snd_ok_def)
  have old: "\<forall>d\<in>set (txq_items (txq t0)). desc_mem w' d = desc_mem w0 d"
  proof
    fix d
    assume "d \<in> set (txq_items (txq t0))"
    then have "d \<notin> set ds" using p0(1) pf by auto
    then show "desc_mem w' d = desc_mem w0 d" using wd e rv by (simp add: res)
  qed
  have "txq_used (txq t) = txq_used (txq t0)" using q(2) by (metis length_txq_items)
  then have pool: "pool_ok w' t'"
    using p0 pf rv e q(2) conjunct1 [OF wd] wd by (auto simp: pool_ok_def res(2) tv(2))
  have "snd_ok b (A @ []) P U X w' t'"
    by (rule snd_ok_append [OF ok _ _ _ _ tv(1) old, where ds = "[]"])
      (use q wd inv pool tv snd_inv_bounds [OF inv] in \<open>auto simp: runs_def snd_inv_def txq_inflight_def\<close>)
  moreover have "emits Q w0 w'" using e rv wd by (intro emits_same) (simp_all add: res)
  moreover have "write_failed w0 t0 w' t'" using q(2) tv pf rv e old wd by (simp add: write_failed_def res(2))
  ultimately show ?thesis using res(1) e rv wd by (simp add: res(2))
qed

lemma write_commit_ok:
  assumes ok: "snd_ok b A P U X w0 t0" and wr: "writing b (length A) w0 t0 w t c ds B (concat (map iov_calls iovs)) cps"
    and ld: "laid_all E iovs B cps"
    and cw: "can_write b (length A) w0 t0" and len: "length (A @ B) < P + 2 ^ 30"
    and r: "write_commit (w\<lparr>nr_write_mbuf := x\<rparr>) t c = (w', t')"
  shows "snd_ok b (A @ B) P U X w' t' \<and> emits Q w0 w' \<and> done_calls w' = done_calls w0 \<and> write_done E w0 t0 iovs B w' t'"
proof -
  note wd = wr [unfolded writing_def] and q = writing_txq [OF wr cw]
  have wf: "txq_wf (txq t0)" using cw by (simp add: can_write_def)
  have t': "t' = t\<lparr>txq := (txq t)\<lparr>txq_write := txq_write (txq t) + of_nat (wc_nr_desc c)\<rparr>, data_seq_nxt := data_seq_nxt t + wc_size c\<rparr>"
    "w' = output_tsock_enqueue (w\<lparr>nr_write_mbuf := x\<rparr>) t'"
    using r by (auto simp: write_commit_def Let_def)
  have room: "txq_used (txq t0) + length ds \<le> length (txq_descs (txq t0))" using q(3) txq_wfD(3) [OF wf] by simp
  have "tcp_txq_enqueue_bulk (txq t0) ds = (0, txq t') \<or> tcp_txq_enqueue_bulk (txq t0) ds = (-1, txq t0)"
    using wd by (auto simp: tcp_txq_enqueue_bulk_def Let_def t'(1))
  then have tq: "txq_wf (txq t')" "txq_items (txq t') = txq_items (txq t0) @ ds" "txq_inflight (txq t') = txq_inflight (txq t0)"
    using tcp_txq_enqueue_bulk_fits [OF wf room] by auto
  have una: "txq_una (txq t') = txq_una (txq t0)" using wd by (simp add: t'(1))
  have tv: "tx_view (t'\<lparr>txq := txq t0, data_seq_nxt := data_seq_nxt t0\<rparr>) = tx_view t0" using wd by (simp add: t'(1) tx_view_def)
  have sq: "data_seq_nxt t' = b + of_nat (length (A @ B))" using wd cw by (simp add: t'(1) can_write_def add.assoc)
  have p0: "distinct (pool_free (desc_pool w0) @ txq_items (txq t0))"
    "length (pool_free (desc_pool w0)) + txq_used (txq t0) \<le> unat (pool_nr_desc (desc_pool w0))" "pool_wf (desc_pool w0)"
    using cw by (simp_all add: can_write_def pool_ok_def)
  have pf: "pool_free (desc_pool w0) = pool_free (desc_pool w) @ rev ds" using wd by simp
  have mem: "desc_mem w' = desc_mem w" "desc_pool w' = desc_pool w" by (simp_all add: t'(2))
  have old: "\<forall>d\<in>set (txq_items (txq t0)). desc_mem w' d = desc_mem w0 d"
  proof
    fix d
    assume "d \<in> set (txq_items (txq t0))"
    then have "d \<notin> set ds" using p0(1) pf by auto
    then show "desc_mem w' d = desc_mem w0 d" using wd mem by simp
  qed
  have "txq_used (txq t') = txq_used (txq t0) + length ds" using tq(2) by (metis length_append length_txq_items)
  then have pool: "pool_ok w' t'" using p0 pf wd tq(2) by (auto simp: pool_ok_def mem)
  have "\<forall>d\<in>set ds. \<not> sacked w' d" using wd mem by (simp add: sacked_def)
  then have "snd_ok b (A @ B) P U X w' t'"
    using snd_ok_append [OF ok tq(1,2) una tq(3) tv old _ _ _ sq len pool] wd mem by simp
  moreover have "write_done E w0 t0 iovs B w' t'"
    unfolding write_done_def
    by (intro exI [of _ ds] exI [of _ cps]) (use tq(2) wd mem ld old in \<open>simp add: t'(2)\<close>)
  moreover have "emits Q w0 w'" "done_calls w' = done_calls w0" using wd by (auto intro!: emits_same simp: t'(2))
  ultimately show ?thesis by blast
qed

text \<open>A write as a whole.\<close>

lemma tsock_zwritev_ok:
  assumes ok: "snd_ok b A P U X w t" and pos: "0 < write_chunk_size (cfg E)" "0 < env_tailroom E"
    and len: "length A + sum_list (map (\<lambda>v. unat (iov_len v)) iovs) < P + 2 ^ 30"
    and r: "tsock_zwritev E w t iovs = (r, w', t')"
  shows "emits Q w w' \<and> done_calls w' = done_calls w \<and>
    (r = -1 \<and> snd_ok b A P U X w' t' \<and> write_failed w t w' t' \<or>
     (\<exists>B. r = int (length B) \<and> snd_ok b (A @ B) P U X w' t' \<and> write_done E w t iovs B w' t'))"
proof (cases "tsock_write_check t")
  case (Some e)
  then have "r = -1" "w' = w\<lparr>wk_errno := Some e\<rparr>" "t' = t" using r by (simp_all add: tsock_zwritev_def)
  moreover have "mem_same w (w\<lparr>wk_errno := Some e\<rparr>)" by (simp add: mem_same_def)
  ultimately show ?thesis using ok snd_ok_frame [of w w' t t] by (auto simp: write_failed_def intro!: emits_same)
next
  case None
  have inv: "snd_inv b A P U X w t" using ok by (simp add: snd_ok_def)
  have cw: "can_write b (length A) w t" using ok by (simp add: can_write_def snd_ok_def snd_inv_def sq_ok_def)
  obtain s w1 t1 c where l: "slowpath_loop E w t iovs (zwritev_start t) = (s, w1, t1, c)" by (metis prod_cases4)
  obtain ds B fs cps where wr: "writing b (length A) w t w1 t1 c ([] @ ds) ([] @ B) ([] @ fs) ([] @ cps)"
    "s \<longrightarrow> fs = concat (map iov_calls iovs) \<and> laid_all E iovs B cps"
    using slowpath_loop_ok [OF can_write_start [OF cw] cw pos l] by blast
  have z: "zwritev_by_slowpath E w t iovs = (r, w', t')" using r tsock_zwritev_by_slowpath [OF None] by simp
  show ?thesis
  proof (cases s)
    case False
    then have "zwritev_failed w1 t1 c = (r, w', t')" using z l by (simp add: zwritev_by_slowpath_def)
    from zwritev_failed_ok [OF ok _ cw this, of ds B fs cps Q] wr(1) show ?thesis by simp
  next
    case True
    obtain w2 t2 where cm: "write_commit (w1\<lparr>nr_write_mbuf := nr_write_mbuf w1 + of_nat (wc_nr_fallback c)\<rparr>) t1 c = (w2, t2)" by fastforce
    have res: "r = uint (wc_size c)" "w' = w2" "t' = t2" using z l True cm by (simp_all add: zwritev_by_slowpath_def)
    have lb: "length B = sum_list (map (\<lambda>v. unat (iov_len v)) iovs)" using laid_all_length wr(2) True by blast
    then have lt: "length (A @ B) < P + 2 ^ 30" using len by simp
    moreover have "P \<le> length A" using snd_inv_bounds [OF inv] by linarith
    ultimately have "length B < 2 ^ 30" by simp
    then have "r = int (length B)" using res(1) wr(1) by (simp add: writing_def take_bit_nat_eq_self unsigned_of_nat)
    moreover have "snd_ok b (A @ B) P U X w2 t2 \<and> emits Q w w2 \<and> done_calls w2 = done_calls w \<and> write_done E w t iovs B w2 t2"
      by (rule write_commit_ok [OF ok _ _ cw lt cm]) (use wr True in auto)
    ultimately show ?thesis using res by blast
  qed
qed

end
