(* ===== verification/Snd_Stream.thy ===== *)
theory Snd_Stream
  imports Snd_Write "HOL-Library.Sublist"
begin

text \<open>
  The send side of a connection as a whole: any interleaving of writes, transmissions,
  acknowledgements, retransmission timeouts and steps that do not touch the send side. Whatever is
  handed to a device queue, or waits for an address to be resolved, carries the bytes of the accepted
  writes at their sequence numbers.
\<close>

section \<open>Runs\<close>

text \<open>The bytes the queue holds, with those of a first descriptor that is acknowledged in part.\<close>

definition queued_bytes :: "tcp_sock \<Rightarrow> nat" where
  "queued_bytes t = unat (data_seq_nxt t - snd_una t + partial_ack t)"

definition data_state :: "tcp_sock \<Rightarrow> bool" where
  "data_state t \<longleftrightarrow> (state t = TCP_STATE_ESTABLISHED \<or> state t = TCP_STATE_CLOSE_WAIT) \<and>
     flags t AND TSOCK_FLAG_FIN_SENT = 0 \<and> \<not> closed_at_syn_rcvd t"

text \<open>\<open>V\<close> are the vectors of the accepted writes. A write may not bring the queue to a gigabyte; the
  socket has not sent its FIN; a timeout is one that does not give up.\<close>

inductive snd_run :: "env \<Rightarrow> tpa_worker \<Rightarrow> tcp_sock \<Rightarrow> tpa_worker \<Rightarrow> tcp_sock \<Rightarrow> tpa_iovec list \<Rightarrow> bool"
  for E w0 t0 where
  start: "snd_run E w0 t0 w0 t0 []"
| do_write: "snd_run E w0 t0 w t V \<Longrightarrow> queued_bytes t + sum_list (map (\<lambda>v. unat (iov_len v)) iovs) < 2 ^ 30 \<Longrightarrow>
    tsock_zwritev E w t iovs = (r, w', t') \<Longrightarrow> snd_run E w0 t0 w' t' (if r = -1 then V else V @ iovs)"
| xmit: "snd_run E w0 t0 w t V \<Longrightarrow> tcp_xmit_data E w t = (w', t') \<Longrightarrow> snd_run E w0 t0 w' t' V"
| ack: "snd_run E w0 t0 w t V \<Longrightarrow> data_state t \<Longrightarrow> tcp_rcv_ack E w t p opts = (e, w', t') \<Longrightarrow> snd_run E w0 t0 w' t' V"
| fast_ack: "snd_run E w0 t0 w t V \<Longrightarrow> \<not> seq_lt (pkt_ack p) (snd_una t) \<Longrightarrow> \<not> seq_gt (pkt_ack p) (snd_nxt t) \<Longrightarrow>
    retrans_stage t = NONE \<Longrightarrow> tcp_rcv_ack_fastpath E w t p = (w', t') \<Longrightarrow> snd_run E w0 t0 w' t' V"
| rto: "snd_run E w0 t0 w t V \<Longrightarrow> data_state t \<Longrightarrow> ucast (rto_shift t + 1) < retries (cfg E) \<Longrightarrow>
    tcp_timeout_rto E w t = (w', t') \<Longrightarrow> snd_run E w0 t0 w' t' V"
| other: "snd_run E w0 t0 w t V \<Longrightarrow> mem_same w w' \<Longrightarrow> tx_view t' = tx_view t \<Longrightarrow> emits no_data w w' \<Longrightarrow> snd_run E w0 t0 w' t' V"

text \<open>A connection on which nothing has been written yet; its first byte has sequence number \<open>b\<close>.\<close>

definition snd_fresh :: "u32 \<Rightarrow> tpa_worker \<Rightarrow> tcp_sock \<Rightarrow> bool" where
  "snd_fresh b w t \<longleftrightarrow> txq_wf (txq t) \<and> txq_used (txq t) = 0 \<and> data_seq_nxt t = b \<and> snd_una t = b \<and> snd_nxt t = b \<and>
     partial_ack t = 0 \<and> retrans_stage t = NONE \<and> pool_ok w t"

text \<open>The callbacks that are still owed, in the order of the queue.\<close>

definition owed :: "tpa_worker \<Rightarrow> tcp_sock \<Rightarrow> (nat \<times> u64 \<times> u64) list" where
  "owed w t = concat (map (\<lambda>d. desc_calls (desc_mem w d)) (txq_items (txq t)))"

definition sent_ok :: "env \<Rightarrow> u32 \<Rightarrow> tpa_worker \<Rightarrow> tpa_worker \<Rightarrow> tcp_sock \<Rightarrow> tpa_iovec list \<Rightarrow> u64 list \<Rightarrow> nat \<Rightarrow> nat \<Rightarrow> nat \<Rightarrow> bool" where
  "sent_ok E b w0 w t V A P U X \<longleftrightarrow> snd_ok b A P U X w t \<and> emits (carries b A 0 X) w0 w \<and>
     (\<exists>cps. laid_all E V A cps \<and> subseq cps (copies w)) \<and> done_calls w @ owed w t = done_calls w0 @ concat (map iov_calls V)"

section \<open>An example run\<close>

text \<open>The sequence number and the index of the queue wrap; the second vector is copied; the
  congestion window lets four of the six bytes out, and the peer acknowledges them.\<close>

definition snd_example :: tcp_sock where
  "snd_example = (tsock_zero 0 0)\<lparr>state := TCP_STATE_ESTABLISHED, snd_mss := 1000, snd_cwnd := 4, snd_wnd := 1000, snd_ssthresh := 65535,
     data_seq_nxt := 0xfffffffe, snd_una := 0xfffffffe, snd_nxt := 0xfffffffe, snd_recover := 0xfffffffd, rto := 1000,
     txq := \<lparr>txq_una = 0xffff, txq_nxt = 0xffff, txq_write = 0xffff, txq_size = 4, txq_mask = 3, txq_descs = replicate 4 0\<rparr>\<rparr>"

definition iovs_example :: "tpa_iovec list" where
  "iovs_example = [\<lparr>iov_base = 0x1000, iov_phys = 0x9000, iov_len = 3, iov_param = 7, iov_write_done = Some 1\<rparr>,
     \<lparr>iov_base = 0x2000, iov_phys = 0, iov_len = 3, iov_param = 8, iov_write_done = Some 2\<rparr>]"

definition wrote_example :: "int \<times> tpa_worker \<times> tcp_sock" where
  "wrote_example = tsock_zwritev env_example worker_example snd_example iovs_example"

definition sent_example :: "tpa_worker \<times> tcp_sock" where
  "sent_example = (case wrote_example of (r, w, t) \<Rightarrow> tcp_xmit_data env_example w t)"

definition ack_example :: packet where
  "ack_example = pkt_zero\<lparr>pkt_ack := 2, pkt_tcp_flags := TCP_FLAG_ACK, pkt_wnd := 1000\<rparr>"

definition acked_example :: "err \<times> tpa_worker \<times> tcp_sock" where
  "acked_example = (case sent_example of (w, t) \<Rightarrow> tcp_rcv_ack env_example w t ack_example opts_none)"

definition timed_out_example :: "tpa_worker \<times> tcp_sock" where
  "timed_out_example = (case sent_example of (w, t) \<Rightarrow> tcp_timeout_rto env_example w t)"

section \<open>Every step keeps it\<close>

lemma carries_extend:
  assumes "carries b A lo hi x" "lo' \<le> lo" "hi \<le> hi'"
  shows "carries b (A @ B) lo' hi' x"
  using assms by (auto simp: carries_def stream_run_def)

lemma emits_carries_mono: "emits (carries b A lo hi) w w' \<Longrightarrow> lo' \<le> lo \<Longrightarrow> hi \<le> hi' \<Longrightarrow> emits (carries b (A @ B) lo' hi') w w'"
  by (erule emits_mono) (rule carries_extend)

lemma emits_carries_step:
  assumes "emits (carries b A 0 X) w0 w" "emits (carries b A lo X') w w'" "X \<le> X'"
  shows "emits (carries b A 0 X') w0 w'"
  using emits_carries_mono [OF assms(1) order_refl assms(3), of "[]"] emits_carries_mono [OF assms(2) le0 order_refl, of "[]"] emits_trans
  by auto

lemma laid_all_append: "laid_all E V A c1 \<Longrightarrow> laid_all E W B c2 \<Longrightarrow> laid_all E (V @ W) (A @ B) (c1 @ c2)"
  by (induction V arbitrary: A c1) (auto, metis append.assoc)

lemma owed_same: "calls_same w w' \<Longrightarrow> txq_items (txq t') = txq_items (txq t) \<Longrightarrow> owed w' t' = owed w t"
  by (simp add: owed_def calls_same_def)

lemma owed_acked:
  assumes "calls_same w w'" "txq_items (txq t') = drop n (txq_items (txq t))"
    "done_calls w' = done_calls w @ concat (map (\<lambda>d. desc_calls (desc_mem w d)) (take n (txq_items (txq t))))"
  shows "done_calls w' @ owed w' t' = done_calls w @ owed w t"
proof -
  have "concat (map f (take n xs)) @ concat (map f (drop n xs)) = concat (map f xs)" for f :: "nat \<Rightarrow> (nat \<times> u64 \<times> u64) list" and xs
    by (metis append_take_drop_id concat_append map_append)
  then show ?thesis using assms by (simp add: owed_def calls_same_def)
qed

lemma sent_ok_queued:
  assumes "snd_ok b A P U X w t"
  shows "queued_bytes t = length A - P" "P \<le> length A"
proof -
  have i: "snd_inv b A P U X w t" using assms by (simp add: snd_ok_def)
  note bd = snd_inv_bounds [OF i]
  have "data_seq_nxt t - snd_una t + partial_ack t = of_nat (length A - P)"
    using i bd by (simp add: snd_inv_def of_nat_diff)
  moreover have "length A - P < 2 ^ 32" using bd by simp
  ultimately show "queued_bytes t = length A - P" by (simp add: queued_bytes_def unat_of_nat_small)
  show "P \<le> length A" using bd by simp
qed

lemma sent_ok_keep:
  assumes s: "sent_ok E b w0 w t V A P U X" and ok: "snd_ok b A P' U' X' w' t'" and em: "emits (carries b A lo X') w w'"
    and le: "X \<le> X'" and cp: "copies w' = copies w" and cl: "done_calls w' @ owed w' t' = done_calls w @ owed w t"
  shows "sent_ok E b w0 w' t' V A P' U' X'"
  using s ok emits_carries_step [OF _ em le] cp cl by (auto simp: sent_ok_def)

lemma tcp_rcv_ack_sent:
  assumes s: "sent_ok E b w0 w t V A P U X" and st: "data_state t" and r: "tcp_rcv_ack E w t p opts = (e, w', t')"
  shows "\<exists>P' U'. U \<le> U' \<and> sent_ok E b w0 w' t' V A P' U' X"
proof -
  have ok: "snd_ok b A P U X w t" using s by (simp add: sent_ok_def)
  have sf: "state t \<notin> {TCP_STATE_CLOSED, TCP_STATE_LISTEN, TCP_STATE_SYN_SENT}" "state t \<noteq> TCP_STATE_SYN_RCVD"
    "flags t AND TSOCK_FLAG_FIN_SENT = 0" "\<not> closed_at_syn_rcvd t" using st by (auto simp: data_state_def)
  show ?thesis
  proof (cases "has_flag_ack p \<and> \<not> seq_lt (pkt_ack p) (snd_una t) \<and> \<not> seq_gt (pkt_ack p) (snd_nxt t)")
    case True
    then have ri: "rcv_ack_in_window E w t p opts = (w', t')"
      using r sf by (auto simp: tcp_rcv_ack_def split: prod.splits)
    obtain n U' where n: "U \<le> U'" "U' \<le> X" "snd_ok b A (pos P (snd_q w t) n) U' X w' t'" "emits (carries b A U' X) w w'"
      "txq_items (txq t') = drop n (txq_items (txq t))"
      "done_calls w' = done_calls w @ concat (map (\<lambda>d. desc_calls (desc_mem w d)) (take n (txq_items (txq t))))"
      "calls_same w w'" "copies w' = copies w"
      using True by (elim conjE) (rule rcv_ack_in_window_ok [OF ok _ _ sf(3,4) ri], assumption, assumption)
    have "sent_ok E b w0 w' t' V A (pos P (snd_q w t) n) U' X"
      by (rule sent_ok_keep [OF s n(3,4) order_refl n(8) owed_acked [OF n(7,5,6)]])
    then show ?thesis using n(1) by blast
  next
    case False
    then have w': "w' = w" "tx_view t' = tx_view t"
      using r sf by (auto simp: tcp_rcv_ack_def tsock_set_ack_flag_def Let_def tx_view_def split: if_splits)
    have "snd_ok b A P U X w t'" using ok snd_ok_frame [OF mem_same_refl w'(2)] by simp
    moreover have "owed w t' = owed w t" using tx_view_txq [OF w'(2)] by (simp add: owed_def)
    ultimately have "sent_ok E b w0 w' t' V A P U X" using s by (simp add: sent_ok_def w'(1))
    then show ?thesis by blast
  qed
qed

lemma tsock_zwritev_sent:
  assumes s: "sent_ok E b w0 w t V A P U X" and pos: "0 < write_chunk_size (cfg E)" "0 < env_tailroom E"
    and len: "queued_bytes t + sum_list (map (\<lambda>v. unat (iov_len v)) iovs) < 2 ^ 30"
    and r: "tsock_zwritev E w t iovs = (r, w', t')"
  shows "\<exists>A'. sent_ok E b w0 w' t' (if r = -1 then V else V @ iovs) A' P U X"
proof -
  have ok: "snd_ok b A P U X w t" and em: "emits (carries b A 0 X) w0 w" using s by (simp_all add: sent_ok_def)
  obtain cps where cps: "laid_all E V A cps" "subseq cps (copies w)" using s by (auto simp: sent_ok_def)
  have cl: "done_calls w @ owed w t = done_calls w0 @ concat (map iov_calls V)" using s by (simp add: sent_ok_def)
  have "length A + sum_list (map (\<lambda>v. unat (iov_len v)) iovs) < P + 2 ^ 30" using len sent_ok_queued [OF ok] by simp
  from tsock_zwritev_ok [OF ok pos this r, of "\<lambda>_. False"]
  have em': "emits (\<lambda>_. False) w w'" and dc: "done_calls w' = done_calls w" and
    o: "r = -1 \<and> snd_ok b A P U X w' t' \<and> write_failed w t w' t' \<or>
     (\<exists>B. r = int (length B) \<and> snd_ok b (A @ B) P U X w' t' \<and> write_done E w t iovs B w' t')" by blast+
  have em2: "emits (carries b (A @ B) 0 X) w0 w'" for B
    using emits_carries_mono [OF em order_refl order_refl, of B] emits_mono [OF em', of "carries b (A @ B) 0 X"] emits_trans by blast
  from o show ?thesis
  proof
    assume f: "r = -1 \<and> snd_ok b A P U X w' t' \<and> write_failed w t w' t'"
    then obtain junk where "copies w' = copies w @ junk" by (auto simp: write_failed_def)
    then have "subseq cps (copies w')" using cps(2) by (simp add: list_emb_prefix)
    moreover have "owed w' t' = owed w t" using f by (simp add: write_failed_def owed_def cong: map_cong)
    ultimately have "sent_ok E b w0 w' t' V A P U X" using f em2 [of "[]"] cps(1) cl dc by (auto simp: sent_ok_def)
    then show ?thesis using f by auto
  next
    assume "\<exists>B. r = int (length B) \<and> snd_ok b (A @ B) P U X w' t' \<and> write_done E w t iovs B w' t'"
    then obtain B ds c2 where B: "r = int (length B)" "snd_ok b (A @ B) P U X w' t'" "laid_all E iovs B c2" "copies w' = copies w @ c2"
      "txq_items (txq t') = txq_items (txq t) @ ds" "concat (map (desc_calls \<circ> desc_mem w') ds) = concat (map iov_calls iovs)"
      "\<forall>d\<in>set (txq_items (txq t)). desc_mem w' d = desc_mem w d" by (auto simp: write_done_def)
    have "subseq (cps @ c2) (copies w')" unfolding B(4) using cps(2) by (intro list_emb_append_mono) simp_all
    moreover have "owed w' t' = owed w t @ concat (map iov_calls iovs)"
      using B(5-7) by (simp add: owed_def comp_def cong: map_cong)
    ultimately have "sent_ok E b w0 w' t' (V @ iovs) (A @ B) P U X"
      using B(2) em2 laid_all_append [OF cps(1) B(3)] cl dc by (auto simp: sent_ok_def)
    moreover have "r \<noteq> -1" using B(1) by simp
    ultimately show ?thesis by auto
  qed
qed

lemma snd_fresh_ok:
  assumes "snd_fresh b w t"
  shows "sent_ok E b w w t [] [] 0 0 0"
proof -
  have f: "txq_items (txq t) = []" using assms by (simp add: snd_fresh_def flip: length_0_conv)
  then have q: "snd_q w t = []" by (simp add: snd_q_def)
  have "txq_inflight (txq t) = 0" using assms by (simp add: snd_fresh_def txq_wf_def)
  then have "snd_ok b [] 0 0 0 w t"
    using assms q by (auto simp: snd_fresh_def snd_ok_def snd_inv_def sq_ok_def runs_def at_pos_def sacked_below_def)
  then show ?thesis using f by (auto simp: sent_ok_def owed_def)
qed

lemma snd_run_ok:
  assumes "snd_run E w0 t0 w t V" "snd_fresh b w0 t0" "0 < write_chunk_size (cfg E)" "0 < env_tailroom E"
  shows "\<exists>A P U X. sent_ok E b w0 w t V A P U X"
  using assms
proof (induction rule: snd_run.induct)
  case start
  then show ?case using snd_fresh_ok by blast
next
  case (do_write w t V iovs r w' t')
  then obtain A P U X where "sent_ok E b w0 w t V A P U X" by blast
  from tsock_zwritev_sent [OF this do_write.prems(2,3) do_write.hyps(2,3)] show ?case by blast
next
  case (xmit w t V w' t')
  then obtain A P U X where s: "sent_ok E b w0 w t V A P U X" by blast
  then have ok: "snd_ok b A P U X w t" by (simp add: sent_ok_def)
  obtain X' where x: "X \<le> X'" "snd_ok b A P U X' w' t'" "emits (carries b A X X') w w'" "mem_same w w'" "txq_items (txq t') = txq_items (txq t)"
    by (rule tcp_xmit_data_ok [OF ok xmit.hyps(2)])
  have "done_calls w' @ owed w' t' = done_calls w @ owed w t" "copies w' = copies w"
    using x(4) owed_same [OF mem_same_calls [OF x(4)] x(5)] by (simp_all add: mem_same_def)
  then show ?case using sent_ok_keep [OF s x(2,3,1)] by blast
next
  case (ack w t V p opts e w' t')
  then obtain A P U X where "sent_ok E b w0 w t V A P U X" by blast
  from tcp_rcv_ack_sent [OF this ack.hyps(2,3)] show ?case by blast
next
  case (fast_ack w t V p w' t')
  then obtain A P U X where s: "sent_ok E b w0 w t V A P U X" by blast
  then have ok: "snd_ok b A P U X w t" by (simp add: sent_ok_def)
  obtain n U' where n: "snd_ok b A (pos P (snd_q w t) n) U' X w' t'" "emits (carries b A 0 X) w w'"
    "txq_items (txq t') = drop n (txq_items (txq t))"
    "done_calls w' = done_calls w @ concat (map (\<lambda>d. desc_calls (desc_mem w d)) (take n (txq_items (txq t))))"
    "calls_same w w'" "copies w' = copies w"
    by (rule tcp_rcv_ack_fastpath_ok [OF ok fast_ack.hyps(2-5)])
  show ?case using sent_ok_keep [OF s n(1,2) order_refl n(6) owed_acked [OF n(5,3,4)]] by blast
next
  case (rto w t V w' t')
  then obtain A P U X where s: "sent_ok E b w0 w t V A P U X" by blast
  then have ok: "snd_ok b A P U X w t" by (simp add: sent_ok_def)
  have st: "state t \<noteq> TCP_STATE_SYN_SENT" "state t \<noteq> TCP_STATE_SYN_RCVD" using rto.hyps(2) by (auto simp: data_state_def)
  note x = tcp_timeout_rto_ok [OF ok st rto.hyps(3,4)]
  then have "owed w' t' = owed w t" by (intro owed_same) simp_all
  then have "sent_ok E b w0 w' t' V A P U X" using x by (intro sent_ok_keep [OF s _ _ order_refl, of P U w' t' U]) simp_all
  then show ?case by blast
next
  case (other w t V w' t')
  then obtain A P U X where s: "sent_ok E b w0 w t V A P U X" by blast
  then have "snd_ok b A P U X w' t'" using snd_ok_frame [OF other.hyps(2,3)] by (simp add: sent_ok_def)
  moreover have "emits (carries b A 0 X) w w'" using other.hyps(4) by (rule emits_mono) (rule no_data_carries)
  moreover have "done_calls w' @ owed w' t' = done_calls w @ owed w t" "copies w' = copies w"
    using other.hyps(2) owed_same [OF mem_same_calls [OF other.hyps(2)]] tx_view_txq [OF other.hyps(3)] by (simp_all add: mem_same_def)
  ultimately show ?case using sent_ok_keep [OF s _ _ order_refl] by blast
qed

lemma example_start:
  "snd_fresh 0xfffffffe worker_example snd_example" "0 < write_chunk_size (cfg env_example)" "0 < env_tailroom env_example"
proof -
  have "txq_wf (txq snd_example)"
    by (simp add: snd_example_def txq_wf_def ring_ok_def txq_used_def txq_inflight_def exI [of _ 2])
  moreover have "pool_ok worker_example snd_example" by code_simp
  moreover have "txq_used (txq snd_example) = 0" by code_simp
  ultimately show "snd_fresh 0xfffffffe worker_example snd_example" by (simp add: snd_fresh_def) (simp add: snd_example_def tsock_zero_def)
  show "0 < write_chunk_size (cfg env_example)" "0 < env_tailroom env_example" by code_simp+
qed

lemma example_wrote: "(case wrote_example of (r, w, t) \<Rightarrow> (r, data_seq_nxt t)) = (6, 4)"
  by code_simp

lemma example_sent:
  "(case sent_example of (w, t) \<Rightarrow>
      (map (\<lambda>x. (tx_seq x, tx_segs x)) (dev_accepted (wk_dev w) 0), copies w, data_state t, snd_una t, snd_nxt t, rto_shift t)) =
   ([(0xfffffffe, [(0x9000, 3), (0, 1)])], [(0, 0x2000, 3)], True, 0xfffffffe, 2, 0)"
  by code_simp

lemma example_acked:
  "(case acked_example of (e, w, t) \<Rightarrow> (done_calls w, pool_free (desc_pool w), txq_items (txq t))) = ([(1, 0x1000, 7)], [0, 1, 3], [2])"
  by code_simp

lemmas example_values = example_wrote [unfolded case_prod_beta] example_sent [unfolded case_prod_beta] example_acked [unfolded case_prod_beta]

lemma example_steps:
  "data_state (snd sent_example)" "\<not> seq_lt (pkt_ack ack_example) (snd_una (snd sent_example))"
  "\<not> seq_gt (pkt_ack ack_example) (snd_nxt (snd sent_example))" "has_flag_ack ack_example"
  "ucast (rto_shift (snd sent_example) + 1) < retries (cfg env_example)"
  "queued_bytes snd_example + sum_list (map (\<lambda>v. unat (iov_len v)) iovs_example) < 2 ^ 30"
proof -
  have "pkt_ack ack_example = 2" by (simp add: ack_example_def)
  then show "\<not> seq_lt (pkt_ack ack_example) (snd_una (snd sent_example))" "\<not> seq_gt (pkt_ack ack_example) (snd_nxt (snd sent_example))"
    using example_values by (simp_all add: seq_lt_def seq_gt_def)
  show "data_state (snd sent_example)" using example_values by simp
  have "1 < retries (cfg env_example)" by code_simp
  then show "ucast (rto_shift (snd sent_example) + 1) < retries (cfg env_example)" using example_values by simp
  show "has_flag_ack ack_example" by code_simp
  have "queued_bytes snd_example + sum_list (map (\<lambda>v. unat (iov_len v)) iovs_example) = 6" by code_simp
  then show "queued_bytes snd_example + sum_list (map (\<lambda>v. unat (iov_len v)) iovs_example) < 2 ^ 30" by simp
qed

lemma example_runs:
  "snd_run env_example worker_example snd_example (fst (snd wrote_example)) (snd (snd wrote_example)) iovs_example"
  "snd_run env_example worker_example snd_example (fst sent_example) (snd sent_example) iovs_example"
  "snd_run env_example worker_example snd_example (fst (snd acked_example)) (snd (snd acked_example)) iovs_example"
proof -
  have "tsock_zwritev env_example worker_example snd_example iovs_example = (6, fst (snd wrote_example), snd (snd wrote_example))"
    using example_values by (simp add: wrote_example_def prod_eq_iff)
  from snd_run.do_write [OF snd_run.start example_steps(6) this]
  show w: "snd_run env_example worker_example snd_example (fst (snd wrote_example)) (snd (snd wrote_example)) iovs_example" by simp
  show x: "snd_run env_example worker_example snd_example (fst sent_example) (snd sent_example) iovs_example"
    by (rule snd_run.xmit [OF w]) (simp add: sent_example_def case_prod_beta)
  show "snd_run env_example worker_example snd_example (fst (snd acked_example)) (snd (snd acked_example)) iovs_example"
    by (rule snd_run.ack [OF x example_steps(1), of ack_example opts_none "fst acked_example"]) (simp add: acked_example_def case_prod_beta)
qed

section \<open>What a run shows\<close>

text \<open>C2: On a connection that starts with nothing written, whatever writes, transmissions,
  acknowledgements, retransmission timeouts and unrelated steps happen in whatever order, there is one
  stream of bytes: the vectors of the accepted writes, in order, each at its own physical address or
  in the buffers its data was copied into. Every packet handed to a device queue or waiting for its
  neighbour has no data, or carries bytes of that stream starting exactly at the position that its
  sequence number stands for, and none beyond \<open>snd_nxt\<close>.\<close>

theorem packets_carry_the_writes:
  assumes "snd_run E w0 t0 w t V" "snd_fresh b w0 t0" "0 < write_chunk_size (cfg E)" "0 < env_tailroom E"
  shows "\<exists>A cps U X. laid_all E V A cps \<and> subseq cps (copies w) \<and> snd_una t = b + of_nat U \<and> snd_nxt t = b + of_nat X \<and>
    data_seq_nxt t = b + of_nat (length A) \<and> U \<le> X \<and> X \<le> length A \<and> emits (carries b A 0 X) w0 w"
proof -
  obtain A P U X where s: "sent_ok E b w0 w t V A P U X" using snd_run_ok [OF assms] by blast
  moreover from s have "snd_inv b A P U X w t" by (simp add: sent_ok_def snd_ok_def)
  ultimately show ?thesis by (auto simp: sent_ok_def snd_inv_def)
qed

theorem packets_carry_the_writes_witness:
  "map (\<lambda>x. (tx_seq x, tx_segs x)) (dev_accepted (wk_dev (fst sent_example)) 0) = [(0xfffffffe, [(0x9000, 3), (0, 1)])] \<and>
   copies (fst sent_example) = [(0, 0x2000, 3)] \<and>
   (\<exists>A cps U X. laid_all env_example iovs_example A cps \<and> subseq cps (copies (fst sent_example)) \<and>
    snd_una (snd sent_example) = 0xfffffffe + of_nat U \<and> snd_nxt (snd sent_example) = 0xfffffffe + of_nat X \<and>
    data_seq_nxt (snd sent_example) = 0xfffffffe + of_nat (length A) \<and> U \<le> X \<and> X \<le> length A \<and>
    emits (carries 0xfffffffe A 0 X) worker_example (fst sent_example))"
  using packets_carry_the_writes [OF example_runs(2) example_start] example_values by (intro conjI) simp_all

text \<open>C4: The completion callbacks are called in the order of the writes and each at most once: what
  has been called is a prefix of the callbacks of the accepted non-empty vectors. When everything that
  was written is acknowledged, all of them have been called.\<close>

theorem callbacks_in_write_order:
  assumes "snd_run E w0 t0 w t V" "snd_fresh b w0 t0" "0 < write_chunk_size (cfg E)" "0 < env_tailroom E"
  shows "\<exists>rest. done_calls w @ rest = done_calls w0 @ concat (map iov_calls V) \<and> (snd_una t = data_seq_nxt t \<longrightarrow> rest = [])"
proof -
  obtain A P U X where s: "sent_ok E b w0 w t V A P U X" using snd_run_ok [OF assms] by blast
  then have i: "snd_inv b A P U X w t" by (simp add: sent_ok_def snd_ok_def)
  note bd = snd_inv_bounds [OF i]
  have "owed w t = []" if "snd_una t = data_seq_nxt t"
  proof -
    have u: "snd_una t = b + of_nat U" "data_seq_nxt t = b + of_nat (length A)" using i by (simp_all add: snd_inv_def)
    have "(b + word_of_int (int U) :: u32) = b + word_of_int (int (length A))" using that unfolding u by simp
    moreover have "\<bar>int U - int (length A)\<bar> < 2 ^ 31" using bd by simp
    ultimately have "U = length A" using word_of_int_inj_pos by force
    moreover have "at_pos P (snd_q w t) U 0" "pos P (snd_q w t) 1 \<le> length A" using i sq_ok_pos_le [of b P A w t 1] by (simp_all add: snd_inv_def)
    ultimately have "txq_used (txq t) = 0" by (cases "txq_used (txq t)") (auto simp: at_pos_def)
    then have "txq_items (txq t) = []" by (simp flip: length_0_conv)
    then show ?thesis by (simp add: owed_def)
  qed
  then show ?thesis using s by (auto simp: sent_ok_def)
qed

theorem callbacks_in_write_order_witness:
  "done_calls (fst (snd acked_example)) = [(1, 0x1000, 7)] \<and>
   (\<exists>rest. done_calls (fst (snd acked_example)) @ rest = done_calls worker_example @ concat (map iov_calls iovs_example) \<and>
      (snd_una (snd (snd acked_example)) = data_seq_nxt (snd (snd acked_example)) \<longrightarrow> rest = []))"
  using callbacks_in_write_order [OF example_runs(3) example_start] example_values by (intro conjI) simp_all







text \<open>C8: \<open>tsock_zwritev\<close> takes all the vectors or nothing. When it returns \<open>-1\<close>, the send queue, the
  descriptors in it and the set of free descriptors are what they were. Otherwise it returns the
  number of bytes of the vectors, and exactly these bytes and the callbacks of the vectors are added
  at the end of the queue.\<close>

theorem write_is_all_or_nothing:
  assumes "snd_run E w0 t0 w t V" "snd_fresh b w0 t0" "0 < write_chunk_size (cfg E)" "0 < env_tailroom E"
    and "queued_bytes t + sum_list (map (\<lambda>v. unat (iov_len v)) iovs) < 2 ^ 30" "tsock_zwritev E w t iovs = (r, w', t')"
  shows "r = -1 \<and> write_failed w t w' t' \<or>
    r = int (sum_list (map (\<lambda>v. unat (iov_len v)) iovs)) \<and> data_seq_nxt t' = data_seq_nxt t + word_of_int r \<and>
      (\<exists>B. write_done E w t iovs B w' t')"
proof -
  obtain A P U X where "sent_ok E b w0 w t V A P U X" using snd_run_ok [OF assms(1-4)] by blast
  then have ok: "snd_ok b A P U X w t" by (simp add: sent_ok_def)
  have "length A + sum_list (map (\<lambda>v. unat (iov_len v)) iovs) < P + 2 ^ 30" using assms(5) sent_ok_queued [OF ok] by simp
  from tsock_zwritev_ok [OF ok assms(3,4) this assms(6)] consider "r = -1 \<and> write_failed w t w' t'"
    | B where "r = int (length B)" "snd_ok b (A @ B) P U X w' t'" "write_done E w t iovs B w' t'" by blast
  then show ?thesis
  proof cases
    case 2
    then have "length B = sum_list (map (\<lambda>v. unat (iov_len v)) iovs)" using laid_all_length by (auto simp: write_done_def)
    moreover have "data_seq_nxt t' = data_seq_nxt t + word_of_int r"
      using ok 2(1,2) by (simp add: snd_ok_def snd_inv_def add.assoc)
    ultimately show ?thesis using 2 by auto
  qed simp
qed

theorem write_is_all_or_nothing_witness:
  "fst wrote_example = 6 \<and> data_seq_nxt (snd (snd wrote_example)) = 4 \<and>
   (fst wrote_example = -1 \<and> write_failed worker_example snd_example (fst (snd wrote_example)) (snd (snd wrote_example)) \<or>
    fst wrote_example = int (sum_list (map (\<lambda>v. unat (iov_len v)) iovs_example)) \<and>
      data_seq_nxt (snd (snd wrote_example)) = data_seq_nxt snd_example + word_of_int (fst wrote_example) \<and>
      (\<exists>B. write_done env_example worker_example snd_example iovs_example B (fst (snd wrote_example)) (snd (snd wrote_example))))"
proof (intro conjI)
  show "fst wrote_example = 6" "data_seq_nxt (snd (snd wrote_example)) = 4" using example_values by simp_all
qed (rule write_is_all_or_nothing [OF snd_run.start example_start example_steps(6)], simp add: wrote_example_def)

end
