(* ===== verification/Cfg.thy ===== *)
theory Cfg
  imports Tcp_Sock "HOL-Library.Monad_Syntax"
begin

text \<open>
  The configuration: the reader of configuration files, the table of options and the conversion of
  their values (\<open>src/cfg.c\<close>), and the numbers with units of \<open>lib/utils.c\<close>. A file is the list of the
  characters that \<open>fgetc\<close> has not returned yet. A loop that may not end is a function into an option:
  \<open>None\<close> says that it does not return. What \<open>malloc\<close> returns is a parameter, by the number of the call;
  so are the functions of the C library that turn texts into addresses and back. Logging is left out.
\<close>

section \<open>Numbers with units\<close>

definition IS_DIGIT :: "char \<Rightarrow> bool" where
  "IS_DIGIT c \<longleftrightarrow> (48 :: nat) \<le> of_char c \<and> of_char c \<le> (57 :: nat)"

text \<open>\<open>strtoul\<close> in base 10 on a text of digits; a number that does not fit is an error.\<close>

definition digit_val :: "char \<Rightarrow> nat" where
  "digit_val c = of_char c - 48"

definition digits_val :: "string \<Rightarrow> nat" where
  "digits_val s = foldl (\<lambda>n c. 10 * n + digit_val c) 0 s"

definition strtoul :: "string \<Rightarrow> u64 option" where
  "strtoul s = (let n = digits_val s in if n < 2 ^ 64 then Some (of_nat n) else None)"

text \<open>The base and what follows it, the unit. A text of 32 characters or more is refused.\<close>

definition get_base :: "string \<Rightarrow> (u64 \<times> string) option" where
  "get_base val =
     (if 32 \<le> length val then None
      else case strtoul (takeWhile IS_DIGIT val) of None \<Rightarrow> None | Some n \<Rightarrow> Some (n, dropWhile IS_DIGIT val))"

datatype num_type = NUM_TYPE_NONE | NUM_TYPE_SIZE | NUM_TYPE_TIME | NUM_TYPE_TIME_US

definition unit_factor :: "num_type \<Rightarrow> string \<Rightarrow> u64 option" where
  "unit_factor type unit =
     (case type of
        NUM_TYPE_SIZE \<Rightarrow>
          if unit \<in> {''G'', ''g'', ''GB'', ''gb''} then Some (1024 * 1024 * 1024)
          else if unit \<in> {''M'', ''m'', ''MB'', ''mb''} then Some (1024 * 1024)
          else if unit \<in> {''K'', ''k'', ''KB'', ''kb''} then Some 1024
          else if unit \<in> {''B'', ''b''} then Some 1 else None
      | NUM_TYPE_TIME \<Rightarrow>
          if unit \<in> {''h'', ''H''} then Some (60 * 60)
          else if unit \<in> {''m'', ''M''} then Some 60
          else if unit \<in> {''s'', ''S''} then Some 1 else None
      | NUM_TYPE_TIME_US \<Rightarrow>
          if unit \<in> {''h'', ''H''} then Some (60 * 60 * 1000 * 1000)
          else if unit \<in> {''m'', ''M''} then Some (60 * 1000 * 1000)
          else if unit \<in> {''s'', ''S''} then Some (1000 * 1000)
          else if unit \<in> {''ms'', ''MS''} then Some 1000
          else if unit \<in> {''us'', ''US''} then Some 1 else None
      | NUM_TYPE_NONE \<Rightarrow> None)"

text \<open>\<open>None\<close> is \<open>UINT64_MAX\<close> with \<open>errno\<close> set; the product wraps.\<close>

definition tpa_parse_num :: "string \<Rightarrow> num_type \<Rightarrow> u64 option" where
  "tpa_parse_num val type =
     (case get_base val of
        None \<Rightarrow> None
      | Some (num, unit) \<Rightarrow> if unit = [] then Some num else map_option (\<lambda>f. num * f) (unit_factor type unit))"

section \<open>Options\<close>

definition NAME_SIZE :: nat where "NAME_SIZE = 128"
definition VAL_SIZE :: nat where "VAL_SIZE = 1024"
definition CFG_SPECS_SIZE :: nat where "CFG_SPECS_SIZE = 1024"

datatype cfg_type = CFG_TYPE_MIN | CFG_TYPE_UINT | CFG_TYPE_STR | CFG_TYPE_CHAR | CFG_TYPE_IPV4 | CFG_TYPE_MASK | CFG_TYPE_IPV6 |
  CFG_TYPE_MAC | CFG_TYPE_SIZE | CFG_TYPE_TIME | CFG_TYPE_MAX

definition CFG_FLAG_RDONLY :: u32 where "CFG_FLAG_RDONLY = 1"
definition CFG_FLAG_HAS_MIN :: u32 where "CFG_FLAG_HAS_MIN = 2"
definition CFG_FLAG_HAS_MAX :: u32 where "CFG_FLAG_HAS_MAX = 4"
definition CFG_FLAG_POWEROF2 :: u32 where "CFG_FLAG_POWEROF2 = 8"

text \<open>What the data pointer of an option points to.\<close>

datatype cfg_data = DUint u32 | DStr string | DIp4 u32 | DIp6 tpa_ip int | DMac "u8 list"

record cfg_spec =
  spec_name :: string
  spec_type :: cfg_type
  spec_data :: cfg_data
  spec_data_len :: nat
  spec_flags :: u32
  spec_min :: int
  spec_max :: int
  spec_set :: "(string \<Rightarrow> cfg_data option) option"
  spec_get :: "(cfg_data \<Rightarrow> string) option"

text \<open>The C library: \<open>inet_addr\<close> (\<open>INADDR_NONE\<close> for a text that is no address), \<open>inet_ntoa\<close>, the two
  directions of \<open>tpa_ip_from_str\<close> and \<open>tpa_ip_to_str\<close>, \<open>atoi\<close>, and \<open>sscanf\<close> and \<open>printf\<close> of six bytes.\<close>

record cfg_libc =
  lc_inet_addr :: "string \<Rightarrow> u32"
  lc_inet_ntoa :: "u32 \<Rightarrow> string"
  lc_ip_from_str :: "string \<Rightarrow> tpa_ip option"
  lc_ip_to_str :: "tpa_ip \<Rightarrow> string"
  lc_atoi :: "string \<Rightarrow> int"
  lc_scan_mac :: "string \<Rightarrow> u8 list option"
  lc_print_mac :: "u8 list \<Rightarrow> string"

definition cfg_parse_num :: "string \<Rightarrow> cfg_type \<Rightarrow> int" where
  "cfg_parse_num val type =
     (case tpa_parse_num val (case type of CFG_TYPE_SIZE \<Rightarrow> NUM_TYPE_SIZE | CFG_TYPE_TIME \<Rightarrow> NUM_TYPE_TIME_US | _ \<Rightarrow> NUM_TYPE_NONE) of
        None \<Rightarrow> -1 | Some n \<Rightarrow> sint n)"

text \<open>A setter gives the new data, or \<open>None\<close> for \<open>-1\<close>. The number has 64 bits, the option 32.\<close>

definition cfg_spec_set_num :: "cfg_spec \<Rightarrow> string \<Rightarrow> cfg_data option" where
  "cfg_spec_set_num spec val =
     (let num = cfg_parse_num val (spec_type spec)
      in if num < 0 then None
         else if spec_flags spec AND CFG_FLAG_HAS_MIN \<noteq> 0 \<and> num < spec_min spec then None
         else if spec_flags spec AND CFG_FLAG_HAS_MAX \<noteq> 0 \<and> num > spec_max spec then None
         else if spec_flags spec AND CFG_FLAG_POWEROF2 \<noteq> 0 \<and> (word_of_int num :: u64) AND (word_of_int num - 1) \<noteq> 0 then None
         else Some (DUint (word_of_int num)))"

definition cfg_spec_set_str :: "cfg_spec \<Rightarrow> string \<Rightarrow> cfg_data option" where
  "cfg_spec_set_str spec val = Some (if spec_data_len spec = 0 then spec_data spec else DStr (take (spec_data_len spec - 1) val))"

definition INADDR_NONE :: u32 where "INADDR_NONE = 0xffffffff"

definition cfg_parse_ipv4 :: "cfg_libc \<Rightarrow> string \<Rightarrow> u32" where
  "cfg_parse_ipv4 L val = (if length (filter (\<lambda>c. c = CHR ''.'') val) \<noteq> 3 then INADDR_NONE else lc_inet_addr L val)"

definition cfg_spec_set_ipv4 :: "cfg_libc \<Rightarrow> string \<Rightarrow> cfg_data option" where
  "cfg_spec_set_ipv4 L val = (let ip = cfg_parse_ipv4 L val in if ip = INADDR_NONE then None else Some (DIp4 ip))"

definition cfg_spec_set_ipv6 :: "cfg_libc \<Rightarrow> string \<Rightarrow> cfg_data option" where
  "cfg_spec_set_ipv6 L val =
     (let buf = take 119 val;
          addr = takeWhile (\<lambda>c. c \<noteq> CHR ''/'') buf;
          rest = dropWhile (\<lambda>c. c \<noteq> CHR ''/'') buf;
          prefixlen = (if rest = [] then 0 else lc_atoi L (tl rest))
      in if rest \<noteq> [] \<and> (prefixlen \<le> 0 \<or> prefixlen > 128) then None
         else case lc_ip_from_str L addr of
           None \<Rightarrow> None
         | Some ip \<Rightarrow> if tpa_ip_is_ipv4 ip then None else Some (DIp6 ip prefixlen))"

definition cfg_spec_set_mac :: "cfg_libc \<Rightarrow> string \<Rightarrow> cfg_data option" where
  "cfg_spec_set_mac L val = map_option DMac (lc_scan_mac L val)"

definition htonl :: "u32 \<Rightarrow> u32" where
  "htonl x = push_bit 24 (x AND 0xff) OR push_bit 8 (x AND 0xff00) OR drop_bit 8 (x AND 0xff0000) OR drop_bit 24 x"

definition is_invalid_mask :: "u32 \<Rightarrow> bool" where
  "is_invalid_mask x = (let m = NOT (htonl x) in m AND (m + 1) \<noteq> 0)"

definition cfg_spec_set_mask :: "cfg_libc \<Rightarrow> string \<Rightarrow> cfg_data option" where
  "cfg_spec_set_mask L val = (let m = cfg_parse_ipv4 L val in if is_invalid_mask m then None else Some (DIp4 m))"

definition cfg_spec_set :: "cfg_libc \<Rightarrow> cfg_spec \<Rightarrow> string \<Rightarrow> bool \<Rightarrow> cfg_data option" where
  "cfg_spec_set L spec val init =
     (if spec_flags spec AND CFG_FLAG_RDONLY \<noteq> 0 \<and> \<not> init then None
      else case spec_set spec of
        Some f \<Rightarrow> f val
      | None \<Rightarrow>
          (case spec_type spec of
             CFG_TYPE_SIZE \<Rightarrow> cfg_spec_set_num spec val
           | CFG_TYPE_TIME \<Rightarrow> cfg_spec_set_num spec val
           | CFG_TYPE_UINT \<Rightarrow> cfg_spec_set_num spec val
           | CFG_TYPE_STR \<Rightarrow> cfg_spec_set_str spec val
           | CFG_TYPE_IPV4 \<Rightarrow> cfg_spec_set_ipv4 L val
           | CFG_TYPE_IPV6 \<Rightarrow> cfg_spec_set_ipv6 L val
           | CFG_TYPE_MAC \<Rightarrow> cfg_spec_set_mac L val
           | CFG_TYPE_MASK \<Rightarrow> cfg_spec_set_mask L val
           | _ \<Rightarrow> None))"

text \<open>\<open>%u\<close>.\<close>

fun show_nat :: "nat \<Rightarrow> string" where
  "show_nat n = (if n < 10 then [char_of (n + 48)] else show_nat (n div 10) @ [char_of (n mod 10 + 48)])"

declare show_nat.simps [simp del]

definition show_u :: "u32 \<Rightarrow> string" where "show_u x = show_nat (unat x)"

text \<open>The texts are far shorter than \<open>VAL_SIZE\<close>.\<close>

definition cfg_spec_get_num :: "cfg_type \<Rightarrow> u32 \<Rightarrow> string" where
  "cfg_spec_get_num type num =
     (if type = CFG_TYPE_SIZE \<and> num \<noteq> 0
      then if num mod 0x40000000 = 0 then show_u (num div 0x40000000) @ ''GB''
           else if num mod 0x100000 = 0 then show_u (num div 0x100000) @ ''MB''
           else if num mod 0x400 = 0 then show_u (num div 0x400) @ ''KB''
           else show_u num
      else if type = CFG_TYPE_TIME \<and> num \<noteq> 0
      then if num mod 60000000 = 0 then show_u (num div 60000000) @ ''m''
           else if num mod 1000000 = 0 then show_u (num div 1000000) @ ''s''
           else if num mod 1000 = 0 then show_u (num div 1000) @ ''ms''
           else show_u (num div 1000) @ ''us''
      else show_u num)"

definition cfg_spec_get_ipv6 :: "cfg_libc \<Rightarrow> tpa_ip \<Rightarrow> int \<Rightarrow> string" where
  "cfg_spec_get_ipv6 L ip prefixlen =
     lc_ip_to_str L ip @ (if prefixlen \<noteq> 0 then ''/'' @ (if prefixlen < 0 then ''-'' else []) @ show_nat (nat \<bar>prefixlen\<bar>) else [])"

text \<open>The type of an option says what its data is; another combination does not occur and leaves the
  text empty.\<close>

definition cfg_spec_get_val :: "cfg_libc \<Rightarrow> cfg_spec \<Rightarrow> string" where
  "cfg_spec_get_val L spec =
     (case spec_get spec of
        Some f \<Rightarrow> f (spec_data spec)
      | None \<Rightarrow>
          (case (spec_type spec, spec_data spec) of
             (CFG_TYPE_UINT, DUint n) \<Rightarrow> cfg_spec_get_num CFG_TYPE_UINT n
           | (CFG_TYPE_SIZE, DUint n) \<Rightarrow> cfg_spec_get_num CFG_TYPE_SIZE n
           | (CFG_TYPE_TIME, DUint n) \<Rightarrow> cfg_spec_get_num CFG_TYPE_TIME n
           | (CFG_TYPE_STR, DStr s) \<Rightarrow> take (VAL_SIZE - 1) s
           | (CFG_TYPE_IPV4, DIp4 ip) \<Rightarrow> lc_inet_ntoa L ip
           | (CFG_TYPE_IPV6, DIp6 ip n) \<Rightarrow> cfg_spec_get_ipv6 L ip n
           | (CFG_TYPE_MAC, DMac m) \<Rightarrow> lc_print_mac L m
           | (CFG_TYPE_MASK, DIp4 ip) \<Rightarrow> lc_inet_ntoa L ip
           | _ \<Rightarrow> []))"

section \<open>Tokens\<close>

datatype cfg_token = TOKEN_NONE | TOKEN_BRACE_LEFT | TOKEN_BRACE_RIGHT | TOKEN_STRING | TOKEN_EQUAL | TOKEN_OPT_END | TOKEN_BAD |
  TOKEN_CONSUMED

record cfg_ctx =
  ctx_file :: string
  ctx_token :: cfg_token
  ctx_token_name :: string
  ctx_nr_malloc :: nat

text \<open>A \<open>char\<close> is signed: the character 255 is \<open>EOF\<close>.\<close>

definition fgetc :: "string \<Rightarrow> char option \<times> string" where
  "fgetc s = (case s of [] \<Rightarrow> (None, []) | c # s1 \<Rightarrow> (if c = CHR 0xFF then None else Some c, s1))"

text \<open>\<open>strchr\<close> finds the character 0 at the end of every text.\<close>

definition is_valid_char :: "char \<Rightarrow> bool" where
  "is_valid_char c \<longleftrightarrow> c \<notin> {CHR 0x09, CHR 0x0A, CHR ''{'', CHR ''}'', CHR ''='', CHR '' '', CHR '';'', CHR 0x00}"

definition token_put_char :: "string \<Rightarrow> char \<Rightarrow> string option" where
  "token_put_char name c = (if NAME_SIZE - 1 \<le> length name then None else Some (name @ [c]))"

text \<open>The result: whether the end was found, the name so far and the rest of the file.\<close>

fun match_quoted_string :: "string \<Rightarrow> string \<Rightarrow> bool \<times> string \<times> string" where
  "match_quoted_string name [] = (False, name, [])"
| "match_quoted_string name (c # s) =
     (if c = CHR 0xFF then (False, name, s)
      else if c = CHR 0x22 then (True, name, s)
      else case token_put_char name c of None \<Rightarrow> (False, name, s) | Some n \<Rightarrow> match_quoted_string n s)"

lemma match_quoted_length: "match_quoted_string name s = (r, n, s') \<Longrightarrow> length s' \<le> length s"
  by (induction name s rule: match_quoted_string.induct) (auto split: if_splits option.splits intro: le_SucI)

function string_token_loop :: "char \<Rightarrow> string \<Rightarrow> string \<Rightarrow> cfg_token \<times> string \<times> string" where
  "string_token_loop c name s =
     (case (if c = CHR 0x22 then match_quoted_string name s
            else case token_put_char name c of None \<Rightarrow> (False, name, s) | Some n \<Rightarrow> (True, n, s)) of
        (False, name1, s1) \<Rightarrow> (TOKEN_BAD, name1, s1)
      | (True, name1, s1) \<Rightarrow>
          (case fgetc s1 of
             (None, s2) \<Rightarrow> (if name1 = [] then TOKEN_BAD else TOKEN_STRING, name1, s2)
           | (Some c2, s2) \<Rightarrow>
               if is_valid_char c2 then string_token_loop c2 name1 s2
               else (if name1 = [] then TOKEN_BAD else TOKEN_STRING, name1, c2 # s2)))"
  by pat_completeness auto
termination
  by (relation "measure (\<lambda>(c, name, s). length s)")
    (auto simp: fgetc_def split: if_splits option.splits list.splits dest!: match_quoted_length [OF sym])

declare string_token_loop.simps [simp del]

definition get_string_token :: "char \<Rightarrow> string \<Rightarrow> cfg_token \<times> string \<times> string" where
  "get_string_token c s = (if is_valid_char c then string_token_loop c [] s else (TOKEN_BAD, [], s))"

text \<open>The rest of a comment: the loop looks for the end of the line and does not see the end of the
  file.\<close>

fun skip_comment :: "string \<Rightarrow> string option" where
  "skip_comment [] = None"
| "skip_comment (c # s) = (if c = CHR 0x0A then Some s else skip_comment s)"

lemma skip_comment_length: "skip_comment s = Some s' \<Longrightarrow> length s' < length s"
  by (induction s) (auto split: if_splits)

function peek_loop :: "bool \<Rightarrow> string \<Rightarrow> (cfg_token \<times> string \<times> string) option" where
  "peek_loop count_nl file =
     (case fgetc file of
        (None, s) \<Rightarrow> Some (TOKEN_NONE, [], s)
      | (Some c, s) \<Rightarrow>
          if c = CHR '' '' \<or> c = CHR 0x09 then peek_loop count_nl s
          else if c = CHR 0x0A then (if count_nl then Some (TOKEN_OPT_END, [], s) else peek_loop count_nl s)
          else if c = CHR '';'' then Some (TOKEN_OPT_END, [], s)
          else if c = CHR ''#''
          then (case skip_comment s of
                  None \<Rightarrow> None
                | Some s1 \<Rightarrow> peek_loop count_nl (if count_nl then CHR 0x0A # s1 else s1))
          else if c = CHR ''{'' then Some (TOKEN_BRACE_LEFT, [c], s)
          else if c = CHR ''}'' then Some (TOKEN_BRACE_RIGHT, [c], s)
          else if c = CHR ''='' then Some (TOKEN_EQUAL, [c], s)
          else Some (get_string_token c s))"
  by pat_completeness auto
termination
  by (relation "measure (\<lambda>(n, s). length s)")
    (auto simp: fgetc_def split: if_splits list.splits dest!: skip_comment_length)

declare peek_loop.simps [simp del]

definition token_do_peek_type :: "bool \<Rightarrow> cfg_ctx \<Rightarrow> (cfg_token \<times> cfg_ctx) option" where
  "token_do_peek_type count_nl ctx =
     (if ctx_token ctx \<noteq> TOKEN_CONSUMED then Some (ctx_token ctx, ctx)
      else case peek_loop count_nl (ctx_file ctx) of
        None \<Rightarrow> None
      | Some (token, name, s) \<Rightarrow> Some (token, ctx\<lparr>ctx_token := token, ctx_token_name := name, ctx_file := s\<rparr>))"

definition token_do_get_type :: "bool \<Rightarrow> cfg_ctx \<Rightarrow> (cfg_token \<times> cfg_ctx) option" where
  "token_do_get_type count_nl ctx =
     (case token_do_peek_type count_nl ctx of
        None \<Rightarrow> None | Some (token, ctx1) \<Rightarrow> Some (token, ctx1\<lparr>ctx_token := TOKEN_CONSUMED\<rparr>))"

text \<open>The name of a token as the C functions read it, up to a character 0.\<close>

definition token_get_name :: "cfg_ctx \<Rightarrow> string" where
  "token_get_name ctx = takeWhile (\<lambda>c. c \<noteq> CHR 0x00) (ctx_token_name ctx)"

section \<open>Sections\<close>

type_synonym cfg_opts = "(string \<times> string) list"
type_synonym cfg_sections = "(string \<times> cfg_opts) list"

definition cfg_opt_find :: "cfg_opts \<Rightarrow> string \<Rightarrow> string option" where
  "cfg_opt_find opts name = map_of opts name"

definition cfg_section_find :: "cfg_sections \<Rightarrow> string \<Rightarrow> cfg_opts option" where
  "cfg_section_find sects name = map_of sects name"

text \<open>The value of the first entry of that name is replaced; a new name goes to the head.\<close>

fun assoc_set :: "('k \<times> 'v) list \<Rightarrow> 'k \<Rightarrow> 'v \<Rightarrow> ('k \<times> 'v) list" where
  "assoc_set [] k v = []"
| "assoc_set ((a, b) # xs) k v = (if a = k then (a, v) # xs else (a, b) # assoc_set xs k v)"

definition cfg_opt_insert :: "cfg_opts \<Rightarrow> string \<times> string \<Rightarrow> cfg_opts" where
  "cfg_opt_insert opts new = (if cfg_opt_find opts (fst new) = None then new # opts else assoc_set opts (fst new) (snd new))"

definition cfg_section_insert :: "cfg_sections \<Rightarrow> string \<times> cfg_opts \<Rightarrow> cfg_sections" where
  "cfg_section_insert sects new =
     (case cfg_section_find sects (fst new) of
        None \<Rightarrow> new # sects
      | Some opts \<Rightarrow> assoc_set sects (fst new) (foldl cfg_opt_insert opts (snd new)))"

text \<open>A match gives \<open>None\<close> when it fails.\<close>

definition cfg_file_match_section_name :: "cfg_ctx \<Rightarrow> (string option \<times> cfg_ctx) option" where
  "cfg_file_match_section_name ctx =
     do { (token, ctx1) \<leftarrow> token_do_get_type False ctx;
          Some (if token \<noteq> TOKEN_STRING then None else Some (token_get_name ctx1), ctx1) }"

definition cfg_file_match_brace :: "cfg_ctx \<Rightarrow> cfg_token \<Rightarrow> (bool \<times> cfg_ctx) option" where
  "cfg_file_match_brace ctx type = do { (token, ctx1) \<leftarrow> token_do_get_type False ctx; Some (token = type, ctx1) }"

definition cfg_file_match_opt_name :: "cfg_ctx \<Rightarrow> (string option \<times> cfg_ctx) option" where
  "cfg_file_match_opt_name ctx =
     do { (token, ctx1) \<leftarrow> token_do_get_type False ctx;
          Some (if token \<noteq> TOKEN_STRING then None else Some (token_get_name ctx1), ctx1) }"

definition cfg_file_match_equal :: "cfg_ctx \<Rightarrow> (bool \<times> cfg_ctx) option" where
  "cfg_file_match_equal ctx = do { (token, ctx1) \<leftarrow> token_do_get_type False ctx; Some (token = TOKEN_EQUAL, ctx1) }"

text \<open>The value collects the tokens up to the end of the line or a semicolon, each with a space; the
  buffer takes 127 characters.\<close>

partial_function (option) opt_val_loop :: "cfg_ctx \<Rightarrow> string \<Rightarrow> (string option \<times> cfg_ctx) option" where
  [code]: "opt_val_loop ctx val =
     do { (token, ctx1) \<leftarrow> token_do_get_type True ctx;
          if token = TOKEN_OPT_END then Some (Some val, ctx1)
          else if token \<noteq> TOKEN_STRING then Some (None, ctx1)
          else opt_val_loop ctx1 (take (NAME_SIZE - 1) (val @ token_get_name ctx1 @ '' '')) }"

definition cfg_file_match_opt_val :: "cfg_ctx \<Rightarrow> (string option \<times> cfg_ctx) option" where
  "cfg_file_match_opt_val ctx =
     do { (val, ctx1) \<leftarrow> opt_val_loop ctx [];
          Some (case val of None \<Rightarrow> None | Some v \<Rightarrow> if v = [] then None else Some (butlast v), ctx1) }"

text \<open>One option, after the allocation: name, \<open>=\<close> and value.\<close>

definition match_option :: "cfg_ctx \<Rightarrow> ((string \<times> string) option \<times> cfg_ctx) option" where
  "match_option ctx =
     do { (name, ctx1) \<leftarrow> cfg_file_match_opt_name ctx;
          case name of
            None \<Rightarrow> Some (None, ctx1)
          | Some n \<Rightarrow>
              do { (eq, ctx2) \<leftarrow> cfg_file_match_equal ctx1;
                   if \<not> eq then Some (None, ctx2)
                   else do { (val, ctx3) \<leftarrow> cfg_file_match_opt_val ctx2; Some (map_option (Pair n) val, ctx3) } } }"

partial_function (option) cfg_file_match_options :: "(nat \<Rightarrow> bool) \<Rightarrow> cfg_ctx \<Rightarrow> cfg_opts \<Rightarrow> (bool \<times> cfg_ctx \<times> cfg_opts) option" where
  [code]: "cfg_file_match_options mal ctx opts =
     do { (token, ctx1) \<leftarrow> token_do_peek_type False ctx;
          if token = TOKEN_BRACE_RIGHT then Some (True, ctx1, opts)
          else let ctx2 = ctx1\<lparr>ctx_nr_malloc := ctx_nr_malloc ctx1 + 1\<rparr>
               in if \<not> mal (ctx_nr_malloc ctx1) then Some (False, ctx2, opts)
                  else do { (opt, ctx3) \<leftarrow> match_option ctx2;
                            case opt of
                              None \<Rightarrow> Some (False, ctx3, opts)
                            | Some o1 \<Rightarrow> cfg_file_match_options mal ctx3 (cfg_opt_insert opts o1) } }"

text \<open>The options in front of a bad one are kept.\<close>

definition cfg_file_match_section :: "(nat \<Rightarrow> bool) \<Rightarrow> cfg_ctx \<Rightarrow> cfg_sections \<Rightarrow> (bool \<times> cfg_ctx \<times> cfg_sections) option" where
  "cfg_file_match_section mal ctx sects =
     (let ctx0 = ctx\<lparr>ctx_nr_malloc := ctx_nr_malloc ctx + 1\<rparr>
      in if \<not> mal (ctx_nr_malloc ctx) then Some (False, ctx0, sects)
         else do { (name, ctx1) \<leftarrow> cfg_file_match_section_name ctx0;
                   case name of
                     None \<Rightarrow> Some (False, ctx1, sects)
                   | Some n \<Rightarrow>
                       do { (left, ctx2) \<leftarrow> cfg_file_match_brace ctx1 TOKEN_BRACE_LEFT;
                            if \<not> left then Some (False, ctx2, sects)
                            else do { (ok, ctx3, opts) \<leftarrow> cfg_file_match_options mal ctx2 [];
                                      (right, ctx4) \<leftarrow> (if ok then cfg_file_match_brace ctx3 TOKEN_BRACE_RIGHT else Some (False, ctx3));
                                      Some (right, ctx4, if opts = [] then sects else cfg_section_insert sects (n, opts)) } } })"

partial_function (option) cfg_file_loop :: "(nat \<Rightarrow> bool) \<Rightarrow> cfg_ctx \<Rightarrow> cfg_sections \<Rightarrow> (bool \<times> cfg_sections) option" where
  [code]: "cfg_file_loop mal ctx sects =
     do { (token, ctx1) \<leftarrow> token_do_peek_type False ctx;
          if token = TOKEN_NONE then Some (True, sects)
          else do { (ok, ctx2, sects1) \<leftarrow> cfg_file_match_section mal ctx1 sects;
                    if \<not> ok then Some (False, sects1) else cfg_file_loop mal ctx2 sects1 } }"

definition cfg_file_parse :: "(nat \<Rightarrow> bool) \<Rightarrow> string \<Rightarrow> cfg_sections \<Rightarrow> (bool \<times> cfg_sections) option" where
  "cfg_file_parse mal file sects =
     cfg_file_loop mal \<lparr>ctx_file = file, ctx_token = TOKEN_CONSUMED, ctx_token_name = [], ctx_nr_malloc = 0\<rparr> sects"

section \<open>The table of options\<close>

text \<open>The value of an option of the file, by \<open>section.name\<close>. The code copies the section name into a buffer
  of 128 characters; every caller passes a constant that fits.\<close>

definition cfg_file_opt_get :: "cfg_sections \<Rightarrow> string \<Rightarrow> string option" where
  "cfg_file_opt_get sects name =
     (let sect = takeWhile (\<lambda>c. c \<noteq> CHR ''.'') name;
          rest = dropWhile (\<lambda>c. c \<noteq> CHR ''.'') name
      in if rest = [] then None
         else List.find (\<lambda>_. True) (List.map_filter (\<lambda>(n, opts). if n = sect then cfg_opt_find opts (tl rest) else None) sects))"

definition cfg_spec_find :: "cfg_spec list \<Rightarrow> string \<Rightarrow> nat option" where
  "cfg_spec_find specs name = List.find (\<lambda>i. spec_name (specs ! i) = name) [0..<length specs]"

text \<open>The options of a section set the options of the table; an unknown one is skipped. The result
  says whether none failed.\<close>

fun section_parse_loop :: "cfg_libc \<Rightarrow> string \<Rightarrow> cfg_opts \<Rightarrow> cfg_spec list \<Rightarrow> bool \<times> cfg_spec list" where
  "section_parse_loop L sect [] specs = (True, specs)"
| "section_parse_loop L sect ((n, v) # opts) specs =
     (case cfg_spec_find specs (sect @ ''.'' @ n) of
        None \<Rightarrow> section_parse_loop L sect opts specs
      | Some i \<Rightarrow>
          (case cfg_spec_set L (specs ! i) v True of
             None \<Rightarrow> (let (r, specs1) = section_parse_loop L sect opts specs in (False, specs1))
           | Some d \<Rightarrow> section_parse_loop L sect opts (specs[i := (specs ! i)\<lparr>spec_data := d\<rparr>])))"

definition cfg_section_parse :: "cfg_libc \<Rightarrow> cfg_sections \<Rightarrow> string \<Rightarrow> cfg_spec list \<Rightarrow> bool \<times> cfg_spec list" where
  "cfg_section_parse L sects name specs =
     (case cfg_section_find sects name of None \<Rightarrow> (False, specs) | Some opts \<Rightarrow> section_parse_loop L name opts specs)"

definition cfg_spec_register_one :: "cfg_spec list \<Rightarrow> cfg_spec \<Rightarrow> bool \<times> cfg_spec list" where
  "cfg_spec_register_one specs spec =
     (if CFG_SPECS_SIZE \<le> length specs then (False, specs)
      else if cfg_spec_find specs (spec_name spec) \<noteq> None then (False, specs)
      else if spec_type spec = CFG_TYPE_MIN \<or> spec_type spec = CFG_TYPE_MAX then (False, specs)
      else (True, specs @ [spec]))"

definition cfg_spec_register :: "cfg_spec list \<Rightarrow> cfg_spec list \<Rightarrow> cfg_spec list" where
  "cfg_spec_register specs new = foldl (\<lambda>ss s. snd (cfg_spec_register_one ss s)) specs new"

datatype cfg_reply = ReplyOk | ReplyUsage | ReplyBadName | ReplyReadonly | ReplyBadValue | ReplyBadCmd | ReplyList "(string \<times> string) list"

text \<open>The shell command \<open>cfg set\<close>; a failure of a read-only option is reported as such.\<close>

definition cfg_set :: "cfg_libc \<Rightarrow> string list \<Rightarrow> cfg_spec list \<Rightarrow> cfg_reply \<times> cfg_spec list" where
  "cfg_set L argv specs =
     (if length argv \<noteq> 3 then (ReplyUsage, specs)
      else case cfg_spec_find specs (argv ! 1) of
        None \<Rightarrow> (ReplyBadName, specs)
      | Some i \<Rightarrow>
          (case cfg_spec_set L (specs ! i) (argv ! 2) False of
             None \<Rightarrow> (if spec_flags (specs ! i) AND CFG_FLAG_RDONLY \<noteq> 0 then ReplyReadonly else ReplyBadValue, specs)
           | Some d \<Rightarrow> (ReplyOk, specs[i := (specs ! i)\<lparr>spec_data := d\<rparr>])))"

definition cfg_list :: "cfg_libc \<Rightarrow> cfg_spec list \<Rightarrow> (string \<times> string) list" where
  "cfg_list L specs = map (\<lambda>spec. (spec_name spec, let v = cfg_spec_get_val L spec in if v = [] then ''N/A'' else v)) specs"

definition cmd_cfg :: "cfg_libc \<Rightarrow> string list \<Rightarrow> cfg_spec list \<Rightarrow> cfg_reply \<times> cfg_spec list" where
  "cmd_cfg L argv specs =
     (if argv = [] then (ReplyUsage, specs)
      else if argv ! 0 = ''set'' then cfg_set L argv specs
      else if argv ! 0 = ''list'' then (ReplyList (cfg_list L specs), specs)
      else (ReplyBadCmd, specs))"

definition cfg_dump_unknown_opts :: "cfg_sections \<Rightarrow> cfg_spec list \<Rightarrow> (string \<times> string) list" where
  "cfg_dump_unknown_opts sects specs =
     concat (map (\<lambda>(s, opts). map (\<lambda>(n, v). (s, n)) (filter (\<lambda>(n, v). cfg_spec_find specs (s @ ''.'' @ n) = None) opts)) sects)"

text \<open>The file is read first, then the environment variable, into the same sections; the result of
  the first does not stop the second.\<close>

definition cfg_init :: "(nat \<Rightarrow> bool) \<Rightarrow> string option \<Rightarrow> string option \<Rightarrow> cfg_sections option" where
  "cfg_init mal file env_var =
     do { sects \<leftarrow> (case file of None \<Rightarrow> Some [] | Some f \<Rightarrow> map_option snd (cfg_file_parse mal f []));
          case env_var of None \<Rightarrow> Some sects | Some v \<Rightarrow> map_option snd (cfg_file_parse mal v sects) }"

definition cfg_reset :: "cfg_sections \<Rightarrow> cfg_sections" where
  "cfg_reset sects = []"

end
