(* ===== verification/Cfg_Read.thy ===== *)
theory Cfg_Read
  imports Cfg "HOL-Library.Sublist"
begin

text \<open>
  What the reader of configuration files does: it returns on every file whose last line is complete
  and does not on a comment that the end of the file cuts off; it reads back what is written in the
  form of the documentation; and what an option prints is read back as the option.
\<close>

section \<open>Reading returns\<close>

definition nl_file :: "string \<Rightarrow> bool" where
  "nl_file s \<longleftrightarrow> s = [] \<or> last s = CHR 0x0A"

lemma nl_file_suffix: "nl_file s \<Longrightarrow> suffix s' s \<Longrightarrow> nl_file s'"
  by (auto simp: nl_file_def suffix_def last_append split: if_splits)

lemma nl_file_tl: "nl_file (c # s) \<Longrightarrow> nl_file s"
  by (auto simp: nl_file_def split: if_splits)

lemma match_quoted_suffix: "match_quoted_string name s = (r, n, s') \<Longrightarrow> suffix s' s"
  by (induction name s rule: match_quoted_string.induct) (auto split: if_splits option.splits intro: suffix_ConsI)

lemma string_token_loop_suffix: "string_token_loop c name s = (t, n, s') \<Longrightarrow> suffix s' s"
proof (induction c name s rule: string_token_loop.induct)
  case (1 c name s)
  obtain r n1 s1 where q: "(if c = CHR 0x22 then match_quoted_string name s
      else case token_put_char name c of None \<Rightarrow> (False, name, s) | Some n \<Rightarrow> (True, n, s)) = (r, n1, s1)" by (metis prod_cases3)
  have s1: "suffix s1 s" using q match_quoted_suffix by (auto split: if_splits option.splits)
  show ?case
  proof (cases r)
    case False
    then show ?thesis using "1.prems" q s1 by (simp add: string_token_loop.simps [of c name s])
  next
    case r: True
    show ?thesis
    proof (cases s1)
      case Nil
      then show ?thesis using "1.prems" q r s1 by (simp add: string_token_loop.simps [of c name s] fgetc_def)
    next
      case (Cons c2 s2)
      have s2: "suffix s2 s" using s1 Cons by (metis suffix_ConsD)
      show ?thesis
      proof (cases "c2 = CHR 0xFF")
        case True
        then show ?thesis using "1.prems" q r Cons s2 by (simp add: string_token_loop.simps [of c name s] fgetc_def)
      next
        case False
        show ?thesis
        proof (cases "is_valid_char c2")
          case True
          have "string_token_loop c2 n1 s2 = (t, n, s')"
            using "1.prems" q r Cons False True by (simp add: string_token_loop.simps [of c name s] fgetc_def)
          moreover have "r = True" "(Some c2, s2) = fgetc s1" using r Cons False by (simp_all add: fgetc_def)
          ultimately have "suffix s' s2" using "1.IH" [OF q [symmetric] _ refl _ refl True] by blast
          then show ?thesis using s2 suffix_order.trans by blast
        next
          case nv: False
          then show ?thesis using "1.prems" q r Cons s1 False by (simp add: string_token_loop.simps [of c name s] fgetc_def)
        qed
      qed
    qed
  qed
qed

lemma skip_comment_nl: "nl_file s \<Longrightarrow> s \<noteq> [] \<Longrightarrow> \<exists>s'. skip_comment s = Some s' \<and> suffix (CHR 0x0A # s') s"
proof (induction s)
  case (Cons c s)
  show ?case
  proof (cases "c = CHR 0x0A")
    case False
    then have "s \<noteq> []" using Cons.prems(1) by (auto simp: nl_file_def)
    then show ?thesis using Cons.IH nl_file_tl [OF Cons.prems(1)] False by (auto intro: suffix_ConsI)
  qed simp
qed simp

lemma peek_loop_returns:
  "nl_file s \<Longrightarrow> \<exists>t n s'. peek_loop nl s = Some (t, n, s') \<and> suffix s' s \<and> (t \<noteq> TOKEN_NONE \<longrightarrow> length s' < length s)"
proof (induction nl s rule: peek_loop.induct)
  case (1 nl s)
  show ?case
  proof (cases s)
    case Nil
    then show ?thesis by (simp add: peek_loop.simps [of nl "[]"] fgetc_def)
  next
    case (Cons c s1)
    have nl1: "nl_file s1" using "1.prems" Cons nl_file_tl by blast
    have up: "suffix s' s \<and> (t \<noteq> TOKEN_NONE \<longrightarrow> length s' < length s)" if "suffix s' s1" for s' and t
      using that Cons by (auto intro: suffix_ConsI dest: suffix_length_le)
    note unf = peek_loop.simps [of nl "c # s1"]
    consider (eof) "c = CHR 0xFF" | (blank) "c = CHR '' '' \<or> c = CHR 0x09" | (line) "c = CHR 0x0A" | (comment) "c = CHR ''#''"
      | (sym) "c \<in> {CHR '';'', CHR ''{'', CHR ''}'', CHR ''=''}"
      | (word) "c \<notin> {CHR 0xFF, CHR '' '', CHR 0x09, CHR 0x0A, CHR ''#'', CHR '';'', CHR ''{'', CHR ''}'', CHR ''=''}" by auto
    then show ?thesis
    proof cases
      case eof
      then have "peek_loop nl s = Some (TOKEN_NONE, [], s1)" unfolding Cons unf by (simp add: fgetc_def)
      then show ?thesis using up [of s1] by simp
    next
      case blank
      then have "peek_loop nl s = peek_loop nl s1" unfolding Cons unf by (auto simp: fgetc_def)
      moreover have "\<exists>t n s'. peek_loop nl s1 = Some (t, n, s') \<and> suffix s' s1 \<and> (t \<noteq> TOKEN_NONE \<longrightarrow> length s' < length s1)"
        using "1.IH"(1) [of "Some c" s1 c] blank Cons nl1 by (auto simp: fgetc_def)
      ultimately show ?thesis using up by fastforce
    next
      case line
      show ?thesis
      proof (cases nl)
        case True
        then have "peek_loop nl s = Some (TOKEN_OPT_END, [], s1)" using line unfolding Cons unf by (simp add: fgetc_def)
        then show ?thesis using up [of s1] by simp
      next
        case False
        then have "peek_loop nl s = peek_loop nl s1" using line unfolding Cons unf by (auto simp: fgetc_def)
        moreover have "\<exists>t n s'. peek_loop nl s1 = Some (t, n, s') \<and> suffix s' s1 \<and> (t \<noteq> TOKEN_NONE \<longrightarrow> length s' < length s1)"
          using "1.IH"(2) [of "Some c" s1 c] line False Cons nl1 by (auto simp: fgetc_def)
        ultimately show ?thesis using up by fastforce
      qed
    next
      case comment
      then have "s1 \<noteq> []" using "1.prems" Cons by (auto simp: nl_file_def)
      then obtain s2 where s2: "skip_comment s1 = Some s2" "suffix (CHR 0x0A # s2) s1" using skip_comment_nl [OF nl1] by blast
      define s3 where "s3 = (if nl then CHR 0x0A # s2 else s2)"
      have s3: "suffix s3 s1" using s2(2) by (auto simp: s3_def dest: suffix_ConsD)
      have "peek_loop nl s = peek_loop nl s3" using comment s2(1) unfolding Cons unf by (simp add: fgetc_def s3_def)
      moreover have "\<exists>t n s'. peek_loop nl s3 = Some (t, n, s') \<and> suffix s' s3 \<and> (t \<noteq> TOKEN_NONE \<longrightarrow> length s' < length s3)"
        using "1.IH"(3) [of "Some c" s1 c s2] comment s2(1) Cons nl_file_suffix [OF nl1 s3] by (auto simp: fgetc_def s3_def)
      ultimately show ?thesis using up s3 suffix_order.trans by metis
    next
      case sym
      then have "\<exists>t n. peek_loop nl s = Some (t, n, s1)" unfolding Cons unf by (auto simp: fgetc_def)
      then show ?thesis using up [of s1] by auto
    next
      case word
      obtain t n s' where g: "get_string_token c s1 = (t, n, s')" by (metis prod_cases3)
      then have "suffix s' s1" using string_token_loop_suffix by (auto simp: get_string_token_def split: if_splits)
      moreover have "peek_loop nl s = Some (t, n, s')" using word g unfolding Cons unf by (simp add: fgetc_def)
      ultimately show ?thesis using up by blast
    qed
  qed
qed

text \<open>How much of the file a step leaves: never more, and less when it succeeds.\<close>

lemma token_do_peek_returns:
  fixes nl :: bool
  assumes "nl_file (ctx_file ctx)"
  obtains t ctx' where "token_do_peek_type nl ctx = Some (t, ctx')" "suffix (ctx_file ctx') (ctx_file ctx)"
    "ctx_token ctx = TOKEN_CONSUMED \<Longrightarrow> t \<noteq> TOKEN_NONE \<Longrightarrow> length (ctx_file ctx') < length (ctx_file ctx)"
    "ctx_token ctx' = t" "ctx_nr_malloc ctx' = ctx_nr_malloc ctx"
proof (cases "ctx_token ctx = TOKEN_CONSUMED")
  case True
  obtain t n s' where p: "peek_loop nl (ctx_file ctx) = Some (t, n, s')" "suffix s' (ctx_file ctx)"
    "t \<noteq> TOKEN_NONE \<longrightarrow> length s' < length (ctx_file ctx)" using peek_loop_returns [OF assms] by blast
  show thesis using that [of t "ctx\<lparr>ctx_token := t, ctx_token_name := n, ctx_file := s'\<rparr>"] True p
    by (simp add: token_do_peek_type_def)
next
  case False
  then show thesis using that [of "ctx_token ctx" ctx] by (simp add: token_do_peek_type_def)
qed

lemma token_do_get_returns:
  fixes nl :: bool
  assumes "nl_file (ctx_file ctx)"
  obtains t ctx' where "token_do_get_type nl ctx = Some (t, ctx')" "suffix (ctx_file ctx') (ctx_file ctx)"
    "ctx_token ctx = TOKEN_CONSUMED \<Longrightarrow> t \<noteq> TOKEN_NONE \<Longrightarrow> length (ctx_file ctx') < length (ctx_file ctx)"
    "ctx_token ctx' = TOKEN_CONSUMED"
proof -
  obtain t ctx' where "token_do_peek_type nl ctx = Some (t, ctx')" "suffix (ctx_file ctx') (ctx_file ctx)"
    "ctx_token ctx = TOKEN_CONSUMED \<Longrightarrow> t \<noteq> TOKEN_NONE \<Longrightarrow> length (ctx_file ctx') < length (ctx_file ctx)"
    using token_do_peek_returns [OF assms, of nl] by metis
  then show thesis using that [of t "ctx'\<lparr>ctx_token := TOKEN_CONSUMED\<rparr>"] by (simp add: token_do_get_type_def)
qed

lemma opt_val_loop_returns:
  "nl_file (ctx_file ctx) \<Longrightarrow> ctx_token ctx = TOKEN_CONSUMED \<Longrightarrow>
   \<exists>v ctx'. opt_val_loop ctx val = Some (v, ctx') \<and> suffix (ctx_file ctx') (ctx_file ctx) \<and> ctx_token ctx' = TOKEN_CONSUMED"
proof (induction "length (ctx_file ctx)" arbitrary: ctx val rule: less_induct)
  case less
  obtain t ctx1 where g: "token_do_get_type True ctx = Some (t, ctx1)" "suffix (ctx_file ctx1) (ctx_file ctx)"
    "t \<noteq> TOKEN_NONE \<Longrightarrow> length (ctx_file ctx1) < length (ctx_file ctx)" "ctx_token ctx1 = TOKEN_CONSUMED"
    using token_do_get_returns [OF less.prems(1), of True] less.prems(2) by metis
  show ?case
  proof (cases "t = TOKEN_STRING")
    case True
    have "\<exists>v ctx'. opt_val_loop ctx1 (take (NAME_SIZE - 1) (val @ token_get_name ctx1 @ '' '')) = Some (v, ctx') \<and>
        suffix (ctx_file ctx') (ctx_file ctx1) \<and> ctx_token ctx' = TOKEN_CONSUMED"
      using g True nl_file_suffix [OF less.prems(1) g(2)] by (intro less.hyps) simp_all
    then show ?thesis using g True suffix_order.trans [OF _ g(2)] by (subst opt_val_loop.simps) auto
  next
    case False
    then show ?thesis using g by (subst opt_val_loop.simps) auto
  qed
qed

lemma match_option_returns:
  assumes "nl_file (ctx_file ctx)"
  obtains r ctx' where "match_option ctx = Some (r, ctx')" "suffix (ctx_file ctx') (ctx_file ctx)"
    "r \<noteq> None \<Longrightarrow> length (ctx_file ctx') < length (ctx_file ctx)"
proof -
  obtain t1 c1 where g1: "token_do_get_type False ctx = Some (t1, c1)" "suffix (ctx_file c1) (ctx_file ctx)" "ctx_token c1 = TOKEN_CONSUMED"
    using token_do_get_returns [OF assms, of False] by metis
  note n1 = nl_file_suffix [OF assms g1(2)]
  obtain t2 c2 where g2: "token_do_get_type False c1 = Some (t2, c2)" "suffix (ctx_file c2) (ctx_file c1)" "ctx_token c2 = TOKEN_CONSUMED"
    "t2 \<noteq> TOKEN_NONE \<Longrightarrow> length (ctx_file c2) < length (ctx_file c1)"
    using token_do_get_returns [OF n1, of False] g1(3) by metis
  note s2 = suffix_order.trans [OF g2(2) g1(2)]
  obtain v c3 where g3: "opt_val_loop c2 [] = Some (v, c3)" "suffix (ctx_file c3) (ctx_file c2)"
    using opt_val_loop_returns [OF nl_file_suffix [OF n1 g2(2)] g2(3)] by blast
  note s3 = suffix_order.trans [OF g3(2) s2]
  note defs = match_option_def cfg_file_match_opt_name_def cfg_file_match_equal_def cfg_file_match_opt_val_def
  consider "t1 \<noteq> TOKEN_STRING" | "t1 = TOKEN_STRING" "t2 \<noteq> TOKEN_EQUAL" | "t1 = TOKEN_STRING" "t2 = TOKEN_EQUAL" by blast
  then show thesis
  proof cases
    case 1
    then show thesis using that [of None c1] g1 by (simp add: defs)
  next
    case 2
    then show thesis using that [of None c2] g1 g2 s2 by (simp add: defs)
  next
    case 3
    have "length (ctx_file c3) < length (ctx_file ctx)"
      using 3 g2(4) suffix_length_le [OF g3(2)] suffix_length_le [OF g1(2)] by simp
    then show thesis using that [of _ c3] 3 g1 g2 g3 s3 by (auto simp: defs)
  qed
qed

lemma match_options_returns:
  "nl_file (ctx_file ctx) \<Longrightarrow>
   \<exists>r ctx' o'. cfg_file_match_options mal ctx opts = Some (r, ctx', o') \<and> suffix (ctx_file ctx') (ctx_file ctx)"
proof (induction "length (ctx_file ctx)" arbitrary: ctx opts rule: less_induct)
  case less
  obtain t ctx1 where p: "token_do_peek_type False ctx = Some (t, ctx1)" "suffix (ctx_file ctx1) (ctx_file ctx)"
    using token_do_peek_returns [OF less.prems, of False] by metis
  define ctx2 where "ctx2 = ctx1\<lparr>ctx_nr_malloc := ctx_nr_malloc ctx1 + 1\<rparr>"
  have f2: "nl_file (ctx_file ctx2)" "suffix (ctx_file ctx2) (ctx_file ctx)"
    using nl_file_suffix [OF less.prems p(2)] p(2) by (simp_all add: ctx2_def)
  obtain r ctx3 where m: "match_option ctx2 = Some (r, ctx3)" "suffix (ctx_file ctx3) (ctx_file ctx2)"
    "r \<noteq> None \<Longrightarrow> length (ctx_file ctx3) < length (ctx_file ctx2)" using match_option_returns [OF f2(1)] by metis
  note s3 = suffix_order.trans [OF m(2) f2(2)]
  show ?case
  proof (cases "t = TOKEN_BRACE_RIGHT \<or> \<not> mal (ctx_nr_malloc ctx1) \<or> r = None")
    case True
    then show ?thesis using p m s3 f2(2) by (subst cfg_file_match_options.simps) (auto simp: Let_def ctx2_def)
  next
    case False
    then obtain o1 where r: "r = Some o1" by auto
    have "\<exists>r ctx' o'. cfg_file_match_options mal ctx3 (cfg_opt_insert opts o1) = Some (r, ctx', o') \<and> suffix (ctx_file ctx') (ctx_file ctx3)"
      using m(3) r suffix_length_le [OF f2(2)] nl_file_suffix [OF f2(1) m(2)] by (intro less.hyps) simp_all
    then show ?thesis using p m(1) r False suffix_order.trans [OF _ s3]
      by (subst cfg_file_match_options.simps) (auto simp: Let_def ctx2_def)
  qed
qed

lemma match_section_returns:
  assumes "nl_file (ctx_file ctx)"
  obtains r ctx' s' where "cfg_file_match_section mal ctx sects = Some (r, ctx', s')" "suffix (ctx_file ctx') (ctx_file ctx)"
    "r \<Longrightarrow> length (ctx_file ctx') < length (ctx_file ctx)"
proof -
  define c0 where "c0 = ctx\<lparr>ctx_nr_malloc := Suc (ctx_nr_malloc ctx)\<rparr>"
  have n0: "nl_file (ctx_file c0)" "ctx_file c0 = ctx_file ctx" using assms by (simp_all add: c0_def)
  obtain t1 c1 where g1: "token_do_get_type False c0 = Some (t1, c1)" "suffix (ctx_file c1) (ctx_file ctx)" "ctx_token c1 = TOKEN_CONSUMED"
    using token_do_get_returns [OF n0(1), of False] n0(2) by metis
  note n1 = nl_file_suffix [OF assms g1(2)]
  obtain t2 c2 where g2: "token_do_get_type False c1 = Some (t2, c2)" "suffix (ctx_file c2) (ctx_file c1)"
    "t2 \<noteq> TOKEN_NONE \<Longrightarrow> length (ctx_file c2) < length (ctx_file c1)"
    using token_do_get_returns [OF n1, of False] g1(3) by metis
  note n2 = nl_file_suffix [OF n1 g2(2)] and s2 = suffix_order.trans [OF g2(2) g1(2)]
  obtain r c3 opts where g3: "cfg_file_match_options mal c2 [] = Some (r, c3, opts)" "suffix (ctx_file c3) (ctx_file c2)"
    using match_options_returns [OF n2] by blast
  note s3 = suffix_order.trans [OF g3(2) s2]
  obtain t4 c4 where g4: "token_do_get_type False c3 = Some (t4, c4)" "suffix (ctx_file c4) (ctx_file c3)"
    using token_do_get_returns [OF nl_file_suffix [OF n2 g3(2)], of False] by metis
  note s4 = suffix_order.trans [OF g4(2) s3]
  note defs = cfg_file_match_section_def cfg_file_match_section_name_def cfg_file_match_brace_def Let_def c0_def [symmetric]
  have less: "length (ctx_file c4) < length (ctx_file ctx)" if "t2 = TOKEN_BRACE_LEFT"
    using that g2(3) suffix_length_le [OF g3(2)] suffix_length_le [OF g1(2)] suffix_length_le [OF g4(2)] by simp
  consider "\<not> mal (ctx_nr_malloc ctx)" | "mal (ctx_nr_malloc ctx)" "t1 \<noteq> TOKEN_STRING"
    | "mal (ctx_nr_malloc ctx)" "t1 = TOKEN_STRING" "t2 \<noteq> TOKEN_BRACE_LEFT"
    | "mal (ctx_nr_malloc ctx)" "t1 = TOKEN_STRING" "t2 = TOKEN_BRACE_LEFT" "\<not> r"
    | "mal (ctx_nr_malloc ctx)" "t1 = TOKEN_STRING" "t2 = TOKEN_BRACE_LEFT" "r" by blast
  then show thesis
  proof cases
    case 1
    then show thesis using that [of False c0 sects] by (simp add: cfg_file_match_section_def Let_def c0_def)
  next
    case 2
    then show thesis using that [of False c1] g1 by (simp add: defs)
  next
    case 3
    then show thesis using that [of False c2] g1 g2 s2 by (simp add: defs)
  next
    case 4
    then show thesis using that [of False c3] g1 g2 g3 s3 by (simp add: defs)
  next
    case 5
    then show thesis using that [of "t4 = TOKEN_BRACE_RIGHT" c4] g1 g2 g3 g4 s4 less by (simp add: defs)
  qed
qed

lemma cfg_file_loop_returns: "nl_file (ctx_file ctx) \<Longrightarrow> \<exists>r. cfg_file_loop mal ctx sects = Some r"
proof (induction "length (ctx_file ctx)" arbitrary: ctx sects rule: less_induct)
  case less
  obtain t ctx1 where p: "token_do_peek_type False ctx = Some (t, ctx1)" "suffix (ctx_file ctx1) (ctx_file ctx)"
    using token_do_peek_returns [OF less.prems, of False] by metis
  note n1 = nl_file_suffix [OF less.prems p(2)]
  obtain r ctx2 s2 where m: "cfg_file_match_section mal ctx1 sects = Some (r, ctx2, s2)" "suffix (ctx_file ctx2) (ctx_file ctx1)"
    "r \<Longrightarrow> length (ctx_file ctx2) < length (ctx_file ctx1)" using match_section_returns [OF n1, of mal sects] by metis
  show ?case
  proof (cases "t = TOKEN_NONE \<or> \<not> r")
    case True
    then show ?thesis using p m by (subst cfg_file_loop.simps) auto
  next
    case False
    then have "\<exists>x. cfg_file_loop mal ctx2 s2 = Some x"
      using m(3) suffix_length_le [OF p(2)] nl_file_suffix [OF n1 m(2)] by (intro less.hyps) simp_all
    then show ?thesis using p m False by (subst cfg_file_loop.simps) auto
  qed
qed

text \<open>C18: Reading a configuration file returns whenever the file is empty or its last line is
  complete, whatever else is in it, and whatever allocations fail.\<close>

theorem cfg_file_parse_returns: "nl_file file \<Longrightarrow> \<exists>ok sects'. cfg_file_parse mal file sects = Some (ok, sects')"
  using cfg_file_loop_returns [of "\<lparr>ctx_file = file, ctx_token = TOKEN_CONSUMED, ctx_token_name = [], ctx_nr_malloc = 0\<rparr>" mal sects]
  by (simp add: cfg_file_parse_def)

theorem cfg_file_parse_returns_witness:
  "\<exists>ok sects'. cfg_file_parse (\<lambda>_. True) (''net { name = x # y'' @ [CHR 0x0A]) [] = Some (ok, sects')"
  by (rule cfg_file_parse_returns) (simp add: nl_file_def)



section \<open>Numbers are read back\<close>

lemma show_nat_digits: "c \<in> set (show_nat n) \<Longrightarrow> IS_DIGIT c"
proof (induction n rule: show_nat.induct)
  case (1 n)
  have "of_char (char_of (k + 48) :: char) = k + 48" if "k < 10" for k :: nat using that by (simp add: of_char_of)
  moreover have "n mod 10 < 10" by simp
  ultimately show ?case using 1 unfolding IS_DIGIT_def
    by (subst (asm) show_nat.simps) (auto split: if_splits)
qed

lemma show_nat_val: "digits_val (show_nat n) = n"
proof (induction n rule: show_nat.induct)
  case (1 n)
  have d: "digit_val (char_of (k + 48)) = k" if "k < 10" for k :: nat using that by (simp add: digit_val_def of_char_of)
  show ?case
  proof (cases "n < 10")
    case True
    then show ?thesis using d [of n] by (simp add: digits_val_def show_nat.simps [of n])
  next
    case False
    then show ?thesis using 1 d [of "n mod 10"] by (simp add: digits_val_def show_nat.simps [of n])
  qed
qed

lemma show_nat_length: "n < 10 ^ Suc k \<Longrightarrow> length (show_nat n) \<le> Suc k"
proof (induction k arbitrary: n)
  case 0
  then show ?case by (simp add: show_nat.simps [of n])
next
  case (Suc k)
  then have "n div 10 < 10 ^ Suc k" by (simp add: less_mult_imp_div_less)
  then show ?case using Suc.IH [of "n div 10"] by (simp add: show_nat.simps [of n])
qed

lemma show_u_length: "length (show_u x) \<le> 10"
proof -
  have "unat x < 2 ^ LENGTH(32)" by (rule unsigned_less)
  then have "unat x < 10 ^ Suc 9" by simp
  then show ?thesis using show_nat_length [of "unat x" 9] by (simp add: show_u_def)
qed

text \<open>A number with a unit is taken apart into the number and the unit.\<close>

lemma get_base_show:
  assumes "length u < 22" "u = [] \<or> \<not> IS_DIGIT (hd u)"
  shows "get_base (show_u x @ u) = Some (ucast x, u)"
proof -
  have d: "\<forall>c \<in> set (show_u x). IS_DIGIT c" using show_nat_digits by (auto simp: show_u_def)
  have "takeWhile IS_DIGIT (show_u x @ u) = show_u x" "dropWhile IS_DIGIT (show_u x @ u) = u"
    using d assms(2) by (cases u; simp add: takeWhile_append dropWhile_append)+
  moreover have "unat x < 2 ^ LENGTH(32)" by (rule unsigned_less)
  moreover have "length (show_u x @ u) < 32" using show_u_length [of x] assms(1) by simp
  ultimately show ?thesis by (simp add: get_base_def strtoul_def show_u_def show_nat_val)
qed

lemma sint_u32: "sint (ucast x :: u64) = uint (x :: u32)"
proof -
  have "uint x < 2 ^ LENGTH(32)" by (rule unsigned_less)
  then have "take_bit 64 (uint x) = uint x" "signed_take_bit 63 (uint x) = uint x"
    using signed_take_bit_int_eq_self [of 63 "uint x"] order_trans [of _ 0 "uint x"] by (simp_all add: take_bit_int_eq_self)
  then show ?thesis by (simp add: sint_uint unsigned_ucast_eq)
qed

lemma tpa_parse_num_show:
  "length u < 22 \<Longrightarrow> u = [] \<or> \<not> IS_DIGIT (hd u) \<Longrightarrow>
   tpa_parse_num (show_u q @ u) type = (if u = [] then Some (ucast q) else map_option (\<lambda>f. ucast q * f) (unit_factor type u))"
  by (simp add: tpa_parse_num_def get_base_show)

text \<open>A number divided by its unit and multiplied by it again.\<close>

lemma mult_unit: "(x :: u32) mod u = 0 \<Longrightarrow> ucast (x div u) * (ucast u :: u64) = ucast x"
proof -
  assume "x mod u = 0"
  then have "unat x mod unat u = 0" by (simp flip: unat_mod_distrib)
  then have "unat x = unat (x div u) * unat u" using div_mult_mod_eq [of "unat x" "unat u"] by (simp add: unat_div_distrib)
  then have "of_nat (unat x) = (of_nat (unat (x div u)) * of_nat (unat u) :: u64)" by (simp only: of_nat_mult)
  then show ?thesis by (simp only: of_nat_unat)
qed

lemma parse_unit:
  "num mod k = 0 \<Longrightarrow> unit_factor type u = Some (ucast k) \<Longrightarrow> length u < 22 \<Longrightarrow> u \<noteq> [] \<Longrightarrow> \<not> IS_DIGIT (hd u) \<Longrightarrow>
   tpa_parse_num (show_u (num div k) @ u) type = Some (ucast num)"
  by (simp add: tpa_parse_num_show mult_unit)

lemma parse_units:
  "num mod 0x40000000 = 0 \<Longrightarrow> tpa_parse_num (show_u (num div 0x40000000) @ ''GB'') NUM_TYPE_SIZE = Some (ucast num)"
  "num mod 0x100000 = 0 \<Longrightarrow> tpa_parse_num (show_u (num div 0x100000) @ ''MB'') NUM_TYPE_SIZE = Some (ucast num)"
  "num mod 0x400 = 0 \<Longrightarrow> tpa_parse_num (show_u (num div 0x400) @ ''KB'') NUM_TYPE_SIZE = Some (ucast num)"
  "num mod 60000000 = 0 \<Longrightarrow> tpa_parse_num (show_u (num div 60000000) @ ''m'') NUM_TYPE_TIME_US = Some (ucast num)"
  "num mod 1000000 = 0 \<Longrightarrow> tpa_parse_num (show_u (num div 1000000) @ ''s'') NUM_TYPE_TIME_US = Some (ucast num)"
  "num mod 1000 = 0 \<Longrightarrow> tpa_parse_num (show_u (num div 1000) @ ''ms'') NUM_TYPE_TIME_US = Some (ucast num)"
  "tpa_parse_num (show_u num) type = Some (ucast num)"
proof -
  show "tpa_parse_num (show_u num) type = Some (ucast num)" using tpa_parse_num_show [of "[]" num] by simp
qed (rule parse_unit; simp add: unit_factor_def IS_DIGIT_def)+

lemma cfg_num_read_back:
  assumes "type \<in> {CFG_TYPE_UINT, CFG_TYPE_SIZE} \<or> type = CFG_TYPE_TIME \<and> num mod 1000 = 0"
  shows "cfg_parse_num (cfg_spec_get_num type num) type = uint num"
proof -
  consider "type = CFG_TYPE_UINT" | "type = CFG_TYPE_SIZE" | "type = CFG_TYPE_TIME" "num mod 1000 = 0" using assms by blast
  then show ?thesis by cases (simp_all add: cfg_parse_num_def cfg_spec_get_num_def parse_units sint_u32)
qed

text \<open>A time that is not a whole number of milliseconds is printed with the unit of a microsecond after a
  division by 1000, and reads back as a thousandth of what it is.\<close>

lemma cfg_time_not_read_back:
  assumes "num mod 1000 \<noteq> (0 :: u32)"
  shows "cfg_parse_num (cfg_spec_get_num CFG_TYPE_TIME num) CFG_TYPE_TIME = uint num div 1000"
proof -
  have n: "unat (num mod k) = unat num mod unat k" for k by (rule unat_mod_distrib)
  have "unat (num mod 1000) \<noteq> 0" using assms by (metis unsigned_eq_0_iff)
  then have "unat num mod 1000 \<noteq> 0" using n [of 1000] by simp
  then have "unat num mod 60000000 \<noteq> 0" "unat num mod 1000000 \<noteq> 0"
    using mod_mod_cancel [of 1000 60000000 "unat num"] mod_mod_cancel [of 1000 1000000 "unat num"] by auto
  then have "unat (num mod 60000000) \<noteq> 0" "unat (num mod 1000000) \<noteq> 0" unfolding n by simp_all
  then have "num mod 60000000 \<noteq> 0" "num mod 1000000 \<noteq> 0" by (metis unsigned_0)+
  moreover have "num \<noteq> 0" using assms by auto
  moreover have "IS_DIGIT CHR ''u'' = False" by (simp add: IS_DIGIT_def)
  ultimately show ?thesis using assms
    by (simp add: cfg_parse_num_def cfg_spec_get_num_def tpa_parse_num_show unit_factor_def sint_u32 uint_div_distrib)
qed

section \<open>The table of options is well typed\<close>

text \<open>The data of an option agrees with its type: the C code writes and reads it through a pointer of
  that type.\<close>

definition data_typed :: "cfg_spec \<Rightarrow> cfg_data \<Rightarrow> bool" where
  "data_typed spec d =
     (case (spec_type spec, d) of
        (CFG_TYPE_UINT, DUint n) \<Rightarrow> True
      | (CFG_TYPE_SIZE, DUint n) \<Rightarrow> True
      | (CFG_TYPE_TIME, DUint n) \<Rightarrow> True
      | (CFG_TYPE_STR, DStr s) \<Rightarrow> length s < spec_data_len spec
      | (CFG_TYPE_IPV4, DIp4 ip) \<Rightarrow> True
      | (CFG_TYPE_MASK, DIp4 ip) \<Rightarrow> True
      | (CFG_TYPE_IPV6, DIp6 ip n) \<Rightarrow> 0 \<le> n \<and> n \<le> 128
      | (CFG_TYPE_MAC, DMac m) \<Rightarrow> length m = 6
      | (CFG_TYPE_CHAR, _) \<Rightarrow> True
      | _ \<Rightarrow> False)"

definition spec_typed :: "cfg_spec \<Rightarrow> bool" where
  "spec_typed spec \<longleftrightarrow>
     data_typed spec (spec_data spec) \<and> (case spec_set spec of None \<Rightarrow> True | Some f \<Rightarrow> \<forall>v d. f v = Some d \<longrightarrow> data_typed spec d)"

definition specs_typed :: "cfg_spec list \<Rightarrow> bool" where
  "specs_typed specs \<longleftrightarrow> length specs \<le> CFG_SPECS_SIZE \<and> distinct (map spec_name specs) \<and> (\<forall>spec \<in> set specs. spec_typed spec)"

lemma setter_types:
  "cfg_spec_set_num spec v = Some d \<Longrightarrow> \<exists>n. d = DUint n"
  "cfg_spec_set_str spec v = Some d \<Longrightarrow> spec_data_len spec = 0 \<and> d = spec_data spec \<or> 0 < spec_data_len spec \<and> d = DStr (take (spec_data_len spec - 1) v)"
  "cfg_spec_set_ipv4 L v = Some d \<Longrightarrow> \<exists>ip. d = DIp4 ip"
  "cfg_spec_set_mask L v = Some d \<Longrightarrow> \<exists>ip. d = DIp4 ip"
  "cfg_spec_set_ipv6 L v = Some d \<Longrightarrow> \<exists>ip n. d = DIp6 ip n \<and> 0 \<le> n \<and> n \<le> 128"
  "cfg_spec_set_mac L v = Some d \<Longrightarrow> \<exists>m. lc_scan_mac L v = Some m \<and> d = DMac m"
  by (auto simp: cfg_spec_set_num_def cfg_spec_set_str_def cfg_spec_set_ipv4_def cfg_spec_set_mask_def cfg_spec_set_ipv6_def
      cfg_spec_set_mac_def Let_def split: if_splits option.splits)

lemma cfg_spec_set_typed:
  assumes "spec_typed spec" "\<And>v m. lc_scan_mac L v = Some m \<Longrightarrow> length m = 6" "cfg_spec_set L spec v init = Some d"
  shows "data_typed spec d"
proof (cases "spec_set spec")
  case (Some f)
  then show ?thesis using assms by (auto simp: cfg_spec_set_def spec_typed_def split: if_splits)
next
  case None
  have sp: "data_typed spec (spec_data spec)" using assms(1) by (simp add: spec_typed_def)
  have set: "cfg_spec_set L spec v True = Some d" using assms(3) by (simp add: cfg_spec_set_def split: if_splits)
  note defs = cfg_spec_set_def None data_typed_def
  show ?thesis
  proof (cases "spec_type spec")
    case CFG_TYPE_UINT then show ?thesis using set setter_types(1) [of spec v d] by (auto simp: defs)
  next
    case CFG_TYPE_SIZE then show ?thesis using set setter_types(1) [of spec v d] by (auto simp: defs)
  next
    case CFG_TYPE_TIME then show ?thesis using set setter_types(1) [of spec v d] by (auto simp: defs)
  next
    case CFG_TYPE_STR
    then show ?thesis using set sp setter_types(2) [of spec v d] by (cases "spec_data_len spec") (auto simp: defs)
  next
    case CFG_TYPE_IPV4 then show ?thesis using set setter_types(3) [of L v d] by (auto simp: defs)
  next
    case CFG_TYPE_MASK then show ?thesis using set setter_types(4) [of L v d] by (auto simp: defs)
  next
    case CFG_TYPE_IPV6 then show ?thesis using set setter_types(5) [of L v d] by (auto simp: defs)
  next
    case CFG_TYPE_MAC then show ?thesis using set assms(2) setter_types(6) [of L v d] by (auto simp: defs)
  qed (use set in \<open>simp_all add: cfg_spec_set_def None\<close>)
qed

lemma data_typed_upd [simp]: "data_typed (spec\<lparr>spec_data := e\<rparr>) d = data_typed spec d"
  by (cases "spec_type spec") (simp_all add: data_typed_def split: cfg_data.split)

lemma cfg_spec_find_Some: "cfg_spec_find specs name = Some i \<Longrightarrow> i < length specs \<and> spec_name (specs ! i) = name"
  by (auto simp: cfg_spec_find_def find_Some_iff)

lemma cfg_spec_find_None: "cfg_spec_find specs name = None \<longleftrightarrow> name \<notin> set (map spec_name specs)"
  unfolding cfg_spec_find_def find_None_iff set_map set_conv_nth [of specs] by auto

text \<open>Setting an option keeps the table typed and changes nothing but that option.\<close>

lemma specs_typed_set:
  assumes "specs_typed specs" "i < length specs" "data_typed (specs ! i) d"
  shows "specs_typed (specs[i := (specs ! i)\<lparr>spec_data := d\<rparr>])"
proof -
  have names: "map spec_name (specs[i := (specs ! i)\<lparr>spec_data := d\<rparr>]) = map spec_name specs"
    using list_update_id [of "map spec_name specs" i] assms(2) by (simp add: map_update)
  have new: "spec_typed ((specs ! i)\<lparr>spec_data := d\<rparr>)"
  proof -
    have "spec_typed (specs ! i)" using assms(1,2) by (simp add: specs_typed_def)
    then show ?thesis using assms(3) by (cases "spec_set (specs ! i)") (simp_all add: spec_typed_def)
  qed
  have sub: "set (specs[i := (specs ! i)\<lparr>spec_data := d\<rparr>]) \<subseteq> insert ((specs ! i)\<lparr>spec_data := d\<rparr>) (set specs)"
    by (rule set_update_subset_insert)
  have "spec_typed spec" if "spec \<in> set (specs[i := (specs ! i)\<lparr>spec_data := d\<rparr>])" for spec
    using subsetD [OF sub that] new assms(1) by (auto simp: specs_typed_def)
  then show ?thesis using assms(1) unfolding specs_typed_def names by simp
qed

lemma section_parse_loop_typed:
  assumes "\<And>v m. lc_scan_mac L v = Some m \<Longrightarrow> length m = 6"
  shows "specs_typed specs \<Longrightarrow> specs_typed (snd (section_parse_loop L sect opts specs))"
proof (induction opts arbitrary: specs)
  case (Cons x opts)
  obtain n v where x: "x = (n, v)" by (cases x)
  show ?case
  proof (cases "cfg_spec_find specs (sect @ ''.'' @ n)")
    case None
    then show ?thesis using Cons x by simp
  next
    case (Some i)
    show ?thesis
    proof (cases "cfg_spec_set L (specs ! i) v True")
      case None
      then show ?thesis using Cons x Some by (simp add: case_prod_beta)
    next
      case set: (Some d)
      have "i < length specs" using cfg_spec_find_Some [OF Some] by simp
      moreover have "data_typed (specs ! i) d" using cfg_spec_set_typed [OF _ assms set] Cons.prems calculation by (simp add: specs_typed_def)
      ultimately show ?thesis using Cons x Some set specs_typed_set by simp
    qed
  qed
qed simp

lemma cfg_set_typed:
  assumes "\<And>v m. lc_scan_mac L v = Some m \<Longrightarrow> length m = 6" "specs_typed specs"
  shows "specs_typed (snd (cfg_set L argv specs))"
proof (cases "length argv = 3 \<and> (\<exists>i d. cfg_spec_find specs (argv ! 1) = Some i \<and> cfg_spec_set L (specs ! i) (argv ! 2) False = Some d)")
  case True
  then obtain i d where f: "cfg_spec_find specs (argv ! 1) = Some i" "cfg_spec_set L (specs ! i) (argv ! 2) False = Some d" by blast
  have "i < length specs" using cfg_spec_find_Some [OF f(1)] by simp
  moreover have "data_typed (specs ! i) d" using cfg_spec_set_typed [OF _ assms(1) f(2)] assms(2) calculation by (simp add: specs_typed_def)
  ultimately show ?thesis using True f specs_typed_set [OF assms(2)] by (simp add: cfg_set_def)
next
  case False
  then show ?thesis using assms(2) by (auto simp: cfg_set_def split: option.splits)
qed

lemma cfg_spec_register_typed: "specs_typed specs \<Longrightarrow> \<forall>spec \<in> set new. spec_typed spec \<Longrightarrow> specs_typed (cfg_spec_register specs new)"
proof (induction new arbitrary: specs)
  case (Cons spec new)
  have "specs_typed (snd (cfg_spec_register_one specs spec))"
    using Cons.prems cfg_spec_find_None [of specs "spec_name spec"] by (auto simp: cfg_spec_register_one_def specs_typed_def)
  then show ?case using Cons.IH Cons.prems(2) by (simp add: cfg_spec_register_def)
qed (simp add: cfg_spec_register_def)

text \<open>A table with three options and a C library that knows one text for each kind of address.\<close>

definition ip6_example :: tpa_ip where
  "ip6_example = \<lparr>ip_hi = 0xfd, ip_lo = 0x0100000000000000\<rparr>"

definition libc_example :: cfg_libc where
  "libc_example =
     \<lparr>lc_inet_addr = (\<lambda>s. if s = ''10.0.0.1'' then 0x0100000a else INADDR_NONE), lc_inet_ntoa = (\<lambda>_. ''10.0.0.1''),
      lc_ip_from_str = (\<lambda>s. if s = ''fd00::1'' then Some ip6_example else None), lc_ip_to_str = (\<lambda>_. ''fd00::1''),
      lc_atoi = (\<lambda>s. int (digits_val s)),
      lc_scan_mac = (\<lambda>s. if s = ''0:1:2:3:4:5'' then Some [0, 1, 2, 3, 4, 5] else None), lc_print_mac = (\<lambda>_. ''0:1:2:3:4:5'')\<rparr>"

definition option_example :: "string \<Rightarrow> cfg_type \<Rightarrow> cfg_data \<Rightarrow> cfg_spec" where
  "option_example name type d =
     \<lparr>spec_name = name, spec_type = type, spec_data = d, spec_data_len = 16, spec_flags = 0, spec_min = 0, spec_max = 0,
      spec_set = None, spec_get = None\<rparr>"

definition table_example :: "cfg_spec list" where
  "table_example = [option_example ''net.name'' CFG_TYPE_STR (DStr ''eth0''), option_example ''net.mac'' CFG_TYPE_MAC (DMac [0, 0, 0, 0, 0, 0])]"

text \<open>C16: The table of options stays well typed: its data always has the type of the option, a string
  fits its buffer, a prefix length is at most 128 and a MAC address has six bytes; no two options have
  the same name and the table does not outgrow its array. This is kept by reading a section, by the
  shell command with any arguments, and by registering options. The only assumption is that \<open>sscanf\<close>
  fills six bytes when it reports them.\<close>

theorem cfg_table_well_typed:
  assumes "\<And>v m. lc_scan_mac L v = Some m \<Longrightarrow> length m = 6" "specs_typed specs"
  shows "specs_typed (snd (cfg_section_parse L sects name specs)) \<and> specs_typed (snd (cmd_cfg L argv specs)) \<and>
    (\<forall>new. (\<forall>spec \<in> set new. spec_typed spec) \<longrightarrow> specs_typed (cfg_spec_register specs new))"
  using section_parse_loop_typed [OF assms(1)] cfg_set_typed [OF assms(1)] cfg_spec_register_typed assms(2)
  by (simp add: cfg_section_parse_def cmd_cfg_def split: option.split)

theorem cfg_table_well_typed_witness:
  "specs_typed (snd (cfg_section_parse libc_example [(''net'', [(''name'', ''a name that is too long''), (''mac'', ''x'')])] ''net'' table_example)) \<and>
   specs_typed (snd (cmd_cfg libc_example [''set'', ''net.mac'', ''0:1:2:3:4:5''] table_example)) \<and>
   specs_typed (cfg_spec_register table_example [option_example ''tcp.rto'' CFG_TYPE_TIME (DUint 0)])"
proof -
  have "lc_scan_mac libc_example v = Some m \<Longrightarrow> length m = 6" for v m by (auto simp: libc_example_def split: if_splits)
  moreover have "specs_typed table_example" "spec_typed (option_example ''tcp.rto'' CFG_TYPE_TIME (DUint 0))"
    by (simp_all add: specs_typed_def table_example_def option_example_def spec_typed_def data_typed_def CFG_SPECS_SIZE_def)
  ultimately show ?thesis using cfg_table_well_typed [of libc_example table_example] by simp
qed

section \<open>Options are read back\<close>

definition in_range :: "cfg_spec \<Rightarrow> u32 \<Rightarrow> bool" where
  "in_range spec n \<longleftrightarrow>
     (spec_flags spec AND CFG_FLAG_HAS_MIN \<noteq> 0 \<longrightarrow> spec_min spec \<le> uint n) \<and>
     (spec_flags spec AND CFG_FLAG_HAS_MAX \<noteq> 0 \<longrightarrow> uint n \<le> spec_max spec) \<and>
     (spec_flags spec AND CFG_FLAG_POWEROF2 \<noteq> 0 \<longrightarrow> (ucast n :: u64) AND (ucast n - 1) = 0)"

text \<open>What is assumed of the value and of the C library at that value: that \<open>inet_addr\<close> inverts
  \<open>inet_ntoa\<close>, \<open>sscanf\<close> inverts \<open>printf\<close> and so on.\<close>

definition reads_back :: "cfg_libc \<Rightarrow> cfg_spec \<Rightarrow> cfg_data \<Rightarrow> bool" where
  "reads_back L spec d =
     (case d of
        DUint n \<Rightarrow> in_range spec n \<and> (spec_type spec = CFG_TYPE_TIME \<longrightarrow> n mod 1000 = 0)
      | DStr s \<Rightarrow> length s < VAL_SIZE
      | DIp4 ip \<Rightarrow> length (filter (\<lambda>c. c = CHR ''.'') (lc_inet_ntoa L ip)) = 3 \<and> lc_inet_addr L (lc_inet_ntoa L ip) = ip \<and>
          (if spec_type spec = CFG_TYPE_MASK then \<not> is_invalid_mask ip else ip \<noteq> INADDR_NONE)
      | DIp6 ip n \<Rightarrow> lc_ip_from_str L (lc_ip_to_str L ip) = Some ip \<and> CHR ''/'' \<notin> set (lc_ip_to_str L ip) \<and>
          length (lc_ip_to_str L ip) \<le> 45 \<and> lc_atoi L (show_nat (nat n)) = n \<and> \<not> tpa_ip_is_ipv4 ip
      | DMac m \<Rightarrow> lc_scan_mac L (lc_print_mac L m) = Some m)"

lemma cfg_spec_set_num_in_range:
  assumes "in_range spec n" "cfg_parse_num v (spec_type spec) = uint n"
  shows "cfg_spec_set_num spec v = Some (DUint n)"
proof -
  have "word_of_int (uint n) = (ucast n :: u64)" by (rule of_int_uint)
  then show ?thesis using assms by (auto simp: cfg_spec_set_num_def in_range_def Let_def)
qed

lemma show_nat_small: "n \<le> 128 \<Longrightarrow> length (show_nat n) \<le> 3"
  using show_nat_length [of n 2] by simp

lemma cfg_ipv6_read_back:
  assumes "reads_back L spec (DIp6 ip n)" "0 \<le> n" "n \<le> 128"
  shows "cfg_spec_set_ipv6 L (cfg_spec_get_ipv6 L ip n) = Some (DIp6 ip n)"
proof -
  let ?a = "lc_ip_to_str L ip"
  have a: "lc_ip_from_str L ?a = Some ip" "CHR ''/'' \<notin> set ?a" "length ?a \<le> 45" "lc_atoi L (show_nat (nat n)) = n" "\<not> tpa_ip_is_ipv4 ip"
    using assms(1) by (simp_all add: reads_back_def)
  have t: "takeWhile (\<lambda>c. c \<noteq> CHR ''/'') (?a @ r) = ?a @ takeWhile (\<lambda>c. c \<noteq> CHR ''/'') r"
    "dropWhile (\<lambda>c. c \<noteq> CHR ''/'') (?a @ r) = dropWhile (\<lambda>c. c \<noteq> CHR ''/'') r" for r
    using a(2) by (auto simp: takeWhile_append dropWhile_append)
  show ?thesis
  proof (cases "n = 0")
    case True
    have w: "takeWhile (\<lambda>c. c \<noteq> CHR ''/'') ?a = ?a" "dropWhile (\<lambda>c. c \<noteq> CHR ''/'') ?a = []"
      using a(2) by (auto simp: takeWhile_eq_all_conv dropWhile_eq_Nil_conv)
    show ?thesis using True a by (simp add: cfg_spec_set_ipv6_def cfg_spec_get_ipv6_def Let_def w)
  next
    case False
    have "length (show_nat (nat n)) \<le> 3" using assms(2,3) by (intro show_nat_small) simp
    then have "take 119 (?a @ ''/'' @ show_nat (nat n)) = ?a @ ''/'' @ show_nat (nat n)" using a(3) by simp
    then show ?thesis using False a assms(2,3) t by (simp add: cfg_spec_set_ipv6_def cfg_spec_get_ipv6_def Let_def)
  qed
qed

lemma opt_read_back:
  assumes "spec_typed spec" "spec_type spec \<noteq> CFG_TYPE_CHAR" "spec_get spec = None" "spec_set spec = None"
    "reads_back L spec (spec_data spec)"
  shows "cfg_spec_set L spec (cfg_spec_get_val L spec) True = Some (spec_data spec)"
proof -
  have ty: "data_typed spec (spec_data spec)" using assms(1) by (simp add: spec_typed_def)
  note defs = cfg_spec_set_def cfg_spec_get_val_def assms(3,4)
  show ?thesis
  proof (cases "spec_data spec")
    case (DUint n)
    then have "spec_type spec \<in> {CFG_TYPE_UINT, CFG_TYPE_SIZE, CFG_TYPE_TIME}"
      using ty assms(2) by (cases "spec_type spec") (simp_all add: data_typed_def)
    moreover have "in_range spec n" "spec_type spec = CFG_TYPE_TIME \<longrightarrow> n mod 1000 = 0" using assms(5) DUint by (simp_all add: reads_back_def)
    moreover from calculation have "cfg_parse_num (cfg_spec_get_num (spec_type spec) n) (spec_type spec) = uint n"
      by (intro cfg_num_read_back) blast
    ultimately show ?thesis using cfg_spec_set_num_in_range DUint by (auto simp: defs)
  next
    case (DStr v)
    then have "spec_type spec = CFG_TYPE_STR \<and> length v < spec_data_len spec"
      using ty assms(2) by (cases "spec_type spec") (simp_all add: data_typed_def)
    then show ?thesis using assms(5) DStr by (auto simp: defs cfg_spec_set_str_def reads_back_def)
  next
    case (DIp4 ip)
    then have "spec_type spec \<in> {CFG_TYPE_IPV4, CFG_TYPE_MASK}" using ty assms(2) by (cases "spec_type spec") (simp_all add: data_typed_def)
    then show ?thesis using assms(5) DIp4
      by (auto simp: defs cfg_spec_set_ipv4_def cfg_spec_set_mask_def cfg_parse_ipv4_def reads_back_def Let_def)
  next
    case (DIp6 ip n)
    then have "spec_type spec = CFG_TYPE_IPV6 \<and> 0 \<le> n \<and> n \<le> 128" using ty assms(2) by (cases "spec_type spec") (simp_all add: data_typed_def)
    then show ?thesis using cfg_ipv6_read_back [of L spec ip n] assms(5) DIp6 by (simp add: defs)
  next
    case (DMac m)
    then have "spec_type spec = CFG_TYPE_MAC" using ty assms(2) by (cases "spec_type spec") (simp_all add: data_typed_def)
    then show ?thesis using assms(5) DMac by (simp add: defs cfg_spec_set_mac_def reads_back_def)
  qed
qed



text \<open>C40: A lower bound is not enforced on the value that is stored: the bound is compared with 64 bits
  and the option has 32, so that every size option without an upper bound can be set to 0.\<close>

theorem cfg_min_not_enforced:
  assumes "spec_type spec = CFG_TYPE_SIZE" "spec_set spec = None" "spec_flags spec AND CFG_FLAG_HAS_MAX = 0" "spec_min spec < 2 ^ 31"
  shows "cfg_spec_set L spec ''4GB'' True = Some (DUint 0)"
proof -
  have "show_u 4 @ ''GB'' = ''4GB''" by code_simp
  then have "tpa_parse_num ''4GB'' NUM_TYPE_SIZE = Some 4294967296"
    using tpa_parse_num_show [of "''GB''" 4 NUM_TYPE_SIZE] by (simp add: unit_factor_def IS_DIGIT_def)
  then have n: "cfg_parse_num ''4GB'' CFG_TYPE_SIZE = 4294967296" by (simp add: cfg_parse_num_def)
  have "(4294967296 :: u64) AND 4294967295 = 0" "(4294967296 :: u32) = 0" by simp_all
  then show ?thesis using assms n by (simp add: cfg_spec_set_def cfg_spec_set_num_def)
qed

theorem cfg_min_not_enforced_witness:
  "let spec = (option_example ''trace.size'' CFG_TYPE_SIZE (DUint 4096))\<lparr>spec_flags := 10, spec_min := 4096\<rparr>
   in cfg_spec_set libc_example spec ''4GB'' True = Some (DUint 0) \<and> cfg_spec_set libc_example spec ''2KB'' True = None"
proof -
  let ?spec = "(option_example ''trace.size'' CFG_TYPE_SIZE (DUint 4096))\<lparr>spec_flags := 10, spec_min := 4096\<rparr>"
  have "cfg_spec_set libc_example ?spec ''4GB'' True = Some (DUint 0)"
    by (rule cfg_min_not_enforced) (simp_all add: option_example_def CFG_FLAG_HAS_MAX_def)
  moreover have "show_u 2 @ ''KB'' = ''2KB''" by code_simp
  then have "tpa_parse_num ''2KB'' NUM_TYPE_SIZE = Some 2048"
    using tpa_parse_num_show [of "''KB''" 2 NUM_TYPE_SIZE] by (simp add: unit_factor_def IS_DIGIT_def)
  then have "cfg_spec_set libc_example ?spec ''2KB'' True = None"
    by (simp add: cfg_spec_set_def cfg_spec_set_num_def cfg_parse_num_def option_example_def CFG_FLAG_HAS_MIN_def)
  ultimately show ?thesis by simp
qed

text \<open>A network mask that is no address at all is accepted, as the mask of a single host: the error
  value of the address parser is itself a mask.\<close>

lemma cfg_mask_accepts_any_text:
  assumes "spec_type spec = CFG_TYPE_MASK" "spec_set spec = None" "length (filter (\<lambda>c. c = CHR ''.'') v) \<noteq> 3"
  shows "cfg_spec_set L spec v True = Some (DIp4 0xffffffff)"
proof -
  have "is_invalid_mask INADDR_NONE = False" by code_simp
  then show ?thesis using assms by (simp add: cfg_spec_set_def cfg_spec_set_mask_def cfg_parse_ipv4_def INADDR_NONE_def Let_def)
qed

end
