(* ===== verification/Cfg_Text.thy ===== *)
theory Cfg_Text
  imports Cfg_Read
begin

text \<open>
  Configuration files in the form of the user guide: sections in braces with one option in a line,
  each with a value of one or more words. Reading such a file gives back its sections and options.
\<close>

section \<open>The text of a configuration\<close>

definition NL :: char where "NL = CHR 0x0A"

fun join :: "string list \<Rightarrow> string" where
  "join [] = []"
| "join [w] = w"
| "join (w # ws) = w @ '' '' @ join ws"

definition opt_text :: "string \<times> string list \<Rightarrow> string" where
  "opt_text = (\<lambda>(name, ws). CHR 0x09 # name @ '' = '' @ join ws @ [NL])"

definition section_text :: "string \<times> (string \<times> string list) list \<Rightarrow> string" where
  "section_text = (\<lambda>(name, opts). name @ '' {'' @ [NL] @ concat (map opt_text opts) @ ''}'' @ [NL])"

definition cfg_text :: "(string \<times> (string \<times> string list) list) list \<Rightarrow> string" where
  "cfg_text ss = concat (map section_text ss)"

definition word_char :: "char \<Rightarrow> bool" where
  "word_char c \<longleftrightarrow> is_valid_char c \<and> c \<noteq> CHR 0x22 \<and> c \<noteq> CHR 0xFF"

definition good_word :: "string \<Rightarrow> bool" where
  "good_word w \<longleftrightarrow> w \<noteq> [] \<and> length w < NAME_SIZE \<and> hd w \<noteq> CHR ''#'' \<and> (\<forall>c \<in> set w. word_char c)"

definition good_opt :: "string \<times> string list \<Rightarrow> bool" where
  "good_opt = (\<lambda>(name, ws). good_word name \<and> ws \<noteq> [] \<and> (\<forall>w \<in> set ws. good_word w) \<and> length (join ws) < NAME_SIZE - 1)"

definition good_section :: "string \<times> (string \<times> string list) list \<Rightarrow> bool" where
  "good_section = (\<lambda>(name, opts). good_word name \<and> opts \<noteq> [] \<and> distinct (map fst opts) \<and> (\<forall>op \<in> set opts. good_opt op))"

section \<open>Tokens\<close>

lemma word_loop:
  "word_char c \<Longrightarrow> \<forall>x \<in> set w. word_char x \<Longrightarrow> length name + length w < NAME_SIZE - 1 \<Longrightarrow> \<not> is_valid_char d \<Longrightarrow>
   string_token_loop c name (w @ d # r) = (TOKEN_STRING, name @ c # w, d # r)"
proof (induction w arbitrary: c name)
  case Nil
  have "d \<noteq> CHR 0xFF" using Nil.prems(4) by (auto simp: is_valid_char_def)
  then show ?case using Nil by (simp add: string_token_loop.simps [of c] word_char_def token_put_char_def fgetc_def)
next
  case (Cons x w)
  have "x \<noteq> CHR 0xFF" "is_valid_char x" using Cons.prems(2) by (simp_all add: word_char_def)
  then show ?case using Cons by (simp add: string_token_loop.simps [of c] word_char_def token_put_char_def fgetc_def)
qed

lemma peek_word: "good_word w \<Longrightarrow> \<not> is_valid_char d \<Longrightarrow> peek_loop nl (w @ d # r) = Some (TOKEN_STRING, w, d # r)"
proof (cases w)
  case (Cons c w1)
  assume g: "good_word w" and d: "\<not> is_valid_char d"
  have c: "is_valid_char c" "c \<noteq> CHR 0x22" "c \<noteq> CHR 0xFF" "c \<noteq> CHR ''#''"
    using g Cons by (simp_all add: good_word_def word_char_def)
  have "c \<notin> {CHR '' '', CHR 0x09, CHR 0x0A, CHR '';'', CHR ''{'', CHR ''}'', CHR ''=''}" using c(1) by (auto simp: is_valid_char_def)
  moreover have "get_string_token c (w1 @ d # r) = (TOKEN_STRING, w, d # r)"
    using word_loop [of c w1 "[]" d r] g d c(1) Cons by (simp add: get_string_token_def good_word_def NAME_SIZE_def)
  ultimately show ?thesis using c Cons by (simp add: peek_loop.simps [of nl "c # w1 @ d # r"] fgetc_def)
qed (simp add: good_word_def)

lemma peek_sign:
  "peek_loop nl (CHR '' '' # s) = peek_loop nl s"
  "peek_loop nl (CHR 0x09 # s) = peek_loop nl s"
  "peek_loop False (NL # s) = peek_loop False s"
  "peek_loop True (NL # s) = Some (TOKEN_OPT_END, [], s)"
  "peek_loop nl (CHR ''{'' # s) = Some (TOKEN_BRACE_LEFT, ''{'', s)"
  "peek_loop nl (CHR ''}'' # s) = Some (TOKEN_BRACE_RIGHT, ''}'', s)"
  "peek_loop nl (CHR ''='' # s) = Some (TOKEN_EQUAL, ''='', s)"
  "peek_loop nl [] = Some (TOKEN_NONE, [], [])"
  by (simp_all add: peek_loop.simps [of _ "_ # _"] peek_loop.simps [of _ "[]"] fgetc_def NL_def)

lemma no_word_char [simp]: "\<not> is_valid_char CHR '' ''" "\<not> is_valid_char NL"
  by (simp_all add: is_valid_char_def NL_def)

lemma token_do_get_consumed:
  "peek_loop nl s = Some (t, n, s') \<Longrightarrow>
   token_do_get_type nl \<lparr>ctx_file = s, ctx_token = TOKEN_CONSUMED, ctx_token_name = m, ctx_nr_malloc = k\<rparr> =
     Some (t, \<lparr>ctx_file = s', ctx_token = TOKEN_CONSUMED, ctx_token_name = n, ctx_nr_malloc = k\<rparr>)"
  by (simp add: token_do_get_type_def token_do_peek_type_def)

lemma token_do_get_peeked:
  "t \<noteq> TOKEN_CONSUMED \<Longrightarrow>
   token_do_get_type nl \<lparr>ctx_file = s, ctx_token = t, ctx_token_name = n, ctx_nr_malloc = k\<rparr> =
     Some (t, \<lparr>ctx_file = s, ctx_token = TOKEN_CONSUMED, ctx_token_name = n, ctx_nr_malloc = k\<rparr>)"
  by (simp add: token_do_get_type_def token_do_peek_type_def)

lemma good_word_name: "good_word w \<Longrightarrow> ctx_token_name ctx = w \<Longrightarrow> token_get_name ctx = w"
  by (auto simp: token_get_name_def good_word_def word_char_def is_valid_char_def takeWhile_eq_all_conv)

section \<open>Options\<close>

lemma opt_val_loop_word:
  "good_word w \<Longrightarrow> \<not> is_valid_char d \<Longrightarrow> length val + length w + 1 < NAME_SIZE \<Longrightarrow>
   opt_val_loop \<lparr>ctx_file = w @ d # r, ctx_token = TOKEN_CONSUMED, ctx_token_name = m, ctx_nr_malloc = k\<rparr> val =
   opt_val_loop \<lparr>ctx_file = d # r, ctx_token = TOKEN_CONSUMED, ctx_token_name = w, ctx_nr_malloc = k\<rparr> (val @ w @ '' '')"
  by (subst opt_val_loop.simps) (simp add: token_do_get_consumed peek_word good_word_name)

lemma opt_val_loop_blank:
  "opt_val_loop \<lparr>ctx_file = CHR '' '' # s, ctx_token = TOKEN_CONSUMED, ctx_token_name = m, ctx_nr_malloc = k\<rparr> val =
   opt_val_loop \<lparr>ctx_file = s, ctx_token = TOKEN_CONSUMED, ctx_token_name = m, ctx_nr_malloc = k\<rparr> val"
  by (subst (1 2) opt_val_loop.simps) (simp add: token_do_get_type_def token_do_peek_type_def peek_sign split: option.split)

lemma opt_val_loop_join:
  "\<forall>w \<in> set ws. good_word w \<Longrightarrow> ws \<noteq> [] \<Longrightarrow> length val + length (join ws) + 1 < NAME_SIZE \<Longrightarrow>
   opt_val_loop \<lparr>ctx_file = join ws @ NL # r, ctx_token = TOKEN_CONSUMED, ctx_token_name = m, ctx_nr_malloc = k\<rparr> val =
   Some (Some (val @ join ws @ '' ''), \<lparr>ctx_file = r, ctx_token = TOKEN_CONSUMED, ctx_token_name = [], ctx_nr_malloc = k\<rparr>)"
proof (induction ws arbitrary: val m rule: join.induct)
  case (2 w)
  then show ?case by (simp add: opt_val_loop_word) (subst opt_val_loop.simps, simp add: token_do_get_consumed peek_sign)
next
  case (3 w v ws)
  then show ?case by (simp add: opt_val_loop_word opt_val_loop_blank)
qed simp

lemma match_option_text:
  assumes "good_opt (n, ws)"
  shows "match_option \<lparr>ctx_file = '' = '' @ join ws @ NL # r, ctx_token = TOKEN_STRING, ctx_token_name = n, ctx_nr_malloc = k\<rparr> =
    Some (Some (n, join ws), \<lparr>ctx_file = r, ctx_token = TOKEN_CONSUMED, ctx_token_name = [], ctx_nr_malloc = k\<rparr>)"
proof -
  have g: "good_word n" "ws \<noteq> []" "\<forall>w \<in> set ws. good_word w" "length (join ws) + 1 < NAME_SIZE"
    using assms by (auto simp: good_opt_def NAME_SIZE_def)
  show ?thesis using g opt_val_loop_join [OF g(3,2), of "[]"]
    by (simp add: match_option_def cfg_file_match_opt_name_def token_do_get_peeked good_word_name cfg_file_match_equal_def
        token_do_get_consumed peek_sign cfg_file_match_opt_val_def opt_val_loop_blank butlast_append)
qed

lemma match_options_text:
  "\<forall>op \<in> set opts. good_opt op \<Longrightarrow> distinct (map fst opts) \<Longrightarrow> fst ` set opts \<inter> fst ` set acc = {} \<Longrightarrow>
   peek_loop False f = peek_loop False (concat (map opt_text opts) @ ''}'' @ r) \<Longrightarrow>
   cfg_file_match_options (\<lambda>_. True) \<lparr>ctx_file = f, ctx_token = TOKEN_CONSUMED, ctx_token_name = m, ctx_nr_malloc = k\<rparr> acc =
   Some (True, \<lparr>ctx_file = r, ctx_token = TOKEN_BRACE_RIGHT, ctx_token_name = ''}'', ctx_nr_malloc = k + length opts\<rparr>,
     rev (map (\<lambda>(n, ws). (n, join ws)) opts) @ acc)"
proof (induction opts arbitrary: f acc m k)
  case Nil
  then show ?case by (subst cfg_file_match_options.simps) (simp add: token_do_peek_type_def peek_sign)
next
  case (Cons op opts)
  obtain n ws where op: "op = (n, ws)" by (cases op)
  have g: "good_opt (n, ws)" using Cons.prems(1) op by simp
  define rest where "rest = concat (map opt_text opts) @ ''}'' @ r"
  have p: "peek_loop False f = Some (TOKEN_STRING, n, '' = '' @ join ws @ NL # rest)"
    using Cons.prems(4) peek_word [of n "CHR '' ''" False "''= '' @ join ws @ NL # rest"] g op
    by (simp add: opt_text_def peek_sign rest_def good_opt_def)
  have "cfg_opt_find acc n = None" using Cons.prems(3) op by (auto simp: cfg_opt_find_def map_of_eq_None_iff)
  then have i: "cfg_opt_insert acc (n, join ws) = (n, join ws) # acc" by (simp add: cfg_opt_insert_def)
  have "cfg_file_match_options (\<lambda>_. True) \<lparr>ctx_file = rest, ctx_token = TOKEN_CONSUMED, ctx_token_name = [], ctx_nr_malloc = Suc k\<rparr> ((n, join ws) # acc) =
      Some (True, \<lparr>ctx_file = r, ctx_token = TOKEN_BRACE_RIGHT, ctx_token_name = ''}'', ctx_nr_malloc = Suc k + length opts\<rparr>,
        rev (map (\<lambda>(n, ws). (n, join ws)) opts) @ (n, join ws) # acc)"
    using Cons.prems op by (intro Cons.IH) (auto simp: rest_def)
  then show ?case using match_option_text [OF g] p i op
    by (subst cfg_file_match_options.simps) (simp add: token_do_peek_type_def)
qed

section \<open>Sections and files\<close>

definition opts_of :: "(string \<times> string list) list \<Rightarrow> cfg_opts" where
  "opts_of opts = rev (map (\<lambda>(n, ws). (n, join ws)) opts)"

definition sections_of :: "(string \<times> (string \<times> string list) list) list \<Rightarrow> cfg_sections" where
  "sections_of ss = rev (map (\<lambda>(n, opts). (n, opts_of opts)) ss)"

lemma match_section_text:
  assumes "good_section (n, opts)" "cfg_section_find sects n = None"
  shows "cfg_file_match_section (\<lambda>_. True)
      \<lparr>ctx_file = '' {'' @ NL # concat (map opt_text opts) @ ''}'' @ r, ctx_token = TOKEN_STRING, ctx_token_name = n, ctx_nr_malloc = k\<rparr> sects =
    Some (True, \<lparr>ctx_file = r, ctx_token = TOKEN_CONSUMED, ctx_token_name = ''}'', ctx_nr_malloc = Suc k + length opts\<rparr>, (n, opts_of opts) # sects)"
proof -
  have g: "good_word n" "opts \<noteq> []" "distinct (map fst opts)" "\<forall>op \<in> set opts. good_opt op" using assms(1) by (simp_all add: good_section_def)
  have "cfg_file_match_options (\<lambda>_. True)
      \<lparr>ctx_file = NL # concat (map opt_text opts) @ ''}'' @ r, ctx_token = TOKEN_CONSUMED, ctx_token_name = ''{'', ctx_nr_malloc = Suc k\<rparr> [] =
    Some (True, \<lparr>ctx_file = r, ctx_token = TOKEN_BRACE_RIGHT, ctx_token_name = ''}'', ctx_nr_malloc = Suc k + length opts\<rparr>, opts_of opts)"
    using match_options_text [OF g(4,3), of "[]"] by (simp add: opts_of_def peek_sign)
  moreover have "opts_of opts \<noteq> []" using g(2) by (simp add: opts_of_def)
  ultimately show ?thesis using g(1) assms(2)
    by (simp add: cfg_file_match_section_def cfg_file_match_section_name_def cfg_file_match_brace_def token_do_get_peeked
        token_do_get_consumed peek_sign good_word_name cfg_section_insert_def)
qed

lemma cfg_file_loop_text:
  "\<forall>s \<in> set ss. good_section s \<Longrightarrow> distinct (map fst ss) \<Longrightarrow> fst ` set ss \<inter> fst ` set sects = {} \<Longrightarrow>
   peek_loop False f = peek_loop False (cfg_text ss) \<Longrightarrow>
   cfg_file_loop (\<lambda>_. True) \<lparr>ctx_file = f, ctx_token = TOKEN_CONSUMED, ctx_token_name = m, ctx_nr_malloc = k\<rparr> sects =
   Some (True, sections_of ss @ sects)"
proof (induction ss arbitrary: f m k sects)
  case Nil
  then show ?case by (subst cfg_file_loop.simps) (simp add: token_do_peek_type_def peek_sign cfg_text_def sections_of_def)
next
  case (Cons s ss)
  obtain n opts where s: "s = (n, opts)" by (cases s)
  have g: "good_section (n, opts)" using Cons.prems(1) s by simp
  have p: "peek_loop False f = Some (TOKEN_STRING, n, '' {'' @ NL # concat (map opt_text opts) @ ''}'' @ NL # cfg_text ss)"
    using Cons.prems(4) g peek_word [of n "CHR '' ''" False "''{'' @ NL # concat (map opt_text opts) @ ''}'' @ NL # cfg_text ss"] s
    by (simp add: cfg_text_def section_text_def good_section_def)
  have "cfg_section_find sects n = None" using Cons.prems(3) s by (auto simp: cfg_section_find_def map_of_eq_None_iff)
  note sect = match_section_text [OF g this]
  have "cfg_file_loop (\<lambda>_. True)
      \<lparr>ctx_file = NL # cfg_text ss, ctx_token = TOKEN_CONSUMED, ctx_token_name = ''}'', ctx_nr_malloc = Suc k + length opts\<rparr> ((n, opts_of opts) # sects) =
      Some (True, sections_of ss @ (n, opts_of opts) # sects)"
    using Cons.prems s by (intro Cons.IH) (auto simp: peek_sign)
  then show ?case using sect [of "NL # cfg_text ss" k] p s
    by (subst cfg_file_loop.simps) (simp add: token_do_peek_type_def sections_of_def)
qed

text \<open>Looking an option up in what was read.\<close>

lemma find_map_filter: "List.find (\<lambda>_. True) xs = (case xs of [] \<Rightarrow> None | x # _ \<Rightarrow> Some x)"
  by (cases xs) simp_all

lemma cfg_file_opt_get_section:
  assumes "distinct (map fst sects)" "(n, opts) \<in> set sects" "CHR ''.'' \<notin> set n"
  shows "cfg_file_opt_get sects (n @ ''.'' @ m) = cfg_opt_find opts m"
proof -
  have tw: "takeWhile (\<lambda>c. c \<noteq> CHR ''.'') (n @ ''.'' @ m) = n" "dropWhile (\<lambda>c. c \<noteq> CHR ''.'') (n @ ''.'' @ m) = ''.'' @ m"
    using assms(3) by (auto simp: takeWhile_append dropWhile_append)
  have "List.find (\<lambda>_. True) (List.map_filter (\<lambda>(n', opts). if n' = n then cfg_opt_find opts m else None) sects) = cfg_opt_find opts m"
    using assms(1,2)
  proof (induction sects)
    case (Cons s sects)
    have none: "List.map_filter (\<lambda>(n', opts). if n' = n then cfg_opt_find opts m else None) xs = []" if "n \<notin> fst ` set xs" for xs
      using that by (induction xs) (auto simp: map_filter_simps)
    show ?case
    proof (cases "s = (n, opts)")
      case True
      then show ?thesis using none [of sects] Cons.prems(1) by (cases "cfg_opt_find opts m") (auto simp: map_filter_simps find_map_filter)
    next
      case False
      then have "fst s \<noteq> n" using Cons.prems by (cases s) (auto simp: image_iff)
      then show ?thesis using Cons False by (auto simp: map_filter_simps split: prod.split)
    qed
  qed simp
  moreover have "tl (''.'' @ m) = m" by simp
  ultimately show ?thesis unfolding cfg_file_opt_get_def Let_def tw by (simp only:) simp
qed

text \<open>C15: Reading a configuration file gives back what is written in it: a text of sections in braces,
  one option in a line, parses without an error into exactly these sections and options, and every
  option is found under \<open>section.name\<close> with its value. The words are shorter than the buffers, hold
  none of the reserved characters and do not start a comment; names do not repeat.\<close>

theorem cfg_file_reads_back:
  assumes "\<forall>s \<in> set ss. good_section s" "distinct (map fst ss)"
  shows "cfg_file_parse (\<lambda>_. True) (cfg_text ss) [] = Some (True, sections_of ss) \<and>
    (\<forall>n opts m ws. (n, opts) \<in> set ss \<longrightarrow> (m, ws) \<in> set opts \<longrightarrow> CHR ''.'' \<notin> set n \<longrightarrow>
      cfg_file_opt_get (sections_of ss) (n @ ''.'' @ m) = Some (join ws))"
proof (intro conjI allI impI)
  show "cfg_file_parse (\<lambda>_. True) (cfg_text ss) [] = Some (True, sections_of ss)"
    using cfg_file_loop_text [of ss "[]"] assms by (simp add: cfg_file_parse_def)
next
  fix n opts m ws
  assume i: "(n, opts) \<in> set ss" "(m, ws) \<in> set opts" "CHR ''.'' \<notin> set n"
  have "map fst (sections_of ss) = rev (map fst ss)" by (simp add: sections_of_def rev_map comp_def case_prod_beta)
  then have "distinct (map fst (sections_of ss))" using assms(2) by simp
  moreover have "(n, opts_of opts) \<in> set (sections_of ss)" using i(1) by (force simp: sections_of_def)
  ultimately have "cfg_file_opt_get (sections_of ss) (n @ ''.'' @ m) = cfg_opt_find (opts_of opts) m"
    using cfg_file_opt_get_section i(3) by blast
  moreover have "map fst (opts_of opts) = rev (map fst opts)" by (simp add: opts_of_def rev_map comp_def case_prod_beta)
  then have "distinct (map fst (opts_of opts))" using assms(1) i(1) by (auto simp: good_section_def)
  then have "cfg_opt_find (opts_of opts) m = Some (join ws)" unfolding cfg_opt_find_def
    using i(2) by (intro map_of_is_SomeI) (force simp: opts_of_def)+
  ultimately show "cfg_file_opt_get (sections_of ss) (n @ ''.'' @ m) = Some (join ws)" by simp
qed

definition config_example :: "(string \<times> (string \<times> string list) list) list" where
  "config_example = [(''net'', [(''name'', [''eth0'']), (''ip'', [''10.0.0.1''])]), (''dpdk'', [(''extra_args'', [''-l'', ''0-3''])])]"

theorem cfg_file_reads_back_witness:
  "cfg_file_parse (\<lambda>_. True) (cfg_text config_example) [] = Some (True, sections_of config_example) \<and>
   cfg_file_opt_get (sections_of config_example) ''dpdk.extra_args'' = Some ''-l 0-3''"
proof -
  have "\<forall>s \<in> set config_example. good_section s" "distinct (map fst config_example)" by code_simp+
  note read = cfg_file_reads_back [OF this]
  have "(''dpdk'', [(''extra_args'', [''-l'', ''0-3''])]) \<in> set config_example" by (simp add: config_example_def)
  then have "cfg_file_opt_get (sections_of config_example) (''dpdk'' @ ''.'' @ ''extra_args'') = Some (join [''-l'', ''0-3''])"
    using read by fastforce
  then show ?thesis using read by simp
qed

end
