(* ===== verification/Tcp_Cfg.thy ===== *)
theory Tcp_Cfg
  imports Cfg_Read
begin

text \<open>
  The options of the TCP stack, the table \<open>tcp_cfg_specs\<close> of \<open>src/sock.c\<close>, over the configuration
  record of the stack. The functions that set and get the range of local ports (modelled with the
  ports) are parameters. The theory shows that the table is well typed, that every option accepts the
  value it shows, and which one does not.
\<close>

definition num_spec :: "string \<Rightarrow> cfg_type \<Rightarrow> u32 \<Rightarrow> u32 \<Rightarrow> int \<Rightarrow> int \<Rightarrow> cfg_spec" where
  "num_spec name type val fl mn mx =
     \<lparr>spec_name = name, spec_type = type, spec_data = DUint val, spec_data_len = 0, spec_flags = fl, spec_min = mn, spec_max = mx,
      spec_set = None, spec_get = None\<rparr>"

definition bool_val :: "bool \<Rightarrow> u32" where "bool_val b = (if b then 1 else 0)"

text \<open>The bounds are of type \<open>int\<close>: the bound \<open>UINT32_MAX\<close> is stored as -1.\<close>

definition tcp_num_specs :: "tcp_cfg \<Rightarrow> cfg_spec list" where
  "tcp_num_specs c =
     [num_spec ''tcp.nr_max_sock'' CFG_TYPE_UINT (nr_max_sock c) (CFG_FLAG_HAS_MAX OR CFG_FLAG_POWEROF2) 0 262144,
      num_spec ''tcp.pkt_max_chain'' CFG_TYPE_UINT (pkt_max_chain c) (CFG_FLAG_HAS_MAX OR CFG_FLAG_HAS_MIN) 2 45,
      num_spec ''tcp.usr_snd_mss'' CFG_TYPE_UINT (usr_snd_mss c) (CFG_FLAG_HAS_MAX OR CFG_FLAG_RDONLY) 0 (9216 - 128),
      num_spec ''tcp.time_wait'' CFG_TYPE_TIME (time_wait c) CFG_FLAG_HAS_MAX 0 (uint TCP_RTO_MAX),
      num_spec ''tcp.keepalive'' CFG_TYPE_TIME (keepalive c) CFG_FLAG_HAS_MAX 0 (uint TCP_RTO_MAX),
      num_spec ''tcp.delayed_ack'' CFG_TYPE_TIME (delayed_ack c) CFG_FLAG_HAS_MAX 0 500000,
      num_spec ''tcp.tso'' CFG_TYPE_UINT (bool_val (enable_tso c)) 0 0 0,
      num_spec ''tcp.rx_merge'' CFG_TYPE_UINT (bool_val (enable_rx_merge c)) 0 0 0,
      num_spec ''tcp.opt_ts'' CFG_TYPE_UINT (bool_val (enable_ts c)) 0 0 0,
      num_spec ''tcp.opt_ws'' CFG_TYPE_UINT (bool_val (enable_ws c)) 0 0 0,
      num_spec ''tcp.opt_sack'' CFG_TYPE_UINT (bool_val (enable_sack c)) 0 0 0,
      num_spec ''tcp.retries'' CFG_TYPE_UINT (retries c) CFG_FLAG_HAS_MAX 0 255,
      num_spec ''tcp.syn_retries'' CFG_TYPE_UINT (syn_retries c) CFG_FLAG_HAS_MAX 0 255,
      num_spec ''tcp.rcv_queue_size'' CFG_TYPE_UINT (rcv_queue_size c) CFG_FLAG_HAS_MAX 0 32768,
      num_spec ''tcp.snd_queue_size'' CFG_TYPE_UINT (snd_queue_size c) CFG_FLAG_HAS_MAX 0 32768,
      num_spec ''tcp.cwnd_init'' CFG_TYPE_UINT (cwnd_init c) CFG_FLAG_HAS_MAX 0 1073741824,
      num_spec ''tcp.cwnd_max'' CFG_TYPE_UINT (cwnd_max c) CFG_FLAG_HAS_MAX 0 1073741824,
      num_spec ''tcp.rcv_ooo_limit'' CFG_TYPE_UINT (rcv_ooo_limit c) 0 0 0,
      num_spec ''tcp.drop_ooo_threshold'' CFG_TYPE_UINT (drop_ooo_threshold c) 0 0 0,
      num_spec ''tcp.measure_latency'' CFG_TYPE_UINT (bool_val (measure_latency c)) 0 0 0,
      num_spec ''tcp.rto_min'' CFG_TYPE_TIME (tcp_rto_min c) (CFG_FLAG_HAS_MIN OR CFG_FLAG_HAS_MAX) 10000 (uint TCP_RTO_MAX),
      num_spec ''tcp.write_chunk_size'' CFG_TYPE_SIZE (write_chunk_size c) (CFG_FLAG_HAS_MIN OR CFG_FLAG_HAS_MAX) 1 (sint (0xffffffff :: u32))]"

text \<open>The range of local ports has no data of its own; what the getter prints stands for it.\<close>

definition tcp_cfg_specs :: "(string \<Rightarrow> cfg_data option) \<Rightarrow> (cfg_data \<Rightarrow> string) \<Rightarrow> tcp_cfg \<Rightarrow> cfg_spec list" where
  "tcp_cfg_specs set_range get_range c =
     tcp_num_specs c @
     [\<lparr>spec_name = ''tcp.local_port_range'', spec_type = CFG_TYPE_STR, spec_data = DStr ''41000 64000'', spec_data_len = VAL_SIZE,
       spec_flags = 0, spec_min = 0, spec_max = 0, spec_set = Some set_range, spec_get = Some get_range\<rparr>]"

definition range_hook :: "(string \<Rightarrow> cfg_data option) \<Rightarrow> bool" where
  "range_hook f \<longleftrightarrow> (\<forall>v d. f v = Some d \<longrightarrow> (\<exists>s. d = DStr s \<and> length s < VAL_SIZE))"

lemma tcp_num_specs_names: "map spec_name (tcp_num_specs c) = map spec_name (tcp_num_specs tcp_cfg_default)"
  by (simp add: tcp_num_specs_def num_spec_def)

lemma tcp_num_specs_distinct: "distinct (map spec_name (tcp_num_specs c)) \<and> ''tcp.local_port_range'' \<notin> set (map spec_name (tcp_num_specs c))"
  unfolding tcp_num_specs_names [of c] by code_simp

lemma num_spec_typed: "type \<in> {CFG_TYPE_UINT, CFG_TYPE_SIZE, CFG_TYPE_TIME} \<Longrightarrow> spec_typed (num_spec name type v fl mn mx)"
  by (auto simp: spec_typed_def num_spec_def data_typed_def)

lemma tcp_specs_typed: "range_hook f \<Longrightarrow> spec \<in> set (tcp_cfg_specs f g c) \<Longrightarrow> spec_typed spec"
proof -
  assume f: "range_hook f" and m: "spec \<in> set (tcp_cfg_specs f g c)"
  have "spec_typed spec" if "spec \<in> set (tcp_num_specs c)" using that by (auto simp: tcp_num_specs_def num_spec_typed)
  moreover have "spec_typed spec" if "spec \<notin> set (tcp_num_specs c)"
    using that m f by (fastforce simp: tcp_cfg_specs_def spec_typed_def data_typed_def range_hook_def VAL_SIZE_def split: cfg_data.split)
  ultimately show ?thesis by blast
qed

lemma register_all:
  "distinct (map spec_name (specs @ new)) \<Longrightarrow> length specs + length new \<le> CFG_SPECS_SIZE \<Longrightarrow> \<forall>s \<in> set new. spec_type s \<notin> {CFG_TYPE_MIN, CFG_TYPE_MAX} \<Longrightarrow>
   cfg_spec_register specs new = specs @ new"
proof (induction new arbitrary: specs)
  case (Cons s new)
  have "cfg_spec_find specs (spec_name s) = None" using Cons.prems(1) by (auto simp: cfg_spec_find_None)
  then have "cfg_spec_register_one specs s = (True, specs @ [s])" using Cons.prems by (simp add: cfg_spec_register_one_def)
  then show ?case using Cons.IH [of "specs @ [s]"] Cons.prems by (simp add: cfg_spec_register_def)
qed (simp add: cfg_spec_register_def)

text \<open>The values that a default configuration shows are in the range of their options.\<close>

lemma defaults_in_range:
  "list_all (\<lambda>spec. spec_name spec = ''tcp.write_chunk_size'' \<or>
     (case spec_data spec of DUint n \<Rightarrow> in_range spec n \<and> (spec_type spec = CFG_TYPE_TIME \<longrightarrow> n mod 1000 = 0) | _ \<Rightarrow> False))
   (tcp_num_specs tcp_cfg_default)"
  by code_simp

lemma num_spec_plain: "spec \<in> set (tcp_num_specs c) \<Longrightarrow>
    spec_set spec = None \<and> spec_get spec = None \<and> spec_type spec \<in> {CFG_TYPE_UINT, CFG_TYPE_SIZE, CFG_TYPE_TIME}"
  by (auto simp: tcp_num_specs_def num_spec_def)

lemma default_read_back:
  assumes "spec \<in> set (tcp_num_specs tcp_cfg_default)" "spec_name spec \<noteq> ''tcp.write_chunk_size''"
  shows "cfg_spec_set L spec (cfg_spec_get_val L spec) True = Some (spec_data spec)"
proof (rule opt_read_back)
  have "case spec_data spec of DUint n \<Rightarrow> in_range spec n \<and> (spec_type spec = CFG_TYPE_TIME \<longrightarrow> n mod 1000 = 0) | _ \<Rightarrow> False"
    using defaults_in_range assms unfolding list_all_iff by blast
  then show "reads_back L spec (spec_data spec)" by (simp add: reads_back_def split: cfg_data.splits)
  show "spec_typed spec" using assms(1) by (auto simp: tcp_num_specs_def num_spec_typed)
qed (use num_spec_plain [OF assms(1)] in auto)

lemma no_value_fits:
  assumes "spec_type spec = CFG_TYPE_SIZE" "spec_set spec = None" "spec_flags spec AND CFG_FLAG_HAS_MAX \<noteq> 0" "spec_max spec < 0"
  shows "cfg_spec_set L spec v init = None"
  using assms by (auto simp: cfg_spec_set_def cfg_spec_set_num_def Let_def)

lemma write_chunk_spec:
  "\<forall>spec \<in> set (tcp_cfg_specs f g c). spec_name spec = ''tcp.write_chunk_size'' \<longrightarrow>
     spec_type spec = CFG_TYPE_SIZE \<and> spec_set spec = None \<and> spec_flags spec AND CFG_FLAG_HAS_MAX \<noteq> 0 \<and> spec_max spec < 0"
  by (simp add: tcp_cfg_specs_def tcp_num_specs_def num_spec_def CFG_FLAG_HAS_MIN_def CFG_FLAG_HAS_MAX_def)



end
