(* ===== verification/Neigh.thy ===== *)
theory Neigh
  imports Tcp_Output "HOL-Library.Multiset" "HOL-Library.Sublist" "HOL-Library.Monad_Syntax"
begin

text \<open>
  The neighbour cache, \<open>src/neigh.c\<close>, with the packets of \<open>src/arp.c\<close> and \<open>src/ndp.c\<close>: which hardware
  address an IP address has, the queue of packets that wait for one, and what the neighbour thread does
  with an answer. The entries in use are a list, a pointer into the array is an index. Every function
  runs under the lock of the cache or in the one thread that calls it, and is a single step here.
  \<open>rand\<close> and the time stamp counter are parameters by the number of the call. A search for an entry to
  evict that does not end is \<open>None\<close>. The theory shows that the cache is a map of bounded size, and that
  waiting packets are neither lost nor sent to a wrong address.
\<close>

section \<open>The cache\<close>

definition MAX_NEIGH_ENTRY :: nat where "MAX_NEIGH_ENTRY = 512"
definition NEIGH_QUEUE_LEN :: nat where "NEIGH_QUEUE_LEN = 1024"

text \<open>The addresses of the device.\<close>

record net_addrs =
  nd_mac :: "u8 list"
  nd_ip4 :: u32
  nd_mask :: u32
  nd_gw4 :: u32
  nd_ip6 :: tpa_ip
  nd_prefixlen :: nat
  nd_gw6 :: tpa_ip

record neigh_entry =
  ne_ip :: tpa_ip
  ne_mac :: "u8 list"
  ne_last_update :: u64

record neigh_cache =
  neigh_entries :: "neigh_entry list"
  gw_neigh :: "nat option"
  gw6_neigh :: "nat option"
  accept_garp :: bool
  neigh_waiting_queue :: "tx_pkt list"
  nr_rand :: nat
  nr_tsc :: nat

record neigh_lib =
  lib_rand :: "nat \<Rightarrow> nat"
  lib_tsc :: "nat \<Rightarrow> u64"

definition zero_mac :: "u8 list" where "zero_mac = [0, 0, 0, 0, 0, 0]"

definition neigh_find_locked :: "neigh_cache \<Rightarrow> tpa_ip \<Rightarrow> nat option" where
  "neigh_find_locked c ip = List.find (\<lambda>i. tpa_ip_equal (ne_ip (neigh_entries c ! i)) ip) [0..<length (neigh_entries c)]"

partial_function (option) neigh_evict :: "neigh_lib \<Rightarrow> neigh_cache \<Rightarrow> (nat \<times> neigh_cache) option" where
  [code]: "neigh_evict R c =
     (let idx = lib_rand R (nr_rand c) mod length (neigh_entries c);
          c1 = c\<lparr>nr_rand := nr_rand c + 1\<rparr>
      in if gw_neigh c = Some idx \<or> gw6_neigh c = Some idx then neigh_evict R c1 else Some (idx, c1))"

definition neigh_add :: "neigh_lib \<Rightarrow> neigh_cache \<Rightarrow> tpa_ip \<Rightarrow> u8 list \<Rightarrow> neigh_cache option" where
  "neigh_add R c ip mac =
     do { (idx, c1) \<leftarrow> (if length (neigh_entries c) = MAX_NEIGH_ENTRY then neigh_evict R c else Some (length (neigh_entries c), c));
          let e = \<lparr>ne_ip = ip, ne_mac = mac, ne_last_update = lib_tsc R (nr_tsc c1)\<rparr>;
          Some (c1\<lparr>neigh_entries := (if idx < length (neigh_entries c1) then (neigh_entries c1)[idx := e] else neigh_entries c1 @ [e]),
                   nr_tsc := nr_tsc c1 + 1\<rparr>) }"

text \<open>The pointer to the gateway becomes what the search returned, also when that was nothing because
  the entry is new.\<close>

definition neigh_update :: "neigh_lib \<Rightarrow> net_addrs \<Rightarrow> neigh_cache \<Rightarrow> tpa_ip \<Rightarrow> u8 list \<Rightarrow> neigh_cache option" where
  "neigh_update R D c ip mac =
     (if mac = zero_mac then Some c
      else do { let entry = neigh_find_locked c ip;
                c1 \<leftarrow> (case entry of
                         None \<Rightarrow> neigh_add R c ip mac
                       | Some i \<Rightarrow>
                           Some (if ne_mac (neigh_entries c ! i) \<noteq> mac
                                 then c\<lparr>neigh_entries := (neigh_entries c)[i := (neigh_entries c ! i)\<lparr>ne_mac := mac, ne_last_update := lib_tsc R (nr_tsc c)\<rparr>],
                                        nr_tsc := nr_tsc c + 1\<rparr>
                                 else c));
                Some (if tpa_ip_is_ipv4 ip
                      then if tpa_ip_get_ipv4 ip = nd_gw4 D then c1\<lparr>gw_neigh := entry\<rparr> else c1
                      else if tpa_ip_equal ip (nd_gw6 D) then c1\<lparr>gw6_neigh := entry\<rparr> else c1) })"

definition invalid_entry :: "neigh_cache \<Rightarrow> nat option \<Rightarrow> bool" where
  "invalid_entry c entry = (case entry of None \<Rightarrow> True | Some i \<Rightarrow> ne_mac (neigh_entries c ! i) = zero_mac)"

section \<open>Whom to ask\<close>

definition rte_cpu_to_be_64 :: "u64 \<Rightarrow> u64" where
  "rte_cpu_to_be_64 x = foldl (\<lambda>acc b. push_bit 8 acc OR ucast b) 0 (le_bytes 8 x)"

text \<open>The shift count is taken modulo 64, as the shift instruction does; the C standard leaves a shift
  by 64, for a prefix length of 0, undefined.\<close>

definition in_same_subnet :: "tpa_ip \<Rightarrow> tpa_ip \<Rightarrow> nat \<Rightarrow> bool" where
  "in_same_subnet a b prefixlen =
     (if prefixlen > 64
      then ip_hi a = ip_hi b \<and>
           drop_bit ((128 - prefixlen) mod 64) (rte_cpu_to_be_64 (ip_lo a)) = drop_bit ((128 - prefixlen) mod 64) (rte_cpu_to_be_64 (ip_lo b))
      else drop_bit ((64 - prefixlen) mod 64) (rte_cpu_to_be_64 (ip_hi a)) = drop_bit ((64 - prefixlen) mod 64) (rte_cpu_to_be_64 (ip_hi b)))"

definition neigh_target_ip :: "net_addrs \<Rightarrow> tpa_ip \<Rightarrow> tpa_ip" where
  "neigh_target_ip D ip =
     (if tpa_ip_is_ipv4 ip
      then if tpa_ip_get_ipv4 ip AND nd_mask D \<noteq> nd_ip4 D AND nd_mask D then tpa_ip_set_ipv4 (nd_gw4 D) else ip
      else if in_same_subnet (nd_ip6 D) ip (nd_prefixlen D) then ip else nd_gw6 D)"

text \<open>An address that is not in the cache gets an entry without a hardware address.\<close>

definition do_neigh_lookup :: "neigh_lib \<Rightarrow> neigh_cache \<Rightarrow> tpa_ip \<Rightarrow> (nat option \<times> neigh_cache) option" where
  "do_neigh_lookup R c ip =
     (let entry = neigh_find_locked c ip
      in if invalid_entry c entry
         then if entry = None then do { c1 \<leftarrow> neigh_add R c ip zero_mac; Some (None, c1) } else Some (None, c)
         else Some (entry, c))"

section \<open>Packets of ARP and NDP\<close>

text \<open>\<open>pad\<close> is what the 22 bytes of padding hold: nothing is written there.\<close>

definition arp_init_hdr :: "net_addrs \<Rightarrow> u8 list \<Rightarrow> tpa_ip \<Rightarrow> u8 list" where
  "arp_init_hdr D pad ip =
     replicate 6 0xff @ nd_mac D @ be16 0x0806 @ be16 1 @ be16 RTE_ETHER_TYPE_IPV4 @ [6, 4] @ be16 1 @
     nd_mac D @ le_bytes 4 (ucast (nd_ip4 D)) @ replicate 6 0xff @ le_bytes 4 (ucast (tpa_ip_get_ipv4 ip)) @ pad"

definition get_mulitcast_ip :: "u8 list \<Rightarrow> u8 list" where
  "get_mulitcast_ip target = [0xff, 2] @ replicate 9 0 @ [1, 0xff] @ drop 13 target"

definition get_multicast_mac :: "u8 list \<Rightarrow> u8 list" where
  "get_multicast_mac ip = [0x33, 0x33] @ drop 12 ip"

text \<open>\<open>cksum\<close> is DPDK's checksum over the IP header and what follows; \<open>reserved\<close> is what the reserved
  field of the solicitation holds.\<close>

definition ndp_init_hdr :: "(u8 list \<Rightarrow> u16) \<Rightarrow> u8 list \<Rightarrow> net_addrs \<Rightarrow> tpa_ip \<Rightarrow> u8 list" where
  "ndp_init_hdr cksum reserved D ip =
     (let multicast_ip = get_mulitcast_ip (ip_bytes ip);
          ip6 = be32 0x60000000 @ be16 32 @ [58, 255] @ ip_bytes (nd_ip6 D) @ multicast_ip;
          rest = reserved @ ip_bytes ip @ [1, 1] @ nd_mac D
      in get_multicast_mac multicast_ip @ nd_mac D @ be16 RTE_ETHER_TYPE_IPV6 @ ip6 @
         [135, 0] @ be16 (cksum (ip6 @ [135, 0, 0, 0] @ rest)) @ rest)"

text \<open>A request of the worker. The buffer of a packet that is not sent is not followed.\<close>

definition nd_solicit :: "env \<Rightarrow> tpa_worker \<Rightarrow> u8 list \<Rightarrow> err \<times> tpa_worker" where
  "nd_solicit E w hdr =
     (case packet_alloc E w of
        (None, w1) \<Rightarrow> (Some ERR_PKT_ALLOC_FAIL, w1)
      | (Some b, w1) \<Rightarrow>
          if env_tailroom E < of_nat (length hdr) then (Some ERR_PKT_PREPEND_HDR, w1)
          else wk_txq_enqueue E w1 0 (tx_pkt_empty\<lparr>tx_hdr := hdr\<rparr>))"

definition arp_solicit :: "env \<Rightarrow> net_addrs \<Rightarrow> u8 list \<Rightarrow> tpa_ip \<Rightarrow> tpa_worker \<Rightarrow> err \<times> tpa_worker" where
  "arp_solicit E D pad ip w = nd_solicit E w (arp_init_hdr D pad ip)"

definition ndp_solicit :: "env \<Rightarrow> (u8 list \<Rightarrow> u16) \<Rightarrow> u8 list \<Rightarrow> net_addrs \<Rightarrow> tpa_ip \<Rightarrow> tpa_worker \<Rightarrow> err \<times> tpa_worker" where
  "ndp_solicit E cksum reserved D ip w = nd_solicit E w (ndp_init_hdr cksum reserved D ip)"

definition neigh_lookup :: "neigh_lib \<Rightarrow> net_addrs \<Rightarrow> (tpa_ip \<Rightarrow> tpa_worker \<Rightarrow> err \<times> tpa_worker) \<Rightarrow> (tpa_ip \<Rightarrow> tpa_worker \<Rightarrow> err \<times> tpa_worker) \<Rightarrow>
    neigh_cache \<Rightarrow> tpa_worker \<Rightarrow> tpa_ip \<Rightarrow> (nat option \<times> neigh_cache \<times> tpa_worker) option" where
  "neigh_lookup R D arp ndp c w ip =
     do { let target_ip = neigh_target_ip D ip;
          (entry, c1) \<leftarrow> do_neigh_lookup R c target_ip;
          Some (entry, c1, if entry = None then snd ((if tpa_ip_is_ipv4 target_ip then arp else ndp) target_ip w) else w) }"

section \<open>Waiting packets\<close>

text \<open>A ring of DPDK holds one packet less than its size.\<close>

definition do_neigh_wait_enqueue :: "neigh_cache \<Rightarrow> tx_pkt \<Rightarrow> bool \<times> neigh_cache" where
  "do_neigh_wait_enqueue c x =
     (if length (neigh_waiting_queue c) < NEIGH_QUEUE_LEN - 1 then (True, c\<lparr>neigh_waiting_queue := neigh_waiting_queue c @ [x]\<rparr>)
      else (False, c))"

definition stale_tsock :: "tcp_sock \<Rightarrow> bool" where
  "stale_tsock t \<longleftrightarrow> sid t < 0 \<or> state t = TCP_STATE_CLOSED"

definition try_drop_stale_neigh_request :: "(nat \<Rightarrow> tcp_sock) \<Rightarrow> neigh_cache \<Rightarrow> neigh_cache" where
  "try_drop_stale_neigh_request socks c =
     fold (\<lambda>x c. if stale_tsock (socks (tx_tsock x)) then c else snd (do_neigh_wait_enqueue c x))
       (neigh_waiting_queue c) (c\<lparr>neigh_waiting_queue := []\<rparr>)"

definition neigh_wait_enqueue_ring :: "(nat \<Rightarrow> tcp_sock) \<Rightarrow> neigh_cache \<Rightarrow> tx_pkt \<Rightarrow> bool \<times> neigh_cache" where
  "neigh_wait_enqueue_ring socks c x =
     (let (ok, c1) = do_neigh_wait_enqueue c x
      in if ok then (ok, c1) else do_neigh_wait_enqueue (try_drop_stale_neigh_request socks c1) x)"

text \<open>The hardware address goes to the front of the packet and into the header that the socket keeps.
  \<open>wk\<close> is the worker of a socket; the result lists what is pushed to the queues of the workers, with
  the mark of the packets whose socket is gone.\<close>

definition set_dst_mac :: "u8 list \<Rightarrow> tx_pkt \<Rightarrow> tx_pkt" where
  "set_dst_mac mac x = x\<lparr>tx_hdr := mac @ drop 6 (tx_hdr x)\<rparr>"

definition sock_set_dst_mac :: "u8 list \<Rightarrow> tcp_sock \<Rightarrow> tcp_sock" where
  "sock_set_dst_mac mac t = t\<lparr>net_hdr := (net_hdr t)\<lparr>net_eth := (net_eth (net_hdr t))\<lparr>eth_dst := mac\<rparr>\<rparr>\<rparr>"

fun check_wait_loop :: "neigh_lib \<Rightarrow> net_addrs \<Rightarrow> (nat \<Rightarrow> nat) \<Rightarrow> tx_pkt list \<Rightarrow> (nat \<Rightarrow> tcp_sock) \<Rightarrow> neigh_cache \<Rightarrow>
    ((nat \<Rightarrow> tcp_sock) \<times> neigh_cache \<times> (nat \<times> bool \<times> tx_pkt) list) option" where
  "check_wait_loop R D wk [] socks c = Some (socks, c, [])"
| "check_wait_loop R D wk (x # xs) socks c =
     (let tsock = socks (tx_tsock x)
      in if stale_tsock tsock
         then do { (socks1, c1, ps) \<leftarrow> check_wait_loop R D wk xs socks c; Some (socks1, c1, (wk (tx_tsock x), True, x) # ps) }
         else do { (entry, c1) \<leftarrow> do_neigh_lookup R c (neigh_target_ip D (remote_ip tsock));
                   case entry of
                     None \<Rightarrow> check_wait_loop R D wk xs socks (snd (do_neigh_wait_enqueue c1 x))
                   | Some i \<Rightarrow>
                       do { let mac = ne_mac (neigh_entries c1 ! i);
                            (socks1, c2, ps) \<leftarrow> check_wait_loop R D wk xs (socks(tx_tsock x := sock_set_dst_mac mac tsock)) c1;
                            Some (socks1, c2, (wk (tx_tsock x), False, set_dst_mac mac x) # ps) } })"

definition check_neigh_wait_queue :: "neigh_lib \<Rightarrow> net_addrs \<Rightarrow> (nat \<Rightarrow> nat) \<Rightarrow> (nat \<Rightarrow> tcp_sock) \<Rightarrow> neigh_cache \<Rightarrow>
    ((nat \<Rightarrow> tcp_sock) \<times> neigh_cache \<times> (nat \<times> bool \<times> tx_pkt) list) option" where
  "check_neigh_wait_queue R D wk socks c =
     check_wait_loop R D wk (take NEIGH_QUEUE_LEN (neigh_waiting_queue c)) socks
       (c\<lparr>neigh_waiting_queue := drop NEIGH_QUEUE_LEN (neigh_waiting_queue c)\<rparr>)"

definition neigh_input :: "neigh_lib \<Rightarrow> net_addrs \<Rightarrow> (nat \<Rightarrow> nat) \<Rightarrow> (nat \<Rightarrow> tcp_sock) \<Rightarrow> neigh_cache \<Rightarrow> tpa_ip \<Rightarrow> u8 list \<Rightarrow>
    ((nat \<Rightarrow> tcp_sock) \<times> neigh_cache \<times> (nat \<times> bool \<times> tx_pkt) list) option" where
  "neigh_input R D wk socks c ip mac =
     do { let entry = neigh_find_locked c ip;
          c1 \<leftarrow> (if entry \<noteq> None \<or> accept_garp c then neigh_update R D c ip mac else Some c);
          if entry \<noteq> None then check_neigh_wait_queue R D wk socks c1 else Some (socks, c1, []) }"

text \<open>What is read of a received packet: nothing checks that an ARP packet is long enough; the buffer
  has 2000 bytes.\<close>

definition arp_input :: "(tpa_ip \<Rightarrow> u8 list \<Rightarrow> 'r) \<Rightarrow> (nat \<Rightarrow> u8) \<Rightarrow> 'r" where
  "arp_input input pkt = input (tpa_ip_set_ipv4 (le32_of pkt 28)) (map pkt [22..<28])"

definition ndp_input :: "(tpa_ip \<Rightarrow> u8 list \<Rightarrow> 'r) \<Rightarrow> (nat \<Rightarrow> u8) \<Rightarrow> nat \<Rightarrow> 'r option" where
  "ndp_input input pkt len =
     (if len < 24 + 2 + 6 then None
      else if pkt 0 = 136 \<and> pkt 1 = 0 \<and> pkt 24 = 2 \<and> pkt 25 = 1 then Some (input (tpa_ip_set_ipv6 pkt 8) (map pkt [26..<32]))
      else None)"

text \<open>The addresses that the timer asks for again.\<close>

definition neigh_solicit :: "neigh_cache \<Rightarrow> u64 \<Rightarrow> u64 \<Rightarrow> tpa_ip list" where
  "neigh_solicit c hz now =
     map ne_ip (filter (\<lambda>e. (now - ne_last_update e) div (hz div 1000000) > 30 * 1000000) (neigh_entries c))"

section \<open>The cache is a map\<close>

definition neigh_mac :: "neigh_cache \<Rightarrow> tpa_ip \<Rightarrow> u8 list option" where
  "neigh_mac c ip = map_option (\<lambda>i. ne_mac (neigh_entries c ! i)) (neigh_find_locked c ip)"

definition cache_ok :: "neigh_cache \<Rightarrow> bool" where
  "cache_ok c \<longleftrightarrow> length (neigh_entries c) \<le> MAX_NEIGH_ENTRY \<and> distinct (map ne_ip (neigh_entries c)) \<and>
     (\<forall>e \<in> set (neigh_entries c). length (ne_mac e) = 6) \<and> length (neigh_waiting_queue c) < NEIGH_QUEUE_LEN"

text \<open>Random numbers do not hit two entries for ever.\<close>

definition rand_fair :: "neigh_lib \<Rightarrow> bool" where
  "rand_fair R \<longleftrightarrow> (\<forall>i j k. \<exists>n \<ge> k. lib_rand R n mod MAX_NEIGH_ENTRY \<notin> {i, j})"

lemma tpa_ip_equal_eq [simp]: "tpa_ip_equal a b \<longleftrightarrow> a = b"
  by (auto simp: tpa_ip_equal_def intro: tpa_ip.equality)

lemma neigh_find_Some: "neigh_find_locked c ip = Some i \<Longrightarrow> i < length (neigh_entries c) \<and> ne_ip (neigh_entries c ! i) = ip"
  by (auto simp: neigh_find_locked_def find_Some_iff)

lemma neigh_find_None: "neigh_find_locked c ip = None \<longleftrightarrow> ip \<notin> ne_ip ` set (neigh_entries c)"
  unfolding neigh_find_locked_def find_None_iff set_conv_nth [of "neigh_entries c"] by auto

lemma neigh_mac_None: "neigh_mac c ip = None \<longleftrightarrow> ip \<notin> ne_ip ` set (neigh_entries c)"
  by (simp add: neigh_mac_def neigh_find_None)

lemma neigh_mac_Some:
  assumes "distinct (map ne_ip (neigh_entries c))"
  shows "neigh_mac c ip = Some m \<longleftrightarrow> (\<exists>e \<in> set (neigh_entries c). ne_ip e = ip \<and> ne_mac e = m)"
proof (cases "neigh_find_locked c ip")
  case None
  then show ?thesis using neigh_find_None [of c ip] by (auto simp: neigh_mac_def)
next
  case (Some i)
  note i = neigh_find_Some [OF Some]
  have "e = neigh_entries c ! i" if "e \<in> set (neigh_entries c)" "ne_ip e = ip" for e
    using that i assms by (metis distinct_map inj_onD nth_mem)
  then show ?thesis using i Some by (force simp: neigh_mac_def)
qed

text \<open>The same map, from the entries.\<close>

lemma neigh_mac_eqI:
  assumes "distinct (map ne_ip (neigh_entries c'))"
    and "\<And>ip m. (\<exists>e \<in> set (neigh_entries c'). ne_ip e = ip \<and> ne_mac e = m) \<longleftrightarrow> f ip = Some m"
  shows "neigh_mac c' = f"
  by (rule ext, rule option.expand) (metis assms neigh_mac_Some not_None_eq option.sel)+

lemma neigh_evict_returns:
  assumes "rand_fair R" "length (neigh_entries c) = MAX_NEIGH_ENTRY"
  obtains idx k where "neigh_evict R c = Some (idx, c\<lparr>nr_rand := k\<rparr>)" "idx < MAX_NEIGH_ENTRY" "gw_neigh c \<noteq> Some idx" "gw6_neigh c \<noteq> Some idx"
proof -
  obtain i j where ij: "\<And>x. gw_neigh c = Some x \<Longrightarrow> x = i" "\<And>x. gw6_neigh c = Some x \<Longrightarrow> x = j" by (metis option.sel)
  obtain n where n: "n \<ge> nr_rand c" "lib_rand R n mod MAX_NEIGH_ENTRY \<notin> {i, j}" using assms(1) unfolding rand_fair_def by blast
  have "\<exists>idx k. neigh_evict R c = Some (idx, c\<lparr>nr_rand := k\<rparr>) \<and> idx < MAX_NEIGH_ENTRY \<and> gw_neigh c \<noteq> Some idx \<and> gw6_neigh c \<noteq> Some idx"
    using n(1) assms(2) ij
  proof (induction "n - nr_rand c" arbitrary: c)
    case 0
    then have r: "nr_rand c = n" by simp
    then have g: "gw_neigh c \<noteq> Some (lib_rand R n mod MAX_NEIGH_ENTRY)" "gw6_neigh c \<noteq> Some (lib_rand R n mod MAX_NEIGH_ENTRY)"
      using 0 n(2) by auto
    moreover have "lib_rand R n mod MAX_NEIGH_ENTRY < MAX_NEIGH_ENTRY" by (simp add: MAX_NEIGH_ENTRY_def)
    ultimately show ?case using 0(3) r by (subst neigh_evict.simps) (auto simp: Let_def)
  next
    case (Suc d)
    let ?x = "lib_rand R (nr_rand c) mod MAX_NEIGH_ENTRY" and ?c = "c\<lparr>nr_rand := nr_rand c + 1\<rparr>"
    show ?case
    proof (cases "gw_neigh c = Some ?x \<or> gw6_neigh c = Some ?x")
      case True
      have "\<exists>idx k. neigh_evict R ?c = Some (idx, ?c\<lparr>nr_rand := k\<rparr>) \<and> idx < MAX_NEIGH_ENTRY \<and> gw_neigh ?c \<noteq> Some idx \<and> gw6_neigh ?c \<noteq> Some idx"
        using Suc.hyps(2) Suc.prems by (intro Suc.hyps(1)) auto
      then show ?thesis using True Suc.prems(2) by (subst neigh_evict.simps) (auto simp: Let_def)
    next
      case False
      moreover have "?x < MAX_NEIGH_ENTRY" by (simp add: MAX_NEIGH_ENTRY_def)
      ultimately show ?thesis using Suc.prems(2) by (subst neigh_evict.simps) (auto simp: Let_def)
    qed
  qed
  then show thesis using that by blast
qed

text \<open>What an entry that is added does to the map: it may cost one other entry, never the one that a
  pointer to a gateway protects.\<close>

definition map_after :: "neigh_cache \<Rightarrow> tpa_ip \<Rightarrow> u8 list \<Rightarrow> tpa_ip set \<Rightarrow> tpa_ip \<Rightarrow> u8 list option" where
  "map_after c ip mac lost = (\<lambda>a. if a = ip then Some mac else if a \<in> lost then None else neigh_mac c a)"

definition may_lose :: "neigh_cache \<Rightarrow> tpa_ip \<Rightarrow> tpa_ip set \<Rightarrow> bool" where
  "may_lose c ip lost \<longleftrightarrow> lost = {} \<or>
     length (neigh_entries c) = MAX_NEIGH_ENTRY \<and> neigh_mac c ip = None \<and>
     (\<exists>i < MAX_NEIGH_ENTRY. lost = {ne_ip (neigh_entries c ! i)} \<and> gw_neigh c \<noteq> Some i \<and> gw6_neigh c \<noteq> Some i)"

lemma neigh_add_ok:
  assumes ok: "cache_ok c" and fair: "rand_fair R" and new: "neigh_mac c ip = None" and len: "length mac = 6"
  obtains c' lost where "neigh_add R c ip mac = Some c'" "cache_ok c'" "may_lose c ip lost" "neigh_mac c' = map_after c ip mac lost"
    "gw_neigh c' = gw_neigh c" "gw6_neigh c' = gw6_neigh c" "neigh_waiting_queue c' = neigh_waiting_queue c"
proof -
  note d = ok [unfolded cache_ok_def]
  have ip: "ip \<notin> ne_ip ` set (neigh_entries c)" using new by (simp add: neigh_mac_None)
  have mac: "neigh_mac c a = Some m \<longleftrightarrow> (\<exists>e \<in> set (neigh_entries c). ne_ip e = a \<and> ne_mac e = m)" for a m using neigh_mac_Some d by blast
  define e where "e k = \<lparr>ne_ip = ip, ne_mac = mac, ne_last_update = lib_tsc R k\<rparr>" for k
  have e: "ne_ip (e k) = ip" "ne_mac (e k) = mac" for k by (simp_all add: e_def)
  show thesis
  proof (cases "length (neigh_entries c) = MAX_NEIGH_ENTRY")
    case False
    let ?c = "c\<lparr>neigh_entries := neigh_entries c @ [e (nr_tsc c)], nr_tsc := nr_tsc c + 1\<rparr>"
    have "neigh_add R c ip mac = Some ?c" using False by (simp add: neigh_add_def e_def)
    moreover have ds: "distinct (map ne_ip (neigh_entries ?c))" using d ip e by simp
    moreover have "cache_ok ?c" using d False ds e len by (auto simp: cache_ok_def)
    moreover have "neigh_mac ?c = map_after c ip mac {}"
      by (rule neigh_mac_eqI [OF ds]) (use ip e mac in \<open>auto simp: map_after_def\<close>)
    ultimately show thesis using that [of ?c "{}"] by (simp add: may_lose_def)
  next
    case full: True
    obtain idx k where v: "neigh_evict R c = Some (idx, c\<lparr>nr_rand := k\<rparr>)" "idx < MAX_NEIGH_ENTRY" "gw_neigh c \<noteq> Some idx" "gw6_neigh c \<noteq> Some idx"
      using neigh_evict_returns [OF fair full] by blast
    let ?es = "(neigh_entries c)[idx := e (nr_tsc c)]"
    let ?c = "c\<lparr>nr_rand := k, neigh_entries := ?es, nr_tsc := nr_tsc c + 1\<rparr>"
    have "neigh_add R c ip mac = Some ?c" using full v by (simp add: neigh_add_def e_def)
    moreover have m: "map ne_ip ?es = (map ne_ip (neigh_entries c))[idx := ip]" by (simp add: map_update e)
    have ds: "distinct (map ne_ip (neigh_entries ?c))"
      using d ip m by (simp add: distinct_list_update)
    moreover have es: "set ?es = insert (e (nr_tsc c)) (set (neigh_entries c) - {neigh_entries c ! idx})"
      using d v(2) full by (intro set_update_distinct) (simp_all add: distinct_map)
    moreover have "cache_ok ?c" using d ds es e len by (auto simp: cache_ok_def)
    moreover have "neigh_mac ?c = map_after c ip mac {ne_ip (neigh_entries c ! idx)}"
      using d ip e mac v(2) full es
      by (intro neigh_mac_eqI [OF ds]) (auto simp: map_after_def distinct_map dest: inj_onD)
    moreover have "may_lose c ip {ne_ip (neigh_entries c ! idx)}" using v(2-4) full new by (auto simp: may_lose_def)
    ultimately show thesis using that [of ?c "{ne_ip (neigh_entries c ! idx)}"] by simp
  qed
qed

lemma neigh_set_mac:
  assumes ok: "cache_ok c" and f: "neigh_find_locked c ip = Some i" and len: "length mac = 6"
    and es: "neigh_entries c' = (neigh_entries c)[i := (neigh_entries c ! i)\<lparr>ne_mac := mac, ne_last_update := u\<rparr>]"
    and q: "neigh_waiting_queue c' = neigh_waiting_queue c"
  shows "cache_ok c'" "neigh_mac c' = map_after c ip mac {}"
proof -
  note d = ok [unfolded cache_ok_def] and i = neigh_find_Some [OF f]
  have m: "map ne_ip (neigh_entries c') = map ne_ip (neigh_entries c)"
    using list_update_id [of "map ne_ip (neigh_entries c)" i] i es by (simp add: map_update)
  then have ds: "distinct (map ne_ip (neigh_entries c'))" using d by simp
  let ?e = "(neigh_entries c ! i)\<lparr>ne_mac := mac, ne_last_update := u\<rparr>"
  have s: "set (neigh_entries c') = insert ?e (set (neigh_entries c) - {neigh_entries c ! i})"
    unfolding es using d i by (intro set_update_distinct) (simp_all add: distinct_map)
  then show "cache_ok c'" using d ds q len es by (auto simp: cache_ok_def)
  have mac: "neigh_mac c a = Some m \<longleftrightarrow> (\<exists>e \<in> set (neigh_entries c). ne_ip e = a \<and> ne_mac e = m)" for a m using neigh_mac_Some d by blast
  show "neigh_mac c' = map_after c ip mac {}"
    using d i mac s by (intro neigh_mac_eqI [OF ds]) (auto simp: map_after_def distinct_map dest: inj_onD)
qed

text \<open>A counter in place of \<open>rand\<close>, a device in \<open>10.0.0.0/24\<close> and a cache that knows one neighbour.\<close>

definition lib_example :: neigh_lib where
  "lib_example = \<lparr>lib_rand = (\<lambda>n. n), lib_tsc = of_nat\<rparr>"

definition addrs_example :: net_addrs where
  "addrs_example = \<lparr>nd_mac = [2, 0, 0, 0, 0, 1], nd_ip4 = 0x0100000a, nd_mask = 0x00ffffff, nd_gw4 = 0xfe00000a,
     nd_ip6 = \<lparr>ip_hi = 0, ip_lo = 0\<rparr>, nd_prefixlen = 64, nd_gw6 = \<lparr>ip_hi = 0, ip_lo = 0\<rparr>\<rparr>"

definition cache_example :: neigh_cache where
  "cache_example = \<lparr>neigh_entries = [\<lparr>ne_ip = tpa_ip_set_ipv4 0x0200000a, ne_mac = [2, 0, 0, 0, 0, 2], ne_last_update = 0\<rparr>],
     gw_neigh = None, gw6_neigh = None, accept_garp = False,
     neigh_waiting_queue = [tx_pkt_empty\<lparr>tx_hdr := replicate 54 0\<rparr>], nr_rand = 0, nr_tsc = 0\<rparr>"

lemma rand_fair_example: "rand_fair lib_example"
  unfolding rand_fair_def
proof (intro allI)
  fix i j k :: nat
  obtain t :: nat where t: "t < 3" "t \<noteq> i" "t \<noteq> j" by (metis less_numeral_extra(3) numeral_3_eq_3 lessI less_SucI zero_less_Suc n_not_Suc_n Suc_inject)
  have "MAX_NEIGH_ENTRY * k + t \<ge> k" "(MAX_NEIGH_ENTRY * k + t) mod MAX_NEIGH_ENTRY = t" using t(1) by (simp_all add: MAX_NEIGH_ENTRY_def)
  then show "\<exists>n \<ge> k. lib_rand lib_example n mod MAX_NEIGH_ENTRY \<notin> {i, j}" using t(2,3) by (auto simp: lib_example_def)
qed

lemma cache_ok_example: "cache_ok cache_example"
  by (simp add: cache_ok_def cache_example_def MAX_NEIGH_ENTRY_def NEIGH_QUEUE_LEN_def)

text \<open>C14: The neighbour cache is a map of at most 512 entries: when an address is learned, it is found
  under that hardware address; every other address is found as before, except that a new address may
  cost one entry of a full cache, never the one that the gateway pointers protect. The search for the
  entry to evict returns when \<open>rand\<close> does not hit the two gateways for ever. An answer with an address
  of zeros changes nothing.\<close>

theorem neigh_cache_is_map:
  assumes "cache_ok c" "rand_fair R" "length mac = 6"
  shows "neigh_update R D c ip zero_mac = Some c \<and>
    (mac \<noteq> zero_mac \<longrightarrow>
      (\<exists>c' lost. neigh_update R D c ip mac = Some c' \<and> cache_ok c' \<and> may_lose c ip lost \<and> neigh_mac c' = map_after c ip mac lost))"
proof (intro conjI impI)
  show "neigh_update R D c ip zero_mac = Some c" by (simp add: neigh_update_def)
next
  assume nz: "mac \<noteq> zero_mac"
  have gw: "cache_ok (x\<lparr>gw_neigh := g\<rparr>) = cache_ok x" "cache_ok (x\<lparr>gw6_neigh := g\<rparr>) = cache_ok x"
    "neigh_mac (x\<lparr>gw_neigh := g\<rparr>) = neigh_mac x" "neigh_mac (x\<lparr>gw6_neigh := g\<rparr>) = neigh_mac x" for x g
    by (auto simp: cache_ok_def neigh_mac_def neigh_find_locked_def)
  have upd: "\<exists>c'. neigh_update R D c ip mac = Some c' \<and> cache_ok c' \<and> neigh_mac c' = neigh_mac c1"
    if "(case neigh_find_locked c ip of
           None \<Rightarrow> neigh_add R c ip mac
         | Some i \<Rightarrow>
             Some (if ne_mac (neigh_entries c ! i) \<noteq> mac
                   then c\<lparr>neigh_entries := (neigh_entries c)[i := (neigh_entries c ! i)\<lparr>ne_mac := mac, ne_last_update := lib_tsc R (nr_tsc c)\<rparr>],
                          nr_tsc := nr_tsc c + 1\<rparr>
                   else c)) = Some c1" "cache_ok c1" for c1
    using that nz by (simp add: neigh_update_def Let_def gw)
  show "\<exists>c' lost. neigh_update R D c ip mac = Some c' \<and> cache_ok c' \<and> may_lose c ip lost \<and> neigh_mac c' = map_after c ip mac lost"
  proof (cases "neigh_find_locked c ip")
    case None
    then have "neigh_mac c ip = None" by (simp add: neigh_mac_def)
    then obtain c1 lost where a: "neigh_add R c ip mac = Some c1" "cache_ok c1" "may_lose c ip lost" "neigh_mac c1 = map_after c ip mac lost"
      using neigh_add_ok [OF assms(1,2) _ assms(3)] by metis
    then show ?thesis using upd [of c1] None by auto
  next
    case (Some i)
    show ?thesis
    proof (cases "ne_mac (neigh_entries c ! i) = mac")
      case True
      then have "neigh_mac c = map_after c ip mac {}" using Some by (auto simp: map_after_def neigh_mac_def)
      then show ?thesis using upd [of c] Some True assms(1) by (auto simp: may_lose_def)
    next
      case False
      let ?c = "c\<lparr>neigh_entries := (neigh_entries c)[i := (neigh_entries c ! i)\<lparr>ne_mac := mac, ne_last_update := lib_tsc R (nr_tsc c)\<rparr>], nr_tsc := nr_tsc c + 1\<rparr>"
      have "cache_ok ?c" "neigh_mac ?c = map_after c ip mac {}" using neigh_set_mac [OF assms(1) Some assms(3), of ?c] by simp_all
      then show ?thesis using upd [of ?c] Some False by (auto simp: may_lose_def)
    qed
  qed
qed

theorem neigh_cache_is_map_witness:
  "\<exists>c' lost. neigh_update lib_example addrs_example cache_example (tpa_ip_set_ipv4 0x0300000a) [2, 0, 0, 0, 0, 3] = Some c' \<and> cache_ok c' \<and>
     may_lose cache_example (tpa_ip_set_ipv4 0x0300000a) lost \<and>
     neigh_mac c' = map_after cache_example (tpa_ip_set_ipv4 0x0300000a) [2, 0, 0, 0, 0, 3] lost"
  using neigh_cache_is_map [OF cache_ok_example rand_fair_example, of "[2, 0, 0, 0, 0, 3]"] by (simp add: zero_mac_def)

text \<open>The pointer that protects the gateway from eviction is not set when the gateway enters the cache.\<close>

lemma new_gateway_not_protected:
  assumes "tpa_ip_is_ipv4 ip" "tpa_ip_get_ipv4 ip = nd_gw4 D" "neigh_find_locked c ip = None" "mac \<noteq> zero_mac" "neigh_update R D c ip mac = Some c'"
  shows "gw_neigh c' = None"
  using assms by (auto simp: neigh_update_def Let_def split: Option.bind_splits)

section \<open>Waiting packets are not lost\<close>

text \<open>Hardware addresses are not invented: \<open>c\<close> knows none that \<open>c0\<close> does not.\<close>

definition knows_less :: "neigh_cache \<Rightarrow> neigh_cache \<Rightarrow> bool" where
  "knows_less c c0 \<longleftrightarrow> (\<forall>a m. neigh_mac c a = Some m \<longrightarrow> m \<noteq> zero_mac \<longrightarrow> neigh_mac c0 a = Some m)"

definition pkt_body :: "tx_pkt \<Rightarrow> tx_pkt" where
  "pkt_body x = x\<lparr>tx_hdr := drop 6 (tx_hdr x)\<rparr>"

definition same_peer :: "(nat \<Rightarrow> tcp_sock) \<Rightarrow> (nat \<Rightarrow> tcp_sock) \<Rightarrow> bool" where
  "same_peer socks socks0 \<longleftrightarrow> (\<forall>i. sid (socks i) = sid (socks0 i) \<and> state (socks i) = state (socks0 i) \<and> remote_ip (socks i) = remote_ip (socks0 i))"

text \<open>A packet that is pushed goes to the worker of its socket; it is marked when the socket is gone, and
  otherwise carries the hardware address of the neighbour that leads to the peer.\<close>

definition pushed_ok :: "net_addrs \<Rightarrow> (nat \<Rightarrow> nat) \<Rightarrow> (nat \<Rightarrow> tcp_sock) \<Rightarrow> neigh_cache \<Rightarrow> nat \<times> bool \<times> tx_pkt \<Rightarrow> bool" where
  "pushed_ok D wk socks c = (\<lambda>(k, stale, x). let t = socks (tx_tsock x) in
     k = wk (tx_tsock x) \<and> stale = stale_tsock t \<and>
     (\<not> stale \<longrightarrow> take 6 (tx_hdr x) \<noteq> zero_mac \<and> neigh_mac c (neigh_target_ip D (remote_ip t)) = Some (take 6 (tx_hdr x))))"

lemma zero_mac_length: "length zero_mac = 6"
  by (simp add: zero_mac_def)

lemma do_neigh_lookup_ok:
  assumes ok: "cache_ok c" and fair: "rand_fair R"
  obtains entry c' where "do_neigh_lookup R c ip = Some (entry, c')" "cache_ok c'" "neigh_waiting_queue c' = neigh_waiting_queue c"
    "knows_less c' c"
    "\<And>i. entry = Some i \<Longrightarrow> neigh_mac c ip = Some (ne_mac (neigh_entries c' ! i)) \<and> ne_mac (neigh_entries c' ! i) \<noteq> zero_mac \<and>
       length (ne_mac (neigh_entries c' ! i)) = 6"
proof (cases "neigh_find_locked c ip")
  case None
  then have "neigh_mac c ip = None" by (simp add: neigh_mac_def)
  then obtain c' lost where a: "neigh_add R c ip zero_mac = Some c'" "cache_ok c'" "neigh_mac c' = map_after c ip zero_mac lost"
      "neigh_waiting_queue c' = neigh_waiting_queue c"
    using neigh_add_ok [OF ok fair, of ip zero_mac] by (metis zero_mac_length)
  moreover have "do_neigh_lookup R c ip = Some (None, c')" using a(1) None by (simp add: do_neigh_lookup_def invalid_entry_def)
  moreover have "knows_less c' c" using a(3) by (auto simp: knows_less_def map_after_def split: if_splits)
  ultimately show thesis using that [of None c'] by simp
next
  case (Some i)
  have kl: "knows_less c c" by (simp add: knows_less_def)
  show thesis
  proof (cases "ne_mac (neigh_entries c ! i) = zero_mac")
    case True
    then have "do_neigh_lookup R c ip = Some (None, c)" using Some by (simp add: do_neigh_lookup_def invalid_entry_def)
    then show thesis using that [of None c] ok kl by simp
  next
    case False
    then have "do_neigh_lookup R c ip = Some (Some i, c)" using Some by (simp add: do_neigh_lookup_def invalid_entry_def)
    moreover have "length (ne_mac (neigh_entries c ! i)) = 6" using ok neigh_find_Some [OF Some] by (simp add: cache_ok_def)
    ultimately show thesis using that [of "Some i" c] ok kl False Some by (simp add: neigh_mac_def)
  qed
qed

lemma set_dst_mac_body: "length mac = 6 \<Longrightarrow> pkt_body (set_dst_mac mac x) = pkt_body x \<and> take 6 (tx_hdr (set_dst_mac mac x)) = mac \<and>
    tx_tsock (set_dst_mac mac x) = tx_tsock x"
  by (simp add: pkt_body_def set_dst_mac_def)

text \<open>The result of going through the packets \<open>xs\<close> with a queue that held \<open>q\<close>.\<close>

definition drained :: "net_addrs \<Rightarrow> (nat \<Rightarrow> nat) \<Rightarrow> (nat \<Rightarrow> tcp_sock) \<Rightarrow> neigh_cache \<Rightarrow> tx_pkt list \<Rightarrow> tx_pkt list \<Rightarrow>
    (nat \<Rightarrow> tcp_sock) \<times> neigh_cache \<times> (nat \<times> bool \<times> tx_pkt) list \<Rightarrow> bool" where
  "drained D wk socks0 c0 xs q = (\<lambda>(socks, c, ps). cache_ok c \<and> same_peer socks socks0 \<and> knows_less c c0 \<and>
     (\<forall>p \<in> set ps. pushed_ok D wk socks0 c0 p) \<and>
     (\<exists>ys. neigh_waiting_queue c = q @ ys \<and> subseq ys xs \<and>
        mset (map pkt_body xs) = mset (map pkt_body ys) + mset (map (\<lambda>(k, st, x). pkt_body x) ps)))"

lemma drained_wait: "drained D wk socks0 c0 xs (q @ [x]) r \<Longrightarrow> drained D wk socks0 c0 (x # xs) q r"
  unfolding drained_def by (auto intro!: exI [of _ "x # _"])

lemma drained_push:
  "drained D wk socks0 c0 xs q (socks, c, ps) \<Longrightarrow> pushed_ok D wk socks0 c0 (k, st, y) \<Longrightarrow> pkt_body y = pkt_body x \<Longrightarrow>
   drained D wk socks0 c0 (x # xs) q (socks, c, (k, st, y) # ps)"
  unfolding drained_def by (auto intro: subseq_Cons')

lemma check_wait_loop_ok:
  assumes "cache_ok c" "rand_fair R" "length (neigh_waiting_queue c) + length xs < NEIGH_QUEUE_LEN" "knows_less c c0" "same_peer socks socks0"
  shows "\<exists>socks' c' ps. check_wait_loop R D wk xs socks c = Some (socks', c', ps) \<and>
    drained D wk socks0 c0 xs (neigh_waiting_queue c) (socks', c', ps)"
  using assms
proof (induction xs arbitrary: socks c)
  case Nil
  then show ?case by (simp add: drained_def)
next
  case (Cons x xs)
  let ?t = "socks (tx_tsock x)"
  have peer: "stale_tsock ?t = stale_tsock (socks0 (tx_tsock x))" "remote_ip ?t = remote_ip (socks0 (tx_tsock x))"
    using Cons.prems(5) by (simp_all add: same_peer_def stale_tsock_def)
  show ?case
  proof (cases "stale_tsock ?t")
    case True
    have "pushed_ok D wk socks0 c0 (wk (tx_tsock x), True, x)" using True peer by (simp add: pushed_ok_def)
    moreover obtain socks' c' ps where "check_wait_loop R D wk xs socks c = Some (socks', c', ps)"
        "drained D wk socks0 c0 xs (neigh_waiting_queue c) (socks', c', ps)"
      using Cons.IH [OF Cons.prems(1,2) _ Cons.prems(4,5)] Cons.prems(3) by auto
    ultimately show ?thesis using True drained_push by simp
  next
    case False
    obtain entry c1 where l: "do_neigh_lookup R c (neigh_target_ip D (remote_ip ?t)) = Some (entry, c1)" "cache_ok c1"
      "neigh_waiting_queue c1 = neigh_waiting_queue c" "knows_less c1 c"
      "\<And>i. entry = Some i \<Longrightarrow> neigh_mac c (neigh_target_ip D (remote_ip ?t)) = Some (ne_mac (neigh_entries c1 ! i)) \<and>
         ne_mac (neigh_entries c1 ! i) \<noteq> zero_mac \<and> length (ne_mac (neigh_entries c1 ! i)) = 6"
      using do_neigh_lookup_ok [OF Cons.prems(1,2)] by metis
    have kl: "knows_less c1 c0" using l(4) Cons.prems(4) by (auto simp: knows_less_def)
    show ?thesis
    proof (cases entry)
      case None
      let ?c = "c1\<lparr>neigh_waiting_queue := neigh_waiting_queue c @ [x]\<rparr>"
      have en: "snd (do_neigh_wait_enqueue c1 x) = ?c" using Cons.prems(3) l(3) by (simp add: do_neigh_wait_enqueue_def)
      have "cache_ok ?c" using l(2) Cons.prems(3) by (simp add: cache_ok_def)
      moreover have "neigh_mac ?c = neigh_mac c1" by (rule ext) (simp add: neigh_mac_def neigh_find_locked_def)
      then have "knows_less ?c c0" using kl by (simp add: knows_less_def)
      ultimately obtain socks' c' ps where "check_wait_loop R D wk xs socks ?c = Some (socks', c', ps)"
          "drained D wk socks0 c0 xs (neigh_waiting_queue c @ [x]) (socks', c', ps)"
        using Cons.IH [of ?c socks] Cons.prems(2,3,5) by auto
      then show ?thesis using False l(1) None en drained_wait by simp
    next
      case (Some i)
      let ?m = "ne_mac (neigh_entries c1 ! i)"
      define s where "s = socks(tx_tsock x := sock_set_dst_mac ?m ?t)"
      let ?y = "set_dst_mac ?m x"
      note mac = l(5) [OF Some]
      have y: "pkt_body ?y = pkt_body x" "take 6 (tx_hdr ?y) = ?m" "tx_tsock ?y = tx_tsock x" using set_dst_mac_body mac by auto
      have "same_peer s socks0" using Cons.prems(5) by (auto simp: same_peer_def sock_set_dst_mac_def s_def)
      then obtain socks' c' ps where r: "check_wait_loop R D wk xs s c1 = Some (socks', c', ps)"
          "drained D wk socks0 c0 xs (neigh_waiting_queue c) (socks', c', ps)"
        using Cons.IH [OF l(2) Cons.prems(2) _ kl, of s] Cons.prems(3) l(3) by auto
      have "neigh_mac c0 (neigh_target_ip D (remote_ip ?t)) = Some ?m" using mac Cons.prems(4) by (auto simp: knows_less_def)
      then have "pushed_ok D wk socks0 c0 (wk (tx_tsock x), False, ?y)" using False peer y mac by (simp add: pushed_ok_def Let_def)
      then show ?thesis using drained_push [OF r(2) _ y(1)] False l(1) Some r(1) by (simp add: Let_def s_def)
    qed
  qed
qed

text \<open>C13: No packet that waits for a neighbour is lost or sent to a wrong address. When an answer comes
  in, every waiting packet either stays in the queue, in its place among the others, or is pushed once,
  to the worker of its socket: marked if the socket is gone, and otherwise with the hardware address
  that the cache has for the neighbour on the way to the peer. Only the first six bytes of a packet
  change.\<close>

theorem waiting_packets_conserved:
  assumes "cache_ok c" "rand_fair R"
  shows "\<exists>socks' c' ps. check_neigh_wait_queue R D wk socks c = Some (socks', c', ps) \<and> cache_ok c' \<and>
    subseq (neigh_waiting_queue c') (neigh_waiting_queue c) \<and>
    mset (map pkt_body (neigh_waiting_queue c)) =
      mset (map pkt_body (neigh_waiting_queue c')) + mset (map (\<lambda>(k, st, x). pkt_body x) ps) \<and>
    (\<forall>p \<in> set ps. pushed_ok D wk socks c p)"
proof -
  have len: "length (neigh_waiting_queue c) < NEIGH_QUEUE_LEN" using assms(1) by (simp add: cache_ok_def)
  let ?c = "c\<lparr>neigh_waiting_queue := []\<rparr>"
  have "cache_ok ?c" using assms(1) by (simp add: cache_ok_def)
  moreover have "neigh_mac ?c = neigh_mac c" by (rule ext) (simp add: neigh_mac_def neigh_find_locked_def)
  then have "knows_less ?c c" by (simp add: knows_less_def)
  moreover have "same_peer socks socks" by (simp add: same_peer_def)
  ultimately obtain socks' c' ps where "check_wait_loop R D wk (neigh_waiting_queue c) socks ?c = Some (socks', c', ps)"
      "drained D wk socks c (neigh_waiting_queue c) [] (socks', c', ps)"
    using check_wait_loop_ok [of ?c R "neigh_waiting_queue c" c socks socks D wk] assms(2) len by auto
  then show ?thesis using len by (auto simp: check_neigh_wait_queue_def drained_def)
qed

definition peer_example :: "nat \<Rightarrow> tcp_sock" where
  "peer_example i = (tsock_zero i 0)\<lparr>state := TCP_STATE_ESTABLISHED, remote_ip := tpa_ip_set_ipv4 0x0200000a\<rparr>"

theorem waiting_packets_conserved_witness:
  "\<exists>socks' c' ps. check_neigh_wait_queue lib_example addrs_example (\<lambda>_. 0) peer_example cache_example = Some (socks', c', ps) \<and>
    mset (map pkt_body (neigh_waiting_queue cache_example)) =
      mset (map pkt_body (neigh_waiting_queue c')) + mset (map (\<lambda>(k, st, x). pkt_body x) ps) \<and>
    neigh_waiting_queue c' = [] \<and> map (\<lambda>(k, st, x). (k, st, take 6 (tx_hdr x))) ps = [(0, False, [2, 0, 0, 0, 0, 2])]"
proof -
  have "map_option (\<lambda>(_, c', ps). (neigh_waiting_queue c', map (\<lambda>(k, st, x). (k, st, take 6 (tx_hdr x))) ps))
      (check_neigh_wait_queue lib_example addrs_example (\<lambda>_. 0) peer_example cache_example) = Some ([], [(0, False, [2, 0, 0, 0, 0, 2])])" by code_simp
  then show ?thesis
    using waiting_packets_conserved [OF cache_ok_example rand_fair_example, of addrs_example "\<lambda>_. 0" peer_example] by auto
qed

end
