(* ===== verification/Spec2Isabelle.thy ===== *)
theory Spec2Isabelle
  imports Tcp_Queue Flex_Fifo Tx_Desc Timer Tcp_Opts Sack Sock_Table Dev Tcp_Sock Port_Alloc Rcv_Stream Worker Rate Snd_Stream Cfg_Text Tcp_Cfg Neigh
begin

text \<open>
  A verification library of libtpa, a TCP stack in user space on top of DPDK.

  \<^bold>\<open>The program.\<close> An application calls \<open>tpa_connect_to\<close>, \<open>tpa_listen_on\<close>, \<open>tpa_accept_burst\<close>,
  \<open>tpa_zwritev\<close>, \<open>tpa_zreadv\<close>, \<open>tpa_close\<close> and polls events (\<open>src/sock.c\<close>, \<open>src/event.c\<close>). Every
  thread has a worker whose loop \<open>tpa_worker_run\<close> (\<open>src/worker.c\<close>) receives packets, runs timers and
  sends. Received packets go through \<open>src/tcp/tcp_input.c\<close>, outgoing data through
  \<open>src/tcp/tcp_output.c\<close>, expired timers through \<open>src/tcp/tcp_timeout.c\<close>. Below them are the device
  queues (\<open>include/dev.h\<close>), the neighbour cache (\<open>src/neigh.c\<close>), the ports (\<open>src/port_alloc.c\<close>) and
  the headers with the data structures. Options are read from a file (\<open>src/cfg.c\<close>).

  \<^bold>\<open>Conventions.\<close> Unsigned C integers are words of their width; a pointer that may be null is an
  option; an error return is a value of \<open>err\<close>; an abort or a loop that does not end is \<open>None\<close>. A handler
  takes and returns the worker, the socket and the packet it works on. What the stack calls outside
  the repository (mempools, the NIC, clocks, \<open>malloc\<close>, the kernel, random numbers, the C library's
  address conversions) is a parameter, in the records \<open>env\<close>, \<open>neigh_lib\<close> and \<open>cfg_libc\<close>, by the number of
  the call where the result may differ from call to call.

  \<^bold>\<open>Data structures.\<close>
  \<^item> \<open>Tpa_Prelude\<close>, \<open>Word_Ring\<close>: words, masks, lists; rings with free-running indices.
  \<^item> \<open>Tcp_Queue\<close> (\<open>include/tcp_queue.h\<close>): send and receive queue of a socket as lists; locale
    \<open>burst_queue\<close>, interpreted by the receive queue.
  \<^item> \<open>Flex_Fifo\<close> (\<open>include/flex_fifo.h\<close>): the ring with overflow list refines a list of distinct nodes;
    locale \<open>node_fifo\<close>, interpreted by the model's operations.
  \<^item> \<open>Tx_Desc\<close> (\<open>include/tx_desc.h\<close>): the pool never hands a descriptor out twice.
  \<^item> \<open>Timer\<close> (\<open>include/timer.h\<close>): a timer fires when it is due and not before; processing returns when
    callbacks keep their timeouts inside the wheel, and does not otherwise.
  \<^item> \<open>Packet\<close> (\<open>include/packet.h\<close>): parsing of headers, cutting and chaining of payload.
  \<^item> \<open>Sock_Table\<close> (\<open>include/sock_table.h\<close>): the hash table is a finite map; locale \<open>key_map\<close>.
  \<^item> \<open>Dev\<close> (\<open>include/dev.h\<close>, \<open>src/dev.c\<close>): the device queues lose and reorder nothing.

  \<^bold>\<open>The stack.\<close>
  \<^item> \<open>Tcp_Base\<close>, \<open>Tcp_Opts\<close>, \<open>Sack\<close>: constants, sequence comparison, options (writing and parsing), SACK
    blocks of the receiver.
  \<^item> \<open>Tcp_Sock\<close>: the records of socket and worker with the inline functions of \<open>include/sock.h\<close> and
    \<open>include/worker.h\<close>.
  \<^item> \<open>Port_Alloc\<close>, \<open>Sock_Life\<close>, \<open>Sock_Api\<close>: local ports; creation, lookup and release of sockets; the
    calls of the application and the events.
  \<^item> \<open>Tcp_Output\<close>, \<open>Tcp_Ack\<close>, \<open>Rcv_Data\<close>, \<open>Tcp_Input\<close>, \<open>Tcp_Timeout\<close>, \<open>Worker\<close>: the handlers of
    \<open>tcp_output.c\<close>, of \<open>tcp_input.c\<close> in three parts, of \<open>tcp_timeout.c\<close> and the loop of the worker.
  \<^item> \<open>Neigh\<close>: the neighbour cache, the waiting packets, and the packets of \<open>src/arp.c\<close> and \<open>src/ndp.c\<close>.
  \<^item> \<open>Cfg\<close>, \<open>Tcp_Cfg\<close>: the configuration reader, the options, and the options of the stack.

  \<^bold>\<open>What is shown about the stack.\<close>
  \<^item> Receiving (\<open>Rcv_Ooo\<close>, \<open>Rcv_Stream\<close>): under any interleaving of segments that are lost, repeated,
    reordered or overlap, and of reads, the application reads a prefix of the stream of the peer.
  \<^item> Sending (\<open>Snd_Queue\<close> to \<open>Snd_Stream\<close>): under any interleaving of writes, transmissions,
    acknowledgements and timeouts every packet carries the bytes of accepted writes at the position
    of its sequence number, inside the window; acknowledged descriptors are released once, in order,
    with their callbacks; a write is taken whole or not at all; the fast loop of \<open>tsock_zwritev\<close> is its
    slow path.
  \<^item> Both ends (this theory): what the receiver reads is a prefix of what the sender wrote.
  \<^item> Rate (\<open>Rate\<close>): the round trip estimator in 32 bits is the one of RFC 6298.
  \<^item> Configuration (\<open>Cfg_Read\<close>, \<open>Cfg_Text\<close>, \<open>Tcp_Cfg\<close>): files and options are read back, reading
    returns, the table of options stays typed.
  \<^item> Neighbours (\<open>Neigh\<close>): the cache is a map; waiting packets are neither lost nor misdirected.

  \<^bold>\<open>Bounds.\<close> Sequence numbers tell positions apart that are less than \<open>2 ^ 31\<close> away from each other. The
  receive side assumes that a segment is at most \<open>2 ^ 30\<close> away from what has been delivered and that
  window and data in the out-of-order queue stay below that, which the window limit of the code
  (\<open>2 ^ 30\<close>) gives; the send side assumes the same of the data between the oldest unacknowledged and
  the last written byte. Between both ends the stream as a whole is below \<open>2 ^ 30\<close> bytes, since a
  network that keeps packets for ever may deliver one whose number has come round. No
  definition has fuel: loops that always end are functions with a termination proof, loops that may not
  end are partial functions into an option, with theorems on when they return.

  \<^bold>\<open>Not modelled.\<close> Traces, statistics, latency measurement and logs: nothing in the stack decides on
  them. Start-up, device and memory pool set-up (\<open>src/tpa.c\<close>, \<open>src/dpdk.c\<close>, \<open>src/dev.c\<close>): sequences of calls into
  DPDK and the kernel whose effect is outside the repository. Hardware flow rules (\<open>src/offload.c\<close>):
  the stack only sees whether a rule was made, which is a parameter. The shell, the control
  socket, archives and memory files (\<open>src/shell.c\<close>, \<open>src/ctrl.c\<close>, \<open>src/archive.c\<close>, \<open>src/mem_file.c\<close>):
  input and output. The daemon and the tools: programs beside the library. The fuzzers of test builds.
  Concurrency is modelled as an interleaving of whole handlers: a worker runs in one thread, and what
  threads share is behind a lock or atomic, except that the neighbour thread pushes to the flush
  queue of a worker without its lock (\<open>check_neigh_wait_queue\<close>).
\<close>

section \<open>From the writer to the reader\<close>

text \<open>A packet arrives as it was sent: \<open>mem\<close> is what the memory holds at each physical address, the
  network moves the bytes. A network may lose, repeat and reorder the packets of \<open>sent\<close>.\<close>

definition arrives :: "(u64 \<Rightarrow> u8) \<Rightarrow> tx_pkt \<Rightarrow> packet \<Rightarrow> bool" where
  "arrives mem x p \<longleftrightarrow> pkt_seq p = tx_seq x \<and> pkt_wf p \<and> payload p = map mem (tx_addrs x)"

inductive net_step :: "env \<Rightarrow> (u64 \<Rightarrow> u8) \<Rightarrow> tx_pkt set \<Rightarrow> rcv_state \<Rightarrow> rcv_state \<Rightarrow> bool" for E mem sent where
  segment: "x \<in> sent \<Longrightarrow> arrives mem x p \<Longrightarrow> pkt_len p \<noteq> 0 \<Longrightarrow> validate_seq t p = None \<Longrightarrow>
    pkt_id p \<notin> pkt_id ` set (rcv_ooo_queue t) \<Longrightarrow> tcp_rcv_data E w t p = (e, w', t', p') \<Longrightarrow>
    net_step E mem sent (w, t, got) (w', t', got)"
| read: "tsock_zreadv w t nr_iov = (ret, iovs, w', t') \<Longrightarrow> net_step E mem sent (w, t, got) (w', t', got @ read_bytes iovs)"
| drop: "tsock_drop_ooo_mbufs w t = (w', t') \<Longrightarrow> net_step E mem sent (w, t, got) (w', t', got)"
| other: "net_step E mem sent (w, t, got) (w', t, got)"

text \<open>Everything that has been handed to a device or waits for its neighbour.\<close>

definition handed_over :: "tpa_worker \<Rightarrow> tx_pkt set" where
  "handed_over w = (\<Union>port. set (dev_accepted (wk_dev w) port)) \<union> set (neigh_waiting w)"

text \<open>The stream of the bytes at the addresses \<open>A\<close>, continued with \<open>z\<close>.\<close>

definition mem_stream :: "(u64 \<Rightarrow> u8) \<Rightarrow> u64 list \<Rightarrow> u8 \<Rightarrow> int \<Rightarrow> u8" where
  "mem_stream mem A z k = (if 0 \<le> k \<and> nat k < length A then mem (A ! nat k) else z)"

text \<open>The packet of the example of the send side, as it arrives where the memory holds the low byte of
  every address.\<close>

definition arrived_example :: packet where
  "arrived_example = pkt_example\<lparr>pkt_seq := 0xfffffffe, pkt_len := 4, pkt_nr_read_seg := 1,
     pkt_segs := [\<lparr>seg_buf = (\<lambda>k. if k = 57 then 0 else of_nat k - 54), seg_l5_off = 54, seg_l5_len = 4\<rparr>]\<rparr>"

definition delivered_example :: "err \<times> tpa_worker \<times> tcp_sock \<times> packet" where
  "delivered_example = tcp_rcv_data env_example worker_example rcv_example arrived_example"

lemma stream_mem_run:
  assumes "p + n \<le> length A"
  shows "stream (mem_stream mem A z) (int p) (int p + int n) = map mem (stream_run A p n)"
  using assms by (intro nth_equalityI) (auto simp: stream_def stream_run_def mem_stream_def nat_add_distrib)

lemma arrives_seg_at:
  assumes c: "carries b A 0 X x" and a: "arrives mem x p" and len: "pkt_len p \<noteq> 0"
  obtains q where "q \<le> length A" "\<And>z. seg_at (mem_stream mem A z) b p (int q)"
proof -
  have pl: "length (payload p) = unat (pkt_len p)" using a length_payload [of p] by (simp add: arrives_def)
  then have "tx_addrs x \<noteq> []" using a len by (auto simp: arrives_def unat_eq_0)
  then have "tx_segs x \<noteq> []" by (auto simp: tx_addrs_def)
  then obtain q where q: "tx_seq x = b + of_nat q" "q + unat (tx_len x) \<le> length A" "tx_addrs x = stream_run A q (unat (tx_len x))"
    using c by (auto simp: carries_def)
  have "length (tx_addrs x) = unat (tx_len x)" using q(2,3) by (simp add: stream_run_def)
  then have l: "unat (pkt_len p) = unat (tx_len x)" using pl a by (simp add: arrives_def)
  have "plen p = int (unat (tx_len x))" using l unat_pkt_len [of p] plen_bounds(1) [of p] by (metis int_nat_eq)
  then have "payload p = stream (mem_stream mem A z) (int q) (int q + plen p)" for z
    using stream_mem_run [OF q(2), of mem z] a q(3) by (simp add: arrives_def)
  then show thesis using that [of q] a q(1,2) by (simp add: seg_at_def arrives_def)
qed

text \<open>Two continuations of the stream tell that the receiver has not run past its end.\<close>

lemma rcv_inv_end:
  assumes "rcv_inv (mem_stream mem A 0) b W (w, t, got)" "rcv_inv (mem_stream mem A 1) b W (w, t, got)"
  shows "length (got @ unread t) \<le> length A" "got @ unread t = map mem (take (length (got @ unread t)) A)"
proof -
  let ?n = "length (got @ unread t)"
  have str: "got @ unread t = stream (mem_stream mem A z) 0 (int ?n)" if "rcv_inv (mem_stream mem A z) b W (w, t, got)" for z
  proof -
    note inv = that
    obtain n where n: "got @ unread t = stream (mem_stream mem A z) 0 n" "0 \<le> n" using inv by (auto simp: rcv_inv_def)
    then have "int ?n = n" by (metis int_nat_eq diff_zero length_stream)
    then show ?thesis using n(1) by simp
  qed
  show le: "?n \<le> length A"
  proof (rule ccontr)
    assume "\<not> ?n \<le> length A"
    then have k: "length A < ?n" by simp
    have "(got @ unread t) ! length A = z" if "rcv_inv (mem_stream mem A z) b W (w, t, got)" for z
      using arg_cong [OF str [OF that], of "\<lambda>xs. xs ! length A"] k by (simp add: stream_def mem_stream_def)
    then have "(0 :: u8) = 1" using assms by metis
    then show False by simp
  qed
  show "got @ unread t = map mem (take ?n A)"
    using str [OF assms(1)] stream_mem_run [of 0 ?n A mem 0] le by (simp add: stream_run_def)
qed

lemma net_step_inv:
  assumes st: "net_step E mem sent s s'" and c: "\<forall>x\<in>sent. carries b A 0 X x" and A: "length A < 2 ^ 30" and W: "W < 2 ^ 30"
    and i: "\<And>z. z \<in> {0, 1} \<Longrightarrow> rcv_inv (mem_stream mem A z) b W s" and z: "z \<in> {0, 1}"
  shows "rcv_inv (mem_stream mem A z) b W s'"
  using st i
proof (cases rule: net_step.cases)
  case (segment x p t w e w' t' p' got)
  obtain q where q: "q \<le> length A" "\<And>z. seg_at (mem_stream mem A z) b p (int q)"
    using arrives_seg_at [OF bspec [OF c segment(3)] segment(4,5)] by blast
  have "length (got @ unread t) \<le> length A" using rcv_inv_end(1) [of mem A b W w t got] i segment(1) by simp
  then have "\<bar>int q - int (length (got @ unread t))\<bar> < 2 ^ 30" using q(1) A by simp
  then have "rcv_step E (mem_stream mem A z) b s s'"
    unfolding segment(1,2) by (intro rcv_step.segment [OF q(2) _ segment(5-8)])
  then show ?thesis using rcv_step_inv i [OF z] W by blast
next
  case (read w t nr_iov ret iovs w' t' got)
  then have "rcv_step E (mem_stream mem A z) b s s'" by (auto intro: rcv_step.read)
  then show ?thesis using rcv_step_inv i [OF z] W by blast
next
  case (drop w t w' t' got)
  then have "rcv_step E (mem_stream mem A z) b s s'" by (auto intro: rcv_step.drop)
  then show ?thesis using rcv_step_inv i [OF z] W by blast
next
  case (other w t got w')
  then have "rcv_step E (mem_stream mem A z) b s s'" by (auto intro: rcv_step.other)
  then show ?thesis using rcv_step_inv i [OF z] W by blast
qed

lemma net_steps_inv:
  assumes "(net_step E mem sent)\<^sup>*\<^sup>* s s'" "\<forall>x\<in>sent. carries b A 0 X x" "length A < 2 ^ 30" "W < 2 ^ 30"
    and "\<And>z. z \<in> {0, 1} \<Longrightarrow> rcv_inv (mem_stream mem A z) b W s"
  shows "z \<in> {0, 1} \<Longrightarrow> rcv_inv (mem_stream mem A z) b W s'"
  using assms(1,5)
proof (induction arbitrary: z rule: rtranclp_induct)
  case (step y u)
  show ?case using net_step_inv [OF step.hyps(2) assms(2-4)] step.IH [OF _ step.prems(2)] step.prems(1) by blast
qed blast

text \<open>C1: The reader reads what the writer wrote. One socket is used for writing, in any interleaving of
  writes, transmissions, acknowledgements and timeouts; a network loses, repeats and reorders the
  packets that were handed over; a second socket, which expects the first sequence number, receives
  them in any interleaving with reads. What the second application has read, together with what waits
  in its receive queue, is a prefix of the bytes of the accepted vectors, as long as these are less
  than a gigabyte in total and the memory of a vector is not changed.\<close>

theorem reader_reads_what_was_written:
  assumes "snd_run E w0 t0 w t V" "snd_fresh b w0 t0" "0 < write_chunk_size (cfg E)" "0 < env_tailroom E"
    and "handed_over w0 = {}" "sum_list (map (\<lambda>v. unat (iov_len v)) V) < 2 ^ 30"
    and "(net_step E' mem (handed_over w))\<^sup>*\<^sup>* (r0, s0, []) (r, s, got)" "rcv_nxt s0 = b"
    and "rxq_wf (rxq s0)" "rxq_items (rxq s0) = []" "rcv_ooo_queue s0 = []" "uint (rcv_wnd s0) < 2 ^ 30"
  shows "\<exists>A cps. laid_all E V A cps \<and> subseq cps (copies w) \<and> prefix (got @ unread s) (map mem A)"
proof -
  obtain A P U X where s: "sent_ok E b w0 w t V A P U X" using snd_run_ok [OF assms(1-4)] by blast
  then obtain cps where cps: "laid_all E V A cps" "subseq cps (copies w)" by (auto simp: sent_ok_def)
  have len: "length A < 2 ^ 30" using laid_all_length [OF cps(1)] assms(6) by simp
  have c: "\<forall>x\<in>handed_over w. carries b A 0 X x"
    using s assms(5) by (fastforce simp: sent_ok_def emits_def adds_def handed_over_def)
  have i0: "rcv_inv (mem_stream mem A z) b (uint (rcv_wnd s0)) (r0, s0, [])" for z
  proof -
    have "rcv_ok (mem_stream mem A z) b 0 [] s0" using assms(8-12) by (simp add: rcv_ok_def ooo_ok_def rxq_ok_def)
    then show ?thesis using assms(10) by (auto simp: rcv_inv_def unread_def)
  qed
  have "rcv_inv (mem_stream mem A z) b (uint (rcv_wnd s0)) (r, s, got)" if "z \<in> {0, 1}" for z
    by (rule net_steps_inv [OF assms(7) c len assms(12) i0 that])
  then have "got @ unread s = map mem (take (length (got @ unread s)) A)" using rcv_inv_end(2) [of mem A b "uint (rcv_wnd s0)" r s got] by blast
  then have "prefix (got @ unread s) (map mem A)" by (metis map_mono_prefix take_is_prefix)
  then show ?thesis using cps by blast
qed

theorem reader_reads_what_was_written_witness:
  "unread (fst (snd (snd delivered_example))) = [0, 1, 2, 0] \<and>
   (\<exists>A cps. laid_all env_example iovs_example A cps \<and> subseq cps (copies (fst sent_example)) \<and>
      prefix ([] @ unread (fst (snd (snd delivered_example)))) (map ucast A))"
proof
  have c: "unread (fst (snd (snd delivered_example))) = [0, 1, 2, 0]" "validate_seq rcv_example arrived_example = None"
    by code_simp+
  then show "unread (fst (snd (snd delivered_example))) = [0, 1, 2, 0]" by simp
  have r0: "rcv_nxt rcv_example = 0xfffffffe" "rxq_wf (rxq rcv_example)" "rxq_items (rxq rcv_example) = []" "rcv_ooo_queue rcv_example = []"
    "uint (rcv_wnd rcv_example) < 2 ^ 30"
    by (simp_all add: rcv_example_def tsock_zero_def rxq_items_def rxq_readable_def rxq_wf_def ring_ok_def exI [of _ 2])
  obtain x where x: "dev_accepted (wk_dev (fst sent_example)) 0 = [x]" "tx_seq x = 0xfffffffe" "tx_segs x = [(0x9000, 3), (0, 1)]"
    using example_values by auto
  have "arrives ucast x arrived_example"
    using x by (simp add: arrives_def arrived_example_def pkt_example_def tx_addrs_def seg_addrs_def pkt_wf_def rd_segs_def segs_len_def
        seg_ok_def payload_def seg_bytes_def upt_rec)
  moreover have "x \<in> handed_over (fst sent_example)" using x(1) by (auto simp: handed_over_def intro!: exI [of _ 0])
  ultimately have "net_step env_example ucast (handed_over (fst sent_example)) (worker_example, rcv_example, [])
      (fst (snd delivered_example), fst (snd (snd delivered_example)), [])"
    using c(2) r0(4)
    by (intro net_step.segment [where p = arrived_example and e = "fst delivered_example" and p' = "snd (snd (snd delivered_example))"])
      (simp_all add: delivered_example_def arrived_example_def)
  then have n: "(net_step env_example ucast (handed_over (fst sent_example)))\<^sup>*\<^sup>* (worker_example, rcv_example, [])
      (fst (snd delivered_example), fst (snd (snd delivered_example)), [])" by (rule r_into_rtranclp)
  have h: "handed_over worker_example = {}" by (simp add: handed_over_def worker_example_def dev_accepted_def)
  have l: "sum_list (map (\<lambda>v. unat (iov_len v)) iovs_example) < 2 ^ 30" by (simp add: iovs_example_def)
  show "\<exists>A cps. laid_all env_example iovs_example A cps \<and> subseq cps (copies (fst sent_example)) \<and>
      prefix ([] @ unread (fst (snd (snd delivered_example)))) (map ucast A)"
    by (rule reader_reads_what_was_written [OF example_runs(2) example_start h l n r0])
qed

end
